(* ===== verification/Gw_Prelude.thy ===== *)
theory Gw_Prelude
  imports Main "HOL-Library.Word" "HOL-Library.Monad_Syntax"
begin

section \<open>Shared vocabulary of the gateway model\<close>

text \<open>
  The C integer types as words, faulting reads of byte and word buffers, the array helpers the
  components share (bounded copies, C strings held in fixed arrays) and the theorem collections
  their proofs use. A read outside a buffer is the value \<open>None\<close>: a component that returns \<open>Some\<close>
  for every input never reads out of range.
\<close>

unbundle bit_operations_syntax

named_theorems cdefs "definitional unfoldings of small C helpers"
named_theorems word_nat "moving word comparisons and sums to nat"

type_synonym u8 = "8 word"
type_synonym u16 = "16 word"
type_synonym u32 = "32 word"
type_synonym u64 = "64 word"

subsection \<open>Faulting reads\<close>

definition rd :: "'a list \<Rightarrow> nat \<Rightarrow> 'a option" where
  "rd buf i = (if i < length buf then Some (buf ! i) else None)"

lemma rd_in [simp]: "i < length buf \<Longrightarrow> rd buf i = Some (buf ! i)"
  by (simp add: rd_def)

lemma rd_eq_Some [simp]: "rd buf i = Some x \<longleftrightarrow> i < length buf \<and> buf ! i = x"
  by (simp add: rd_def)

lemma rd_eq_None [simp]: "rd buf i = None \<longleftrightarrow> length buf \<le> i"
  by (simp add: rd_def)

text \<open>A loop that reads one element per index and fails where a read fails.\<close>

fun read_loop :: "(nat \<Rightarrow> 'a option) \<Rightarrow> nat list \<Rightarrow> 'a list option" where
  "read_loop f [] = Some []"
| "read_loop f (i # is) = do { x \<leftarrow> f i; xs \<leftarrow> read_loop f is; Some (x # xs) }"

lemma read_loop_map:
  "(\<And>i. i \<in> set is \<Longrightarrow> f i = Some (g i)) \<Longrightarrow> read_loop f is = Some (map g is)"
  by (induction "is") auto

lemma read_loop_length: "read_loop f is = Some xs \<Longrightarrow> length xs = length is"
  by (induction "is" arbitrary: xs) (auto split: bind_splits)

subsection \<open>Fixed arrays\<close>

text \<open>
  \<open>memcpy\<close> of a source into the front of an array that is at least as long; the tail keeps its
  old contents.
\<close>

definition blit :: "'a list \<Rightarrow> 'a list \<Rightarrow> 'a list" where
  "blit dst src = src @ drop (length src) dst"

lemma length_blit [simp]: "length src \<le> length dst \<Longrightarrow> length (blit dst src) = length dst"
  by (simp add: blit_def)

lemma take_blit [simp]: "take (length src) (blit dst src) = src"
  by (simp add: blit_def)

lemma nth_blit: "i < length src \<Longrightarrow> blit dst src ! i = src ! i"
  by (simp add: blit_def nth_append)

lemma blit_Nil [simp]: "blit dst [] = dst"
  by (simp add: blit_def)

text \<open>The C string at the start of a character array: the characters before the first NUL.\<close>

definition NUL :: char where
  "NUL = CHR 0x00"

definition cstr :: "string \<Rightarrow> string" where
  "cstr a = takeWhile (\<lambda>c. c \<noteq> NUL) a"

definition put_cstr :: "string \<Rightarrow> string \<Rightarrow> string" where
  \<comment> \<open>\<open>snprintf(dst, sizeof dst, ...)\<close> of the characters \<open>s\<close>: truncated to leave room for the NUL\<close>
  "put_cstr dst s = blit dst (take (length dst - 1) s @ [NUL])"

lemma length_put_cstr [simp]: "dst \<noteq> [] \<Longrightarrow> length (put_cstr dst s) = length dst"
  by (cases dst) (auto simp: put_cstr_def blit_def)

lemma cstr_append_NUL: "NUL \<notin> set s \<Longrightarrow> cstr (s @ NUL # r) = s"
  by (induction s) (auto simp: cstr_def)

lemma cstr_put_cstr:
  assumes "NUL \<notin> set s"
  shows "cstr (put_cstr dst s) = take (length dst - 1) s"
proof -
  have "NUL \<notin> set (take (length dst - 1) s)"
    using assms by (auto dest: in_set_takeD)
  then show ?thesis
    by (simp add: put_cstr_def blit_def cstr_append_NUL)
qed

lemma NUL_notin_cstr [simp]: "NUL \<notin> set (cstr a)"
  by (auto simp: cstr_def dest: set_takeWhileD)

lemma length_cstr_le: "length (cstr a) \<le> length a"
  by (simp add: cstr_def length_takeWhile_le)

lemma length_cstr_less: "NUL \<in> set a \<Longrightarrow> length (cstr a) < length a"
  by (induction a) (auto simp: cstr_def)

subsection \<open>Words and nat\<close>

lemma unat_add_small [word_nat]:
  "unat (a::'a::len word) + unat b < 2 ^ LENGTH('a) \<Longrightarrow> unat (a + b) = unat a + unat b"
  by (simp add: unat_word_ariths)

lemma word_of_unat [simp]: "of_nat (unat w) = (w::'a::len word)"
  by (metis of_nat_unat ucast_id)
lemma unat_of_nat_small [word_nat]: "n < 2 ^ LENGTH('a) \<Longrightarrow> unat (of_nat n :: 'a::len word) = n"
  by (simp add: unat_of_nat)
lemma unat_eq_iff: "n < 2 ^ LENGTH('a) \<Longrightarrow> unat (w::'a::len word) = n \<longleftrightarrow> w = of_nat n"
  by (metis word_of_unat unat_of_nat_small)
lemma unat_ucast_up: "LENGTH('a) \<le> LENGTH('b) \<Longrightarrow> unat (ucast (w :: 'a::len word) :: 'b::len word) = unat w"
proof -
  assume "LENGTH('a) \<le> LENGTH('b)"
  then have "unat w < 2 ^ LENGTH('b)"
    using unsigned_less [of w] by (meson less_le_trans one_le_numeral power_increasing)
  then show ?thesis
    by (simp add: unsigned_ucast_eq take_bit_nat_eq_self)
qed
lemma unat_ucast_16_32 [simp]: "unat (ucast (w :: u16) :: u32) = unat w"
  by (rule unat_ucast_up) simp
lemma unat_ucast_32_64 [simp]: "unat (ucast (w :: u32) :: u64) = unat w"
  by (rule unat_ucast_up) simp

lemma one_le_word: "1 \<le> (w :: 'a::len word) \<longleftrightarrow> w \<noteq> 0"
  by (simp add: word_le_nat_alt Suc_le_eq unat_gt_0)

lemma blit_eq: "length src = n \<Longrightarrow> blit dst src = src @ drop n dst"
  by (simp add: blit_def)

lemma unat_lt_u16: "unat (w::u16) < 65536"
  using unsigned_less [of w] by simp

lemma unat_lt_u8: "unat (w::u8) < 256"
  using unsigned_less [of w] by simp

lemma unat_lt_u32: "unat (w::u32) < 4294967296"
  using unsigned_less [of w] by simp

lemma unat_and_mask:
  "n \<le> LENGTH('a) \<Longrightarrow> unat ((w :: 'a::len word) AND mask n) = unat w mod 2 ^ n"
  by (simp add: take_bit_eq_mask [symmetric] unsigned_take_bit_eq take_bit_eq_mod [where 'a = nat])

lemmas word_cmp [word_nat] = word_less_nat_alt word_le_nat_alt

lemma word_or_zero: "(a OR b = (0 :: 'a::len word)) \<longleftrightarrow> a = 0 \<and> b = 0"
  by (auto simp: bit_eq_iff bit_simps)

lemma word_xor_zero: "(a XOR b = (0 :: 'a::len word)) \<longleftrightarrow> a = b"
  by (auto simp: bit_eq_iff bit_simps)

subsection \<open>Characters as bytes\<close>

lemma of_char_less_256: "(of_char c :: nat) < 256"
  using of_char_mod_256 [of c, where 'a = nat] by (metis mod_less_divisor zero_less_numeral)

lemma unat_of_char [simp]: "unat (of_char c :: u8) = of_char c"
proof -
  have "(of_char c :: u8) = of_nat (of_char c)" by (rule of_nat_of_char [symmetric])
  then show ?thesis using of_char_less_256 [of c] by (metis unat_of_nat_small [where 'a = 8, simplified])
qed

lemma of_char_u8_inject [simp]: "(of_char c :: u8) = of_char d \<longleftrightarrow> c = d"
  by (metis unat_of_char of_char_eq_iff)

subsection \<open>Fixed-width byte codecs\<close>

text \<open>
  What every field and structure of the wire and flash formats promises: a fixed width and a decoder
  that inverts the encoder, on the values that are well formed. The consequences for whole
  sequences are proved once, here; \<open>byte_codec\<close> is the case where every value is well formed.
\<close>

locale partial_codec =
  fixes enc :: "'a \<Rightarrow> u8 list" and dec :: "u8 list \<Rightarrow> 'a" and w :: nat and ok :: "'a \<Rightarrow> bool"
  assumes ok_length: "ok x \<Longrightarrow> length (enc x) = w"
    and ok_dec: "ok x \<Longrightarrow> dec (enc x) = x"
begin

lemma ok_inject: "ok x \<Longrightarrow> ok y \<Longrightarrow> enc x = enc y \<longleftrightarrow> x = y"
  by (metis ok_dec)

lemma ok_length_concat: "list_all ok xs \<Longrightarrow> length (concat (map enc xs)) = w * length xs"
  by (induction xs) (simp_all add: ok_length)

lemma ok_take_drop:
  "list_all ok xs \<Longrightarrow> i < length xs \<Longrightarrow> take w (drop (w * i) (concat (map enc xs))) = enc (xs ! i)"
proof (induction xs arbitrary: i)
  case (Cons x xs)
  then show ?case by (cases i) (simp_all add: ok_length)
qed simp

lemma ok_dec_concat:
  "list_all ok xs \<Longrightarrow> map (\<lambda>i. dec (take w (drop (w * i) (concat (map enc xs))))) [0..<length xs] = xs"
  by (rule nth_equalityI) (simp_all add: ok_take_drop ok_dec list_all_length)

end

locale byte_codec =
  fixes enc :: "'a \<Rightarrow> u8 list" and dec :: "u8 list \<Rightarrow> 'a" and w :: nat
  assumes length_enc: "length (enc x) = w"
    and dec_enc: "dec (enc x) = x"

sublocale byte_codec \<subseteq> partial_codec enc dec w "\<lambda>_. True"
  by unfold_locales (simp_all add: length_enc dec_enc)

context byte_codec begin

lemma enc_inject: "enc x = enc y \<longleftrightarrow> x = y"
  by (simp add: ok_inject)

lemma length_concat_enc: "length (concat (map enc xs)) = w * length xs"
  by (simp add: ok_length_concat list_all_iff)

lemma take_drop_concat_enc:
  "i < length xs \<Longrightarrow> take w (drop (w * i) (concat (map enc xs))) = enc (xs ! i)"
  by (simp add: ok_take_drop list_all_iff)

lemma dec_concat_enc:
  "map (\<lambda>i. dec (take w (drop (w * i) (concat (map enc xs))))) [0..<length xs] = xs"
  by (simp add: ok_dec_concat list_all_iff)

end

subsection \<open>Fault loops\<close>

text \<open>
  The contract of the loops that fault a whole register image when the network is lost: faulting
  one entry marks it, unmarks none and leaves every entry ready to be faulted. The extension adds
  what a fault must retain (the last samples).
\<close>

locale fault_loop =
  fixes fault :: "nat \<Rightarrow> 'm \<Rightarrow> 'm" and faulted :: "'m \<Rightarrow> nat \<Rightarrow> bool" and ready :: "'m \<Rightarrow> nat \<Rightarrow> bool"
    and n :: nat
  assumes fault_self: "i < n \<Longrightarrow> ready m i \<Longrightarrow> faulted (fault i m) i"
    and fault_mono: "i < n \<Longrightarrow> j < n \<Longrightarrow> faulted m j \<Longrightarrow> faulted (fault i m) j"
    and fault_ready: "i < n \<Longrightarrow> j < n \<Longrightarrow> ready m j \<Longrightarrow> ready (fault i m) j"
begin

lemma faulted_fold:
  "set js \<subseteq> {..<n} \<Longrightarrow> i < n \<Longrightarrow> faulted m i \<Longrightarrow> faulted (fold fault js m) i"
  by (induction js arbitrary: m) (auto simp: fault_mono)

lemma fold_faults:
  "set js \<subseteq> {..<n} \<Longrightarrow> i \<in> set js \<Longrightarrow> ready m i \<Longrightarrow> faulted (fold fault js m) i"
proof (induction js arbitrary: m)
  case (Cons j js)
  then show ?case
    by (cases "i = j") (auto simp: fault_self fault_ready faulted_fold)
qed simp

lemma all_faulted: "i < n \<Longrightarrow> ready m i \<Longrightarrow> faulted (fold fault [0..<n] m) i"
  by (rule fold_faults) auto

end

locale fault_loop_keeps = fault_loop +
  fixes kept :: "'a \<Rightarrow> 'd"
  assumes kept_fault: "i < n \<Longrightarrow> kept (fault i m) = kept m"
begin

lemma kept_fold: "set js \<subseteq> {..<n} \<Longrightarrow> kept (fold fault js m) = kept m"
  by (induction js arbitrary: m) (auto simp: kept_fault)

lemma kept_all: "kept (fold fault [0..<n] m) = kept m"
  by (rule kept_fold) auto

end

end
