(* ===== verification/Modbus_Frame.thy ===== *)
theory Modbus_Frame
  imports Gw_Prelude
begin

section \<open>Modbus TCP frames (main/modbus_tcp.c, main/modbus_tcp.h)\<close>

text \<open>
  The pure half of the Modbus client: building a read request and decoding one complete response
  ADU. Frames are byte lists; the decoder gets the memory behind \<open>frame\<close> and the separate
  \<open>length\<close> argument, and every byte it looks at is a faulting read.
\<close>

subsection \<open>Types and constants\<close>

datatype mb_error =
    MB_OK | MB_ERR_ARGUMENT | MB_ERR_CONNECT | MB_ERR_IO | MB_ERR_TIMEOUT | MB_ERR_TRUNCATED
  | MB_ERR_TRANSACTION | MB_ERR_PROTOCOL | MB_ERR_UNIT | MB_ERR_LENGTH | MB_ERR_FUNCTION
  | MB_ERR_BYTE_COUNT | MB_ERR_EXCEPTION

record mb_result =
  error :: mb_error
  exception_code :: u8
  elapsed_ms :: u32
  system_error :: int

definition MB_MAX_REGISTERS :: nat where "MB_MAX_REGISTERS = 50"
definition MB_FC03_REQUEST_SIZE :: nat where "MB_FC03_REQUEST_SIZE = 12"
definition MB_MAX_RESPONSE_SIZE :: nat where "MB_MAX_RESPONSE_SIZE = 9 + 2 * MB_MAX_REGISTERS"

lemmas mb_consts [cdefs] = MB_MAX_REGISTERS_def MB_FC03_REQUEST_SIZE_def MB_MAX_RESPONSE_SIZE_def

definition reset_result :: mb_result where
  "reset_result = \<lparr>error = MB_OK, exception_code = 0, elapsed_ms = 0, system_error = 0\<rparr>"

subsection \<open>Byte order helpers\<close>

definition be16 :: "u8 \<Rightarrow> u8 \<Rightarrow> u16" where
  "be16 hi lo = push_bit 8 (ucast hi) OR ucast lo"

definition read_be16 :: "u8 list \<Rightarrow> nat \<Rightarrow> u16 option" where
  "read_be16 bytes i = do { hi \<leftarrow> rd bytes i; lo \<leftarrow> rd bytes (i + 1); Some (be16 hi lo) }"

definition write_be16 :: "u16 \<Rightarrow> u8 list" where
  "write_be16 v = [ucast (drop_bit 8 v), ucast v]"

definition valid_quantity :: "u16 \<Rightarrow> bool" where
  "valid_quantity qty \<longleftrightarrow> 1 \<le> qty \<and> unat qty \<le> MB_MAX_REGISTERS"

subsection \<open>Requests\<close>

text \<open>
  The result is the returned size and the caller's buffer afterwards; a NULL buffer is \<open>None\<close>.
\<close>

definition mb_build_read_request ::
    "u8 list option \<Rightarrow> u16 \<Rightarrow> u8 \<Rightarrow> u8 \<Rightarrow> u16 \<Rightarrow> u16 \<Rightarrow> nat \<times> u8 list option" where
  "mb_build_read_request request tid unit fn offset qty =
     (case request of
        None \<Rightarrow> (0, None)
      | Some buf \<Rightarrow>
          if fn < 1 \<or> fn > 4 \<or> \<not> valid_quantity qty \<or>
             (ucast offset :: u32) + ucast qty > 65536
          then (0, Some buf)
          else (MB_FC03_REQUEST_SIZE,
                Some (blit buf (write_be16 tid @ [0, 0] @ write_be16 6 @ [unit, fn] @
                                write_be16 offset @ write_be16 qty))))"

definition mb_build_fc03_request ::
    "u8 list option \<Rightarrow> u16 \<Rightarrow> u8 \<Rightarrow> u16 \<Rightarrow> u16 \<Rightarrow> nat \<times> u8 list option" where
  "mb_build_fc03_request request tid unit offset qty =
     mb_build_read_request request tid unit 3 offset qty"

subsection \<open>Responses\<close>

definition check_header :: "u8 list \<Rightarrow> u16 \<Rightarrow> u8 \<Rightarrow> mb_error option" where
  "check_header frame expected_tid expected_unit = do {
     remaining \<leftarrow> read_be16 frame 4;
     tid \<leftarrow> read_be16 frame 0;
     if tid \<noteq> expected_tid then Some MB_ERR_TRANSACTION
     else do {
       proto \<leftarrow> read_be16 frame 2;
       if proto \<noteq> 0 then Some MB_ERR_PROTOCOL
       else do {
         u \<leftarrow> rd frame 6;
         if u \<noteq> expected_unit then Some MB_ERR_UNIT
         else if unat remaining < 3 \<or> unat remaining > 3 + 2 * MB_MAX_REGISTERS
         then Some MB_ERR_LENGTH
         else Some MB_OK } } }"

definition byte_count :: "u8 \<Rightarrow> u16 \<Rightarrow> nat" where
  "byte_count fn qty = (if fn \<le> 2 then (unat qty + 7) div 8 else 2 * unat qty)"

definition decode_item :: "u8 list \<Rightarrow> u8 \<Rightarrow> nat \<Rightarrow> u16 option" where
  "decode_item frame fn index =
     (if fn \<le> 2
      then do { b \<leftarrow> rd frame (9 + index div 8);
                Some (ucast (drop_bit (index mod 8) b) AND 1) }
      else read_be16 frame (9 + 2 * index))"

text \<open>
  \<open>mb_decode_read_response\<close>: the error, the exception code stored in the result and the output
  array afterwards. The inner \<open>None\<close> of the model is an out-of-range read of the frame.
\<close>

definition decode_pdu ::
    "u8 list \<Rightarrow> nat \<Rightarrow> u16 \<Rightarrow> u8 \<Rightarrow> u8 \<Rightarrow> u16 \<Rightarrow> (mb_error \<times> u8 \<times> u16 list) option" where
  "decode_pdu frame len expected_tid expected_unit fn qty = do {
     e \<leftarrow> check_header frame expected_tid expected_unit;
     if e \<noteq> MB_OK then Some (e, 0, [])
     else do {
       remaining \<leftarrow> read_be16 frame 4;
       if len \<noteq> 6 + unat remaining then Some (MB_ERR_LENGTH, 0, [])
       else do {
         f \<leftarrow> rd frame 7;
         if f = (fn OR 0x80) then do {
           code \<leftarrow> rd frame 8;
           if unat remaining \<noteq> 3 \<or> code = 0 then Some (MB_ERR_LENGTH, 0, [])
           else Some (MB_ERR_EXCEPTION, code, []) }
         else if f \<noteq> fn then Some (MB_ERR_FUNCTION, 0, [])
         else do {
           bc \<leftarrow> rd frame 8;
           if unat bc \<noteq> byte_count fn qty then Some (MB_ERR_BYTE_COUNT, 0, [])
           else if unat remaining \<noteq> 3 + byte_count fn qty then Some (MB_ERR_LENGTH, 0, [])
           else do {
             decoded \<leftarrow> read_loop (decode_item frame fn) [0..<unat qty];
             Some (MB_OK, 0, decoded) } } } } }"

definition mb_decode_read_response ::
    "u8 list option \<Rightarrow> nat \<Rightarrow> u16 \<Rightarrow> u8 \<Rightarrow> u8 \<Rightarrow> u16 \<Rightarrow> u16 list option \<Rightarrow>
     (mb_result \<times> u16 list option) option" where
  "mb_decode_read_response frame len expected_tid expected_unit fn qty out =
     (case (frame, out) of
        (Some fr, Some o') \<Rightarrow>
          if fn < 1 \<or> fn > 4 \<or> \<not> valid_quantity qty
          then Some (reset_result\<lparr>error := MB_ERR_ARGUMENT\<rparr>, out)
          else if len < 7 \<or> len > MB_MAX_RESPONSE_SIZE
          then Some (reset_result\<lparr>error := MB_ERR_LENGTH\<rparr>, out)
          else do {
            (e, code, decoded) \<leftarrow> decode_pdu fr len expected_tid expected_unit fn qty;
            Some (reset_result\<lparr>error := e, exception_code := code\<rparr>,
                  if e = MB_OK then Some (blit o' decoded) else out) }
      | _ \<Rightarrow> Some (reset_result\<lparr>error := MB_ERR_ARGUMENT\<rparr>, out))"

definition mb_decode_fc03_response ::
    "u8 list option \<Rightarrow> nat \<Rightarrow> u16 \<Rightarrow> u8 \<Rightarrow> u16 \<Rightarrow> u16 list option \<Rightarrow>
     (mb_result \<times> u16 list option) option" where
  "mb_decode_fc03_response frame len tid unit qty out =
     mb_decode_read_response frame len tid unit 3 qty out"

subsection \<open>The error names\<close>

fun mb_error_string :: "mb_error \<Rightarrow> string" where
  "mb_error_string MB_OK = ''ok''"
| "mb_error_string MB_ERR_ARGUMENT = ''argument''"
| "mb_error_string MB_ERR_CONNECT = ''connect''"
| "mb_error_string MB_ERR_IO = ''io''"
| "mb_error_string MB_ERR_TIMEOUT = ''timeout''"
| "mb_error_string MB_ERR_TRUNCATED = ''truncated''"
| "mb_error_string MB_ERR_TRANSACTION = ''transaction''"
| "mb_error_string MB_ERR_PROTOCOL = ''protocol''"
| "mb_error_string MB_ERR_UNIT = ''unit''"
| "mb_error_string MB_ERR_LENGTH = ''length''"
| "mb_error_string MB_ERR_FUNCTION = ''function''"
| "mb_error_string MB_ERR_BYTE_COUNT = ''byte_count''"
| "mb_error_string MB_ERR_EXCEPTION = ''exception''"

subsection \<open>Big-endian fields\<close>

lemma be16_write [simp]: "be16 (ucast (drop_bit 8 v)) (ucast v) = v"
  unfolding be16_def
  by (rule bit_word_eqI) (auto simp: bit_simps)

lemma write_be16_be16 [simp]: "write_be16 (be16 a b) = [a, b]"
proof -
  have "(ucast (drop_bit 8 (push_bit 8 (ucast a) OR ucast b :: u16)) :: u8) = a"
    by (rule bit_word_eqI) (auto simp: bit_simps dest: bit_imp_le_length)
  moreover have "(ucast (push_bit 8 (ucast a) OR ucast b :: u16) :: u8) = b"
    by (rule bit_word_eqI) (auto simp: bit_simps)
  ultimately show ?thesis
    by (simp add: write_be16_def be16_def)
qed

lemma be16_eq_iff: "be16 a b = v \<longleftrightarrow> write_be16 v = [a, b]"
  by (metis be16_write write_be16_be16 write_be16_def list.inject)

lemma length_write_be16 [simp]: "length (write_be16 v) = 2"
  by (simp add: write_be16_def)

interpretation be16_codec: byte_codec write_be16 "\<lambda>bs. be16 (bs ! 0) (bs ! 1)" 2
  by unfold_locales (simp_all add: write_be16_def)

subsection \<open>The wire format, as a specification\<close>

text \<open>
  An ADU is the MBAP header (transaction, protocol 0, length of unit and PDU, unit) and the PDU.
  \<open>data_items\<close> reads the data bytes of a successful response: packed bits for functions 1 and 2,
  big-endian registers for 3 and 4.
\<close>

definition mbap_frame :: "u16 \<Rightarrow> u8 \<Rightarrow> u8 list \<Rightarrow> u8 list" where
  "mbap_frame tid unit pdu =
     write_be16 tid @ [0, 0] @ write_be16 (of_nat (1 + length pdu)) @ [unit] @ pdu"

definition data_items :: "u8 \<Rightarrow> nat \<Rightarrow> u8 list \<Rightarrow> u16 list" where
  "data_items fn n data = map (\<lambda>i.
     if fn \<le> 2 then ucast (drop_bit (i mod 8) (data ! (i div 8))) AND 1
     else be16 (data ! (2 * i)) (data ! (2 * i + 1))) [0..<n]"

definition pack_bits :: "bool list \<Rightarrow> u8 list" where
  "pack_bits bs = map (\<lambda>k. horner_sum of_bool 2 (take 8 (drop (8 * k) bs))) [0..<(length bs + 7) div 8]"

lemma length_data_items [simp]: "length (data_items fn n data) = n"
  by (simp add: data_items_def)

lemma byte_count_bounds:
  assumes "valid_quantity qty" "1 \<le> fn" "fn \<le> 4"
  shows "1 \<le> byte_count fn qty" "byte_count fn qty \<le> 100"
    "fn \<le> 2 \<Longrightarrow> i < unat qty \<Longrightarrow> i div 8 < byte_count fn qty"
    "\<not> fn \<le> 2 \<Longrightarrow> i < unat qty \<Longrightarrow> 2 * i + 1 < byte_count fn qty"
  using assms by (auto simp: valid_quantity_def byte_count_def cdefs word_le_nat_alt)

lemma data_items_take:
  assumes "valid_quantity qty" "1 \<le> fn" "fn \<le> 4"
  shows "data_items fn (unat qty) (take (byte_count fn qty) r) = data_items fn (unat qty) r"
  unfolding data_items_def
proof (rule map_cong [OF refl])
  fix i assume "i \<in> set [0..<unat qty]"
  then have i: "i < unat qty" by simp
  show "(if fn \<le> 2 then ucast (drop_bit (i mod 8) (take (byte_count fn qty) r ! (i div 8))) AND 1
         else be16 (take (byte_count fn qty) r ! (2 * i)) (take (byte_count fn qty) r ! (2 * i + 1))) =
        (if fn \<le> 2 then ucast (drop_bit (i mod 8) (r ! (i div 8))) AND 1
         else be16 (r ! (2 * i)) (r ! (2 * i + 1)))"
    using byte_count_bounds(3,4) [OF assms _ i] by (cases "fn \<le> 2") simp_all
qed

lemma data_items_registers:
  assumes "\<not> fn \<le> 2"
  shows "data_items fn (length regs) (concat (map write_be16 regs)) = regs"
proof (rule nth_equalityI)
  fix i assume "i < length (data_items fn (length regs) (concat (map write_be16 regs)))"
  then have i: "i < length regs" by simp
  let ?c = "concat (map write_be16 regs)"
  have "take 2 (drop (2 * i) ?c) = write_be16 (regs ! i)"
    using i by (rule be16_codec.take_drop_concat_enc)
  moreover have "2 * i + 1 < length ?c"
    using i by (simp add: be16_codec.length_concat_enc)
  then have "?c ! (2 * i) = take 2 (drop (2 * i) ?c) ! 0" "?c ! (2 * i + 1) = take 2 (drop (2 * i) ?c) ! 1"
    by simp_all
  ultimately show "data_items fn (length regs) ?c ! i = regs ! i"
    using i assms by (simp add: data_items_def write_be16_def)
qed simp

lemma extract_bit: "ucast (drop_bit n (b :: u8)) AND 1 = (of_bool (bit b n) :: u16)"
  by (rule bit_word_eqI) (auto simp: bit_simps)

lemma data_items_bits:
  assumes "fn \<le> 2"
  shows "data_items fn (length bs) (pack_bits bs) = map of_bool bs"
proof (rule nth_equalityI)
  fix i assume "i < length (data_items fn (length bs) (pack_bits bs))"
  then have i: "i < length bs" by simp
  then have k: "i div 8 < (length bs + 7) div 8" by simp
  have "bit (horner_sum of_bool 2 (take 8 (drop (8 * (i div 8)) bs)) :: u8) (i mod 8) = bs ! i"
  proof -
    have "8 * (i div 8) + i mod 8 = i" by simp
    with i have "i mod 8 < length bs - 8 * (i div 8)" by linarith
    with i show ?thesis by (simp add: bit_horner_sum_bit_iff)
  qed
  then have "ucast (drop_bit (i mod 8) (pack_bits bs ! (i div 8))) AND 1 = (of_bool (bs ! i) :: u16)"
    using k by (simp add: pack_bits_def extract_bit)
  then show "data_items fn (length bs) (pack_bits bs) ! i = map of_bool bs ! i"
    using i assms by (simp add: data_items_def)
qed simp

subsection \<open>The decoder as a decision table\<close>

lemma read_items:
  assumes "valid_quantity qty" "1 \<le> fn" "fn \<le> 4"
    and "length pre = 9" and "byte_count fn qty \<le> length data"
  shows "read_loop (decode_item (pre @ data) fn) [0..<unat qty] =
         Some (data_items fn (unat qty) data)"
  unfolding data_items_def
proof (rule read_loop_map)
  fix i assume "i \<in> set [0..<unat qty]"
  then have i: "i < unat qty" by simp
  show "decode_item (pre @ data) fn i =
    Some (if fn \<le> 2 then ucast (drop_bit (i mod 8) (data ! (i div 8))) AND 1
          else be16 (data ! (2 * i)) (data ! (2 * i + 1)))"
  proof (cases "fn \<le> 2")
    case True
    with byte_count_bounds(3) [OF assms(1-3) True i] assms(4,5) show ?thesis
      by (simp add: decode_item_def nth_append)
  next
    case False
    with byte_count_bounds(4) [OF assms(1-3) False i] assms(4,5) show ?thesis
      by (simp add: decode_item_def read_be16_def nth_append)
  qed
qed

lemma split_frame9:
  assumes "9 \<le> length (frame :: 'a list)"
  obtains b0 b1 b2 b3 b4 b5 b6 b7 b8 r
  where "frame = [b0, b1, b2, b3, b4, b5, b6, b7, b8] @ r"
proof -
  obtain x y where xy: "frame = x @ y" "length x = 9"
    using assms by (metis append_take_drop_id length_take min.absorb2)
  then obtain b0 b1 b2 b3 b4 b5 b6 b7 b8 where "x = [b0, b1, b2, b3, b4, b5, b6, b7, b8]"
    by (auto simp: numeral_eq_Suc length_Suc_conv)
  with xy that show thesis by blast
qed

lemma take_frame9:
  "take (9 + n) ([b0, b1, b2, b3, b4, b5, b6, b7, b8] @ r) =
   [b0, b1, b2, b3, b4, b5, b6] @ (b7 # b8 # take n r)"
  by (simp add: numeral_eq_Suc)

lemma check_header_eq:
  assumes "7 \<le> length frame"
  shows "check_header frame tid unit =
     Some (if be16 (frame ! 0) (frame ! 1) \<noteq> tid then MB_ERR_TRANSACTION
           else if be16 (frame ! 2) (frame ! 3) \<noteq> 0 then MB_ERR_PROTOCOL
           else if frame ! 6 \<noteq> unit then MB_ERR_UNIT
           else if unat (be16 (frame ! 4) (frame ! 5)) < 3 \<or>
                   unat (be16 (frame ! 4) (frame ! 5)) > 103 then MB_ERR_LENGTH
           else MB_OK)"
proof -
  have "rd frame i = Some (frame ! i)" if "i < 7" for i
    using that assms by simp
  then show ?thesis
    by (simp add: check_header_def read_be16_def cdefs del: rd_eq_Some)
qed

definition pdu_verdict :: "u8 list \<Rightarrow> nat \<Rightarrow> u16 \<Rightarrow> u8 \<Rightarrow> u8 \<Rightarrow> u16 \<Rightarrow> mb_error \<times> u8 \<times> u16 list" where
  "pdu_verdict f len tid unit fn qty =
     (let rem = unat (be16 (f ! 4) (f ! 5)) in
      if be16 (f ! 0) (f ! 1) \<noteq> tid then (MB_ERR_TRANSACTION, 0, [])
      else if be16 (f ! 2) (f ! 3) \<noteq> 0 then (MB_ERR_PROTOCOL, 0, [])
      else if f ! 6 \<noteq> unit then (MB_ERR_UNIT, 0, [])
      else if rem < 3 \<or> rem > 103 \<or> len \<noteq> 6 + rem then (MB_ERR_LENGTH, 0, [])
      else if f ! 7 = (fn OR 0x80)
      then (if rem \<noteq> 3 \<or> f ! 8 = 0 then (MB_ERR_LENGTH, 0, []) else (MB_ERR_EXCEPTION, f ! 8, []))
      else if f ! 7 \<noteq> fn then (MB_ERR_FUNCTION, 0, [])
      else if unat (f ! 8) \<noteq> byte_count fn qty then (MB_ERR_BYTE_COUNT, 0, [])
      else if rem \<noteq> 3 + byte_count fn qty then (MB_ERR_LENGTH, 0, [])
      else (MB_OK, 0, data_items fn (unat qty) (drop 9 f)))"

lemma decode_pdu_verdict:
  assumes "len \<le> length f" "7 \<le> len" "valid_quantity qty" "1 \<le> fn" "fn \<le> 4"
  shows "decode_pdu f len tid unit fn qty = Some (pdu_verdict f len tid unit fn qty)"
proof -
  define rem where "rem = unat (be16 (f ! 4) (f ! 5))"
  have small: "rd f i = Some (f ! i)" if "i < 7" for i
    using that assms(1,2) by simp
  have rem: "read_be16 f 4 = Some (be16 (f ! 4) (f ! 5))"
    using small by (simp add: read_be16_def del: rd_eq_Some)
  show ?thesis
  proof (cases "len = 6 + rem \<and> 3 \<le> rem")
    case True
    then have rd78: "rd f 7 = Some (f ! 7)" "rd f 8 = Some (f ! 8)"
      using assms(1) by simp_all
    have items: "read_loop (decode_item f fn) [0..<unat qty] = Some (data_items fn (unat qty) (drop 9 f))"
      if "rem = 3 + byte_count fn qty"
      using read_items [OF assms(3-5), of "take 9 f" "drop 9 f"] that True assms(1) by simp
    show ?thesis
      using True assms(2)
      by (simp add: decode_pdu_def check_header_eq [OF order_trans [OF assms(2,1)]] rem rd78
            pdu_verdict_def Let_def items flip: rem_def del: rd_eq_Some)
  next
    case False
    then show ?thesis
      by (auto simp add: decode_pdu_def check_header_eq [OF order_trans [OF assms(2,1)]] rem
            pdu_verdict_def Let_def simp flip: rem_def simp del: rd_eq_Some)
  qed
qed

lemma fn_cases:
  assumes "1 \<le> fn" "fn \<le> (4::u8)"
  shows "fn = 1 \<or> fn = 2 \<or> fn = 3 \<or> fn = 4"
proof -
  have "unat fn = 1 \<or> unat fn = 2 \<or> unat fn = 3 \<or> unat fn = 4"
    using assms by (auto simp: word_le_nat_alt)
  then show ?thesis
    by (auto simp: unat_eq_iff)
qed

lemma mbap_frame_bytes:
  assumes "length pdu < 65535"
  shows "[b0, b1, b2, b3, b4, b5, b6] @ r = mbap_frame tid unit pdu \<longleftrightarrow>
    be16 b0 b1 = tid \<and> be16 b2 b3 = 0 \<and> unat (be16 b4 b5) = Suc (length pdu) \<and> b6 = unit \<and> r = pdu"
proof -
  have "write_be16 (of_nat (1 + length pdu)) = [b4, b5] \<longleftrightarrow> unat (be16 b4 b5) = Suc (length pdu)"
    using assms by (simp add: unat_eq_iff flip: be16_eq_iff)
  moreover have "write_be16 0 = [b2, b3] \<longleftrightarrow> b2 = 0 \<and> b3 = 0"
    by (auto simp: write_be16_def)
  ultimately show ?thesis
    by (auto simp: mbap_frame_def be16_eq_iff write_be16_def)
qed

lemma verdict_OK_iff:
  assumes "len \<le> length f" "7 \<le> len" "valid_quantity qty" "1 \<le> fn" "fn \<le> 4"
  shows "pdu_verdict f len tid unit fn qty = (MB_OK, code, items) \<longleftrightarrow>
    (\<exists>data. length data = byte_count fn qty \<and> code = 0 \<and> items = data_items fn (unat qty) data \<and>
       take len f = mbap_frame tid unit (fn # of_nat (byte_count fn qty) # data))"
    (is "?L \<longleftrightarrow> ?R")
proof -
  note bnd = byte_count_bounds(1,2) [OF assms(3-5)]
  note take_items = data_items_take [OF assms(3-5)]
  have fn80: "fn \<noteq> (fn OR 0x80)"
    using fn_cases [OF assms(4,5)] by auto
  have bc8: "unat b = byte_count fn qty \<longleftrightarrow> b = of_nat (byte_count fn qty)" for b :: u8
    using bnd by (simp add: unat_eq_iff)
  show ?thesis
  proof
    assume L: ?L
    then have "9 \<le> length f" using assms(1)
      by (auto simp: pdu_verdict_def Let_def split: if_splits)
    then obtain b0 b1 b2 b3 b4 b5 b6 b7 b8 r where
      f: "f = [b0, b1, b2, b3, b4, b5, b6, b7, b8] @ r" by (rule split_frame9)
    have *: "be16 b0 b1 = tid" "be16 b2 b3 = 0" "b6 = unit" "b7 = fn" "unat b8 = byte_count fn qty"
      "unat (be16 b4 b5) = 3 + byte_count fn qty" "len = 9 + byte_count fn qty"
      "code = 0" "items = data_items fn (unat qty) r"
      using L by (auto simp: pdu_verdict_def Let_def f split: if_splits)
    have "take len f = [b0, b1, b2, b3, b4, b5, b6] @ (b7 # b8 # take (byte_count fn qty) r)"
      unfolding f *(7) by (rule take_frame9)
    also have "\<dots> = mbap_frame tid unit (fn # of_nat (byte_count fn qty) # take (byte_count fn qty) r)"
      using * bnd assms(1) bc8 by (subst mbap_frame_bytes) (auto simp: f)
    finally show ?R
      using * assms(1) take_items
      by (intro exI [of _ "take (byte_count fn qty) r"]) (simp add: f)
  next
    assume ?R
    then obtain data where d: "length data = byte_count fn qty" "code = 0"
      "items = data_items fn (unat qty) data"
      "take len f = mbap_frame tid unit (fn # of_nat (byte_count fn qty) # data)" by blast
    from arg_cong [OF d(4), of length] assms(1) d(1) have len: "len = 9 + byte_count fn qty"
      by (simp add: mbap_frame_def)
    with assms(1) have "9 \<le> length f" by simp
    then obtain b0 b1 b2 b3 b4 b5 b6 b7 b8 r where
      f: "f = [b0, b1, b2, b3, b4, b5, b6, b7, b8] @ r" by (rule split_frame9)
    have "take len f = [b0, b1, b2, b3, b4, b5, b6] @ (b7 # b8 # take (byte_count fn qty) r)"
      unfolding f len by (rule take_frame9)
    with d(1,4) bnd mbap_frame_bytes
      [of "fn # of_nat (byte_count fn qty) # data" b0 b1 b2 b3 b4 b5 b6
          "b7 # b8 # take (byte_count fn qty) r" tid unit]
    have "be16 b0 b1 = tid" "be16 b2 b3 = 0" "b6 = unit" "b7 = fn" "b8 = of_nat (byte_count fn qty)"
      "unat (be16 b4 b5) = 3 + byte_count fn qty" "data = take (byte_count fn qty) r"
      by auto
    with d bnd fn80 bc8 take_items show ?L
      by (simp add: pdu_verdict_def Let_def f len)
  qed
qed

lemma verdict_EXCEPTION_iff:
  assumes "len \<le> length f" "7 \<le> len" "1 \<le> fn" "fn \<le> 4"
  shows "pdu_verdict f len tid unit fn qty = (MB_ERR_EXCEPTION, code, items) \<longleftrightarrow>
    code \<noteq> 0 \<and> items = [] \<and> take len f = mbap_frame tid unit [fn OR 0x80, code]"
    (is "?L \<longleftrightarrow> ?R")
proof (cases "9 \<le> length f \<and> len = 9")
  case False
  then have "\<not> ?L" using assms(1)
    by (auto simp: pdu_verdict_def Let_def split: if_splits)
  moreover have "\<not> ?R"
  proof
    assume ?R
    then have "length (take len f) = 9" by (simp add: mbap_frame_def)
    with False assms(1) show False by simp
  qed
  ultimately show ?thesis by blast
next
  case True
  then have "9 \<le> length f" by (rule conjunct1)
  then obtain b0 b1 b2 b3 b4 b5 b6 b7 b8 r where
    f: "f = [b0, b1, b2, b3, b4, b5, b6, b7, b8] @ r" by (rule split_frame9)
  have "take len f = [b0, b1, b2, b3, b4, b5, b6] @ [b7, b8]"
    using True take_frame9 [of 0 b0 b1 b2 b3 b4 b5 b6 b7 b8 r] by (simp add: f)
  then have "?R \<longleftrightarrow> code \<noteq> 0 \<and> items = [] \<and> be16 b0 b1 = tid \<and> be16 b2 b3 = 0 \<and>
      unat (be16 b4 b5) = 3 \<and> b6 = unit \<and> b7 = (fn OR 0x80) \<and> b8 = code"
    by (simp only: mbap_frame_bytes list.size) auto
  also have "\<dots> \<longleftrightarrow> ?L"
    using True by (simp add: pdu_verdict_def Let_def f) blast
  finally show ?thesis ..
qed

lemma verdict_error_silent:
  "pdu_verdict f len tid unit fn qty = (e, code, items) \<Longrightarrow>
   (code \<noteq> 0 \<longleftrightarrow> e = MB_ERR_EXCEPTION) \<and> (e = MB_OK \<longrightarrow> length items = unat qty)"
  by (auto simp: pdu_verdict_def Let_def split: if_splits)

subsection \<open>Requests\<close>

lemma request_sum [simp]:
  "unat ((ucast (offset :: u16) :: u32) + ucast (qty :: u16)) = unat offset + unat qty"
  by (subst unat_add_small) (use unat_lt_u16 [of offset] unat_lt_u16 [of qty] in simp_all)

lemma request_fits:
  "(ucast (offset :: u16) :: u32) + ucast (qty :: u16) > 65536 \<longleftrightarrow> unat offset + unat qty > 65536"
  by (simp add: word_less_nat_alt)

lemma fn_range: "fn < 1 \<or> (4::u8) < fn \<longleftrightarrow> \<not> (1 \<le> fn \<and> fn \<le> 4)"
  by (auto simp: one_le_word)

lemma valid_quantity_nat: "valid_quantity qty \<longleftrightarrow> 1 \<le> unat qty \<and> unat qty \<le> 50"
  by (simp add: valid_quantity_def cdefs word_le_nat_alt)

lemma decode_wire_data:
  assumes "valid_quantity qty" "1 \<le> fn" "fn \<le> 4" "length data = byte_count fn qty"
  shows "mb_decode_read_response (Some (mbap_frame tid unit (fn # of_nat (byte_count fn qty) # data)))
           (9 + byte_count fn qty) tid unit fn qty (Some out) =
         Some (reset_result, Some (blit out (data_items fn (unat qty) data)))"
proof -
  let ?f = "mbap_frame tid unit (fn # of_nat (byte_count fn qty) # data)"
  have len: "length ?f = 9 + byte_count fn qty"
    using assms(4) by (simp add: mbap_frame_def)
  have "pdu_verdict ?f (9 + byte_count fn qty) tid unit fn qty =
      (MB_OK, 0, data_items fn (unat qty) data)"
    using assms len by (subst verdict_OK_iff) auto
  then show ?thesis
    using assms len byte_count_bounds(1,2) [OF assms(1-3)]
    by (simp add: mb_decode_read_response_def decode_pdu_verdict cdefs reset_result_def
          not_less one_le_word)
qed

subsection \<open>The decoder as a whole\<close>

lemma decode_ok_iff:
  assumes "len \<le> length mem"
  shows "(\<exists>r. mb_decode_read_response (Some mem) len tid unit fn qty (Some out) = Some (r, Some out')
            \<and> error r = MB_OK) \<longleftrightarrow>
    1 \<le> fn \<and> fn \<le> 4 \<and> valid_quantity qty \<and>
    (\<exists>data. length data = byte_count fn qty \<and>
       take len mem = mbap_frame tid unit (fn # of_nat (byte_count fn qty) # data) \<and>
       out' = blit out (data_items fn (unat qty) data))"
    (is "?L \<longleftrightarrow> ?R")
proof (cases "1 \<le> fn \<and> fn \<le> 4 \<and> valid_quantity qty \<and> 7 \<le> len \<and> len \<le> 109")
  case True
  then have "?L \<longleftrightarrow> (\<exists>items. pdu_verdict mem len tid unit fn qty = (MB_OK, 0, items) \<and> out' = blit out items)"
    using assms verdict_error_silent [of mem len tid unit fn qty]
    by (auto simp: mb_decode_read_response_def decode_pdu_verdict cdefs split: prod.splits)
  also have "\<dots> \<longleftrightarrow> ?R"
    using True assms by (auto simp: verdict_OK_iff)
  finally show ?thesis .
next
  case False
  then have "\<not> ?L"
    by (auto simp: mb_decode_read_response_def cdefs one_le_word)
  moreover have "\<not> ?R"
  proof
    assume ?R
    then obtain data where d: "1 \<le> fn" "fn \<le> 4" "valid_quantity qty" "length data = byte_count fn qty"
      "take len mem = mbap_frame tid unit (fn # of_nat (byte_count fn qty) # data)" by blast
    from arg_cong [OF d(5), of length] assms d(4) have "len = 9 + byte_count fn qty"
      by (simp add: mbap_frame_def)
    with False d byte_count_bounds(2) [OF d(3,1,2)] show False by simp
  qed
  ultimately show ?thesis by blast
qed

subsection \<open>Properties\<close>

text \<open>
  C31 (mb_decode_accepts_exactly): The decoder returns MB_OK for exactly the well-formed
  frames: the first len bytes are the MBAP header with the expected transaction and unit,
  protocol 0 and the right length, followed by the function, the exact byte count and that
  many data bytes. The output array then holds the decoded items in front and its old tail
  behind. Nothing else is accepted.
\<close>

theorem mb_decode_accepts_exactly:
  assumes "len \<le> length mem"
  shows "(\<exists>r. mb_decode_read_response (Some mem) len tid unit fn qty (Some out) = Some (r, Some out')
            \<and> error r = MB_OK) \<longleftrightarrow>
    1 \<le> fn \<and> fn \<le> 4 \<and> valid_quantity qty \<and>
    (\<exists>data. length data = byte_count fn qty \<and>
       take len mem = mbap_frame tid unit (fn # of_nat (byte_count fn qty) # data) \<and>
       out' = blit out (data_items fn (unat qty) data))"
  by (rule decode_ok_iff [OF assms])

theorem mb_decode_accepts_exactly_witness:
  "\<exists>r. mb_decode_read_response (Some [0, 7, 0, 0, 0, 5, 41, 3, 2, 1, 44]) 11 7 41 3 1 (Some [9, 9])
       = Some (r, Some [300, 9]) \<and> error r = MB_OK"
  by (subst mb_decode_accepts_exactly)
     (simp_all add: valid_quantity_nat mbap_frame_def write_be16_def byte_count_def data_items_def
        be16_def blit_def exI [of _ "[1, 44]"])

lemma decode_contract:
  assumes "len \<le> length mem"
  shows "\<exists>r out'. mb_decode_read_response (Some mem) len tid unit fn qty (Some out) = Some (r, Some out')
     \<and> (error r \<noteq> MB_OK \<longrightarrow> out' = out)
     \<and> drop (unat qty) out' = drop (unat qty) out
     \<and> (exception_code r \<noteq> 0 \<longleftrightarrow> error r = MB_ERR_EXCEPTION)
     \<and> elapsed_ms r = 0 \<and> system_error r = 0"
proof (cases "1 \<le> fn \<and> fn \<le> 4 \<and> valid_quantity qty \<and> 7 \<le> len \<and> len \<le> 109")
  case True
  then show ?thesis
    using assms verdict_error_silent [of mem len tid unit fn qty]
    by (auto simp: mb_decode_read_response_def decode_pdu_verdict cdefs reset_result_def blit_def
             split: prod.splits)
next
  case False
  then show ?thesis
    by (auto simp: mb_decode_read_response_def cdefs reset_result_def one_le_word)
qed

text \<open>
  Whatever bytes arrive, decoding never reads outside the frame (a read
  past it would make the model None). On any error the output array is unchanged; on success
  only the first qty entries change. The exception code is non-zero exactly when the error is
  MB_ERR_EXCEPTION, and the pure decoder leaves elapsed_ms and system_error at zero.
\<close>

theorem mb_decode_safe:
  assumes "len \<le> length mem"
  shows "\<exists>r out'. mb_decode_read_response (Some mem) len tid unit fn qty (Some out) = Some (r, Some out')
     \<and> (error r \<noteq> MB_OK \<longrightarrow> out' = out)
     \<and> drop (unat qty) out' = drop (unat qty) out
     \<and> (exception_code r \<noteq> 0 \<longleftrightarrow> error r = MB_ERR_EXCEPTION)
     \<and> elapsed_ms r = 0 \<and> system_error r = 0"
  by (rule decode_contract [OF assms])

theorem mb_decode_safe_witness:
  "\<exists>r out'. mb_decode_read_response (Some [0, 7, 0, 0, 0, 200, 41]) 7 7 41 3 1 (Some [9 :: u16]) =
      Some (r, Some out') \<and> exception_code r \<noteq> 0 = (error r = MB_ERR_EXCEPTION)"
  using mb_decode_safe [of 7 "[0, 7, 0, 0, 0, 200, 41]" 7 41 3 1 "[9]"] by auto

text \<open>
  MB_ERR_EXCEPTION with a code is reported for exactly the
  nine-byte exception responses of the requested function whose header matches and whose code
  is not zero.
\<close>

theorem mb_decode_exception_exactly:
  assumes "len \<le> length mem" "1 \<le> fn" "fn \<le> 4" "valid_quantity qty"
  shows "(\<exists>r out'. mb_decode_read_response (Some mem) len tid unit fn qty (Some out) = Some (r, out')
            \<and> error r = MB_ERR_EXCEPTION \<and> exception_code r = code) \<longleftrightarrow>
    code \<noteq> 0 \<and> take len mem = mbap_frame tid unit [fn OR 0x80, code]"
    (is "?L \<longleftrightarrow> ?R")
proof (cases "7 \<le> len \<and> len \<le> 109")
  case True
  then have "?L \<longleftrightarrow> (\<exists>items. pdu_verdict mem len tid unit fn qty = (MB_ERR_EXCEPTION, code, items))"
    using assms
    by (auto simp: mb_decode_read_response_def decode_pdu_verdict cdefs not_less split: prod.splits)
  also have "\<dots> \<longleftrightarrow> ?R"
    using True assms by (simp add: verdict_EXCEPTION_iff)
  finally show ?thesis .
next
  case False
  then have "\<not> ?L"
    by (auto simp: mb_decode_read_response_def cdefs one_le_word)
  moreover have "\<not> ?R"
  proof
    assume ?R
    then have "length (take len mem) = 9" by (simp add: mbap_frame_def)
    with False assms(1) show False by simp
  qed
  ultimately show ?thesis by blast
qed

theorem mb_decode_exception_exactly_witness:
  "\<exists>r out'. mb_decode_read_response (Some [0, 7, 0, 0, 0, 3, 41, 131, 2]) 9 7 41 3 3 (Some [])
       = Some (r, out') \<and> error r = MB_ERR_EXCEPTION \<and> exception_code r = 2"
  by (subst mb_decode_exception_exactly)
     (simp_all add: valid_quantity_nat mbap_frame_def write_be16_def)

text \<open>
  Mb_build_read_request succeeds for exactly functions 1..4, quantities
  1..50 and ranges inside the 16-bit address space. It then writes the 12 bytes of the request
  ADU and returns 12; otherwise it returns 0 and the buffer is unchanged.
\<close>

theorem mb_request_exact:
  "mb_build_read_request (Some buf) tid unit fn offset qty =
     (if 1 \<le> fn \<and> fn \<le> 4 \<and> 1 \<le> unat qty \<and> unat qty \<le> 50 \<and> unat offset + unat qty \<le> 65536
      then (12, Some (mbap_frame tid unit (fn # write_be16 offset @ write_be16 qty) @ drop 12 buf))
      else (0, Some buf))"
proof -
  have "blit buf (write_be16 tid @ [0, 0] @ write_be16 6 @ [unit, fn] @ write_be16 offset @ write_be16 qty)
      = mbap_frame tid unit (fn # write_be16 offset @ write_be16 qty) @ drop 12 buf"
    by (subst blit_eq [where n = 12]) (simp_all add: mbap_frame_def)
  then show ?thesis
    by (auto simp: mb_build_read_request_def request_fits valid_quantity_nat cdefs one_le_word)
qed

text \<open>
  Decoding inverts a server's encoding: a response that carries
  registers (functions 3 and 4) or packed bits (functions 1 and 2) decodes to those registers
  and to one 0/1 word per bit.
\<close>

theorem mb_response_roundtrip:
  assumes "valid_quantity qty" "length regs = unat qty" "length bits = unat qty"
    and "fr = 3 \<or> fr = 4" "fb = 1 \<or> fb = 2"
  shows "mb_decode_read_response
            (Some (mbap_frame tid unit (fr # of_nat (2 * unat qty) # concat (map write_be16 regs))))
            (9 + 2 * unat qty) tid unit fr qty (Some out)
          = Some (reset_result, Some (blit out regs)) \<and>
         mb_decode_read_response
            (Some (mbap_frame tid unit (fb # of_nat ((unat qty + 7) div 8) # pack_bits bits)))
            (9 + (unat qty + 7) div 8) tid unit fb qty (Some out)
          = Some (reset_result, Some (blit out (map of_bool bits)))"
proof
  have "\<not> fr \<le> 2" "1 \<le> fr" "fr \<le> 4" using assms(4) by auto
  then show "mb_decode_read_response
            (Some (mbap_frame tid unit (fr # of_nat (2 * unat qty) # concat (map write_be16 regs))))
            (9 + 2 * unat qty) tid unit fr qty (Some out) = Some (reset_result, Some (blit out regs))"
    using decode_wire_data [of qty fr "concat (map write_be16 regs)" tid unit out]
      data_items_registers [of fr regs] assms(1,2)
    by (simp add: byte_count_def be16_codec.length_concat_enc)
  have "fb \<le> 2" "1 \<le> fb" "fb \<le> 4" using assms(5) by auto
  then show "mb_decode_read_response
            (Some (mbap_frame tid unit (fb # of_nat ((unat qty + 7) div 8) # pack_bits bits)))
            (9 + (unat qty + 7) div 8) tid unit fb qty (Some out)
          = Some (reset_result, Some (blit out (map of_bool bits)))"
    using decode_wire_data [of qty fb "pack_bits bits" tid unit out]
      data_items_bits [of fb bits] assms(1,3)
    by (simp add: byte_count_def pack_bits_def)
qed

theorem mb_response_roundtrip_witness:
  "mb_decode_read_response (Some (mbap_frame 7 41 (3 # of_nat 4 # concat (map write_be16 [300, 2]))))
     13 7 41 3 2 (Some [0, 0, 5]) = Some (reset_result, Some [300, 2, 5])"
  using mb_response_roundtrip [of 2 "[300, 2]" "[True, False]" 3 1 7 41 "[0, 0, 5]"]
  by (simp add: valid_quantity_nat blit_def)

end
