(* ===== verification/Modbus_Transport.thy ===== *)
theory Modbus_Transport
  imports Modbus_Frame
begin

section \<open>The Modbus/TCP transport (main/modbus_tcp.c)\<close>

text \<open>
  One bounded request over a TCP socket. The platform (clock, sockets, \<open>select\<close>) is a parameter: the
  \<open>k\<close>-th system call of a run, with its arguments, gets the answer \<open>env k call\<close>, and the run keeps the
  log of its calls and answers. A loop that never ends is \<open>None\<close>: the two transfer loops and the
  readiness loop are \<open>partial_function\<close>s, and their return is proved from the progress of the clock.
\<close>

subsection \<open>System calls\<close>

datatype syscall =
    Clock                                  \<comment> \<open>\<open>esp_timer_get_time\<close>\<close>
  | Select bool nat nat                    \<comment> \<open>for writing, seconds, microseconds\<close>
  | Socket
  | Get_flags
  | Set_nonblock int
  | Connect u32 u16
  | Get_so_error
  | Send "u8 list"
  | Recv nat
  | Close int

record answer =
  an_clock :: u64                          \<comment> \<open>microseconds\<close>
  an_ret :: int
  an_errno :: int
  an_so_error :: int
  an_bytes :: "u8 list"                    \<comment> \<open>what \<open>recv\<close> stored\<close>

type_synonym env = "nat \<Rightarrow> syscall \<Rightarrow> answer"

record io =
  io_log :: "(syscall \<times> answer) list"      \<comment> \<open>newest first\<close>
  io_system_error :: int                   \<comment> \<open>\<open>result->system_error\<close>\<close>

definition EINTR :: int where "EINTR = 4"
definition EAGAIN :: int where "EAGAIN = 11"
definition EWOULDBLOCK :: int where "EWOULDBLOCK = 11"
definition EALREADY :: int where "EALREADY = 120"
definition EINPROGRESS :: int where "EINPROGRESS = 119"

definition sys :: "env \<Rightarrow> syscall \<Rightarrow> io \<Rightarrow> answer \<times> io" where
  "sys env c s = (let a = env (length (io_log s)) c in (a, s\<lparr>io_log := (c, a) # io_log s\<rparr>))"

definition mb_monotonic_ms :: "env \<Rightarrow> io \<Rightarrow> u64 \<times> io" where
  "mb_monotonic_ms env s = (let (a, s) = sys env Clock s in (an_clock a div 1000, s))"

definition would_block :: "int \<Rightarrow> bool" where
  "would_block e \<longleftrightarrow> e = EAGAIN \<or> e = EWOULDBLOCK"

definition set_error :: "int \<Rightarrow> io \<Rightarrow> io" where
  "set_error e s = s\<lparr>io_system_error := e\<rparr>"

definition before_deadline :: "env \<Rightarrow> u64 \<Rightarrow> io \<Rightarrow> mb_error \<times> io" where
  "before_deadline env deadline s =
     (let (now, s) = mb_monotonic_ms env s in (if now < deadline then MB_OK else MB_ERR_TIMEOUT, s))"

subsection \<open>Bounded waiting and transfers\<close>

partial_function (option) wait_ready :: "env \<Rightarrow> bool \<Rightarrow> u64 \<Rightarrow> io \<Rightarrow> (mb_error \<times> io) option" where
  "wait_ready env writing deadline s =
     (let (now, s1) = mb_monotonic_ms env s in
      if now \<ge> deadline then Some (MB_ERR_TIMEOUT, s1)
      else let remaining = unat (deadline - now);
               (a, s2) = sys env (Select writing (remaining div 1000) (remaining mod 1000 * 1000)) s1
           in if an_ret a > 0 then Some (before_deadline env deadline s2)
              else if an_ret a = 0 then Some (MB_ERR_TIMEOUT, s2)
              else if an_errno a \<noteq> EINTR then Some (MB_ERR_IO, set_error (an_errno a) s2)
              else wait_ready env writing deadline s2)"

partial_function (option) send_exact :: "env \<Rightarrow> u8 list \<Rightarrow> nat \<Rightarrow> u64 \<Rightarrow> io \<Rightarrow> (mb_error \<times> io) option" where
  "send_exact env bytes position deadline s =
     (if position < length bytes then
        (case wait_ready env True deadline s of
           None \<Rightarrow> None
         | Some (e, s1) \<Rightarrow>
             if e \<noteq> MB_OK then Some (e, s1)
             else let (a, s2) = sys env (Send (drop position bytes)) s1 in
               if an_ret a > 0 then send_exact env bytes (position + nat (an_ret a)) deadline s2
               else if an_ret a = 0 then Some (MB_ERR_IO, s2)
               else if an_errno a \<noteq> EINTR \<and> \<not> would_block (an_errno a)
               then Some (MB_ERR_IO, set_error (an_errno a) s2)
               else send_exact env bytes position deadline s2)
      else Some (before_deadline env deadline s))"

text \<open>\<open>got\<close> are the bytes received so far; their number is \<open>position\<close>.\<close>

partial_function (option) receive_exact :: "env \<Rightarrow> nat \<Rightarrow> u8 list \<Rightarrow> u64 \<Rightarrow> io \<Rightarrow> (mb_error \<times> u8 list \<times> io) option" where
  "receive_exact env n got deadline s =
     (if length got < n then
        (case wait_ready env False deadline s of
           None \<Rightarrow> None
         | Some (e, s1) \<Rightarrow>
             if e \<noteq> MB_OK then Some (e, got, s1)
             else let (a, s2) = sys env (Recv (n - length got)) s1 in
               if an_ret a > 0 then receive_exact env n (got @ take (nat (an_ret a)) (an_bytes a)) deadline s2
               else if an_ret a = 0 then Some (MB_ERR_TRUNCATED, got, s2)
               else if an_errno a \<noteq> EINTR \<and> \<not> would_block (an_errno a)
               then Some (MB_ERR_IO, got, set_error (an_errno a) s2)
               else receive_exact env n got deadline s2)
      else (let (e, s1) = before_deadline env deadline s in Some (e, got, s1)))"

subsection \<open>One request\<close>

text \<open>\<open>open_socket\<close> and \<open>connect_socket\<close> are the parts of \<open>mb_read_points\<close> up to the connection. The
  builds with \<open>SO_NOSIGPIPE\<close> or a small \<open>FD_SETSIZE\<close> are not those of the device.\<close>

definition open_socket :: "env \<Rightarrow> io \<Rightarrow> mb_error \<times> int \<times> io" where
  "open_socket env s =
     (let (a, s1) = sys env Socket s; fd = an_ret a in
      if fd < 0 then (MB_ERR_CONNECT, fd, set_error (an_errno a) s1)
      else let (f, s2) = sys env Get_flags s1 in
        if an_ret f < 0 then (MB_ERR_IO, fd, set_error (an_errno f) s2)
        else let (g, s3) = sys env (Set_nonblock (an_ret f)) s2 in
          if an_ret g < 0 then (MB_ERR_IO, fd, set_error (an_errno g) s3) else (MB_OK, fd, s3))"

definition connect_socket :: "env \<Rightarrow> u32 \<Rightarrow> u16 \<Rightarrow> u64 \<Rightarrow> io \<Rightarrow> (mb_error \<times> io) option" where
  "connect_socket env addr port deadline s =
     (let (now, s1) = mb_monotonic_ms env s in
      if now \<ge> deadline then Some (MB_ERR_TIMEOUT, s1)
      else let (a, s2) = sys env (Connect addr port) s1 in
        if an_ret a \<ge> 0 then Some (MB_OK, s2)
        else let pending = an_errno a in
          if pending \<noteq> EINPROGRESS \<and> pending \<noteq> EALREADY \<and> pending \<noteq> EINTR \<and> \<not> would_block pending
          then Some (MB_ERR_CONNECT, set_error pending s2)
          else case wait_ready env True deadline s2 of
            None \<Rightarrow> None
          | Some (e, s3) \<Rightarrow>
              if e \<noteq> MB_OK then Some (e, s3)
              else let (b, s4) = sys env Get_so_error s3 in
                if an_ret b < 0 then Some (MB_ERR_CONNECT, set_error (an_errno b) s4)
                else if an_so_error b \<noteq> 0 then Some (MB_ERR_CONNECT, set_error (an_so_error b) s4)
                else Some (MB_OK, s4))"

text \<open>Send the request, receive the header and then the rest; \<open>None\<close> inside is a failed exchange.\<close>

definition exchange :: "env \<Rightarrow> u8 list \<Rightarrow> u16 \<Rightarrow> u8 \<Rightarrow> u64 \<Rightarrow> io \<Rightarrow> (mb_error \<times> u8 list \<times> io) option" where
  "exchange env request tid unit deadline s =
     (case send_exact env request 0 deadline s of
        None \<Rightarrow> None
      | Some (e, s1) \<Rightarrow>
     if e \<noteq> MB_OK then Some (e, [], s1)
     else case receive_exact env 7 [] deadline s1 of
        None \<Rightarrow> None
      | Some (e, header, s2) \<Rightarrow>
     if e \<noteq> MB_OK then Some (e, header, s2)
     else case check_header header tid unit of
        None \<Rightarrow> None
      | Some e \<Rightarrow>
     if e \<noteq> MB_OK then Some (e, header, s2)
     else receive_exact env (6 + unat (be16 (header ! 4) (header ! 5))) header deadline s2)"

definition finish :: "env \<Rightarrow> u64 \<Rightarrow> int \<Rightarrow> mb_error \<Rightarrow> u8 \<Rightarrow> io \<Rightarrow> mb_result \<times> io" where
  "finish env started fd e exception s =
     (let s = (if fd \<ge> 0 then snd (sys env (Close fd) s) else s);
          (now, s) = mb_monotonic_ms env s;
          elapsed = now - started
      in (\<lparr>error = e, exception_code = exception,
           elapsed_ms = (if elapsed > ucast (- 1 :: u32) then - 1 else ucast elapsed),
           system_error = io_system_error s\<rparr>, s))"

text \<open>
  The body of \<open>mb_read_points\<close> up to the label \<open>done\<close>: the socket, the error, the exception code and
  the output array. \<open>inet_pton\<close> is the platform's address parser. A decode resets the result record,
  so \<open>system_error\<close> is cleared before the record is completed.
\<close>

definition attempt ::
    "env \<Rightarrow> (string \<Rightarrow> u32 option) \<Rightarrow> string option \<Rightarrow> u16 \<Rightarrow> u8 \<Rightarrow> u8 \<Rightarrow> u16 \<Rightarrow> u16 \<Rightarrow> u16 \<Rightarrow> u32 \<Rightarrow> u16 list option \<Rightarrow>
     u64 \<Rightarrow> io \<Rightarrow> (int \<times> mb_error \<times> u8 \<times> u16 list option \<times> io) option" where
  "attempt env inet_pton host port unit fn offset qty tid timeout_ms out deadline s =
     (let (size, request) = mb_build_read_request (Some (replicate MB_FC03_REQUEST_SIZE 0)) tid unit fn offset qty
      in if host = None \<or> out = None \<or> port = 0 \<or> timeout_ms = 0 \<or> size = 0
         then Some (- 1, MB_ERR_ARGUMENT, 0, out, s)
         else case inet_pton (the host) of
           None \<Rightarrow> Some (- 1, MB_ERR_ARGUMENT, 0, out, s)
         | Some addr \<Rightarrow>
             (case open_socket env s of (e, fd, s) \<Rightarrow>
              if e \<noteq> MB_OK then Some (fd, e, 0, out, s)
              else do {
                (e, s) \<leftarrow> connect_socket env addr port deadline s;
                if e \<noteq> MB_OK then Some (fd, e, 0, out, s)
                else do {
                  (e, frame, s) \<leftarrow> exchange env (the request) tid unit deadline s;
                  if e \<noteq> MB_OK then Some (fd, e, 0, out, s)
                  else do {
                    let len = 6 + unat (be16 (frame ! 4) (frame ! 5));
                    (d, out') \<leftarrow> mb_decode_read_response (Some frame) len tid unit fn qty out;
                    Some (fd, error d, exception_code d, out', set_error (system_error d) s) } } }))"

definition mb_read_points ::
    "env \<Rightarrow> (string \<Rightarrow> u32 option) \<Rightarrow> string option \<Rightarrow> u16 \<Rightarrow> u8 \<Rightarrow> u8 \<Rightarrow> u16 \<Rightarrow> u16 \<Rightarrow> u16 \<Rightarrow> u32 \<Rightarrow> u16 list option \<Rightarrow>
     (mb_result \<times> u16 list option \<times> io) option" where
  "mb_read_points env inet_pton host port unit fn offset qty tid timeout_ms out = do {
     let (started, s) = mb_monotonic_ms env \<lparr>io_log = [], io_system_error = 0\<rparr>;
     (fd, e, code, out', s) \<leftarrow>
       attempt env inet_pton host port unit fn offset qty tid timeout_ms out (started + ucast timeout_ms) s;
     let (r, s) = finish env started fd e code s;
     Some (r, out', s) }"

definition mb_read_holding ::
    "env \<Rightarrow> (string \<Rightarrow> u32 option) \<Rightarrow> string option \<Rightarrow> u16 \<Rightarrow> u8 \<Rightarrow> u16 \<Rightarrow> u16 \<Rightarrow> u16 \<Rightarrow> u32 \<Rightarrow> u16 list option \<Rightarrow>
     (mb_result \<times> u16 list option \<times> io) option" where
  "mb_read_holding env inet_pton host port unit offset qty tid timeout_ms out =
     mb_read_points env inet_pton host port unit 3 offset qty tid timeout_ms out"

section \<open>Lemmas\<close>

subsection \<open>Logs\<close>

lemma sys_simps [simp]:
  "io_log (snd (sys env c s)) = (c, env (length (io_log s)) c) # io_log s" "fst (sys env c s) = env (length (io_log s)) c"
  "io_system_error (snd (sys env c s)) = io_system_error s"
  by (simp_all add: sys_def Let_def)

lemma sys_eq: "sys env c s = (env (length (io_log s)) c, s\<lparr>io_log := (c, env (length (io_log s)) c) # io_log s\<rparr>)"
  by (simp add: sys_def Let_def)

lemma set_error_simps [simp]: "io_log (set_error e s) = io_log s" "io_system_error (set_error e s) = e"
  by (simp_all add: set_error_def)

lemma clock_eq: "mb_monotonic_ms env s = (an_clock (env (length (io_log s)) Clock) div 1000, s\<lparr>io_log := (Clock, env (length (io_log s)) Clock) # io_log s\<rparr>)"
  by (simp add: mb_monotonic_ms_def sys_eq)

subsection \<open>The loops return\<close>

text \<open>The clock passes every deadline after some number of calls, and stays past it.\<close>

definition clock_passes :: "env \<Rightarrow> u64 \<Rightarrow> nat \<Rightarrow> bool" where
  "clock_passes env deadline n \<longleftrightarrow> (\<forall>k \<ge> n. deadline \<le> an_clock (env k Clock) div 1000)"

lemma wait_ready_returns:
  assumes "clock_passes env deadline n"
  shows "\<exists>e s'. wait_ready env writing deadline s = Some (e, s') \<and> length (io_log s) < length (io_log s') \<and>
    (e = MB_OK \<longrightarrow> length (io_log s) < n)"
proof (induction "n - length (io_log s)" arbitrary: s rule: less_induct)
  case less
  let ?k = "length (io_log s)"
  let ?s1 = "s\<lparr>io_log := (Clock, env ?k Clock) # io_log s\<rparr>"
  show ?case
  proof (cases "deadline \<le> an_clock (env ?k Clock) div 1000")
    case True
    then show ?thesis by (subst wait_ready.simps) (simp add: clock_eq)
  next
    case False
    then have n: "?k < n" using assms by (auto simp: clock_passes_def not_le)
    define rem where "rem = unat (deadline - an_clock (env ?k Clock) div 1000)"
    define c where "c = Select writing (rem div 1000) (rem mod 1000 * 1000)"
    define a where "a = env (Suc ?k) c"
    define s2 where "s2 = ?s1\<lparr>io_log := (c, a) # io_log ?s1\<rparr>"
    have l: "length (io_log s2) = ?k + 2" by (simp add: s2_def)
    have IH: "\<exists>e s'. wait_ready env writing deadline s2 = Some (e, s') \<and> length (io_log s2) < length (io_log s') \<and>
      (e = MB_OK \<longrightarrow> length (io_log s2) < n)"
      by (rule less) (use n l in simp)
    have "wait_ready env writing deadline s =
      (if an_ret a > 0 then Some (before_deadline env deadline s2)
       else if an_ret a = 0 then Some (MB_ERR_TIMEOUT, s2)
       else if an_errno a \<noteq> EINTR then Some (MB_ERR_IO, set_error (an_errno a) s2)
       else wait_ready env writing deadline s2)"
      using False by (subst wait_ready.simps) (simp add: clock_eq sys_eq Let_def s2_def a_def c_def rem_def)
    then show ?thesis using IH n l by (auto simp: before_deadline_def clock_eq)
  qed
qed

lemma send_exact_returns:
  assumes "clock_passes env deadline n"
  shows "\<exists>e s'. send_exact env bytes position deadline s = Some (e, s')"
proof (induction "n - length (io_log s)" arbitrary: s position rule: less_induct)
  case less
  show ?case
  proof (cases "position < length bytes")
    case False
    then show ?thesis by (subst send_exact.simps) (simp add: before_deadline_def clock_eq)
  next
    case True
    obtain e s1 where w: "wait_ready env True deadline s = Some (e, s1)" "length (io_log s) < length (io_log s1)"
      "e = MB_OK \<longrightarrow> length (io_log s) < n"
      using wait_ready_returns [OF assms] by metis
    show ?thesis
    proof (cases "e = MB_OK")
      case ok: True
      have IH: "\<exists>e s'. send_exact env bytes p deadline (s1\<lparr>io_log := x # io_log s1\<rparr>) = Some (e, s')" for p x
        by (rule less) (use w ok in simp)
      show ?thesis using True w(1) ok IH by (subst send_exact.simps) (auto simp: sys_eq Let_def)
    next
      case False
      then show ?thesis using True w(1) by (subst send_exact.simps) simp
    qed
  qed
qed

lemma receive_exact_returns:
  assumes "clock_passes env deadline n"
  shows "\<exists>e got' s'. receive_exact env len got deadline s = Some (e, got', s') \<and> (e = MB_OK \<longrightarrow> len \<le> length got')"
proof (induction "n - length (io_log s)" arbitrary: s got rule: less_induct)
  case less
  show ?case
  proof (cases "length got < len")
    case False
    then show ?thesis by (subst receive_exact.simps) (simp add: before_deadline_def clock_eq)
  next
    case True
    obtain e s1 where w: "wait_ready env False deadline s = Some (e, s1)" "length (io_log s) < length (io_log s1)"
      "e = MB_OK \<longrightarrow> length (io_log s) < n"
      using wait_ready_returns [OF assms] by metis
    show ?thesis
    proof (cases "e = MB_OK")
      case ok: True
      have IH: "\<exists>e got' s'. receive_exact env len g deadline (s1\<lparr>io_log := x # io_log s1\<rparr>) = Some (e, got', s') \<and>
          (e = MB_OK \<longrightarrow> len \<le> length got')" for g x
        by (rule less) (use w ok in simp)
      show ?thesis using True w(1) ok IH by (subst receive_exact.simps) (auto simp: sys_eq Let_def)
    next
      case False
      then show ?thesis using True w(1) by (subst receive_exact.simps) simp
    qed
  qed
qed

lemma connect_returns:
  assumes "clock_passes env deadline n"
  shows "\<exists>e s'. connect_socket env addr port deadline s = Some (e, s')"
proof -
  have w: "\<exists>e s'. wait_ready env True deadline x = Some (e, s')" for x
    using wait_ready_returns [OF assms] by metis
  show ?thesis
    unfolding connect_socket_def Let_def clock_eq sys_eq case_prod_conv
    by (auto split: option.split) (metis option.distinct(1) w)+
qed

subsection \<open>Induction on a run of a loop\<close>

lemma wait_ready_induct [consumes 1, case_names Late Ready Stop Retry]:
  assumes "wait_ready env writing d s = Some r"
    and Late: "\<And>s. d \<le> fst (mb_monotonic_ms env s) \<Longrightarrow> P s (MB_ERR_TIMEOUT, snd (mb_monotonic_ms env s))"
    and Ready: "\<And>s now s1 rem a s2. mb_monotonic_ms env s = (now, s1) \<Longrightarrow> now < d \<Longrightarrow> rem = unat (d - now) \<Longrightarrow>
      sys env (Select writing (rem div 1000) (rem mod 1000 * 1000)) s1 = (a, s2) \<Longrightarrow> an_ret a > 0 \<Longrightarrow>
      P s (before_deadline env d s2)"
    and Stop: "\<And>s now s1 rem a s2 e s3. mb_monotonic_ms env s = (now, s1) \<Longrightarrow> now < d \<Longrightarrow> rem = unat (d - now) \<Longrightarrow>
      sys env (Select writing (rem div 1000) (rem mod 1000 * 1000)) s1 = (a, s2) \<Longrightarrow> an_ret a \<le> 0 \<Longrightarrow>
      e \<noteq> MB_OK \<Longrightarrow> io_log s3 = io_log s2 \<Longrightarrow> P s (e, s3)"
    and Retry: "\<And>s now s1 rem a s2 r. mb_monotonic_ms env s = (now, s1) \<Longrightarrow> now < d \<Longrightarrow> rem = unat (d - now) \<Longrightarrow>
      sys env (Select writing (rem div 1000) (rem mod 1000 * 1000)) s1 = (a, s2) \<Longrightarrow> an_ret a < 0 \<Longrightarrow>
      P s2 r \<Longrightarrow> P s r"
  shows "P s r"
proof -
  have "env = env \<and> writing = writing \<and> d = d \<longrightarrow> P s r"
  proof (rule wait_ready.raw_induct [where P = "\<lambda>en wr d' s r. en = env \<and> wr = writing \<and> d' = d \<longrightarrow> P s r", OF _ assms(1)],
      intro impI, elim conjE)
    fix f en wr d' s r
    assume IH: "\<And>en wr d' s r. f en wr d' s = Some r \<Longrightarrow> en = env \<and> wr = writing \<and> d' = d \<longrightarrow> P s r"
      and eqs: "en = env" "wr = writing" "d' = d"
      and body: "(let (now, s1) = mb_monotonic_ms en s
        in if d' \<le> now then Some (MB_ERR_TIMEOUT, s1)
           else let remaining = unat (d' - now);
                    (a, s2) = sys en (Select wr (remaining div 1000) (remaining mod 1000 * 1000)) s1
                in if 0 < an_ret a then Some (before_deadline en d' s2)
                   else if an_ret a = 0 then Some (MB_ERR_TIMEOUT, s2)
                   else if an_errno a \<noteq> EINTR then Some (MB_ERR_IO, set_error (an_errno a) s2)
                   else f en wr d' s2) = Some r"
    obtain now s1 where c: "mb_monotonic_ms env s = (now, s1)" by fastforce
    define rem where "rem = unat (d - now)"
    obtain a s2 where y: "sys env (Select writing (rem div 1000) (rem mod 1000 * 1000)) s1 = (a, s2)" by fastforce
    show "P s r"
    proof (cases "d \<le> now")
      case True
      then show ?thesis using body Late [of s] c by (simp add: eqs)
    next
      case False
      then have "now < d" by simp
      note ctx = c this rem_def y
      consider "an_ret a > 0" | "an_ret a = 0" | "an_ret a < 0" "an_errno a \<noteq> EINTR" | "an_ret a < 0" "an_errno a = EINTR"
        by linarith
      then show ?thesis
        using body False c y Ready [OF ctx] Stop [OF ctx] Retry [OF ctx] IH [of env writing d s2 r]
        by cases (auto simp: eqs Let_def simp flip: rem_def)
    qed
  qed
  then show ?thesis by simp
qed

lemma send_exact_induct [consumes 1, case_names Done Wait Stop Step Retry]:
  assumes "send_exact env bytes p d s = Some r"
    and Done: "\<And>p s. length bytes \<le> p \<Longrightarrow> P p s (before_deadline env d s)"
    and Wait: "\<And>p s e s1. p < length bytes \<Longrightarrow> wait_ready env True d s = Some (e, s1) \<Longrightarrow> e \<noteq> MB_OK \<Longrightarrow> P p s (e, s1)"
    and Stop: "\<And>p s s1 a s2 e s3. p < length bytes \<Longrightarrow> wait_ready env True d s = Some (MB_OK, s1) \<Longrightarrow>
      sys env (Send (drop p bytes)) s1 = (a, s2) \<Longrightarrow> an_ret a \<le> 0 \<Longrightarrow> e \<noteq> MB_OK \<Longrightarrow> io_log s3 = io_log s2 \<Longrightarrow> P p s (e, s3)"
    and Step: "\<And>p s s1 a s2 r. p < length bytes \<Longrightarrow> wait_ready env True d s = Some (MB_OK, s1) \<Longrightarrow>
      sys env (Send (drop p bytes)) s1 = (a, s2) \<Longrightarrow> an_ret a > 0 \<Longrightarrow> P (p + nat (an_ret a)) s2 r \<Longrightarrow> P p s r"
    and Retry: "\<And>p s s1 a s2 r. p < length bytes \<Longrightarrow> wait_ready env True d s = Some (MB_OK, s1) \<Longrightarrow>
      sys env (Send (drop p bytes)) s1 = (a, s2) \<Longrightarrow> an_ret a < 0 \<Longrightarrow> P p s2 r \<Longrightarrow> P p s r"
  shows "P p s r"
proof -
  have "env = env \<and> bytes = bytes \<and> d = d \<longrightarrow> P p s r"
  proof (rule send_exact.raw_induct [where P = "\<lambda>en bs p d' s r. en = env \<and> bs = bytes \<and> d' = d \<longrightarrow> P p s r", OF _ assms(1)],
      intro impI, elim conjE)
    fix f en bs p d' s r
    assume IH: "\<And>en bs p d' s r. f en bs p d' s = Some r \<Longrightarrow> en = env \<and> bs = bytes \<and> d' = d \<longrightarrow> P p s r"
      and eqs: "en = env" "bs = bytes" "d' = d"
      and body: "(if p < length bs then
        (case wait_ready en True d' s of
           None \<Rightarrow> None
         | Some (e, s1) \<Rightarrow>
             if e \<noteq> MB_OK then Some (e, s1)
             else let (a, s2) = sys en (Send (drop p bs)) s1 in
               if 0 < an_ret a then f en bs (p + nat (an_ret a)) d' s2
               else if an_ret a = 0 then Some (MB_ERR_IO, s2)
               else if an_errno a \<noteq> EINTR \<and> \<not> would_block (an_errno a)
               then Some (MB_ERR_IO, set_error (an_errno a) s2)
               else f en bs p d' s2)
      else Some (before_deadline en d' s)) = Some r"
    show "P p s r"
    proof (cases "p < length bytes")
      case False
      then show ?thesis using body Done [of p s] by (simp add: eqs)
    next
      case lt: True
      obtain e s1 where w: "wait_ready env True d s = Some (e, s1)"
        using body lt by (auto simp: eqs split: option.splits)
      obtain a s2 where y: "sys env (Send (drop p bytes)) s1 = (a, s2)" by fastforce
      show ?thesis
      proof (cases "e = MB_OK")
        case False
        then show ?thesis using body lt w Wait [OF lt w] by (simp add: eqs)
      next
        case True
        note ctx = lt w [unfolded True] y
        consider "an_ret a > 0" | "an_ret a = 0" | "an_ret a < 0" by linarith
        then show ?thesis
          using body True lt w y Stop [OF ctx] Step [OF ctx] Retry [OF ctx]
            IH [of env bytes "p + nat (an_ret a)" d s2 r] IH [of env bytes p d s2 r]
          by cases (auto simp: eqs Let_def split: if_splits)
      qed
    qed
  qed
  then show ?thesis by simp
qed

lemma receive_exact_induct [consumes 1, case_names Done Wait Stop Step Retry]:
  assumes "receive_exact env n got d s = Some (e, got', s')"
    and Done: "\<And>got s e s'. n \<le> length got \<Longrightarrow> before_deadline env d s = (e, s') \<Longrightarrow> P got s e got s'"
    and Wait: "\<And>got s e s1. length got < n \<Longrightarrow> wait_ready env False d s = Some (e, s1) \<Longrightarrow> e \<noteq> MB_OK \<Longrightarrow> P got s e got s1"
    and Stop: "\<And>got s s1 a s2 e s3. length got < n \<Longrightarrow> wait_ready env False d s = Some (MB_OK, s1) \<Longrightarrow>
      sys env (Recv (n - length got)) s1 = (a, s2) \<Longrightarrow> an_ret a \<le> 0 \<Longrightarrow> e \<noteq> MB_OK \<Longrightarrow> io_log s3 = io_log s2 \<Longrightarrow> P got s e got s3"
    and Step: "\<And>got s s1 a s2 e got' s'. length got < n \<Longrightarrow> wait_ready env False d s = Some (MB_OK, s1) \<Longrightarrow>
      sys env (Recv (n - length got)) s1 = (a, s2) \<Longrightarrow> an_ret a > 0 \<Longrightarrow>
      P (got @ take (nat (an_ret a)) (an_bytes a)) s2 e got' s' \<Longrightarrow> P got s e got' s'"
    and Retry: "\<And>got s s1 a s2 e got' s'. length got < n \<Longrightarrow> wait_ready env False d s = Some (MB_OK, s1) \<Longrightarrow>
      sys env (Recv (n - length got)) s1 = (a, s2) \<Longrightarrow> an_ret a < 0 \<Longrightarrow> P got s2 e got' s' \<Longrightarrow> P got s e got' s'"
  shows "P got s e got' s'"
proof -
  have "env = env \<and> n = n \<and> d = d \<longrightarrow> (\<lambda>(e, got', s'). P got s e got' s') (e, got', s')"
  proof (rule receive_exact.raw_induct [where P = "\<lambda>en n' got d' s r. en = env \<and> n' = n \<and> d' = d \<longrightarrow>
        (\<lambda>(e, got', s'). P got s e got' s') r", OF _ assms(1)],
      intro impI, elim conjE)
    fix f en n' got d' s r
    assume IH: "\<And>en n' got d' s r. f en n' got d' s = Some r \<Longrightarrow> en = env \<and> n' = n \<and> d' = d \<longrightarrow>
        (\<lambda>(e, got', s'). P got s e got' s') r"
      and eqs: "en = env" "n' = n" "d' = d"
      and body: "(if length got < n' then
        (case wait_ready en False d' s of
           None \<Rightarrow> None
         | Some (e, s1) \<Rightarrow>
             if e \<noteq> MB_OK then Some (e, got, s1)
             else let (a, s2) = sys en (Recv (n' - length got)) s1 in
               if 0 < an_ret a then f en n' (got @ take (nat (an_ret a)) (an_bytes a)) d' s2
               else if an_ret a = 0 then Some (MB_ERR_TRUNCATED, got, s2)
               else if an_errno a \<noteq> EINTR \<and> \<not> would_block (an_errno a)
               then Some (MB_ERR_IO, got, set_error (an_errno a) s2)
               else f en n' got d' s2)
      else (let (e, s1) = before_deadline en d' s in Some (e, got, s1))) = Some r"
    obtain re rg rs where r: "r = (re, rg, rs)" by (rule prod_cases3)
    show "(\<lambda>(e, got', s'). P got s e got' s') r"
    proof (cases "length got < n")
      case False
      then show ?thesis using body Done [of got s] by (auto simp: eqs split: prod.splits)
    next
      case lt: True
      obtain e s1 where w: "wait_ready env False d s = Some (e, s1)"
        using body lt by (auto simp: eqs split: option.splits)
      obtain a s2 where y: "sys env (Recv (n - length got)) s1 = (a, s2)" by fastforce
      show ?thesis
      proof (cases "e = MB_OK")
        case False
        then show ?thesis using body lt w Wait [OF lt w] by (auto simp: eqs)
      next
        case True
        note ctx = lt w [unfolded True] y
        consider "an_ret a > 0" | "an_ret a = 0" | "an_ret a < 0" by linarith
        then show ?thesis
          using body True lt w y Stop [OF ctx] Step [OF ctx, of re rg rs] Retry [OF ctx, of re rg rs]
            IH [of env n "got @ take (nat (an_ret a)) (an_bytes a)" d s2 r] IH [of env n got d s2 r]
          by cases (auto simp: eqs r Let_def split: if_splits)
      qed
    qed
  qed
  then show ?thesis by simp
qed

subsection \<open>One request returns\<close>

lemma receive_exact_prefix:
  "receive_exact env n got d s = Some (e, got', s') \<Longrightarrow> take (length got) got' = got"
proof (induction got s e got' s' rule: receive_exact_induct)
  case (Step got s s1 a s2 e got' s')
  then show ?case by (metis append_eq_conv_conj append_take_drop_id append.assoc)
qed auto

lemma exchange_returns:
  assumes "clock_passes env deadline n"
  shows "\<exists>e frame s'. exchange env request tid unit deadline s = Some (e, frame, s') \<and>
    (e = MB_OK \<longrightarrow> 6 + unat (be16 (frame ! 4) (frame ! 5)) \<le> length frame)"
proof -
  obtain e1 s1 where 1: "send_exact env request 0 deadline s = Some (e1, s1)"
    using send_exact_returns [OF assms] by blast
  obtain e2 h s2 where 2: "receive_exact env 7 [] deadline s1 = Some (e2, h, s2)" "e2 = MB_OK \<longrightarrow> 7 \<le> length h"
    using receive_exact_returns [OF assms, of 7 "[]" s1] by blast
  obtain e4 fr s3 where 4: "receive_exact env (6 + unat (be16 (h ! 4) (h ! 5))) h deadline s2 = Some (e4, fr, s3)"
      "e4 = MB_OK \<longrightarrow> 6 + unat (be16 (h ! 4) (h ! 5)) \<le> length fr"
    using receive_exact_returns [OF assms] by blast
  have p: "take (length h) fr = h"
    by (rule receive_exact_prefix [OF 4(1)])
  have nth: "fr ! i = h ! i" if "i < length h" for i
    using p that by (metis nth_take)
  show ?thesis
  proof (cases "e1 = MB_OK \<and> e2 = MB_OK")
    case True
    then have h: "7 \<le> length h" using 2 by simp
    obtain e3 where 3: "check_header h tid unit = Some e3"
      using check_header_eq [OF h] by blast
    show ?thesis using 1 2 3 4 True h nth by (auto simp: exchange_def)
  next
    case False
    then show ?thesis using 1 2 by (auto simp: exchange_def)
  qed
qed

lemma attempt_returns:
  assumes "clock_passes env deadline n"
  shows "\<exists>fd e code out' s'.
    attempt env inet_pton host port unit fn offset qty tid timeout_ms out deadline s = Some (fd, e, code, out', s') \<and>
    (e \<noteq> MB_OK \<longrightarrow> out' = out) \<and> (code \<noteq> 0 \<longrightarrow> e = MB_ERR_EXCEPTION)"
proof -
  obtain sz rq where r: "mb_build_read_request (Some (replicate MB_FC03_REQUEST_SIZE 0)) tid unit fn offset qty = (sz, rq)"
    by (cases "mb_build_read_request (Some (replicate MB_FC03_REQUEST_SIZE 0)) tid unit fn offset qty")
  show ?thesis
  proof (cases "host = None \<or> out = None \<or> port = 0 \<or> timeout_ms = 0 \<or> sz = 0 \<or> inet_pton (the host) = None")
    case True
    then show ?thesis by (auto simp: attempt_def r)
  next
    case False
    then obtain addr old where a: "inet_pton (the host) = Some addr" "out = Some old" by auto
    obtain e1 fd s1 where 1: "open_socket env s = (e1, fd, s1)" by (rule prod_cases3)
    obtain e2 s2 where 2: "connect_socket env addr port deadline s1 = Some (e2, s2)"
      using connect_returns [OF assms] by blast
    obtain e3 frame s3 where 3: "exchange env (the rq) tid unit deadline s2 = Some (e3, frame, s3)"
        "e3 = MB_OK \<longrightarrow> 6 + unat (be16 (frame ! 4) (frame ! 5)) \<le> length frame"
      using exchange_returns [OF assms] by blast
    show ?thesis
    proof (cases "e1 = MB_OK \<and> e2 = MB_OK \<and> e3 = MB_OK")
      case True
      then obtain d new where
        "mb_decode_read_response (Some frame) (6 + unat (be16 (frame ! 4) (frame ! 5))) tid unit fn qty (Some old) = Some (d, Some new)"
        "error d \<noteq> MB_OK \<longrightarrow> new = old" "exception_code d \<noteq> 0 \<longleftrightarrow> error d = MB_ERR_EXCEPTION"
        using 3 decode_contract by metis
      then show ?thesis using False a 1 2 3 True by (auto simp: attempt_def r Let_def)
    next
      case no: False
      then show ?thesis using False a 1 2 3 by (auto simp: attempt_def r Let_def)
    qed
  qed
qed

subsection \<open>What a log says\<close>

fun sent :: "(syscall \<times> answer) list \<Rightarrow> u8 list" where
  "sent [] = []"
| "sent ((Send bs, a) # l) = sent l @ take (nat (an_ret a)) bs"
| "sent (_ # l) = sent l"

fun received :: "(syscall \<times> answer) list \<Rightarrow> u8 list" where
  "received [] = []"
| "received ((Recv n, a) # l) = received l @ take (nat (an_ret a)) (an_bytes a)"
| "received (_ # l) = received l"

fun connections :: "(syscall \<times> answer) list \<Rightarrow> (u32 \<times> u16) list" where
  "connections [] = []"
| "connections ((Connect h p, a) # l) = (h, p) # connections l"
| "connections (_ # l) = connections l"

fun sockets :: "(syscall \<times> answer) list \<Rightarrow> int list \<times> int list" where
  \<comment> \<open>the sockets opened and those closed\<close>
  "sockets [] = ([], [])"
| "sockets ((Socket, a) # l) = (if an_ret a < 0 then sockets l else apfst ((#) (an_ret a)) (sockets l))"
| "sockets ((Close fd, a) # l) = apsnd ((#) fd) (sockets l)"
| "sockets (_ # l) = sockets l"

text \<open>The newest entry is a clock reading below the deadline.\<close>

fun in_time :: "u64 \<Rightarrow> (syscall \<times> answer) list \<Rightarrow> bool" where
  "in_time d ((Clock, a) # l) = (an_clock a div 1000 < d)"
| "in_time d _ = False"

text \<open>
  Every wait, connection and transfer directly follows a clock reading below the deadline; a wait
  asks for exactly the time left; a receive asks for no more than the response buffer can hold.
\<close>

fun timely :: "u64 \<Rightarrow> (syscall \<times> answer) list \<Rightarrow> bool" where
  "timely d [] = True"
| "timely d ((Select w sec usec, a) # l) = (timely d l \<and> in_time d l \<and>
     1000000 * sec + usec = 1000 * unat (d - an_clock (snd (hd l)) div 1000))"
| "timely d ((Connect h p, a) # l) = (timely d l \<and> in_time d l)"
| "timely d ((Send bs, a) # l) = (timely d l \<and> in_time d l)"
| "timely d ((Recv n, a) # l) = (timely d l \<and> in_time d l \<and> length (received l) + n \<le> MB_MAX_RESPONSE_SIZE)"
| "timely d (_ # l) = timely d l"

text \<open>What a socket implementation guarantees: no more is transferred than was asked for.\<close>

definition sane :: "env \<Rightarrow> bool" where
  "sane env \<longleftrightarrow> (\<forall>k bs. an_ret (env k (Send bs)) \<le> int (length bs)) \<and>
     (\<forall>k n. an_ret (env k (Recv n)) \<le> int n \<and> an_ret (env k (Recv n)) \<le> int (length (an_bytes (env k (Recv n)))))"

lemma sane_send: "sane env \<Longrightarrow> an_ret (env k (Send bs)) \<le> int (length bs)"
  by (simp add: sane_def)

lemma sane_recv: "sane env \<Longrightarrow> an_ret (env k (Recv n)) \<le> int n \<and> an_ret (env k (Recv n)) \<le> int (length (an_bytes (env k (Recv n))))"
  by (simp add: sane_def)

definition same_wire :: "io \<Rightarrow> io \<Rightarrow> bool" where
  "same_wire s s' \<longleftrightarrow> sent (io_log s') = sent (io_log s) \<and> received (io_log s') = received (io_log s) \<and>
     connections (io_log s') = connections (io_log s) \<and> sockets (io_log s') = sockets (io_log s)"

lemma same_wire_trans: "same_wire s t \<Longrightarrow> same_wire t u \<Longrightarrow> same_wire s u"
  by (simp add: same_wire_def)

lemma before_deadline_log:
  "before_deadline env d s = (e, s') \<Longrightarrow> (e = MB_OK \<longrightarrow> in_time d (io_log s')) \<and> same_wire s s' \<and>
     (timely d (io_log s) \<longrightarrow> timely d (io_log s'))"
  by (auto simp: before_deadline_def clock_eq same_wire_def split: if_splits)

lemma select_time: "1000000 * (r div 1000) + r mod 1000 * 1000 = 1000 * (r :: nat)"
  using mult_div_mod_eq [of 1000 r] by linarith

lemma wait_ready_log:
  "wait_ready env writing d s = Some (e, s') \<Longrightarrow> (e = MB_OK \<longrightarrow> in_time d (io_log s')) \<and> same_wire s s' \<and>
     (timely d (io_log s) \<longrightarrow> timely d (io_log s'))"
proof (induction s "(e, s')" arbitrary: e s' rule: wait_ready_induct)
  case (Late s)
  then show ?case by (auto simp: clock_eq same_wire_def)
next
  case (Ready s now s1 rem a s2)
  have "same_wire s s2" "timely d (io_log s) \<longrightarrow> timely d (io_log s2)"
    using Ready by (auto simp: clock_eq sys_eq same_wire_def select_time)
  then show ?case using before_deadline_log [OF Ready(6)] by (auto intro: same_wire_trans)
next
  case (Stop s now s1 rem a s2 e s3)
  then show ?case by (auto simp: clock_eq sys_eq same_wire_def select_time)
next
  case (Retry s now s1 rem a s2 e s')
  have "same_wire s s2" "timely d (io_log s) \<longrightarrow> timely d (io_log s2)"
    using Retry by (auto simp: clock_eq sys_eq same_wire_def select_time)
  then show ?case using Retry same_wire_trans by blast
qed

lemma send_exact_log:
  assumes "send_exact env bytes p d s = Some (e, s')" "sane env" "p \<le> length bytes"
  shows "(timely d (io_log s) \<longrightarrow> timely d (io_log s')) \<and>
    (e = MB_OK \<longrightarrow> sent (io_log s') = sent (io_log s) @ drop p bytes) \<and>
    received (io_log s') = received (io_log s) \<and> connections (io_log s') = connections (io_log s) \<and>
    sockets (io_log s') = sockets (io_log s)"
  using assms(1,3)
proof (induction p s "(e, s')" arbitrary: e s' rule: send_exact_induct)
  case (Done p s)
  then show ?case using before_deadline_log [of env d s e s'] by (auto simp: same_wire_def)
next
  case (Wait p s e s1)
  then show ?case using wait_ready_log [of env True d s e s1] by (auto simp: same_wire_def)
next
  case (Stop p s s1 a s2 e s3)
  then show ?case using wait_ready_log [OF Stop(2)] by (auto simp: same_wire_def sys_eq)
next
  case (Step p s s1 a s2 e s')
  have le: "nat (an_ret a) \<le> length bytes - p"
    using Step(3) sane_send [OF assms(2), of "length (io_log s1)" "drop p bytes"] by (auto simp: sys_eq nat_le_iff)
  have "drop p bytes = take (nat (an_ret a)) (drop p bytes) @ drop (p + nat (an_ret a)) bytes"
    by (metis add.commute append_take_drop_id drop_drop)
  moreover have "sent (io_log s2) = sent (io_log s) @ take (nat (an_ret a)) (drop p bytes)"
    "received (io_log s2) = received (io_log s)" "connections (io_log s2) = connections (io_log s)"
    "sockets (io_log s2) = sockets (io_log s)" "timely d (io_log s) \<longrightarrow> timely d (io_log s2)"
    using wait_ready_log [OF Step(2)] Step(3) by (auto simp: same_wire_def sys_eq)
  moreover have "p + nat (an_ret a) \<le> length bytes" using le Step(1) by simp
  ultimately show ?case using Step(5) by (metis append.assoc)
next
  case (Retry p s s1 a s2 e s')
  then show ?case using wait_ready_log [OF Retry(2)] by (auto simp: same_wire_def sys_eq)
qed

lemma receive_exact_log:
  assumes "receive_exact env n got d s = Some (e, got', s')" "sane env" "length got \<le> n"
    "length (received (io_log s)) = length got" "n \<le> MB_MAX_RESPONSE_SIZE"
  shows "(timely d (io_log s) \<longrightarrow> timely d (io_log s')) \<and>
    received (io_log s') = received (io_log s) @ drop (length got) got' \<and> take (length got) got' = got \<and>
    length got \<le> length got' \<and> length got' \<le> n \<and> (e = MB_OK \<longrightarrow> length got' = n) \<and>
    sent (io_log s') = sent (io_log s) \<and> connections (io_log s') = connections (io_log s) \<and>
    sockets (io_log s') = sockets (io_log s)"
  using assms(1,3,4)
proof (induction got s e got' s' rule: receive_exact_induct)
  case (Done got s e s')
  then show ?case using before_deadline_log [of env d s e s'] by (auto simp: same_wire_def)
next
  case (Wait got s e s1)
  then show ?case using wait_ready_log [of env False d s e s1] by (auto simp: same_wire_def)
next
  case (Stop got s s1 a s2 e s3)
  then show ?case using wait_ready_log [OF Stop(2)] assms(5) by (auto simp: same_wire_def sys_eq)
next
  case (Step got s s1 a s2 e got' s')
  let ?new = "take (nat (an_ret a)) (an_bytes a)"
  have le: "nat (an_ret a) \<le> n - length got" "nat (an_ret a) \<le> length (an_bytes a)"
    using Step(3) sane_recv [OF assms(2), of "length (io_log s1)" "n - length got"] by (auto simp: sys_eq nat_le_iff)
  have t: "timely d (io_log s) \<longrightarrow> timely d (io_log s2)" "received (io_log s2) = received (io_log s) @ ?new"
    "sent (io_log s2) = sent (io_log s)" "connections (io_log s2) = connections (io_log s)"
    "sockets (io_log s2) = sockets (io_log s)"
    using wait_ready_log [OF Step(2)] Step(1,3,7) assms(5) by (auto simp: same_wire_def sys_eq)
  have IH: "(timely d (io_log s2) \<longrightarrow> timely d (io_log s')) \<and>
    received (io_log s') = received (io_log s2) @ drop (length (got @ ?new)) got' \<and> take (length (got @ ?new)) got' = got @ ?new \<and>
    length (got @ ?new) \<le> length got' \<and> length got' \<le> n \<and> (e = MB_OK \<longrightarrow> length got' = n) \<and>
    sent (io_log s') = sent (io_log s2) \<and> connections (io_log s') = connections (io_log s2) \<and>
    sockets (io_log s') = sockets (io_log s2)"
    by (rule Step(5)) (use le Step(1,7) t in auto)
  then have g: "got' = (got @ ?new) @ drop (length (got @ ?new)) got'"
    by (metis append_take_drop_id)
  then have "drop (length got) got' = ?new @ drop (length (got @ ?new)) got'" "take (length got) got' = got"
    by (metis append.assoc append_eq_conv_conj)+
  then show ?case using IH t by auto
next
  case (Retry got s s1 a s2 e got' s')
  then show ?case using wait_ready_log [OF Retry(2)] assms(5) by (auto simp: same_wire_def sys_eq)
qed

subsection \<open>The log of a whole request\<close>

lemma open_socket_log:
  assumes "open_socket env s = (e, fd, s')"
  shows "timely d (io_log s) \<longrightarrow> timely d (io_log s')" "sent (io_log s') = sent (io_log s)"
    "received (io_log s') = received (io_log s)" "connections (io_log s') = connections (io_log s)"
    "sockets (io_log s') = (if fd \<ge> 0 then apfst ((#) fd) (sockets (io_log s)) else sockets (io_log s))"
    "fd < 0 \<longrightarrow> e \<noteq> MB_OK"
  using assms by (auto simp: open_socket_def sys_eq Let_def split: if_splits)

lemma connect_socket_log:
  assumes "connect_socket env addr port d s = Some (e, s')"
  shows "timely d (io_log s) \<longrightarrow> timely d (io_log s')" "sent (io_log s') = sent (io_log s)"
    "received (io_log s') = received (io_log s)" "sockets (io_log s') = sockets (io_log s)"
    "connections (io_log s') = connections (io_log s) \<and> e \<noteq> MB_OK \<or>
     connections (io_log s') = (addr, port) # connections (io_log s)"
  using assms wait_ready_log [of env True d]
  by (auto simp: connect_socket_def clock_eq sys_eq Let_def same_wire_def split: if_splits option.splits prod.splits)

lemma exchange_log:
  assumes ex: "exchange env request tid unit d s = Some (e, frame, s')" "sane env" "received (io_log s) = []"
  shows "timely d (io_log s) \<longrightarrow> timely d (io_log s')" "connections (io_log s') = connections (io_log s)"
    "sockets (io_log s') = sockets (io_log s)" "length (received (io_log s')) \<le> MB_MAX_RESPONSE_SIZE"
    "e = MB_OK \<longrightarrow> sent (io_log s') = sent (io_log s) @ request \<and> received (io_log s') = frame \<and>
       length frame = 6 + unat (be16 (frame ! 4) (frame ! 5))"
proof -
  obtain e1 s1 where 1: "send_exact env request 0 d s = Some (e1, s1)"
    using ex(1) by (auto simp: exchange_def split: option.splits)
  note L1 = send_exact_log [OF 1 assms(2), simplified]
  let ?G = "(timely d (io_log s) \<longrightarrow> timely d (io_log s')) \<and> connections (io_log s') = connections (io_log s) \<and>
    sockets (io_log s') = sockets (io_log s) \<and> length (received (io_log s')) \<le> MB_MAX_RESPONSE_SIZE \<and>
    (e = MB_OK \<longrightarrow> sent (io_log s') = sent (io_log s) @ request \<and> received (io_log s') = frame \<and>
       length frame = 6 + unat (be16 (frame ! 4) (frame ! 5)))"
  have ?G
  proof (cases "e1 = MB_OK")
    case False
    then show ?thesis using ex(1) 1 L1 assms(3) by (auto simp: exchange_def)
  next
    case ok1: True
    then obtain e2 h s2 where 2: "receive_exact env 7 [] d s1 = Some (e2, h, s2)"
      using ex(1) 1 by (auto simp: exchange_def split: option.splits)
    have L2: "(timely d (io_log s1) \<longrightarrow> timely d (io_log s2)) \<and> received (io_log s2) = h \<and> length h \<le> 7 \<and>
      (e2 = MB_OK \<longrightarrow> length h = 7) \<and> sent (io_log s2) = sent (io_log s1) \<and>
      connections (io_log s2) = connections (io_log s1) \<and> sockets (io_log s2) = sockets (io_log s1)"
      using receive_exact_log [OF 2 assms(2)] L1 assms(3) by (auto simp: cdefs)
    show ?thesis
    proof (cases "e2 = MB_OK")
      case False
      then show ?thesis using ex(1) 1 ok1 2 L1 L2 by (auto simp: exchange_def cdefs)
    next
      case ok2: True
      with L2 have h: "length h = 7" by simp
      obtain e3 where 3: "check_header h tid unit = Some e3"
        using check_header_eq [of h] h by auto
      show ?thesis
      proof (cases "e3 = MB_OK")
        case False
        then show ?thesis using ex(1) 1 ok1 2 ok2 3 L1 L2 by (auto simp: exchange_def cdefs)
      next
        case ok3: True
        let ?n = "6 + unat (be16 (h ! 4) (h ! 5))"
        have n: "7 \<le> ?n" "?n \<le> MB_MAX_RESPONSE_SIZE"
          using 3 ok3 check_header_eq [of h tid unit] h by (auto simp: cdefs split: if_splits)
        have 4: "receive_exact env ?n h d s2 = Some (e, frame, s')"
          using ex(1) 1 ok1 2 ok2 3 ok3 by (auto simp: exchange_def)
        have L4: "(timely d (io_log s2) \<longrightarrow> timely d (io_log s')) \<and> received (io_log s') = received (io_log s2) @ drop 7 frame \<and>
          take 7 frame = h \<and> length frame \<le> ?n \<and> (e = MB_OK \<longrightarrow> length frame = ?n) \<and>
          sent (io_log s') = sent (io_log s2) \<and> connections (io_log s') = connections (io_log s2) \<and>
          sockets (io_log s') = sockets (io_log s2)"
          using receive_exact_log [OF 4 assms(2)] L2 h n by auto
        have hd: "h = take 7 frame" using L4 by simp
        have "received (io_log s') = take 7 frame @ drop 7 frame" using L4 L2 hd by simp
        then have "received (io_log s') = frame" by simp
        moreover have "frame ! 4 = h ! 4" "frame ! 5 = h ! 5" by (simp_all add: hd)
        ultimately show ?thesis
          using L1 L2 L4 ok1 ok2 n by auto
      qed
    qed
  qed
  then show "timely d (io_log s) \<longrightarrow> timely d (io_log s')" "connections (io_log s') = connections (io_log s)"
    "sockets (io_log s') = sockets (io_log s)" "length (received (io_log s')) \<le> MB_MAX_RESPONSE_SIZE"
    "e = MB_OK \<longrightarrow> sent (io_log s') = sent (io_log s) @ request \<and> received (io_log s') = frame \<and>
       length frame = 6 + unat (be16 (frame ! 4) (frame ! 5))"
    by blast+
qed

lemma request_bytes:
  assumes "mb_build_read_request (Some (replicate MB_FC03_REQUEST_SIZE 0)) tid unit fn offset qty = (sz, rq)" "sz \<noteq> 0"
  shows "the rq = mbap_frame tid unit (fn # write_be16 offset @ write_be16 qty) \<and> 1 \<le> fn \<and> fn \<le> 4 \<and>
    valid_quantity qty \<and> unat offset + unat qty \<le> 65536"
  using assms
  by (auto simp: mb_build_read_request_def mbap_frame_def blit_def cdefs write_be16_def request_fits one_le_word
        not_less split: if_splits)

lemma connect_checked:
  assumes "attempt env inet_pton host port unit fn offset qty tid timeout_ms out d s = Some (fd, e, code, out', s')"
  obtains (refused) "fd = - 1" "e = MB_ERR_ARGUMENT" "s' = s" "out' = out"
  | (tried) h old addr where "host = Some h" "out = Some old" "inet_pton h = Some addr"
      "1 \<le> fn" "fn \<le> 4" "valid_quantity qty" "unat offset + unat qty \<le> 65536"
      "(case open_socket env s of (e, fd, s) \<Rightarrow>
              if e \<noteq> MB_OK then Some (fd, e, 0, out, s)
              else do {
                (e, s) \<leftarrow> connect_socket env addr port d s;
                if e \<noteq> MB_OK then Some (fd, e, 0, out, s)
                else do {
                  (e, frame, s) \<leftarrow> exchange env (mbap_frame tid unit (fn # write_be16 offset @ write_be16 qty)) tid unit d s;
                  if e \<noteq> MB_OK then Some (fd, e, 0, out, s)
                  else do {
                    (d, out') \<leftarrow> mb_decode_read_response (Some frame) (6 + unat (be16 (frame ! 4) (frame ! 5))) tid unit fn qty out;
                    Some (fd, error d, exception_code d, out', set_error (system_error d) s) } } }) = Some (fd, e, code, out', s')"
proof -
  obtain sz rq where r: "mb_build_read_request (Some (replicate MB_FC03_REQUEST_SIZE 0)) tid unit fn offset qty = (sz, rq)"
    by (cases "mb_build_read_request (Some (replicate MB_FC03_REQUEST_SIZE 0)) tid unit fn offset qty")
  show thesis
  proof (cases "host = None \<or> out = None \<or> port = 0 \<or> timeout_ms = 0 \<or> sz = 0 \<or> inet_pton (the host) = None")
    case True
    then show thesis using assms refused by (auto simp: attempt_def r split: if_splits option.splits)
  next
    case False
    then obtain h old addr where "host = Some h" "out = Some old" "inet_pton h = Some addr" by auto
    moreover have "sz \<noteq> 0" using False by simp
    note rq = request_bytes [OF r this]
    ultimately show thesis using assms [unfolded attempt_def r Let_def case_prod_conv] rq False
      by (intro tried) (simp_all only: simp_thms option.sel if_False option.case option.distinct)
  qed
qed

definition answered ::
    "(string \<Rightarrow> u32 option) \<Rightarrow> string option \<Rightarrow> u16 \<Rightarrow> u8 \<Rightarrow> u8 \<Rightarrow> u16 \<Rightarrow> u16 \<Rightarrow> u16 \<Rightarrow> u16 list option \<Rightarrow> u16 list option \<Rightarrow>
     (syscall \<times> answer) list \<Rightarrow> bool" where
  "answered inet_pton host port unit fn offset qty tid out out' l \<longleftrightarrow>
     (\<exists>h addr old data. host = Some h \<and> inet_pton h = Some addr \<and> connections l = [(addr, port)] \<and>
        sent l = mbap_frame tid unit (fn # write_be16 offset @ write_be16 qty) \<and>
        length data = byte_count fn qty \<and>
        received l = mbap_frame tid unit (fn # of_nat (byte_count fn qty) # data) \<and>
        out = Some old \<and> out' = Some (blit old (data_items fn (unat qty) data)))"

lemma attempt_log:
  assumes at: "attempt env inet_pton host port unit fn offset qty tid timeout_ms out d s = Some (fd, e, code, out', s')"
    and env: "sane env" and s: "received (io_log s) = []" "sent (io_log s) = []" "connections (io_log s) = []"
      "sockets (io_log s) = ([], [])" "timely d (io_log s)"
  shows "timely d (io_log s') \<and> sockets (io_log s') = (if fd \<ge> 0 then [fd] else [], []) \<and>
    set (connections (io_log s')) \<subseteq> {(addr, port) |addr h. host = Some h \<and> inet_pton h = Some addr} \<and>
    length (connections (io_log s')) \<le> 1 \<and> length (received (io_log s')) \<le> MB_MAX_RESPONSE_SIZE \<and>
    (e = MB_OK \<longrightarrow> answered inet_pton host port unit fn offset qty tid out out' (io_log s'))"
  using at
proof (cases rule: connect_checked)
  case refused
  then show ?thesis using s by (simp add: cdefs)
next
  case (tried h old addr)
  obtain e1 fd1 s1 where 1: "open_socket env s = (e1, fd1, s1)" by (rule prod_cases3)
  note L1 = open_socket_log [OF 1]
  show ?thesis
  proof (cases "e1 = MB_OK")
    case False
    then show ?thesis using tried 1 s L1 by (auto simp: cdefs)
  next
    case ok1: True
    then obtain e2 s2 where 2: "connect_socket env addr port d s1 = Some (e2, s2)"
      using tried(8) 1 by (cases "connect_socket env addr port d s1") auto
    note L2 = connect_socket_log [OF 2]
    show ?thesis
    proof (cases "e2 = MB_OK")
      case False
      then show ?thesis using tried 1 ok1 2 s L1 L2 by (auto simp: cdefs)
    next
      case ok2: True
      let ?rq = "mbap_frame tid unit (fn # write_be16 offset @ write_be16 qty)"
      obtain e3 frame s3 where 3: "exchange env ?rq tid unit d s2 = Some (e3, frame, s3)"
        using tried(8) 1 ok1 2 ok2 by (cases "exchange env ?rq tid unit d s2") auto
      have r2: "received (io_log s2) = []" using s L1 L2 by simp
      note L3 = exchange_log [OF 3 env r2]
      show ?thesis
      proof (cases "e3 = MB_OK")
        case False
        then show ?thesis using tried 1 ok1 2 ok2 3 s L1 L2 L3 by (auto simp: cdefs)
      next
        case ok3: True
        let ?len = "6 + unat (be16 (frame ! 4) (frame ! 5))"
        have len: "?len = length frame" using L3(5) ok3 by simp
        obtain r new where 4: "mb_decode_read_response (Some frame) ?len tid unit fn qty (Some old) = Some (r, Some new)"
          using decode_contract len by (metis order_refl)
        have res: "fd = fd1" "e = error r" "out' = Some new" "s' = set_error (system_error r) s3"
          using tried(2,8) 1 ok1 2 ok2 3 ok3 4 by auto
        have "answered inet_pton host port unit fn offset qty tid out out' (io_log s')" if ok: "error r = MB_OK"
        proof -
          obtain data where "length data = byte_count fn qty"
            "frame = mbap_frame tid unit (fn # of_nat (byte_count fn qty) # data)"
            "new = blit old (data_items fn (unat qty) data)"
            using decode_ok_iff [of ?len frame tid unit fn qty old new] 4 ok len by auto
          then show ?thesis
            using tried s L1 L2 L3 ok1 ok2 ok3 res by (auto simp: answered_def)
        qed
        then show ?thesis using tried s L1 L2 L3 ok1 ok2 ok3 res by (auto simp: cdefs)
      qed
    qed
  qed
qed

lemma finish_log:
  assumes "finish env started fd e code s = (r, s')"
  shows "timely d (io_log s') = timely d (io_log s)" "sent (io_log s') = sent (io_log s)"
    "received (io_log s') = received (io_log s)" "connections (io_log s') = connections (io_log s)"
    "sockets (io_log s') = (if fd \<ge> 0 then apsnd ((#) fd) (sockets (io_log s)) else sockets (io_log s))"
    "error r = e" "exception_code r = code" "system_error r = io_system_error s"
  using assms by (cases "0 \<le> fd"; auto simp: finish_def clock_eq sys_eq Let_def)+

lemma answered_cong:
  assumes "sent l' = sent l" "received l' = received l" "connections l' = connections l"
  shows "answered inet_pton host port unit fn offset qty tid out out' l' = answered inet_pton host port unit fn offset qty tid out out' l"
  using assms by (simp add: answered_def)

lemma read_points_cases:
  assumes "mb_read_points env inet_pton host port unit fn offset qty tid timeout_ms out = Some (r, out', s')"
  obtains fd e code s where
    "attempt env inet_pton host port unit fn offset qty tid timeout_ms out
       (an_clock (env 0 Clock) div 1000 + ucast timeout_ms) \<lparr>io_log = [(Clock, env 0 Clock)], io_system_error = 0\<rparr> = Some (fd, e, code, out', s)"
    "finish env (an_clock (env 0 Clock) div 1000) fd e code s = (r, s')"
proof -
  let ?A = "attempt env inet_pton host port unit fn offset qty tid timeout_ms out
       (an_clock (env 0 Clock) div 1000 + ucast timeout_ms) \<lparr>io_log = [(Clock, env 0 Clock)], io_system_error = 0\<rparr>"
  obtain fd e code o2 s where a: "?A = Some (fd, e, code, o2, s)"
    using assms by (cases ?A) (auto simp: mb_read_points_def clock_eq Let_def)
  obtain r2 s2 where f: "finish env (an_clock (env 0 Clock) div 1000) fd e code s = (r2, s2)" by fastforce
  show thesis using assms a f that by (auto simp: mb_read_points_def clock_eq Let_def)
qed

subsection \<open>Properties\<close>

text \<open>
  C3 (mb_read_points_safe): Whatever a server does, a request opens at most one connection, only to the
  parsed host and the given port; every connection attempt, transfer and wait directly follows a
  clock reading below the deadline, a wait never asks for more than the time left, and no receive
  can write past the response buffer; the socket that was opened, if any, is closed, and nothing
  else is.
\<close>

theorem mb_read_points_safe:
  assumes "mb_read_points env inet_pton host port unit fn offset qty tid timeout_ms out = Some (r, out', s')"
    and "sane env"
  shows "timely (an_clock (env 0 Clock) div 1000 + ucast timeout_ms) (io_log s') \<and>
    length (connections (io_log s')) \<le> 1 \<and>
    (\<forall>(addr, p) \<in> set (connections (io_log s')). p = port \<and> (\<exists>h. host = Some h \<and> inet_pton h = Some addr)) \<and>
    (\<exists>fds. sockets (io_log s') = (fds, fds) \<and> length fds \<le> 1)"
  using assms(1)
proof (cases rule: read_points_cases)
  case (1 fd e code s)
  show ?thesis using attempt_log [OF 1(1) assms(2)] finish_log(1,4,5) [OF 1(2)] by auto
qed

text \<open>
  C13 (mb_read_points_exact): When a request returns MB_OK, the bytes the server accepted are the request
  frame for this transaction, unit, function, offset and quantity, the bytes it sent back are exactly
  one matching response frame, and the output array holds the decoded data of that frame in front.
\<close>

theorem mb_read_points_exact:
  assumes "mb_read_points env inet_pton host port unit fn offset qty tid timeout_ms out = Some (r, out', s')"
    and "sane env" and "error r = MB_OK"
  shows "answered inet_pton host port unit fn offset qty tid out out' (io_log s')"
  using assms(1)
proof (cases rule: read_points_cases)
  case (1 fd e code s)
  note F = finish_log [OF 1(2)]
  have "answered inet_pton host port unit fn offset qty tid out out' (io_log s)"
    using attempt_log [OF 1(1) assms(2)] assms(3) F(6) by auto
  then show ?thesis using answered_cong [OF F(2,3,4)] by simp
qed

text \<open>
  C14 (mb_read_points_total): Once the clock passes the deadline the request returns, whatever the server does:
  it never waits or transfers for ever. On any error the output array is untouched, and an exception
  code is only reported with MB_ERR_EXCEPTION.
\<close>

theorem mb_read_points_total:
  assumes "clock_passes env (an_clock (env 0 Clock) div 1000 + ucast timeout_ms) n"
  shows "\<exists>r out' s'. mb_read_points env inet_pton host port unit fn offset qty tid timeout_ms out = Some (r, out', s') \<and>
    (error r \<noteq> MB_OK \<longrightarrow> out' = out) \<and> (exception_code r \<noteq> 0 \<longrightarrow> error r = MB_ERR_EXCEPTION)"
proof -
  obtain fd e code out' s where a: "attempt env inet_pton host port unit fn offset qty tid timeout_ms out
      (an_clock (env 0 Clock) div 1000 + ucast timeout_ms) \<lparr>io_log = [(Clock, env 0 Clock)], io_system_error = 0\<rparr> =
      Some (fd, e, code, out', s)" "e \<noteq> MB_OK \<longrightarrow> out' = out" "code \<noteq> 0 \<longrightarrow> e = MB_ERR_EXCEPTION"
    using attempt_returns [OF assms, of inet_pton host port unit fn offset qty tid timeout_ms out
        "\<lparr>io_log = [(Clock, env 0 Clock)], io_system_error = 0\<rparr>"]
    by (elim exE conjE)
  obtain r s' where f: "finish env (an_clock (env 0 Clock) div 1000) fd e code s = (r, s')" by fastforce
  show ?thesis
    using a f finish_log(6,7) [OF f] by (auto simp: mb_read_points_def clock_eq Let_def)
qed

subsection \<open>A concrete server\<close>

text \<open>
  A server that answers one register, 300, to transaction 7 of unit 41; and a system where every wait
  is interrupted by a signal while the clock advances.
\<close>

abbreviation reply :: "u64 \<Rightarrow> int \<Rightarrow> int \<Rightarrow> u8 list \<Rightarrow> answer" where
  "reply clock ret errno bs \<equiv> \<lparr>an_clock = clock, an_ret = ret, an_errno = errno, an_so_error = 0, an_bytes = bs\<rparr>"

definition demo_frame :: "u8 list" where "demo_frame = [0, 7, 0, 0, 0, 5, 41, 3, 2, 1, 44]"

fun demo_env :: env where
  "demo_env k (Select w sec usec) = reply 0 1 0 []"
| "demo_env k Socket = reply 0 3 0 []"
| "demo_env k (Send bs) = reply 0 (int (length bs)) 0 []"
| "demo_env k (Recv n) = (let bs = take n (if n = 7 then demo_frame else drop 7 demo_frame) in reply 0 (int (length bs)) 0 bs)"
| "demo_env k _ = reply 0 0 0 []"

fun signal_env :: env where
  "signal_env k Clock = reply (of_nat (1000 * min k 1000)) 0 0 []"
| "signal_env k (Select w sec usec) = reply 0 (- 1) EINTR []"
| "signal_env k Socket = reply 0 3 0 []"
| "signal_env k (Connect h p) = reply 0 (- 1) EINPROGRESS []"
| "signal_env k _ = reply 0 0 0 []"

lemma demo_sane: "sane demo_env"
  by (simp add: sane_def Let_def)

lemma demo_clock: "mb_monotonic_ms demo_env s = (0, s\<lparr>io_log := (Clock, reply 0 0 0 []) # io_log s\<rparr>)"
  by (simp add: clock_eq)

lemma demo_wait: "0 < d \<Longrightarrow> \<exists>s'. wait_ready demo_env w d s = Some (MB_OK, s')"
  by (subst wait_ready.simps) (simp add: demo_clock sys_eq Let_def before_deadline_def word_gt_0)

lemma demo_send:
  assumes "0 < d"
  shows "\<exists>s'. send_exact demo_env bytes 0 d s = Some (MB_OK, s')"
proof -
  obtain s1 where w: "wait_ready demo_env True d s = Some (MB_OK, s1)" using demo_wait [OF assms] by blast
  have "\<exists>s'. send_exact demo_env bytes (length bytes) d x = Some (MB_OK, s')" for x
    by (subst send_exact.simps) (use assms in \<open>simp add: before_deadline_def demo_clock word_gt_0\<close>)
  then show ?thesis
    using w by (subst send_exact.simps) (use assms in \<open>auto simp: sys_eq before_deadline_def demo_clock word_gt_0\<close>)
qed

lemma demo_receive:
  assumes "0 < d" "n = 7 \<and> got = [] \<or> n = 11 \<and> got = take 7 demo_frame"
  shows "\<exists>s'. receive_exact demo_env n got d s = Some (MB_OK, take n demo_frame, s')"
proof -
  obtain s1 where w: "wait_ready demo_env False d s = Some (MB_OK, s1)" using demo_wait [OF assms(1)] by blast
  have "\<exists>s'. receive_exact demo_env n g d x = Some (MB_OK, g, s')" if "length g = n" for g x
    by (subst receive_exact.simps) (use assms(1) that in \<open>simp add: before_deadline_def demo_clock word_gt_0\<close>)
  from this [of "take n demo_frame"] show ?thesis
    using w assms(2) by (subst receive_exact.simps) (auto simp: sys_eq demo_frame_def)
qed

lemma demo_run:
  "\<exists>r s'. mb_read_points demo_env (\<lambda>_. Some 5) (Some ''10.0.0.5'') 502 41 3 0 1 7 500 (Some [0, 9]) =
     Some (r, Some [300, 9], s') \<and> error r = MB_OK"
proof -
  let ?rq = "[0, 7, 0, 0, 0, 6, 41, 3, 0, 0, 0, 1] :: u8 list"
  have "\<forall>x. \<exists>s'. send_exact demo_env ?rq 0 500 x = Some (MB_OK, s')"
    by (simp add: demo_send word_gt_0)
  then obtain s1 where 1: "send_exact demo_env ?rq 0 500 x = Some (MB_OK, s1 x)" for x by metis
  have "\<forall>x. \<exists>s'. receive_exact demo_env 7 [] 500 x = Some (MB_OK, take 7 demo_frame, s')"
    by (simp add: demo_receive word_gt_0)
  then obtain s2 where 2: "receive_exact demo_env 7 [] 500 x = Some (MB_OK, take 7 demo_frame, s2 x)" for x by metis
  have "\<forall>x. \<exists>s'. receive_exact demo_env 11 (take 7 demo_frame) 500 x = Some (MB_OK, take 11 demo_frame, s')"
    by (simp add: demo_receive word_gt_0)
  then obtain s3 where 3: "receive_exact demo_env 11 (take 7 demo_frame) 500 x = Some (MB_OK, demo_frame, s3 x)" for x
    by (simp add: demo_frame_def) metis
  have b: "mb_build_read_request (Some (replicate MB_FC03_REQUEST_SIZE 0)) 7 41 3 0 1 = (12, Some ?rq)"
    by (simp add: mb_build_read_request_def cdefs write_be16_def valid_quantity_def blit_def)
  have c: "check_header (take 7 demo_frame) 7 41 = Some MB_OK"
    by (simp add: check_header_eq demo_frame_def be16_def)
  have l: "6 + unat (be16 (take 7 demo_frame ! 4) (take 7 demo_frame ! 5)) = 11" "length demo_frame = 11"
      "6 + unat (be16 (demo_frame ! 4) (demo_frame ! 5)) = 11"
    by (simp_all add: demo_frame_def be16_def)
  have d: "mb_decode_read_response (Some demo_frame) 11 7 41 3 1 (Some [0, 9]) = Some (reset_result, Some [300, 9])"
    using decode_wire_data [of 1 3 "[1, 44]" 7 41 "[0, 9]"]
    by (simp add: demo_frame_def mbap_frame_def write_be16_def valid_quantity_def byte_count_def cdefs
         data_items_def be16_def blit_def)
  have x: "exchange demo_env ?rq 7 41 500 x = Some (MB_OK, demo_frame, s3 (s2 (s1 x)))" for x
    unfolding exchange_def 1 option.case prod.case 2 c l(1) 3 by simp
  have o: "\<exists>s'. open_socket demo_env x = (MB_OK, 3, s')" for x
    by (simp add: open_socket_def sys_eq)
  have k: "\<exists>s'. connect_socket demo_env 5 502 500 x = Some (MB_OK, s')" for x
    by (simp add: connect_socket_def demo_clock sys_eq)
  obtain s4 where 4: "open_socket demo_env x = (MB_OK, 3, s4 x)" for x using o by metis
  obtain s5 where 5: "connect_socket demo_env 5 502 500 x = Some (MB_OK, s5 x)" for x using k by metis
  have "attempt demo_env (\<lambda>_. Some 5) (Some ''10.0.0.5'') 502 41 3 0 1 7 500 (Some [0, 9]) 500 s =
      Some (3, MB_OK, 0, Some [300, 9], set_error 0 (s3 (s2 (s1 (s5 (s4 s))))))" for s
    by (simp add: attempt_def b 4 5 x l(3) d reset_result_def)
  then show ?thesis
    by (simp add: mb_read_points_def demo_clock finish_def sys_eq)
qed

subsection \<open>The properties at a concrete server\<close>

theorem mb_read_points_safe_witness:
  "\<exists>r out' s'. mb_read_points demo_env (\<lambda>_. Some 5) (Some ''10.0.0.5'') 502 41 3 0 1 7 500 (Some [0, 9]) = Some (r, out', s')
     \<and> length (connections (io_log s')) \<le> 1"
  using demo_run mb_read_points_safe [OF _ demo_sane] by blast

theorem mb_read_points_exact_witness:
  "\<exists>s' :: io. answered (\<lambda>_. Some 5) (Some ''10.0.0.5'') 502 41 3 0 1 7 (Some [0, 9]) (Some [300, 9]) (io_log s')"
proof -
  obtain r s' where run: "mb_read_points demo_env (\<lambda>_. Some 5) (Some ''10.0.0.5'') 502 41 3 0 1 7 500 (Some [0, 9]) =
     Some (r, Some [300, 9], s')" and ok: "error r = MB_OK"
    using demo_run by blast
  have "answered (\<lambda>_. Some 5) (Some ''10.0.0.5'') 502 41 3 0 1 7 (Some [0, 9]) (Some [300, 9]) (io_log s')"
    using run demo_sane ok by (rule mb_read_points_exact)
  then show ?thesis by blast
qed

lemma signal_clock: "clock_passes signal_env (an_clock (signal_env 0 Clock) div 1000 + ucast (500 :: u32)) 1000"
proof -
  have "500 \<le> an_clock (signal_env k Clock) div 1000" if "1000 \<le> k" for k
    using that by simp
  then show ?thesis by (simp add: clock_passes_def)
qed

theorem mb_read_points_total_witness:
  "\<exists>r out' s'. mb_read_points signal_env (\<lambda>_. Some 5) (Some ''10.0.0.5'') 502 41 3 0 1 7 500 (Some [0, 9]) = Some (r, out', s')"
  using mb_read_points_total [OF signal_clock] by blast

end
