(* ===== verification/Esp_Idf.thy ===== *)
theory Esp_Idf
  imports Gw_Prelude
begin

section \<open>The error codes of the platform\<close>

text \<open>
  The \<open>esp_err_t\<close> values the gateway compares and returns. They are the documented constants of
  the platform; every other code a call may return is just another word.
\<close>

type_synonym esp_err = u32

definition ESP_OK :: esp_err where "ESP_OK = 0"
definition ESP_FAIL :: esp_err where "ESP_FAIL = - 1"
definition ESP_ERR_NO_MEM :: esp_err where "ESP_ERR_NO_MEM = 0x101"
definition ESP_ERR_INVALID_ARG :: esp_err where "ESP_ERR_INVALID_ARG = 0x102"
definition ESP_ERR_INVALID_STATE :: esp_err where "ESP_ERR_INVALID_STATE = 0x103"
definition ESP_ERR_INVALID_SIZE :: esp_err where "ESP_ERR_INVALID_SIZE = 0x104"
definition ESP_ERR_NOT_FOUND :: esp_err where "ESP_ERR_NOT_FOUND = 0x105"
definition ESP_ERR_NOT_SUPPORTED :: esp_err where "ESP_ERR_NOT_SUPPORTED = 0x106"
definition ESP_ERR_NVS_NOT_FOUND :: esp_err where "ESP_ERR_NVS_NOT_FOUND = 0x1102"

lemmas esp_codes = ESP_OK_def ESP_FAIL_def ESP_ERR_NO_MEM_def ESP_ERR_INVALID_ARG_def ESP_ERR_INVALID_STATE_def
  ESP_ERR_INVALID_SIZE_def ESP_ERR_NOT_FOUND_def ESP_ERR_NOT_SUPPORTED_def ESP_ERR_NVS_NOT_FOUND_def

lemma esp_not_OK [simp]:
  "ESP_FAIL \<noteq> ESP_OK" "ESP_ERR_NO_MEM \<noteq> ESP_OK" "ESP_ERR_INVALID_ARG \<noteq> ESP_OK" "ESP_ERR_INVALID_STATE \<noteq> ESP_OK"
  "ESP_ERR_INVALID_SIZE \<noteq> ESP_OK" "ESP_ERR_NOT_FOUND \<noteq> ESP_OK" "ESP_ERR_NOT_SUPPORTED \<noteq> ESP_OK"
  "ESP_ERR_NVS_NOT_FOUND \<noteq> ESP_OK"
  by (simp_all add: esp_codes)

subsection \<open>Flash partitions\<close>

record partition =
  pt_type :: int
  pt_subtype :: int
  pt_address :: u32
  pt_size :: u32
  pt_label :: string
  pt_readonly :: bool
  pt_encrypted :: bool
  pt_chip :: nat                           \<comment> \<open>the flash chip it lies on\<close>

definition PARTITION_APP :: int where "PARTITION_APP = 0"
definition PARTITION_DATA :: int where "PARTITION_DATA = 1"
definition SUBTYPE_APP_FACTORY :: int where "SUBTYPE_APP_FACTORY = 0"
definition SUBTYPE_APP_OTA_0 :: int where "SUBTYPE_APP_OTA_0 = 0x10"
definition SUBTYPE_APP_OTA_1 :: int where "SUBTYPE_APP_OTA_1 = 0x11"
definition SUBTYPE_DATA_OTA :: int where "SUBTYPE_DATA_OTA = 0"
definition SUBTYPE_DATA_PHY :: int where "SUBTYPE_DATA_PHY = 1"
definition SUBTYPE_DATA_NVS :: int where "SUBTYPE_DATA_NVS = 2"

lemmas partition_codes = PARTITION_APP_def PARTITION_DATA_def SUBTYPE_APP_FACTORY_def SUBTYPE_APP_OTA_0_def
  SUBTYPE_APP_OTA_1_def SUBTYPE_DATA_OTA_def SUBTYPE_DATA_PHY_def SUBTYPE_DATA_NVS_def

end
