(* ===== verification/Gateway_Storage.thy ===== *)
theory Gateway_Storage
  imports Esp_Idf
begin

section \<open>The configuration storage (main/gateway_storage.c, main/gateway_storage.h)\<close>

text \<open>
  Finding or claiming the flash region of the configuration. The partition list, the flash contents
  and the answers of the non-volatile storage are parameters; the run returns its error code and
  the list of its effects on the device, oldest first.
\<close>

subsection \<open>The device\<close>

definition GATEWAY_STORAGE_LABEL :: string where "GATEWAY_STORAGE_LABEL = ''gateway_cfg''"
definition GATEWAY_STORAGE_FACTORY_ADDRESS :: u32 where "GATEWAY_STORAGE_FACTORY_ADDRESS = 0x410000"
definition GATEWAY_STORAGE_OTA_ADDRESS :: u32 where "GATEWAY_STORAGE_OTA_ADDRESS = 0x820000"
definition GATEWAY_STORAGE_SIZE :: u32 where "GATEWAY_STORAGE_SIZE = 0x40000"
definition MAX_PRIMARY_PARTITIONS :: nat where "MAX_PRIMARY_PARTITIONS = 32"
definition SECTOR_SIZE :: u32 where "SECTOR_SIZE = 4096"

definition ownership_marker :: "u8 list" where
  "ownership_marker = [71, 87, 67, 70, 1, 0, 0, 0, 0, 0, 0x82, 0, 0, 0, 4, 0]"

lemmas storage_consts [cdefs] = GATEWAY_STORAGE_LABEL_def GATEWAY_STORAGE_FACTORY_ADDRESS_def
  GATEWAY_STORAGE_OTA_ADDRESS_def GATEWAY_STORAGE_SIZE_def MAX_PRIMARY_PARTITIONS_def SECTOR_SIZE_def

record storage_device =
  sd_chip :: "nat option"                  \<comment> \<open>\<open>esp_flash_default_chip\<close>; NULL is \<open>None\<close>\<close>
  sd_flash_size :: "esp_err \<times> u32"
  sd_partitions :: "partition option list" \<comment> \<open>what \<open>esp_partition_get\<close> returns along the iterator\<close>
  sd_flash :: "nat \<Rightarrow> u8"
  sd_flash_read :: "u32 \<Rightarrow> esp_err"         \<comment> \<open>\<open>esp_flash_read\<close> of the 512 bytes at an address\<close>
  sd_open_ro :: esp_err
  sd_get_blob :: "esp_err \<times> u8 list"       \<comment> \<open>the stored marker, when it fits the buffer\<close>
  sd_open_rw :: esp_err
  sd_set_blob :: esp_err
  sd_commit :: esp_err
  sd_register :: "esp_err \<times> partition option"

datatype storage_effect =
    Read_flash u32                         \<comment> \<open>512 bytes at the address, read completely\<close>
  | Set_marker "u8 list"
  | Commit
  | Register u32 u32

record layout =
  ly_items :: "partition list"
  ly_gateway :: "partition option"

subsection \<open>The partition inventory\<close>

definition overlap :: "u32 \<Rightarrow> u32 \<Rightarrow> u32 \<Rightarrow> u32 \<Rightarrow> bool" where
  "overlap a as b bs \<longleftrightarrow> (ucast a :: u64) < ucast b + ucast bs \<and> (ucast b :: u64) < ucast a + ucast as"

definition add_primary :: "u32 \<Rightarrow> partition \<Rightarrow> layout \<Rightarrow> esp_err \<times> layout" where
  "add_primary flash_size p l =
     (if pt_size p = 0 \<or> pt_address p mod SECTOR_SIZE \<noteq> 0 \<or> pt_size p mod SECTOR_SIZE \<noteq> 0 \<or>
         (ucast (pt_address p) :: u64) + ucast (pt_size p) > ucast flash_size \<or>
         length (ly_items l) = MAX_PRIMARY_PARTITIONS
      then (ESP_ERR_INVALID_SIZE, l)
      else if list_ex (\<lambda>q. overlap (pt_address p) (pt_size p) (pt_address q) (pt_size q)) (ly_items l)
      then (ESP_ERR_INVALID_STATE, l)
      else (ESP_OK, l\<lparr>ly_items := ly_items l @ [p]\<rparr>))"

fun inventory_loop :: "nat \<Rightarrow> u32 \<Rightarrow> partition option list \<Rightarrow> layout \<Rightarrow> esp_err \<times> layout" where
  "inventory_loop chip flash_size [] l = (ESP_OK, l)"
| "inventory_loop chip flash_size (None # ps) l = (ESP_ERR_INVALID_STATE, l)"
| "inventory_loop chip flash_size (Some p # ps) l =
     (if pt_label p = GATEWAY_STORAGE_LABEL \<and> (ly_gateway l \<noteq> None \<or> pt_chip p \<noteq> chip)
      then (ESP_ERR_INVALID_STATE, l)
      else let l1 = (if pt_label p = GATEWAY_STORAGE_LABEL then l\<lparr>ly_gateway := Some p\<rparr> else l);
               (e, l2) = (if pt_chip p = chip then add_primary flash_size p l1 else (ESP_OK, l1))
           in if e \<noteq> ESP_OK then (e, l2) else inventory_loop chip flash_size ps l2)"

definition inventory :: "nat \<Rightarrow> u32 \<Rightarrow> partition option list \<Rightarrow> esp_err \<times> layout" where
  "inventory chip flash_size ps = inventory_loop chip flash_size ps \<lparr>ly_items = [], ly_gateway = None\<rparr>"

fun exact_loop :: "int \<Rightarrow> int \<Rightarrow> u32 \<Rightarrow> u32 \<Rightarrow> string option \<Rightarrow> partition list \<Rightarrow> nat \<Rightarrow> bool" where
  "exact_loop ty sub address sz label [] matches = (matches = 1)"
| "exact_loop ty sub address sz label (p # ps) matches =
     (if pt_type p = ty \<and> pt_subtype p = sub
      then if label \<noteq> None \<and> pt_label p \<noteq> the label then exact_loop ty sub address sz label ps matches
           else if pt_address p \<noteq> address \<or> pt_size p \<noteq> sz \<or> pt_readonly p then False
           else exact_loop ty sub address sz label ps (matches + 1)
      else exact_loop ty sub address sz label ps matches)"

definition exact :: "layout \<Rightarrow> int \<Rightarrow> int \<Rightarrow> u32 \<Rightarrow> u32 \<Rightarrow> string option \<Rightarrow> bool" where
  "exact l ty sub address sz label = exact_loop ty sub address sz label (ly_items l) 0"

definition factory_layout :: "layout \<Rightarrow> bool" where
  "factory_layout l \<longleftrightarrow>
     exact l PARTITION_APP SUBTYPE_APP_FACTORY 0x10000 0x400000 None \<and>
     exact l PARTITION_DATA SUBTYPE_DATA_NVS 0x9000 0x6000 (Some ''nvs'') \<and>
     exact l PARTITION_DATA SUBTYPE_DATA_PHY 0xf000 0x1000 None"

definition ota_layout :: "layout \<Rightarrow> bool" where
  "ota_layout l \<longleftrightarrow>
     exact l PARTITION_APP SUBTYPE_APP_OTA_0 0x20000 0x400000 None \<and>
     exact l PARTITION_APP SUBTYPE_APP_OTA_1 0x420000 0x400000 None \<and>
     exact l PARTITION_DATA SUBTYPE_DATA_NVS 0x9000 0x6000 (Some ''nvs'') \<and>
     exact l PARTITION_DATA SUBTYPE_DATA_OTA 0xf000 0x2000 None \<and>
     exact l PARTITION_DATA SUBTYPE_DATA_PHY 0x11000 0x1000 None"

subsection \<open>The ownership marker\<close>

definition check_marker :: "storage_device \<Rightarrow> esp_err \<times> bool" where
  "check_marker d =
     (if sd_open_ro d = ESP_ERR_NVS_NOT_FOUND then (ESP_OK, False)
      else if sd_open_ro d \<noteq> ESP_OK then (sd_open_ro d, False)
      else let (e, marker) = sd_get_blob d in
        if e = ESP_ERR_NVS_NOT_FOUND then (ESP_OK, False)
        else if e \<noteq> ESP_OK then (e, False)
        else if length marker \<noteq> length ownership_marker \<or> marker \<noteq> ownership_marker
        then (ESP_ERR_INVALID_STATE, False)
        else (ESP_OK, True))"

text \<open>One turn of the loop reads 512 bytes; \<open>n\<close> turns are left.\<close>

fun claim_loop :: "storage_device \<Rightarrow> nat \<Rightarrow> u32 \<Rightarrow> esp_err \<times> storage_effect list" where
  "claim_loop d 0 offset = (ESP_OK, [])"
| "claim_loop d (Suc n) offset =
     (let address = GATEWAY_STORAGE_OTA_ADDRESS + offset; e = sd_flash_read d address in
      if e \<noteq> ESP_OK then (e, [])
      else let buffer = map (\<lambda>i. sd_flash d (unat address + i)) [0..<512] in
        if list_ex (\<lambda>b. b \<noteq> 0xff) buffer then (ESP_ERR_INVALID_STATE, [Read_flash address])
        else let (e, l) = claim_loop d n (offset + 512) in (e, Read_flash address # l))"

definition claim_blank_region :: "storage_device \<Rightarrow> esp_err \<times> storage_effect list" where
  "claim_blank_region d =
     (let (e, l) = claim_loop d (unat GATEWAY_STORAGE_SIZE div 512) 0 in
      if e \<noteq> ESP_OK then (e, l)
      else if sd_open_rw d \<noteq> ESP_OK then (sd_open_rw d, l)
      else let e = sd_set_blob d; l = l @ [Set_marker ownership_marker] in
        if e = ESP_OK then (sd_commit d, l @ [Commit]) else (e, l))"

subsection \<open>Preparation\<close>

definition registered_ok :: "nat \<Rightarrow> partition option \<Rightarrow> bool" where
  "registered_ok chip r = (case r of None \<Rightarrow> False | Some p \<Rightarrow>
     pt_address p = GATEWAY_STORAGE_OTA_ADDRESS \<and> pt_size p = GATEWAY_STORAGE_SIZE \<and> pt_chip p = chip \<and>
     pt_type p = PARTITION_DATA \<and> pt_subtype p = SUBTYPE_DATA_NVS \<and> \<not> pt_readonly p \<and> \<not> pt_encrypted p \<and>
     pt_label p = GATEWAY_STORAGE_LABEL)"

definition register_storage :: "storage_device \<Rightarrow> nat \<Rightarrow> esp_err \<times> storage_effect list" where
  "register_storage d chip =
     (let (e, r) = sd_register d; l = [Register GATEWAY_STORAGE_OTA_ADDRESS GATEWAY_STORAGE_SIZE] in
      if e \<noteq> ESP_OK then (e, l) else if registered_ok chip r then (ESP_OK, l) else (ESP_ERR_INVALID_STATE, l))"

definition existing_storage :: "layout \<Rightarrow> partition \<Rightarrow> esp_err" where
  "existing_storage l p =
     (if pt_type p \<noteq> PARTITION_DATA \<or> pt_subtype p \<noteq> SUBTYPE_DATA_NVS \<or> pt_size p \<noteq> GATEWAY_STORAGE_SIZE \<or>
         pt_readonly p \<or> pt_encrypted p then ESP_ERR_INVALID_STATE
      else if pt_address p = GATEWAY_STORAGE_FACTORY_ADDRESS \<and> factory_layout l then ESP_OK
      else if pt_address p = GATEWAY_STORAGE_OTA_ADDRESS \<and> ota_layout l then ESP_OK
      else ESP_ERR_INVALID_STATE)"

definition region_free :: "layout \<Rightarrow> bool" where
  "region_free l \<longleftrightarrow>
     \<not> list_ex (\<lambda>p. overlap GATEWAY_STORAGE_OTA_ADDRESS GATEWAY_STORAGE_SIZE (pt_address p) (pt_size p)) (ly_items l)"

definition migrate_storage :: "storage_device \<Rightarrow> nat \<Rightarrow> u32 \<Rightarrow> layout \<Rightarrow> esp_err \<times> storage_effect list" where
  "migrate_storage d chip flash_size l =
     (if \<not> ota_layout l then (ESP_ERR_NOT_SUPPORTED, [])
      else if (ucast GATEWAY_STORAGE_OTA_ADDRESS :: u64) + ucast GATEWAY_STORAGE_SIZE > ucast flash_size
      then (ESP_ERR_INVALID_SIZE, [])
      else if \<not> region_free l then (ESP_ERR_INVALID_STATE, [])
      else let (e, owned) = check_marker d in
        if e \<noteq> ESP_OK then (e, [])
        else let (e, log) = (if owned then (ESP_OK, []) else claim_blank_region d) in
          if e \<noteq> ESP_OK then (e, log)
          else let (e, log') = register_storage d chip in (e, log @ log'))"

definition gateway_storage_prepare :: "storage_device \<Rightarrow> esp_err \<times> storage_effect list" where
  "gateway_storage_prepare d =
     (case sd_chip d of None \<Rightarrow> (ESP_ERR_INVALID_STATE, [])
      | Some chip \<Rightarrow>
        let (e, flash_size) = sd_flash_size d in
        if e \<noteq> ESP_OK then (e, [])
        else let (e, l) = inventory chip flash_size (sd_partitions d) in
          if e \<noteq> ESP_OK then (e, [])
          else case ly_gateway l of
            Some p \<Rightarrow> (existing_storage l p, [])
          | None \<Rightarrow> migrate_storage d chip flash_size l)"

section \<open>Lemmas\<close>

subsection \<open>Flash regions\<close>

definition region :: "partition \<Rightarrow> nat set" where
  "region p = {unat (pt_address p) ..< unat (pt_address p) + unat (pt_size p)}"

definition storage_region :: "nat set" where
  "storage_region = {0x820000 ..< 0x860000}"

text \<open>A partition that is not empty, lies on sector boundaries and inside the flash.\<close>

definition placed :: "u32 \<Rightarrow> partition \<Rightarrow> bool" where
  "placed flash_size p \<longleftrightarrow> region p \<noteq> {} \<and> region p \<subseteq> {..< unat flash_size} \<and>
     4096 dvd unat (pt_address p) \<and> 4096 dvd unat (pt_size p)"

lemma sum_u64 [simp]: "unat (ucast (a :: u32) + ucast (b :: u32) :: u64) = unat a + unat b"
  by (subst unat_add_small) (use unat_lt_u32 [of a] unat_lt_u32 [of b] in simp_all)

lemma sum_less_u64: "(ucast (a :: u32) :: u64) < ucast (b :: u32) + ucast (c :: u32) \<longleftrightarrow> unat a < unat b + unat c"
  "(ucast (b :: u32) + ucast (c :: u32) :: u64) > ucast a \<longleftrightarrow> unat a < unat b + unat c"
  by (simp_all add: word_less_nat_alt)

lemma overlap_iff: "overlap a as b bs \<longleftrightarrow> unat a < unat b + unat bs \<and> unat b < unat a + unat as"
  by (simp add: overlap_def sum_less_u64)

lemma overlap_region:
  assumes "region p \<noteq> {}" "region q \<noteq> {}"
  shows "overlap (pt_address p) (pt_size p) (pt_address q) (pt_size q) \<longleftrightarrow> region p \<inter> region q \<noteq> {}"
proof -
  have "unat (pt_size p) > 0" "unat (pt_size q) > 0"
    using assms by (auto simp: region_def)
  then show ?thesis
    by (auto simp: overlap_iff region_def not_less min_def max_def)
qed

lemma sector_mod: "(a :: u32) mod SECTOR_SIZE = 0 \<longleftrightarrow> 4096 dvd unat a"
  by (simp add: cdefs unat_eq_zero [symmetric] unat_mod dvd_eq_mod_eq_0)

lemma interval_below: "0 < (s :: nat) \<Longrightarrow> {a ..< a + s} \<subseteq> {..< n} \<longleftrightarrow> a + s \<le> n"
  by (auto dest: subsetD [of _ _ "a + s - 1"])

lemma unat_pos: "(w :: u32) \<noteq> 0 \<Longrightarrow> 0 < unat w"
  by (simp add: unat_gt_0)

lemma add_primary_OK:
  assumes "list_all (placed flash_size) (ly_items l)"
  shows "add_primary flash_size p l = (e, l') \<Longrightarrow> e = ESP_OK \<longleftrightarrow> placed flash_size p \<and> length (ly_items l) \<noteq> 32 \<and>
      (\<forall>q \<in> set (ly_items l). region p \<inter> region q = {})"
    "add_primary flash_size p l = (ESP_OK, l') \<Longrightarrow> l' = l\<lparr>ly_items := ly_items l @ [p]\<rparr>"
proof -
  have ne: "region p \<noteq> {} \<longleftrightarrow> pt_size p \<noteq> 0"
    by (simp add: region_def unat_gt_0)
  have bad: "(pt_size p = 0 \<or> pt_address p mod SECTOR_SIZE \<noteq> 0 \<or> pt_size p mod SECTOR_SIZE \<noteq> 0 \<or>
      (ucast (pt_address p) :: u64) + ucast (pt_size p) > ucast flash_size \<or> X) \<longleftrightarrow> \<not> placed flash_size p \<or> X" for X
    by (cases "pt_size p = 0")
       (auto simp: placed_def ne sector_mod interval_below unat_pos word_less_nat_alt not_less region_def
          simp del: mod_0_imp_dvd)
  have ov: "list_ex (\<lambda>q. overlap (pt_address p) (pt_size p) (pt_address q) (pt_size q)) (ly_items l) \<longleftrightarrow>
      \<not> (\<forall>q \<in> set (ly_items l). region p \<inter> region q = {})" if "placed flash_size p"
  proof -
    have "region q \<noteq> {}" if "q \<in> set (ly_items l)" for q
      using assms that by (auto simp: list_all_iff placed_def)
    with that show ?thesis by (auto simp: list_ex_iff overlap_region placed_def)
  qed
  show "add_primary flash_size p l = (e, l') \<Longrightarrow> e = ESP_OK \<longleftrightarrow> placed flash_size p \<and> length (ly_items l) \<noteq> 32 \<and>
      (\<forall>q \<in> set (ly_items l). region p \<inter> region q = {})"
    using ov unfolding add_primary_def bad by (auto simp: storage_consts(5) split: if_splits)
  show "add_primary flash_size p l = (ESP_OK, l') \<Longrightarrow> l' = l\<lparr>ly_items := ly_items l @ [p]\<rparr>"
    by (auto simp: add_primary_def split: if_splits)
qed

subsection \<open>The inventory\<close>

abbreviation named :: "partition list \<Rightarrow> partition list" where
  "named ps \<equiv> filter (\<lambda>p. pt_label p = GATEWAY_STORAGE_LABEL) ps"

abbreviation primary :: "nat \<Rightarrow> partition list \<Rightarrow> partition list" where
  "primary chip ps \<equiv> filter (\<lambda>p. pt_chip p = chip) ps"

text \<open>A sound table: at most 32 primary partitions, each placed in the flash, no two overlapping.\<close>

definition sound_table :: "u32 \<Rightarrow> partition list \<Rightarrow> bool" where
  "sound_table flash_size ps \<longleftrightarrow> length ps \<le> 32 \<and> list_all (placed flash_size) ps \<and>
     sorted_wrt (\<lambda>p q. region p \<inter> region q = {}) ps"

lemma sound_table_snoc: "sound_table flash_size (ps @ [p]) \<longleftrightarrow>
    sound_table flash_size ps \<and> placed flash_size p \<and> length ps \<noteq> 32 \<and> (\<forall>q \<in> set ps. region p \<inter> region q = {})"
  by (auto simp: sound_table_def sorted_wrt_append)

lemma sound_table_append: "sound_table flash_size (ps @ qs) \<Longrightarrow> sound_table flash_size ps"
  by (auto simp: sound_table_def sorted_wrt_append)

definition gateway_from :: "nat \<Rightarrow> partition list \<Rightarrow> partition option \<Rightarrow> partition option \<Rightarrow> bool" where
  "gateway_from chip ps g g' \<longleftrightarrow>
     (case named ps of [] \<Rightarrow> g' = g | [p] \<Rightarrow> g = None \<and> pt_chip p = chip \<and> g' = Some p | _ \<Rightarrow> False)"

lemma gateway_from_Cons:
  "gateway_from chip (p # ps) g g' \<longleftrightarrow>
     (if pt_label p = GATEWAY_STORAGE_LABEL then g = None \<and> pt_chip p = chip \<and> gateway_from chip ps (Some p) g'
      else gateway_from chip ps g g')"
  by (auto simp: gateway_from_def split: list.splits)

lemma some_map_Cons: "(\<exists>qs. Some p # ps = map Some qs \<and> Q qs) \<longleftrightarrow> (\<exists>qs. ps = map Some qs \<and> Q (p # qs))"
  by (auto simp: Cons_eq_map_conv)

lemma inventory_loop_OK:
  assumes "sound_table flash_size (ly_items l)"
  shows "inventory_loop chip flash_size ps l = (ESP_OK, l') \<longleftrightarrow>
    (\<exists>qs. ps = map Some qs \<and> ly_items l' = ly_items l @ primary chip qs \<and> sound_table flash_size (ly_items l') \<and>
       gateway_from chip qs (ly_gateway l) (ly_gateway l'))"
  using assms
proof (induction chip flash_size ps l rule: inventory_loop.induct)
  case (1 chip flash_size l)
  then show ?case by (cases l'; cases l) (auto simp: gateway_from_def)
next
  case (2 chip flash_size ps l)
  then show ?case by auto
next
  case (3 chip flash_size p ps l)
  let ?bad = "pt_label p = GATEWAY_STORAGE_LABEL \<and> (ly_gateway l \<noteq> None \<or> pt_chip p \<noteq> chip)"
  define l1 where "l1 = (if pt_label p = GATEWAY_STORAGE_LABEL then l\<lparr>ly_gateway := Some p\<rparr> else l)"
  have items: "ly_items l1 = ly_items l" by (simp add: l1_def)
  show ?case
  proof (cases ?bad)
    case True
    then show ?thesis unfolding some_map_Cons by (auto simp: gateway_from_Cons)
  next
    case ok: False
    have g: "gateway_from chip (p # qs) (ly_gateway l) g' \<longleftrightarrow> gateway_from chip qs (ly_gateway l1) g'" for qs g'
      using ok by (auto simp: gateway_from_Cons l1_def)
    show ?thesis
    proof (cases "pt_chip p = chip")
      case False
      have "inventory_loop chip flash_size (Some p # ps) l = inventory_loop chip flash_size ps l1"
        using ok False by (simp add: l1_def)
      moreover have "inventory_loop chip flash_size ps l1 = (ESP_OK, l') \<longleftrightarrow>
        (\<exists>qs. ps = map Some qs \<and> ly_items l' = ly_items l1 @ primary chip qs \<and> sound_table flash_size (ly_items l') \<and>
           gateway_from chip qs (ly_gateway l1) (ly_gateway l'))"
        by (rule 3(1) [OF ok l1_def, of "(ESP_OK, l1)"]) (use False 3(2) items in auto)
      ultimately show ?thesis unfolding some_map_Cons g using False items by simp
    next
      case True
      obtain e l2 where a: "add_primary flash_size p l1 = (e, l2)" by fastforce
      have placed: "list_all (placed flash_size) (ly_items l1)" using 3(2) items by (simp add: sound_table_def)
      have step: "inventory_loop chip flash_size (Some p # ps) l =
          (if e \<noteq> ESP_OK then (e, l2) else inventory_loop chip flash_size ps l2)"
        using ok True a by (cases "pt_label p = GATEWAY_STORAGE_LABEL") (simp_all add: l1_def Let_def)
      show ?thesis
      proof (cases "e = ESP_OK")
        case no: False
        then have "\<not> sound_table flash_size ((ly_items l @ [p]) @ qs)" for qs
          using add_primary_OK(1) [OF placed a] items sound_table_append [of flash_size "ly_items l @ [p]" qs]
          by (auto simp: sound_table_snoc)
        then show ?thesis unfolding some_map_Cons step using no True by auto
      next
        case yes: True
        have l2: "l2 = l1\<lparr>ly_items := ly_items l @ [p]\<rparr>"
          using add_primary_OK(2) [OF placed] a yes items by simp
        have s2: "sound_table flash_size (ly_items l2)"
          using add_primary_OK(1) [OF placed a] yes items 3(2) by (auto simp: l2 sound_table_snoc)
        have "inventory_loop chip flash_size ps l2 = (ESP_OK, l') \<longleftrightarrow>
          (\<exists>qs. ps = map Some qs \<and> ly_items l' = ly_items l2 @ primary chip qs \<and> sound_table flash_size (ly_items l') \<and>
             gateway_from chip qs (ly_gateway l2) (ly_gateway l'))"
          by (rule 3(1) [OF ok l1_def, of "(e, l2)"]) (use True a yes s2 in auto)
        then show ?thesis unfolding some_map_Cons step g using yes True by (simp add: l2)
      qed
    qed
  qed
qed

lemma inventory_OK:
  "inventory chip flash_size ps = (ESP_OK, l) \<longleftrightarrow>
    (\<exists>qs. ps = map Some qs \<and> ly_items l = primary chip qs \<and> sound_table flash_size (primary chip qs) \<and>
       gateway_from chip qs None (ly_gateway l))"
  unfolding inventory_def by (subst inventory_loop_OK) (auto simp: sound_table_def)

subsection \<open>Recognised layouts\<close>

lemma exact_loop_iff:
  "exact_loop ty sub address sz label ps m \<longleftrightarrow>
    (let qs = filter (\<lambda>p. pt_type p = ty \<and> pt_subtype p = sub \<and> (case label of None \<Rightarrow> True | Some n \<Rightarrow> pt_label p = n)) ps
     in m + length qs = 1 \<and> (\<forall>p \<in> set qs. pt_address p = address \<and> pt_size p = sz \<and> \<not> pt_readonly p))"
  by (induction ty sub address sz label ps m rule: exact_loop.induct) (auto simp: Let_def split: option.splits)

lemma only_element: "length qs = 1 \<and> (\<forall>p \<in> set qs. Q p) \<longleftrightarrow> (\<exists>p. qs = [p] \<and> Q p)"
  by (auto simp: length_Suc_conv)

lemma exact_iff:
  "exact l ty sub address sz label \<longleftrightarrow>
    (\<exists>p. filter (\<lambda>p. pt_type p = ty \<and> pt_subtype p = sub \<and> (case label of None \<Rightarrow> True | Some n \<Rightarrow> pt_label p = n)) (ly_items l) = [p] \<and>
       pt_address p = address \<and> pt_size p = sz \<and> \<not> pt_readonly p)"
  by (simp only: exact_def exact_loop_iff Let_def add_0 only_element)

subsection \<open>Claiming the region\<close>

definition claim_reads :: "nat \<Rightarrow> u32 \<Rightarrow> storage_effect list" where
  "claim_reads n offset = map (\<lambda>k. Read_flash (GATEWAY_STORAGE_OTA_ADDRESS + offset + 512 * of_nat k)) [0..<n]"

lemma claim_reads_Suc: "claim_reads (Suc n) offset = Read_flash (GATEWAY_STORAGE_OTA_ADDRESS + offset) # claim_reads n (offset + 512)"
  by (simp add: claim_reads_def upt_conv_Cons map_Suc_upt [symmetric] algebra_simps del: upt_Suc)

lemma claim_loop_OK:
  assumes "claim_loop d n offset = (e, log)" "unat offset + 512 * n \<le> 0x40000"
  shows "set log \<subseteq> range Read_flash \<and> (e = ESP_OK \<longrightarrow> log = claim_reads n offset \<and>
      (\<forall>a. 0x820000 + unat offset \<le> a \<and> a < 0x820000 + unat offset + 512 * n \<longrightarrow> sd_flash d a = 0xff))"
  using assms
proof (induction n arbitrary: offset e log)
  case 0
  then show ?case by (auto simp: claim_reads_def)
next
  case (Suc n)
  let ?a = "GATEWAY_STORAGE_OTA_ADDRESS + offset"
  have off: "unat (offset + 512) = unat offset + 512" "unat ?a = 0x820000 + unat offset"
    using Suc(3) by (simp_all add: unat_add_small storage_consts(3))
  obtain e1 l1 where r: "claim_loop d n (offset + 512) = (e1, l1)" by fastforce
  have IH: "set l1 \<subseteq> range Read_flash \<and> (e1 = ESP_OK \<longrightarrow> l1 = claim_reads n (offset + 512) \<and>
      (\<forall>a. 0x820000 + unat (offset + 512) \<le> a \<and> a < 0x820000 + unat (offset + 512) + 512 * n \<longrightarrow> sd_flash d a = 0xff))"
    by (rule Suc(1) [OF r]) (use Suc(3) off in simp)
  show ?case
  proof (cases "e = ESP_OK")
    case False
    then show ?thesis using Suc(2) IH by (auto simp: Let_def r split: if_splits)
  next
    case True
    then have blank: "\<forall>i < 512. sd_flash d (unat ?a + i) = 0xff" and e1: "e1 = ESP_OK" and log: "log = Read_flash ?a # l1"
      using Suc(2) by (auto simp: Let_def list_ex_iff r split: if_splits)
    have "sd_flash d a = 0xff" if a: "0x820000 + unat offset \<le> a" "a < 0x820000 + unat offset + 512 * Suc n" for a
    proof (cases "a < 0x820000 + unat offset + 512")
      case True
      then show ?thesis using blank [rule_format, of "a - unat ?a"] a off by simp
    next
      case False
      then show ?thesis using IH e1 a off by simp
    qed
    then show ?thesis using IH log e1 by (auto simp: claim_reads_Suc)
  qed
qed

lemma claim_blank_region_log:
  assumes "claim_blank_region d = (e, log)"
  shows "Register a s \<notin> set log"
    "Set_marker m \<in> set log \<Longrightarrow> m = ownership_marker \<and> (\<forall>a \<in> storage_region. sd_flash d a = 0xff) \<and>
       (\<exists>rest. log = claim_reads 512 0 @ Set_marker ownership_marker # rest \<and> Set_marker m \<notin> set rest)"
    "e = ESP_OK \<Longrightarrow> log = claim_reads 512 0 @ [Set_marker ownership_marker, Commit] \<and> sd_set_blob d = ESP_OK \<and> sd_commit d = ESP_OK \<and>
       (\<forall>a \<in> storage_region. sd_flash d a = 0xff)"
proof -
  obtain e1 l1 where r: "claim_loop d 512 0 = (e1, l1)" by fastforce
  note L = claim_loop_OK [OF r, simplified]
  have c: "claim_blank_region d = (if e1 \<noteq> ESP_OK then (e1, l1)
      else if sd_open_rw d \<noteq> ESP_OK then (sd_open_rw d, l1)
      else if sd_set_blob d = ESP_OK then (sd_commit d, l1 @ [Set_marker ownership_marker, Commit])
      else (sd_set_blob d, l1 @ [Set_marker ownership_marker]))"
    by (simp add: claim_blank_region_def storage_consts(4) r Let_def)
  have reads: "Register a s \<notin> set l1" "Set_marker m \<notin> set l1" for a s m using L by auto
  have blank: "\<forall>a \<in> storage_region. sd_flash d a = 0xff" if "e1 = ESP_OK"
    using L that by (simp add: storage_region_def)
  show "Register a s \<notin> set log"
    using assms c reads by (auto split: if_splits)
  show "Set_marker m \<in> set log \<Longrightarrow> m = ownership_marker \<and> (\<forall>a \<in> storage_region. sd_flash d a = 0xff) \<and>
       (\<exists>rest. log = claim_reads 512 0 @ Set_marker ownership_marker # rest \<and> Set_marker m \<notin> set rest)"
    using assms c reads blank L by (auto split: if_splits)
  show "e = ESP_OK \<Longrightarrow> log = claim_reads 512 0 @ [Set_marker ownership_marker, Commit] \<and> sd_set_blob d = ESP_OK \<and> sd_commit d = ESP_OK \<and>
       (\<forall>a \<in> storage_region. sd_flash d a = 0xff)"
    using assms c blank L by (auto split: if_splits)
qed

subsection \<open>The device state a start-up needs\<close>

text \<open>Exactly one partition of a kind, with the given place and size, not read-only.\<close>

definition holds :: "partition list \<Rightarrow> int \<Rightarrow> int \<Rightarrow> string option \<Rightarrow> u32 \<Rightarrow> u32 \<Rightarrow> bool" where
  "holds ps ty sub label address sz \<longleftrightarrow>
     (\<exists>p. filter (\<lambda>p. pt_type p = ty \<and> pt_subtype p = sub \<and> (case label of None \<Rightarrow> True | Some n \<Rightarrow> pt_label p = n)) ps = [p] \<and>
        pt_address p = address \<and> pt_size p = sz \<and> \<not> pt_readonly p)"

definition factory_table :: "partition list \<Rightarrow> bool" where
  "factory_table ps \<longleftrightarrow> holds ps PARTITION_APP SUBTYPE_APP_FACTORY None 0x10000 0x400000 \<and>
     holds ps PARTITION_DATA SUBTYPE_DATA_NVS (Some ''nvs'') 0x9000 0x6000 \<and>
     holds ps PARTITION_DATA SUBTYPE_DATA_PHY None 0xf000 0x1000"

definition ota_table :: "partition list \<Rightarrow> bool" where
  "ota_table ps \<longleftrightarrow> holds ps PARTITION_APP SUBTYPE_APP_OTA_0 None 0x20000 0x400000 \<and>
     holds ps PARTITION_APP SUBTYPE_APP_OTA_1 None 0x420000 0x400000 \<and>
     holds ps PARTITION_DATA SUBTYPE_DATA_NVS (Some ''nvs'') 0x9000 0x6000 \<and>
     holds ps PARTITION_DATA SUBTYPE_DATA_OTA None 0xf000 0x2000 \<and>
     holds ps PARTITION_DATA SUBTYPE_DATA_PHY None 0x11000 0x1000"

lemma layouts: "factory_layout l = factory_table (ly_items l)" "ota_layout l = ota_table (ly_items l)"
  by (simp_all only: factory_layout_def factory_table_def ota_layout_def ota_table_def holds_def exact_iff)

definition marker_owned :: "storage_device \<Rightarrow> bool" where
  "marker_owned d \<longleftrightarrow> sd_open_ro d = ESP_OK \<and> sd_get_blob d = (ESP_OK, ownership_marker)"

definition marker_absent :: "storage_device \<Rightarrow> bool" where
  "marker_absent d \<longleftrightarrow> sd_open_ro d = ESP_ERR_NVS_NOT_FOUND \<or>
     sd_open_ro d = ESP_OK \<and> fst (sd_get_blob d) = ESP_ERR_NVS_NOT_FOUND"

lemma check_marker_OK:
  "check_marker d = (ESP_OK, owned) \<longleftrightarrow> (if owned then marker_owned d else marker_absent d)"
  by (cases "sd_get_blob d") (auto simp: check_marker_def marker_owned_def marker_absent_def esp_codes)

text \<open>
  The table of the primary chip is sound and has no configuration partition, it is the two-slot
  layout, and the configuration region lies in the flash and overlaps no partition.
\<close>

definition may_migrate :: "storage_device \<Rightarrow> bool" where
  "may_migrate d \<longleftrightarrow> (\<exists>chip flash_size qs. sd_chip d = Some chip \<and> sd_flash_size d = (ESP_OK, flash_size) \<and>
     sd_partitions d = map Some qs \<and> named qs = [] \<and> sound_table flash_size (primary chip qs) \<and>
     ota_table (primary chip qs) \<and> storage_region \<subseteq> {..< unat flash_size} \<and>
     (\<forall>p \<in> set (primary chip qs). region p \<inter> storage_region = {}))"

lemma region_free_iff:
  assumes "sound_table flash_size (ly_items l)"
  shows "region_free l \<longleftrightarrow> (\<forall>p \<in> set (ly_items l). region p \<inter> storage_region = {})"
proof -
  have "overlap GATEWAY_STORAGE_OTA_ADDRESS GATEWAY_STORAGE_SIZE (pt_address p) (pt_size p) \<longleftrightarrow>
      region p \<inter> storage_region \<noteq> {}" if "p \<in> set (ly_items l)" for p
  proof -
    have "region p \<noteq> {}" using assms that by (auto simp: sound_table_def list_all_iff placed_def)
    then have "0 < unat (pt_size p)" by (auto simp: region_def)
    then show ?thesis by (auto simp: overlap_iff region_def storage_region_def storage_consts min_def max_def not_less)
  qed
  then show ?thesis by (auto simp: region_free_def list_ex_iff)
qed

lemma storage_room:
  "\<not> (ucast GATEWAY_STORAGE_OTA_ADDRESS :: u64) + ucast GATEWAY_STORAGE_SIZE > ucast (flash_size :: u32) \<longleftrightarrow>
   storage_region \<subseteq> {..< unat flash_size}"
  by (simp only: sum_less_u64 not_less storage_region_def interval_below [of "0x40000" "0x820000", simplified])
     (simp add: storage_consts interval_below [of "0x40000" "0x820000", simplified])

text \<open>How a run that does not stop before the migration goes on.\<close>

lemma migrate_cases:
  assumes "sound_table flash_size (ly_items l)"
  shows "migrate_storage d chip flash_size l = (e, log) \<Longrightarrow> log \<noteq> [] \<or> e = ESP_OK \<Longrightarrow>
      ota_table (ly_items l) \<and> storage_region \<subseteq> {..< unat flash_size} \<and>
      (\<forall>p \<in> set (ly_items l). region p \<inter> storage_region = {}) \<and> (marker_owned d \<or> marker_absent d)"
  using assms
  by (auto simp: migrate_storage_def layouts region_free_iff storage_room [symmetric] Let_def check_marker_OK
        split: if_splits prod.splits)

lemma migrate_log:
  assumes "sound_table flash_size (ly_items l)" "migrate_storage d chip flash_size l = (e, log)"
  shows "Set_marker m \<in> set log \<Longrightarrow> marker_absent d \<and> m = ownership_marker \<and> (\<forall>a \<in> storage_region. sd_flash d a = 0xff) \<and>
      (\<exists>rest. log = claim_reads 512 0 @ Set_marker ownership_marker # rest \<and> Set_marker m \<notin> set rest)"
    "Register a s \<in> set log \<Longrightarrow> a = GATEWAY_STORAGE_OTA_ADDRESS \<and> s = GATEWAY_STORAGE_SIZE \<and>
      (marker_owned d \<and> log = [Register a s] \<or>
       marker_absent d \<and> sd_commit d = ESP_OK \<and> (\<forall>a \<in> storage_region. sd_flash d a = 0xff) \<and>
       log = claim_reads 512 0 @ [Set_marker ownership_marker, Commit, Register a s])"
proof -
  obtain ec lc where c: "claim_blank_region d = (ec, lc)" by fastforce
  obtain er lr where r: "register_storage d chip = (er, lr)" by fastforce
  have lr: "lr = [Register GATEWAY_STORAGE_OTA_ADDRESS GATEWAY_STORAGE_SIZE]"
    using r by (auto simp: register_storage_def Let_def split: prod.splits if_splits)
  have logs: "log = [] \<or> marker_owned d \<and> log = lr \<or> marker_absent d \<and> log = (if ec = ESP_OK then lc @ lr else lc)"
    using assms(2) c r by (auto simp: migrate_storage_def Let_def check_marker_OK split: if_splits prod.splits)
  note C = claim_blank_region_log [OF c]
  show "Set_marker m \<in> set log \<Longrightarrow> marker_absent d \<and> m = ownership_marker \<and> (\<forall>a \<in> storage_region. sd_flash d a = 0xff) \<and>
      (\<exists>rest. log = claim_reads 512 0 @ Set_marker ownership_marker # rest \<and> Set_marker m \<notin> set rest)"
    using logs C(2) [of m] lr by (auto split: if_splits)
  show "Register a s \<in> set log \<Longrightarrow> a = GATEWAY_STORAGE_OTA_ADDRESS \<and> s = GATEWAY_STORAGE_SIZE \<and>
      (marker_owned d \<and> log = [Register a s] \<or>
       marker_absent d \<and> sd_commit d = ESP_OK \<and> (\<forall>a \<in> storage_region. sd_flash d a = 0xff) \<and>
       log = claim_reads 512 0 @ [Set_marker ownership_marker, Commit, Register a s])"
    using logs C(1) [of a s] C(3) lr by (auto split: if_splits)
qed

text \<open>A successful claim, from the other side.\<close>

definition claimable :: "storage_device \<Rightarrow> bool" where
  "claimable d \<longleftrightarrow> (\<forall>k < 512. sd_flash_read d (GATEWAY_STORAGE_OTA_ADDRESS + 512 * of_nat k) = ESP_OK) \<and>
     (\<forall>a \<in> storage_region. sd_flash d a = 0xff) \<and>
     sd_open_rw d = ESP_OK \<and> sd_set_blob d = ESP_OK \<and> sd_commit d = ESP_OK"

lemma claim_loop_reads:
  "fst (claim_loop d n offset) = ESP_OK \<Longrightarrow> k < n \<Longrightarrow>
   sd_flash_read d (GATEWAY_STORAGE_OTA_ADDRESS + offset + 512 * of_nat k) = ESP_OK"
proof (induction n arbitrary: offset k)
  case (Suc n)
  then have now: "sd_flash_read d (GATEWAY_STORAGE_OTA_ADDRESS + offset) = ESP_OK"
    and later: "fst (claim_loop d n (offset + 512)) = ESP_OK"
    by (auto simp: Let_def split: if_splits prod.splits)
  show ?case
  proof (cases k)
    case (Suc j)
    then show ?thesis using Suc.IH [OF later, of j] Suc.prems(2) by (simp add: algebra_simps)
  qed (use now in simp)
qed simp

lemma claim_loop_complete:
  assumes "unat offset + 512 * n \<le> 0x40000"
    "\<And>k. k < n \<Longrightarrow> sd_flash_read d (GATEWAY_STORAGE_OTA_ADDRESS + offset + 512 * of_nat k) = ESP_OK"
    "\<And>a. a \<in> storage_region \<Longrightarrow> sd_flash d a = 0xff"
  shows "fst (claim_loop d n offset) = ESP_OK"
  using assms(1,2)
proof (induction n arbitrary: offset)
  case (Suc n)
  let ?a = "GATEWAY_STORAGE_OTA_ADDRESS + offset"
  have off: "unat (offset + 512) = unat offset + 512" "unat ?a = 0x820000 + unat offset"
    using Suc(2) by (simp_all add: unat_add_small storage_consts(3))
  have "sd_flash d (unat ?a + i) = 0xff" if "i < 512" for i
    using assms(3) off(2) Suc(2) that by (simp add: storage_region_def)
  then have blank: "\<not> list_ex (\<lambda>b. b \<noteq> 0xff) (map (\<lambda>i. sd_flash d (unat ?a + i)) [0..<512])"
    by (auto simp: list_ex_iff)
  have IH: "fst (claim_loop d n (offset + 512)) = ESP_OK"
  proof (rule Suc(1))
    show "unat (offset + 512) + 512 * n \<le> 0x40000" using off Suc(2) by simp
    show "sd_flash_read d (GATEWAY_STORAGE_OTA_ADDRESS + (offset + 512) + 512 * of_nat k) = ESP_OK" if "k < n" for k
      using Suc(3) [of "Suc k"] that by (simp add: algebra_simps)
  qed
  then show ?case using Suc(3) [of 0] blank by (cases "claim_loop d n (offset + 512)") (simp add: Let_def)
qed simp

lemma claim_blank_region_OK: "fst (claim_blank_region d) = ESP_OK \<longleftrightarrow> claimable d"
proof -
  obtain e1 l1 where r: "claim_loop d 512 0 = (e1, l1)" by fastforce
  have "e1 = ESP_OK \<longleftrightarrow> (\<forall>k < 512. sd_flash_read d (GATEWAY_STORAGE_OTA_ADDRESS + 512 * of_nat k) = ESP_OK) \<and>
      (\<forall>a \<in> storage_region. sd_flash d a = 0xff)"
    using claim_loop_OK [OF r] claim_loop_reads [of d 512 0] claim_loop_complete [of 0 512 d] r
    by (auto simp: storage_region_def)
  then show ?thesis by (auto simp: claimable_def claim_blank_region_def storage_consts(4) r Let_def)
qed

text \<open>The partition of the configuration is in the table, where one of the known layouts has it.\<close>

definition storage_found :: "storage_device \<Rightarrow> bool" where
  "storage_found d \<longleftrightarrow> (\<exists>chip flash_size qs p. sd_chip d = Some chip \<and> sd_flash_size d = (ESP_OK, flash_size) \<and>
     sd_partitions d = map Some qs \<and> sound_table flash_size (primary chip qs) \<and> named qs = [p] \<and>
     pt_chip p = chip \<and> pt_type p = PARTITION_DATA \<and> pt_subtype p = SUBTYPE_DATA_NVS \<and>
     pt_size p = GATEWAY_STORAGE_SIZE \<and> \<not> pt_readonly p \<and> \<not> pt_encrypted p \<and>
     (pt_address p = GATEWAY_STORAGE_FACTORY_ADDRESS \<and> factory_table (primary chip qs) \<or>
      pt_address p = GATEWAY_STORAGE_OTA_ADDRESS \<and> ota_table (primary chip qs)))"

definition registration_ok :: "storage_device \<Rightarrow> bool" where
  "registration_ok d \<longleftrightarrow> fst (sd_register d) = ESP_OK \<and> registered_ok (the (sd_chip d)) (snd (sd_register d))"

lemma map_Some_inject: "map Some xs = map Some ys \<longleftrightarrow> xs = ys"
  by (simp add: inj_map_eq_map)

lemma prepare_cases:
  assumes "gateway_storage_prepare d = (e, log)"
  obtains (stopped) "log = []" "e \<noteq> ESP_OK"
  | (found) chip flash_size l qs p where "sd_chip d = Some chip" "sd_flash_size d = (ESP_OK, flash_size)"
      "sd_partitions d = map Some qs" "sound_table flash_size (primary chip qs)" "named qs = [p]" "pt_chip p = chip"
      "ly_items l = primary chip qs" "e = existing_storage l p" "log = []"
  | (migrate) chip flash_size l qs where "sd_chip d = Some chip" "sd_flash_size d = (ESP_OK, flash_size)"
      "sd_partitions d = map Some qs" "sound_table flash_size (primary chip qs)" "named qs = []"
      "ly_items l = primary chip qs" "migrate_storage d chip flash_size l = (e, log)"
proof (cases "\<exists>chip flash_size l. sd_chip d = Some chip \<and> sd_flash_size d = (ESP_OK, flash_size) \<and>
    inventory chip flash_size (sd_partitions d) = (ESP_OK, l)")
  case False
  then have "log = [] \<and> e \<noteq> ESP_OK"
    using assms by (auto simp: gateway_storage_prepare_def Let_def split: option.splits prod.splits if_splits)
  then show thesis using stopped by blast
next
  case True
  then obtain chip flash_size l where 1: "sd_chip d = Some chip" "sd_flash_size d = (ESP_OK, flash_size)"
    "inventory chip flash_size (sd_partitions d) = (ESP_OK, l)" by blast
  obtain qs where 2: "sd_partitions d = map Some qs" "ly_items l = primary chip qs" "sound_table flash_size (primary chip qs)"
    "gateway_from chip qs None (ly_gateway l)"
    using 1(3) by (auto simp: inventory_OK)
  show thesis
  proof (cases "ly_gateway l")
    case None
    then have "named qs = []" using 2(4) by (auto simp: gateway_from_def split: list.splits)
    then show thesis using 1 2 None assms migrate by (auto simp: gateway_storage_prepare_def)
  next
    case (Some p)
    then have "named qs = [p]" "pt_chip p = chip" using 2(4) by (auto simp: gateway_from_def split: list.splits)
    then show thesis using 1 2 Some assms found by (auto simp: gateway_storage_prepare_def)
  qed
qed

lemma storage_room2: "(ucast (flash_size :: u32) :: u64) < ucast GATEWAY_STORAGE_OTA_ADDRESS + ucast GATEWAY_STORAGE_SIZE \<longleftrightarrow>
   \<not> storage_region \<subseteq> {..< unat flash_size}"
  using storage_room [of flash_size] by blast

lemma migrate_OK:
  assumes "sound_table flash_size (ly_items l)" "sd_chip d = Some chip"
  shows "fst (migrate_storage d chip flash_size l) = ESP_OK \<longleftrightarrow>
    ota_table (ly_items l) \<and> storage_region \<subseteq> {..< unat flash_size} \<and>
    (\<forall>p \<in> set (ly_items l). region p \<inter> storage_region = {}) \<and>
    (marker_owned d \<or> marker_absent d \<and> claimable d) \<and> registration_ok d"
proof -
  obtain em owned where m: "check_marker d = (em, owned)" by fastforce
  obtain ec lc where c: "claim_blank_region d = (ec, lc)" by fastforce
  have mk: "em = ESP_OK \<and> owned \<longleftrightarrow> marker_owned d" "em = ESP_OK \<and> \<not> owned \<longleftrightarrow> marker_absent d"
    using m check_marker_OK [of d owned] check_marker_OK [of d "\<not> owned"]
    by (cases owned; auto simp: check_marker_OK)+
  have cl: "ec = ESP_OK \<longleftrightarrow> claimable d" using claim_blank_region_OK [of d] c by simp
  have rg: "fst (register_storage d chip) = ESP_OK \<longleftrightarrow> registration_ok d"
    using assms(2) by (auto simp: register_storage_def registration_ok_def Let_def split: prod.splits)
  show ?thesis
  proof (cases "ota_table (ly_items l) \<and> storage_region \<subseteq> {..< unat flash_size} \<and> region_free l")
    case True
    then have "migrate_storage d chip flash_size l =
      (if em \<noteq> ESP_OK then (em, []) else let (e, log) = (if owned then (ESP_OK, []) else (ec, lc)) in
         if e \<noteq> ESP_OK then (e, log) else let (e, log') = register_storage d chip in (e, log @ log'))"
      by (simp add: migrate_storage_def layouts storage_room2 m c)
    then show ?thesis
      using True mk cl rg region_free_iff [OF assms(1)] by (auto simp: Let_def split: prod.splits)
  next
    case False
    then show ?thesis
      using region_free_iff [OF assms(1)] by (auto simp: migrate_storage_def layouts storage_room2)
  qed
qed

lemma prepare_inventory:
  "fst (gateway_storage_prepare d) = ESP_OK \<longleftrightarrow>
     (\<exists>chip flash_size l. sd_chip d = Some chip \<and> sd_flash_size d = (ESP_OK, flash_size) \<and>
        inventory chip flash_size (sd_partitions d) = (ESP_OK, l) \<and>
        (case ly_gateway l of Some p \<Rightarrow> existing_storage l p = ESP_OK
         | None \<Rightarrow> fst (migrate_storage d chip flash_size l) = ESP_OK))"
  by (auto simp: gateway_storage_prepare_def Let_def split: option.splits prod.splits if_splits)

lemma existing_OK:
  "existing_storage l p = ESP_OK \<longleftrightarrow> pt_type p = PARTITION_DATA \<and> pt_subtype p = SUBTYPE_DATA_NVS \<and>
     pt_size p = GATEWAY_STORAGE_SIZE \<and> \<not> pt_readonly p \<and> \<not> pt_encrypted p \<and>
     (pt_address p = GATEWAY_STORAGE_FACTORY_ADDRESS \<and> factory_table (ly_items l) \<or>
      pt_address p = GATEWAY_STORAGE_OTA_ADDRESS \<and> ota_table (ly_items l))"
  by (auto simp: existing_storage_def layouts)

lemma prepare_OK:
  "fst (gateway_storage_prepare d) = ESP_OK \<longleftrightarrow>
     storage_found d \<or> may_migrate d \<and> (marker_owned d \<or> marker_absent d \<and> claimable d) \<and> registration_ok d"
    (is "?L \<longleftrightarrow> ?F \<or> ?M")
proof
  assume ?L
  then obtain chip flash_size l where 1: "sd_chip d = Some chip" "sd_flash_size d = (ESP_OK, flash_size)"
    "inventory chip flash_size (sd_partitions d) = (ESP_OK, l)"
    "case ly_gateway l of Some p \<Rightarrow> existing_storage l p = ESP_OK
     | None \<Rightarrow> fst (migrate_storage d chip flash_size l) = ESP_OK"
    by (auto simp: prepare_inventory)
  obtain qs where 2: "sd_partitions d = map Some qs" "ly_items l = primary chip qs" "sound_table flash_size (primary chip qs)"
    "gateway_from chip qs None (ly_gateway l)"
    using 1(3) by (auto simp: inventory_OK)
  show "?F \<or> ?M"
  proof (cases "ly_gateway l")
    case None
    then have "named qs = []" using 2(4) by (auto simp: gateway_from_def split: list.splits)
    then have ?M using 1 2 None migrate_OK [of flash_size l d chip] by (auto simp: may_migrate_def)
    then show ?thesis ..
  next
    case (Some p)
    then have "named qs = [p]" "pt_chip p = chip" using 2(4) by (auto simp: gateway_from_def split: list.splits)
    then have ?F using 1 2 Some by (auto simp: storage_found_def existing_OK)
    then show ?thesis ..
  qed
next
  assume "?F \<or> ?M"
  then show ?L
  proof
    assume ?F
    then obtain chip flash_size qs p where f: "sd_chip d = Some chip" "sd_flash_size d = (ESP_OK, flash_size)"
      "sd_partitions d = map Some qs" "sound_table flash_size (primary chip qs)" "named qs = [p]" "pt_chip p = chip"
      "existing_storage \<lparr>ly_items = primary chip qs, ly_gateway = Some p\<rparr> p = ESP_OK"
      by (auto simp: storage_found_def existing_OK)
    have "inventory chip flash_size (sd_partitions d) = (ESP_OK, \<lparr>ly_items = primary chip qs, ly_gateway = Some p\<rparr>)"
      using f by (simp add: inventory_OK gateway_from_def map_Some_inject)
    then show ?L unfolding prepare_inventory using f
      by (intro exI [of _ chip] exI [of _ flash_size] exI [of _ "\<lparr>ly_items = primary chip qs, ly_gateway = Some p\<rparr>"]) simp
  next
    assume M: ?M
    then obtain chip flash_size qs where f: "sd_chip d = Some chip" "sd_flash_size d = (ESP_OK, flash_size)"
      "sd_partitions d = map Some qs" "sound_table flash_size (primary chip qs)" "named qs = []"
      "ota_table (primary chip qs)" "storage_region \<subseteq> {..< unat flash_size}"
      "\<forall>p \<in> set (primary chip qs). region p \<inter> storage_region = {}"
      unfolding may_migrate_def by blast
    let ?l = "\<lparr>ly_items = primary chip qs, ly_gateway = None\<rparr>"
    have "inventory chip flash_size (sd_partitions d) = (ESP_OK, ?l)"
      using f by (simp add: inventory_OK gateway_from_def map_Some_inject)
    moreover have "fst (migrate_storage d chip flash_size ?l) = ESP_OK"
      using f M by (subst migrate_OK) simp_all
    ultimately show ?L unfolding prepare_inventory using f
      by (intro exI [of _ chip] exI [of _ flash_size] exI [of _ ?l]) simp
  qed
qed

section \<open>Properties\<close>

text \<open>
  C17 (storage_claim_safe): The ownership marker is only written when the table is sound, has no
  configuration partition and is the two-slot layout, the region lies in the flash and overlaps no
  partition, no marker exists, and all 512 blocks of the region were read before and every byte of it
  is blank; it is written once and with its fixed bytes. A region is only registered under the same
  layout, with the fixed place and size, and only when the marker was there or has just been committed.
\<close>

theorem storage_claim_safe:
  assumes "gateway_storage_prepare d = (e, log)"
  shows "(Set_marker m \<in> set log \<longrightarrow> may_migrate d \<and> marker_absent d \<and> m = ownership_marker \<and>
      (\<forall>a \<in> storage_region. sd_flash d a = 0xff) \<and>
      (\<exists>rest. log = claim_reads 512 0 @ Set_marker ownership_marker # rest \<and> Set_marker m \<notin> set rest)) \<and>
    (Register a s \<in> set log \<longrightarrow> may_migrate d \<and> a = GATEWAY_STORAGE_OTA_ADDRESS \<and> s = GATEWAY_STORAGE_SIZE \<and>
      (marker_owned d \<and> log = [Register a s] \<or>
       marker_absent d \<and> sd_commit d = ESP_OK \<and> (\<forall>a \<in> storage_region. sd_flash d a = 0xff) \<and>
       log = claim_reads 512 0 @ [Set_marker ownership_marker, Commit, Register a s]))"
  using assms
proof (cases rule: prepare_cases)
  case (migrate chip flash_size l qs)
  have s: "sound_table flash_size (ly_items l)" using migrate by simp
  have "log \<noteq> [] \<Longrightarrow> may_migrate d"
    using migrate_cases(1) [OF s migrate(7)] migrate unfolding may_migrate_def by auto
  then show ?thesis using migrate_log [OF s migrate(7)] by fastforce
qed auto

text \<open>
  C18 (storage_ok_exact): Start-up succeeds exactly when a sound table already has the configuration
  partition where a known layout puts it, or the region may be migrated, is owned or could be
  claimed, and its registration is what was asked for.
\<close>

theorem storage_ok_exact:
  "fst (gateway_storage_prepare d) = ESP_OK \<longleftrightarrow>
     storage_found d \<or> may_migrate d \<and> (marker_owned d \<or> marker_absent d \<and> claimable d) \<and> registration_ok d"
  by (rule prepare_OK)

section \<open>A concrete device\<close>

text \<open>A device with the two-slot table, a blank configuration region and no marker.\<close>

definition demo_partition :: "int \<Rightarrow> int \<Rightarrow> u32 \<Rightarrow> u32 \<Rightarrow> string \<Rightarrow> partition" where
  "demo_partition ty sub a s label = \<lparr>pt_type = ty, pt_subtype = sub, pt_address = a, pt_size = s, pt_label = label,
     pt_readonly = False, pt_encrypted = False, pt_chip = 0\<rparr>"

definition demo_table :: "partition list" where
  "demo_table = [demo_partition 1 2 0x9000 0x6000 ''nvs'', demo_partition 1 0 0xf000 0x2000 ''otadata'',
     demo_partition 1 1 0x11000 0x1000 ''phy'', demo_partition 0 0x10 0x20000 0x400000 ''app0'',
     demo_partition 0 0x11 0x420000 0x400000 ''app1'']"

definition demo_device :: storage_device where
  "demo_device = \<lparr>sd_chip = Some 0, sd_flash_size = (ESP_OK, 0x1000000), sd_partitions = map Some demo_table,
     sd_flash = \<lambda>_. 0xff, sd_flash_read = \<lambda>_. ESP_OK, sd_open_ro = ESP_ERR_NVS_NOT_FOUND, sd_get_blob = (ESP_OK, []),
     sd_open_rw = ESP_OK, sd_set_blob = ESP_OK, sd_commit = ESP_OK,
     sd_register = (ESP_OK, Some (demo_partition 1 2 GATEWAY_STORAGE_OTA_ADDRESS GATEWAY_STORAGE_SIZE GATEWAY_STORAGE_LABEL))\<rparr>"

lemma storage_demo_sound: "sound_table 0x1000000 demo_table" "ota_table demo_table" "primary 0 demo_table = demo_table"
  "named demo_table = []"
  by (simp_all add: sound_table_def demo_table_def demo_partition_def placed_def region_def lessThan_atLeast0
      ota_table_def holds_def partition_codes storage_consts(1))

lemma storage_demo_free: "p \<in> set demo_table \<Longrightarrow> region p \<inter> storage_region = {}"
  by (auto simp: demo_table_def demo_partition_def region_def storage_region_def)

lemma storage_demo_may_migrate: "may_migrate demo_device"
  unfolding may_migrate_def
  by (intro exI [of _ "0 :: nat"] exI [of _ "0x1000000 :: u32"] exI [of _ demo_table])
     (simp add: storage_demo_sound storage_demo_free, simp add: demo_device_def storage_region_def lessThan_atLeast0)

lemma storage_demo_claims: "marker_absent demo_device" "claimable demo_device" "registration_ok demo_device"
  by (auto simp: marker_absent_def claimable_def registration_ok_def registered_ok_def demo_device_def demo_partition_def
      partition_codes esp_codes)

lemma storage_demo_run:
  "gateway_storage_prepare demo_device = (ESP_OK, claim_reads 512 0 @
     [Set_marker ownership_marker, Commit, Register GATEWAY_STORAGE_OTA_ADDRESS GATEWAY_STORAGE_SIZE])"
proof -
  have inv: "inventory 0 0x1000000 (map Some demo_table) = (ESP_OK, \<lparr>ly_items = demo_table, ly_gateway = None\<rparr>)"
    by (simp add: inventory_OK map_Some_inject storage_demo_sound gateway_from_def)
  obtain lc where c: "claim_blank_region demo_device = (ESP_OK, lc)"
    using storage_demo_claims(2) claim_blank_region_OK [of demo_device] by (cases "claim_blank_region demo_device") simp
  have m: "check_marker demo_device = (ESP_OK, False)"
    using storage_demo_claims(1) by (simp add: check_marker_OK)
  have r: "register_storage demo_device 0 = (ESP_OK, [Register GATEWAY_STORAGE_OTA_ADDRESS GATEWAY_STORAGE_SIZE])"
    using storage_demo_claims(3) by (auto simp: register_storage_def registration_ok_def demo_device_def)
  have "migrate_storage demo_device 0 0x1000000 \<lparr>ly_items = demo_table, ly_gateway = None\<rparr> =
      (ESP_OK, lc @ [Register GATEWAY_STORAGE_OTA_ADDRESS GATEWAY_STORAGE_SIZE])"
    using region_free_iff [of "0x1000000" "\<lparr>ly_items = demo_table, ly_gateway = None\<rparr>"]
    by (simp add: migrate_storage_def layouts storage_demo_sound storage_demo_free m c r storage_consts(3,4))
  then show ?thesis
    using claim_blank_region_log(3) [OF c] inv by (simp add: gateway_storage_prepare_def demo_device_def)
qed

theorem storage_claim_safe_witness:
  "Set_marker ownership_marker \<in> set (snd (gateway_storage_prepare demo_device)) \<and> may_migrate demo_device \<and>
   marker_absent demo_device \<and> claim_reads 512 0 = take 512 (snd (gateway_storage_prepare demo_device))"
  using storage_claim_safe [OF storage_demo_run, of ownership_marker] storage_demo_run by (simp add: claim_reads_def)

end
