(* ===== verification/C_Double.thy ===== *)
theory C_Double
  imports Gw_Prelude Complex_Main "HOL-Library.Log_Nat"
begin

section \<open>C doubles\<close>

text \<open>
  IEEE 754 binary64 values as the source's \<open>double\<close>: NaN, the infinities and finite values, which
  are rationals. Every arithmetic operation is the exact rational result rounded to nearest, ties to
  even, with overflow to infinity and gradual underflow. The sign of a zero is not kept: no
  comparison, \<open>isfinite\<close>, \<open>floor\<close> or \<open>fabs\<close> of the modelled code distinguishes the two zeros.
\<close>

datatype dbl = NaN | Infty bool | Fin rat

subsection \<open>Rounding\<close>

definition ilog2 :: "rat \<Rightarrow> int" where
  "ilog2 q = (let (n, d) = quotient_of q;
                  e = int (floorlog 2 (nat n)) - int (floorlog 2 (nat d))
              in if 2 powi e \<le> q then e else e - 1)"

definition rnd_even :: "rat \<Rightarrow> int" where
  "rnd_even q = (let f = \<lfloor>q\<rfloor>; r = q - of_int f in
     if r < 1 / 2 then f else if r > 1 / 2 then f + 1 else if even f then f else f + 1)"

definition round_to :: "int \<Rightarrow> int \<Rightarrow> int \<Rightarrow> rat \<Rightarrow> dbl" where
  "round_to p emin emax q =
     (if q = 0 then Fin 0
      else let u = 2 powi (max (ilog2 \<bar>q\<bar> - (p - 1)) emin);
               v = of_int (rnd_even (q / u)) * u
           in if \<bar>v\<bar> \<ge> 2 powi emax then Infty (q < 0) else Fin v)"

definition round64 :: "rat \<Rightarrow> dbl" where
  "round64 = round_to 53 (- 1074) 1024"

subsection \<open>Operations\<close>

definition dbl_of_int :: "int \<Rightarrow> dbl" where
  "dbl_of_int i = round64 (of_int i)"

fun dneg_sign :: "dbl \<Rightarrow> bool" where
  "dneg_sign (Fin a) = (a < 0)"
| "dneg_sign (Infty s) = s"
| "dneg_sign NaN = False"

fun dadd :: "dbl \<Rightarrow> dbl \<Rightarrow> dbl" where
  "dadd (Fin a) (Fin b) = round64 (a + b)"
| "dadd (Infty s) (Infty t) = (if s = t then Infty s else NaN)"
| "dadd (Infty s) (Fin _) = Infty s"
| "dadd (Fin _) (Infty s) = Infty s"
| "dadd _ _ = NaN"

fun dmul :: "dbl \<Rightarrow> dbl \<Rightarrow> dbl" where
  "dmul (Fin a) (Fin b) = round64 (a * b)"
| "dmul NaN _ = NaN"
| "dmul _ NaN = NaN"
| "dmul x y = (if x = Fin 0 \<or> y = Fin 0 then NaN else Infty (dneg_sign x \<noteq> dneg_sign y))"

fun ddiv :: "dbl \<Rightarrow> dbl \<Rightarrow> dbl" where
  \<comment> \<open>a zero divisor counts as positive\<close>
  "ddiv (Fin a) (Fin b) = (if b \<noteq> 0 then round64 (a / b) else if a = 0 then NaN else Infty (a < 0))"
| "ddiv (Fin _) (Infty _) = Fin 0"
| "ddiv (Infty s) (Fin b) = Infty (s \<noteq> (b < 0))"
| "ddiv _ _ = NaN"

fun is_finite :: "dbl \<Rightarrow> bool" where
  "is_finite (Fin _) = True"
| "is_finite _ = False"

fun dlt :: "dbl \<Rightarrow> dbl \<Rightarrow> bool" where
  "dlt (Fin a) (Fin b) = (a < b)"
| "dlt (Infty s) (Fin _) = s"
| "dlt (Fin _) (Infty s) = (\<not> s)"
| "dlt (Infty s) (Infty t) = (s \<and> \<not> t)"
| "dlt _ _ = False"

fun deq :: "dbl \<Rightarrow> dbl \<Rightarrow> bool" where
  "deq NaN _ = False"
| "deq _ NaN = False"
| "deq x y = (x = y)"

fun dfabs :: "dbl \<Rightarrow> dbl" where
  "dfabs (Fin a) = Fin \<bar>a\<bar>"
| "dfabs (Infty _) = Infty False"
| "dfabs NaN = NaN"

fun dfloor :: "dbl \<Rightarrow> dbl" where
  "dfloor (Fin a) = Fin (of_int \<lfloor>a\<rfloor>)"
| "dfloor x = x"

definition FLT_MAX :: dbl where
  "FLT_MAX = Fin (2 ^ 128 - 2 ^ 104)"

text \<open>The value of an IEEE single with the given bits, exact as a double.\<close>

definition f32_of_bits :: "u32 \<Rightarrow> dbl" where
  "f32_of_bits w =
     (let s = bit w 31;
          e = unat (drop_bit 23 w AND 0xFF);
          m = unat (w AND 0x7FFFFF);
          sg = (if s then - 1 else 1 :: rat)
      in if e = 255 then (if m = 0 then Infty s else NaN)
         else if e = 0 then Fin (sg * of_nat m * 2 powi (- 149))
         else Fin (sg * of_nat (2 ^ 23 + m) * 2 powi (int e - 150)))"

subsection \<open>Facts about rounding\<close>

lemma ilog2_bounds:
  assumes "0 < q"
  shows "2 powi ilog2 q \<le> q" "q < 2 powi (ilog2 q + 1)"
proof -
  obtain n d where nd: "quotient_of q = (n, d)" by fastforce
  then have d: "0 < d" and q: "q = of_int n / of_int d"
    by (simp_all add: quotient_of_denom_pos quotient_of_div)
  with assms have n: "0 < n" by (simp add: zero_less_divide_iff)
  obtain k where k: "floorlog 2 (nat n) = Suc k" "2 ^ k \<le> nat n" "nat n < 2 ^ Suc k"
    using n floorlog_bounds [of "nat n" 2] floorlog_eq_zero_iff [of 2 "nat n"]
    by (cases "floorlog 2 (nat n)") auto
  obtain l where l: "floorlog 2 (nat d) = Suc l" "2 ^ l \<le> nat d" "nat d < 2 ^ Suc l"
    using d floorlog_bounds [of "nat d" 2] floorlog_eq_zero_iff [of 2 "nat d"]
    by (cases "floorlog 2 (nat d)") auto
  have cast: "(of_int i :: rat) = of_nat (nat i)" if "0 < i" for i
    using that by simp
  have nr: "(2::rat) ^ k \<le> of_int n" "(of_int n :: rat) < 2 ^ Suc k"
    unfolding cast [OF n]
    using of_nat_mono [OF k(2), where 'a = rat] of_nat_less_iff [of "nat n" "2 ^ Suc k", where 'a = rat] k(3)
    by simp_all
  have dr: "(2::rat) ^ l \<le> of_int d" "(of_int d :: rat) < 2 ^ Suc l"
    unfolding cast [OF d]
    using of_nat_mono [OF l(2), where 'a = rat] of_nat_less_iff [of "nat d" "2 ^ Suc l", where 'a = rat] l(3)
    by simp_all
  have "q < 2 ^ Suc k / 2 ^ l"
    unfolding q using nr dr n by (intro frac_less) auto
  then have up: "q < 2 powi (int (Suc k) - int (Suc l) + 1)"
    using power_int_diff [of "2::rat" "int (Suc k)" "int l"] unfolding power_int_of_nat
    by (simp del: of_nat_Suc power_Suc add: of_nat_Suc [of l])
  have "2 ^ k / 2 ^ Suc l \<le> q"
    unfolding q using nr dr d n by (intro frac_le) auto
  then have lo: "2 powi (int (Suc k) - int (Suc l) - 1) \<le> q"
    using power_int_diff [of "2::rat" "int k" "int (Suc l)"] unfolding power_int_of_nat
    by (simp del: of_nat_Suc power_Suc add: of_nat_Suc [of k])
  show "2 powi ilog2 q \<le> q" "q < 2 powi (ilog2 q + 1)"
    using up lo by (auto simp: ilog2_def nd Let_def k(1) l(1))
qed

lemma ilog2_less:
  assumes "0 < q" "q < 2 powi k"
  shows "ilog2 q < k"
proof (rule ccontr)
  assume "\<not> ilog2 q < k"
  then have "(2::rat) powi k \<le> 2 powi ilog2 q" by (intro power_int_increasing) auto
  with ilog2_bounds(1) [OF assms(1)] assms(2) show False by linarith
qed

lemma ilog2_ge:
  assumes "0 < q" "2 powi k \<le> q"
  shows "k \<le> ilog2 q"
proof (rule ccontr)
  assume "\<not> k \<le> ilog2 q"
  then have "(2::rat) powi (ilog2 q + 1) \<le> 2 powi k" by (intro power_int_increasing) auto
  with ilog2_bounds(2) [OF assms(1)] assms(2) show False by linarith
qed

lemma rnd_even_of_int [simp]: "rnd_even (of_int i) = i"
  by (simp add: rnd_even_def)

lemma rnd_even_error: "\<bar>of_int (rnd_even q) - q\<bar> \<le> 1 / 2"
proof -
  have "of_int \<lfloor>q\<rfloor> \<le> q" "q < of_int \<lfloor>q\<rfloor> + 1" by linarith+
  then show ?thesis by (auto simp: rnd_even_def Let_def)
qed

text \<open>Integers below \<open>2 ^ 53\<close> are exact.\<close>

lemma round64_int:
  assumes "\<bar>i\<bar> < 2 ^ 53"
  shows "round64 (of_int i) = Fin (of_int i)"
proof (cases "i = 0")
  case False
  have lt: "(of_int \<bar>i\<bar> :: rat) < 2 ^ 53"
    using assms by (metis of_int_less_iff of_int_numeral of_int_power)
  define t where "t = max (ilog2 \<bar>of_int i\<bar> - 52) (- 1074)"
  have "ilog2 \<bar>of_int i\<bar> < 53"
    using False lt by (intro ilog2_less) simp_all
  then have "t \<le> 0" by (simp add: t_def)
  then obtain s where s: "t = - int s" by (metis nonpos_int_cases)
  have q: "of_int i / 2 powi t = (of_int (i * 2 ^ s) :: rat)"
    by (simp add: s power_int_minus power_int_of_nat field_simps)
  have "rnd_even (of_int i / 2 powi t) = i * 2 ^ s"
    unfolding q by (rule rnd_even_of_int)
  moreover have "\<bar>of_int i :: rat\<bar> < 2 ^ 1024"
    using lt by (smt (verit) of_int_abs power_strict_increasing_iff numeral_less_iff order_less_trans one_less_numeral_iff semiring_norm)
  ultimately show ?thesis
    using False
    by (simp add: round64_def round_to_def Let_def s power_int_minus power_int_of_nat field_simps not_le flip: t_def)
qed (simp add: round64_def round_to_def)

lemma dbl_of_int_exact: "\<bar>i\<bar> < 2 ^ 53 \<Longrightarrow> dbl_of_int i = Fin (of_int i)"
  by (simp add: dbl_of_int_def round64_int)

text \<open>In the normal range the relative error is at most \<open>2 ^ -53\<close>.\<close>

lemma round64_error:
  assumes "2 powi (- 1022) \<le> \<bar>q\<bar>" "\<bar>q\<bar> < 2 powi 1023"
  shows "\<exists>v. round64 q = Fin v \<and> \<bar>v - q\<bar> \<le> \<bar>q\<bar> * 2 powi (- 53)"
proof -
  have pos: "0 < \<bar>q\<bar>" using less_le_trans [OF zero_less_power_int assms(1)] by simp
  define e where "e = ilog2 \<bar>q\<bar>"
  have e: "- 1022 \<le> e" "2 powi e \<le> \<bar>q\<bar>"
    using ilog2_ge [OF pos assms(1)] ilog2_bounds(1) [OF pos] by (simp_all add: e_def)
  define u where "u = (2::rat) powi (e - 52)"
  define v where "v = of_int (rnd_even (q / u)) * u"
  have u: "0 < u" by (simp add: u_def)
  have "\<bar>v - q\<bar> = \<bar>of_int (rnd_even (q / u)) - q / u\<bar> * u"
  proof -
    have "v - q = (of_int (rnd_even (q / u)) - q / u) * u"
      using u by (simp add: v_def left_diff_distrib)
    then show ?thesis using u by (simp add: abs_mult)
  qed
  also have "\<dots> \<le> 1 / 2 * u"
    using rnd_even_error u by (intro mult_right_mono) auto
  also have "\<dots> = 2 powi e * 2 powi (- 53)"
    by (simp add: u_def power_int_diff power_int_minus)
  also have "\<dots> \<le> \<bar>q\<bar> * 2 powi (- 53)"
    using e(2) by (intro mult_right_mono) simp_all
  finally have err: "\<bar>v - q\<bar> \<le> \<bar>q\<bar> * 2 powi (- 53)" .
  have "\<bar>v\<bar> \<le> \<bar>q\<bar> + \<bar>q\<bar> * 2 powi (- 53)" using err by linarith
  also have "\<dots> < 2 powi 1024"
    using assms(2) by (simp add: power_int_minus)
  finally have fits: "\<not> 2 powi 1024 \<le> \<bar>v\<bar>" by linarith
  have "max (ilog2 \<bar>q\<bar> - (53 - 1)) (- 1074) = e - 52" using e(1) by (simp add: e_def)
  then have "round64 q = (if 2 powi 1024 \<le> \<bar>v\<bar> then Infty (q < 0) else Fin v)"
    using pos unfolding round64_def round_to_def Let_def by (simp only: v_def u_def) simp
  with fits have "round64 q = Fin v" by simp
  with err show ?thesis by blast
qed

end
