(* ===== verification/C_Format.thy ===== *)
theory C_Format
  imports Gw_Prelude
begin

section \<open>printf conversions of unsigned numbers\<close>

text \<open>
  The \<open>%u\<close>, \<open>%0Nu\<close> and \<open>%0NX\<close> conversions the firmware uses, and the decimal reading that inverts
  the first two.
\<close>

definition digit_char :: "nat \<Rightarrow> char" where
  "digit_char d = ''0123456789ABCDEF'' ! d"

fun print_base :: "nat \<Rightarrow> nat \<Rightarrow> string" where
  "print_base b n = (if n < b \<or> b < 2 then [digit_char n] else print_base b (n div b) @ [digit_char (n mod b)])"

declare print_base.simps [simp del]

definition fmt_u :: "nat \<Rightarrow> string" where
  "fmt_u n = print_base 10 n"

definition pad0 :: "nat \<Rightarrow> string \<Rightarrow> string" where
  "pad0 w s = replicate (w - length s) CHR ''0'' @ s"

definition fmt_0u :: "nat \<Rightarrow> nat \<Rightarrow> string" where
  "fmt_0u w n = pad0 w (fmt_u n)"

definition fmt_0X :: "nat \<Rightarrow> nat \<Rightarrow> string" where
  "fmt_0X w n = pad0 w (print_base 16 n)"

subsection \<open>Reading decimals back\<close>

definition digit_val :: "char \<Rightarrow> nat" where
  "digit_val c = of_char c - 48"

definition is_digit :: "char \<Rightarrow> bool" where
  "is_digit c \<longleftrightarrow> 48 \<le> (of_char c :: nat) \<and> (of_char c :: nat) \<le> 57"

definition dec_value :: "string \<Rightarrow> nat" where
  "dec_value s = foldl (\<lambda>n c. 10 * n + digit_val c) 0 s"

lemma less_10_cases: "(d::nat) < 10 \<Longrightarrow> d \<in> {0, 1, 2, 3, 4, 5, 6, 7, 8, 9}"
  by auto

lemma digit_char_dec:
  assumes "d < 10"
  shows "digit_val (digit_char d) = d" "is_digit (digit_char d)" "digit_char d \<noteq> NUL"
  using less_10_cases [OF assms] by (auto simp: digit_char_def digit_val_def is_digit_def NUL_def)

lemma dec_value_snoc [simp]: "dec_value (s @ [c]) = 10 * dec_value s + digit_val c"
  by (simp add: dec_value_def)

lemma dec_value_fmt_u [simp]: "dec_value (fmt_u n) = n"
  unfolding fmt_u_def
proof (induction "10::nat" n rule: print_base.induct)
  case (1 n)
  show ?case
  proof (cases "n < 10")
    case True
    then show ?thesis
      by (simp add: print_base.simps [of 10 n] dec_value_def digit_char_dec)
  next
    case False
    with 1 have "dec_value (print_base 10 (n div 10)) = n div 10" by simp
    with False show ?thesis
      by (simp add: print_base.simps [of 10 n] digit_char_dec)
  qed
qed

lemma digits_fmt_u: "list_all is_digit (fmt_u n)"
  unfolding fmt_u_def
proof (induction "10::nat" n rule: print_base.induct)
  case (1 n)
  then show ?case
    by (cases "n < 10") (auto simp: print_base.simps [of 10 n] digit_char_dec)
qed

lemma dec_value_leading_zeros [simp]: "dec_value (replicate k CHR ''0'' @ s) = dec_value s"
  by (induction k) (auto simp: dec_value_def digit_val_def)

lemma dec_value_fmt_0u [simp]: "dec_value (fmt_0u w n) = n"
  by (simp add: fmt_0u_def pad0_def)

lemma digits_fmt_0u: "list_all is_digit (fmt_0u w n)"
  using digits_fmt_u [of n] by (auto simp: fmt_0u_def pad0_def list_all_iff is_digit_def)

lemma length_fmt_u_le:
  "n < 10 ^ Suc k \<Longrightarrow> length (fmt_u n) \<le> Suc k"
proof (induction k arbitrary: n)
  case 0
  then show ?case by (simp add: fmt_u_def print_base.simps)
next
  case (Suc k)
  then have "length (fmt_u (n div 10)) \<le> Suc k"
    by (intro Suc.IH) (simp add: less_mult_imp_div_less)
  then show ?case
    by (simp add: fmt_u_def print_base.simps [of 10 n])
qed

lemma length_fmt_0u:
  "n < 10 ^ w \<Longrightarrow> 0 < w \<Longrightarrow> length (fmt_0u w n) = w"
  using length_fmt_u_le [of n "w - 1"] by (cases w) (simp_all add: fmt_0u_def pad0_def)

lemma digits_no_NUL: "list_all is_digit s \<Longrightarrow> NUL \<notin> set s"
  by (auto simp: list_all_iff is_digit_def NUL_def)

end
