(* ===== verification/Custom_Csv.thy ===== *)
theory Custom_Csv
  imports C_Double C_Format
begin

section \<open>Reading the custom map's CSV (main/custom_map.c)\<close>

text \<open>
  The two field readers (\<open>integer\<close>, \<open>number\<close>) and the row scanner \<open>read_row\<close>. The input is an
  explicit span of characters; a read outside it is the value \<open>None\<close>, a rejected row \<open>Some None\<close>, and
  an accepted one \<open>Some (Some \<dots>)\<close> with the position after it. The fields of a row are C strings: the
  scanner admits no NUL, so each is the list of its characters.
\<close>

definition FIELD_COUNT :: nat where "FIELD_COUNT = 15"
definition FIELD_BYTES :: nat where "FIELD_BYTES = 513"

subsection \<open>Decimal integers\<close>

fun integer_loop :: "u32 \<Rightarrow> u32 \<Rightarrow> string \<Rightarrow> u32 option" where
  "integer_loop maximum n [] = Some n"
| "integer_loop maximum n (c # s) =
     (if \<not> is_digit c then None
      else let digit = of_nat (digit_val c) in
           if digit > maximum \<or> n > (maximum - digit) div 10 then None
           else let n = n * 10 + digit in
                if n > maximum then None else integer_loop maximum n s)"

definition integer :: "string \<Rightarrow> u32 \<Rightarrow> u32 \<Rightarrow> u32 option" where
  \<comment> \<open>every caller passes an array, never NULL\<close>
  "integer s minimum maximum =
     (if s = [] then None
      else case integer_loop maximum 0 s of
             None \<Rightarrow> None
           | Some n \<Rightarrow> if n < minimum then None else Some n)"

subsection \<open>Floating-point numbers\<close>

text \<open>
  \<open>strtod\<close> in the C locale: how many characters it consumes, the value, and whether it sets
  \<open>errno\<close> (overflow, or an underflow to zero).
\<close>

definition lower :: "char \<Rightarrow> char" where
  "lower c = (let k = of_char c :: nat in if 65 \<le> k \<and> k \<le> 90 then char_of (k + 32) else c)"

definition is_xdigit :: "char \<Rightarrow> bool" where
  "is_xdigit c \<longleftrightarrow> is_digit c \<or> (97 \<le> (of_char (lower c) :: nat) \<and> (of_char (lower c) :: nat) \<le> 102)"

definition xdigit_val :: "char \<Rightarrow> nat" where
  "xdigit_val c = (if is_digit c then digit_val c else of_char (lower c) - 87)"

definition has_prefix :: "string \<Rightarrow> string \<Rightarrow> bool" where
  "has_prefix p s \<longleftrightarrow> map lower (take (length p) s) = p"

definition sign_length :: "string \<Rightarrow> nat" where
  "sign_length s = (case s of c # _ \<Rightarrow> if c = CHR ''+'' \<or> c = CHR ''-'' then 1 else 0 | [] \<Rightarrow> 0)"

definition is_negative :: "string \<Rightarrow> bool" where
  "is_negative s = (case s of c # _ \<Rightarrow> c = CHR ''-'' | [] \<Rightarrow> False)"

text \<open>Digits with at most one point: the digits before, the digits after, the length.\<close>

definition mantissa :: "(char \<Rightarrow> bool) \<Rightarrow> string \<Rightarrow> string \<times> string \<times> nat" where
  "mantissa dig s =
     (let whole = takeWhile dig s; rest = drop (length whole) s in
      case rest of
        CHR ''.'' # r \<Rightarrow> (let frac = takeWhile dig r in (whole, frac, length whole + 1 + length frac))
      | _ \<Rightarrow> (whole, [], length whole))"

text \<open>An exponent part counts only when it has a digit.\<close>

definition exponent :: "char \<Rightarrow> string \<Rightarrow> int \<times> nat" where
  "exponent mark s =
     (case s of
        c # r \<Rightarrow>
          (let k = sign_length r; ds = takeWhile is_digit (drop k r) in
           if lower c = mark \<and> ds \<noteq> []
           then ((if is_negative r then - int (dec_value ds) else int (dec_value ds)), 1 + k + length ds)
           else (0, 0))
      | [] \<Rightarrow> (0, 0))"

definition base_value :: "nat \<Rightarrow> (char \<Rightarrow> nat) \<Rightarrow> string \<Rightarrow> nat" where
  "base_value b val s = foldl (\<lambda>n c. b * n + val c) 0 s"

definition strtod_body :: "string \<Rightarrow> (nat \<times> rat) option" where
  "strtod_body s =
     (case mantissa is_xdigit (drop 2 s) of (hw, hf, hn) \<Rightarrow>
      if has_prefix ''0x'' s \<and> hw @ hf \<noteq> [] then
        (case exponent CHR ''p'' (drop (2 + hn) s) of (e, en) \<Rightarrow>
           Some (2 + hn + en,
                 of_nat (base_value 16 xdigit_val (hw @ hf)) * 2 powi (e - 4 * int (length hf))))
      else case mantissa is_digit s of (w, f, n) \<Rightarrow>
        if w @ f = [] then None
        else case exponent CHR ''e'' (drop n s) of (e, en) \<Rightarrow>
          Some (n + en, of_nat (dec_value (w @ f)) * 10 powi (e - int (length f))))"

definition strtod :: "string \<Rightarrow> nat \<times> dbl \<times> bool" where
  "strtod s =
     (let blanks = length (takeWhile (\<lambda>c. c = CHR '' '') s);
          t = drop blanks s; k = sign_length t; u = drop k t
      in if has_prefix ''infinity'' u then (blanks + k + 8, Infty (is_negative t), False)
         else if has_prefix ''inf'' u then (blanks + k + 3, Infty (is_negative t), False)
         else if has_prefix ''nan'' u then (blanks + k + 3, NaN, False)
         else case strtod_body u of
                None \<Rightarrow> (0, Fin 0, False)
              | Some (n, q) \<Rightarrow>
                  (let x = round64 (if is_negative t then - q else q)
                   in (blanks + k + n, x, \<not> is_finite x \<or> (q \<noteq> 0 \<and> x = Fin 0))))"

definition number :: "string \<Rightarrow> dbl \<Rightarrow> dbl option" where
  "number s fallback =
     (if s = [] then Some fallback
      else case strtod s of (used, n, errno) \<Rightarrow>
        if errno \<or> used = 0 \<or> used < length s \<or> \<not> is_finite n then None else Some n)"

subsection \<open>Rows\<close>

definition QUOTE :: char where "QUOTE = CHR 0x22"
definition CR :: char where "CR = CHR 0x0D"
definition LF :: char where "LF = CHR 0x0A"

definition printable :: "char \<Rightarrow> bool" where
  "printable c \<longleftrightarrow> 32 \<le> (of_char c :: nat) \<and> (of_char c :: nat) \<le> 126"

text \<open>The inner loop: the characters of one field, the position after them, and \<open>closed\<close>.\<close>

function csv_chars :: "string \<Rightarrow> bool \<Rightarrow> nat \<Rightarrow> string \<Rightarrow> (string \<times> nat \<times> bool) option option" where
  "csv_chars csv quoted pos acc =
     (if pos < length csv then
        (case rd csv pos of
           None \<Rightarrow> None
         | Some ch \<Rightarrow>
             if \<not> printable ch then
               (if \<not> quoted \<and> (ch = CR \<or> ch = LF) then Some (Some (acc, pos, \<not> quoted)) else Some None)
             else if quoted \<and> ch = QUOTE then
               (if pos + 1 < length csv then
                  (case rd csv (pos + 1) of
                     None \<Rightarrow> None
                   | Some next \<Rightarrow>
                       if next = QUOTE then
                         (if length acc + 1 \<ge> FIELD_BYTES then Some None
                          else csv_chars csv quoted (pos + 2) (acc @ [ch]))
                       else Some (Some (acc, pos + 1, True)))
                else Some (Some (acc, pos + 1, True)))
             else if \<not> quoted \<and> ch = CHR '','' then Some (Some (acc, pos, \<not> quoted))
             else if \<not> quoted \<and> ch = QUOTE then Some None
             else if length acc + 1 \<ge> FIELD_BYTES then Some None
             else csv_chars csv quoted (pos + 1) (acc @ [ch]))
      else Some (Some (acc, pos, \<not> quoted)))"
  by pat_completeness auto
termination
  by (relation "measure (\<lambda>(csv, quoted, pos, acc). length csv - pos)") auto

declare csv_chars.simps [simp del]

definition read_field :: "string \<Rightarrow> nat \<Rightarrow> (string \<times> nat) option option" where
  "read_field csv pos =
     (case (if pos < length csv then map_option (\<lambda>c. c = QUOTE) (rd csv pos) else Some False) of
        None \<Rightarrow> None
      | Some quoted \<Rightarrow>
          (case csv_chars csv quoted (if quoted then pos + 1 else pos) [] of
             None \<Rightarrow> None
           | Some None \<Rightarrow> Some None
           | Some (Some (field, p, shut)) \<Rightarrow> if shut then Some (Some (field, p)) else Some None))"

text \<open>What must follow a field: a comma, or the end of the line after the last one.\<close>

definition end_of_line :: "string \<Rightarrow> nat \<Rightarrow> nat option option" where
  "end_of_line csv pos =
     (case rd csv pos of
        None \<Rightarrow> None
      | Some c \<Rightarrow> if c = LF then Some (Some (pos + 1)) else Some None)"

definition field_end :: "string \<Rightarrow> bool \<Rightarrow> nat \<Rightarrow> nat option option" where
  "field_end csv final pos =
     (if \<not> final then
        (if pos \<ge> length csv then Some None
         else case rd csv pos of
                None \<Rightarrow> None
              | Some c \<Rightarrow> if c \<noteq> CHR '','' then Some None else Some (Some (pos + 1)))
      else if pos < length csv then
        (case rd csv pos of
           None \<Rightarrow> None
         | Some c \<Rightarrow>
             if c = CR then (if pos + 1 \<ge> length csv then Some None else end_of_line csv (pos + 1))
             else end_of_line csv pos)
      else Some (Some pos))"

fun read_fields :: "nat \<Rightarrow> string \<Rightarrow> nat \<Rightarrow> (string list \<times> nat) option option" where
  "read_fields 0 csv pos = Some (Some ([], pos))"
| "read_fields (Suc k) csv pos =
     (case read_field csv pos of
        None \<Rightarrow> None
      | Some None \<Rightarrow> Some None
      | Some (Some (field, p)) \<Rightarrow>
          (case field_end csv (k = 0) p of
             None \<Rightarrow> None
           | Some None \<Rightarrow> Some None
           | Some (Some p') \<Rightarrow>
               (case read_fields k csv p' of
                  None \<Rightarrow> None
                | Some None \<Rightarrow> Some None
                | Some (Some (fields, q)) \<Rightarrow> Some (Some (field # fields, q)))))"

definition read_row :: "string \<Rightarrow> nat \<Rightarrow> (string list \<times> nat) option option" where
  "read_row csv pos = read_fields FIELD_COUNT csv pos"

subsection \<open>Integers\<close>

lemma digit_val_less: "is_digit c \<Longrightarrow> digit_val c < 10"
  unfolding is_digit_def digit_val_def by linarith

definition dec_from :: "nat \<Rightarrow> string \<Rightarrow> nat" where
  "dec_from n s = foldl (\<lambda>n c. 10 * n + digit_val c) n s"

lemma dec_from_simps [simp]: "dec_from n [] = n" "dec_from n (c # s) = dec_from (10 * n + digit_val c) s"
  by (simp_all add: dec_from_def)

lemma dec_from_0: "dec_from 0 s = dec_value s"
  by (simp add: dec_from_def dec_value_def)

lemma dec_from_mono: "n \<le> dec_from n s"
proof (induction s arbitrary: n)
  case (Cons c s)
  from Cons [of "10 * n + digit_val c"] show ?case by simp
qed simp

lemma integer_step:
  assumes "is_digit c"
  shows "(of_nat (digit_val c) > maximum \<or> n > (maximum - of_nat (digit_val c)) div 10) \<longleftrightarrow>
      unat maximum < 10 * unat n + digit_val c" (is "?l \<longleftrightarrow> ?r")
    and "10 * unat n + digit_val c \<le> unat maximum \<Longrightarrow>
      unat (n * 10 + of_nat (digit_val c)) = 10 * unat n + digit_val (c :: char) \<and>
      \<not> (n * 10 + of_nat (digit_val c) > (maximum :: u32))"
proof -
  let ?d = "of_nat (digit_val c) :: u32"
  have d: "unat ?d = digit_val c"
    using digit_val_less [OF assms] by (subst unat_of_nat_small) simp_all
  show "?l \<longleftrightarrow> ?r"
  proof (cases "?d > maximum")
    case True
    then show ?thesis using d by (auto simp: word_less_nat_alt)
  next
    case False
    then have le: "digit_val c \<le> unat maximum" using d by (simp add: word_less_nat_alt)
    then have "unat ((maximum - ?d) div 10) = (unat maximum - digit_val c) div 10"
      using d False by (simp add: unat_div unat_sub word_le_nat_alt)
    then have "n > (maximum - ?d) div 10 \<longleftrightarrow> (unat maximum - digit_val c) div 10 < unat n"
      by (simp add: word_less_nat_alt)
    also have "\<dots> \<longleftrightarrow> unat maximum - digit_val c < unat n * 10"
      by (simp add: less_mult_imp_div_less div_less_iff_less_mult)
    also have "\<dots> \<longleftrightarrow> ?r" using le by linarith
    finally show ?thesis using False by simp
  qed
  assume b: "10 * unat n + digit_val c \<le> unat maximum"
  then have n: "unat (n * 10) = 10 * unat n"
    using unat_lt_u32 [of maximum] by (simp add: unat_word_ariths)
  have "unat (n * 10 + ?d) = 10 * unat n + digit_val c"
    using b unat_lt_u32 [of maximum] by (subst unat_add_small) (simp_all add: n d)
  with b show "unat (n * 10 + ?d) = 10 * unat n + digit_val c \<and> \<not> (n * 10 + ?d > maximum)"
    by (simp add: word_less_nat_alt)
qed

lemma integer_loop_eq:
  "integer_loop maximum n s =
     (if list_all is_digit s \<and> dec_from (unat n) s \<le> unat maximum \<or> s = []
      then Some (of_nat (dec_from (unat n) s)) else None)"
proof (induction s arbitrary: n)
  case (Cons c s)
  show ?case
  proof (cases "is_digit c \<and> 10 * unat n + digit_val c \<le> unat maximum")
    case True
    note st = integer_step [of c, where maximum = maximum and n = n] True
    have "integer_loop maximum n (c # s) = integer_loop maximum (n * 10 + of_nat (digit_val c)) s"
      using st by (auto simp: Let_def)
    also have "\<dots> = (if list_all is_digit s \<and> dec_from (10 * unat n + digit_val c) s \<le> unat maximum
        then Some (of_nat (dec_from (10 * unat n + digit_val c) s)) else None)"
      using Cons [of "n * 10 + of_nat (digit_val c)"] st by auto
    finally show ?thesis using True by simp
  next
    case False
    have "unat maximum < dec_from (unat n) (c # s)" if "is_digit c"
      using that False dec_from_mono [of "10 * unat n + digit_val c" s] by simp
    moreover have "integer_loop maximum n (c # s) = None"
      using False integer_step(1) [of c, where maximum = maximum and n = n] by (auto simp: Let_def)
    ultimately show ?thesis by auto
  qed
qed simp

text \<open>A numeric field is accepted exactly when it is a non-empty string of
  decimal digits whose value lies between the bounds, and the value is then that of the digits; no
  intermediate product or sum of the 32-bit loop wraps.\<close>
theorem custom_integer_exact:
  "integer s minimum maximum =
     (if s \<noteq> [] \<and> list_all is_digit s \<and> unat minimum \<le> dec_value s \<and> dec_value s \<le> unat maximum
      then Some (of_nat (dec_value s)) else None)"
proof (cases "s \<noteq> [] \<and> list_all is_digit s \<and> dec_value s \<le> unat maximum")
  case True
  then have "unat (of_nat (dec_value s) :: u32) = dec_value s"
    using unat_lt_u32 [of maximum] by (subst unat_of_nat_small) simp_all
  then show ?thesis using True
    by (auto simp: integer_def integer_loop_eq dec_from_0 word_less_nat_alt)
next
  case False
  then show ?thesis by (auto simp: integer_def integer_loop_eq dec_from_0)
qed

subsection \<open>The grammar of a row\<close>

text \<open>What a field may look like: its characters as they are, or between quotes with every quote
  doubled. Fields of a row are separated by commas; the row ends with a line feed, with carriage
  return and line feed, or with the input.\<close>

definition escape :: "string \<Rightarrow> string" where
  "escape f = concat (map (\<lambda>c. if c = QUOTE then [QUOTE, QUOTE] else [c]) f)"

definition field_ok :: "string \<Rightarrow> bool" where
  "field_ok f \<longleftrightarrow> list_all printable f \<and> length f < FIELD_BYTES"

definition plain :: "string \<Rightarrow> bool" where
  "plain f \<longleftrightarrow> QUOTE \<notin> set f \<and> CHR '','' \<notin> set f"

definition field_text :: "string \<Rightarrow> string \<Rightarrow> bool" where
  "field_text f t \<longleftrightarrow> field_ok f \<and> (t = f \<and> plain f \<or> t = QUOTE # escape f @ [QUOTE])"

fun row_text :: "string list \<Rightarrow> string \<Rightarrow> bool" where
  "row_text [] t \<longleftrightarrow> False"
| "row_text [f] t \<longleftrightarrow> field_text f t"
| "row_text (f # fs) t \<longleftrightarrow> (\<exists>t1 t2. t = t1 @ CHR '','' # t2 \<and> field_text f t1 \<and> row_text fs t2)"

definition row_end :: "string \<Rightarrow> string \<Rightarrow> bool" where
  \<comment> \<open>the end of the line, and what follows it\<close>
  "row_end e rest \<longleftrightarrow> e = [LF] \<or> e = [CR, LF] \<or> e = [] \<and> rest = []"

lemma char_facts [simp]:
  "\<not> printable CR" "\<not> printable LF" "printable QUOTE" "printable CHR '',''"
  "CR \<noteq> QUOTE" "LF \<noteq> QUOTE" "CR \<noteq> LF" "LF \<noteq> CR" "QUOTE \<noteq> CHR '',''" "CR \<noteq> CHR '',''" "LF \<noteq> CHR '',''"
  "QUOTE \<noteq> CR" "QUOTE \<noteq> LF" "CHR '','' \<noteq> QUOTE" "CHR '','' \<noteq> CR" "CHR '','' \<noteq> LF"
  by (simp_all add: printable_def CR_def LF_def QUOTE_def)

lemma escape_simps [simp]:
  "escape [] = []" "escape (c # f) = (if c = QUOTE then QUOTE # QUOTE # escape f else c # escape f)"
  by (simp_all add: escape_def)

subsection \<open>Reading what the grammar writes\<close>

lemma chars_at:
  "csv_chars (pre @ c # r) quoted (length pre) acc =
     (if \<not> printable c then
        (if \<not> quoted \<and> (c = CR \<or> c = LF) then Some (Some (acc, length pre, \<not> quoted)) else Some None)
      else if quoted \<and> c = QUOTE then
        (case r of
           [] \<Rightarrow> Some (Some (acc, length pre + 1, True))
         | d # r' \<Rightarrow>
             if d = QUOTE then (if length acc + 1 \<ge> FIELD_BYTES then Some None
                                else csv_chars (pre @ c # r) quoted (length pre + 2) (acc @ [c]))
             else Some (Some (acc, length pre + 1, True)))
      else if \<not> quoted \<and> c = CHR '','' then Some (Some (acc, length pre, \<not> quoted))
      else if \<not> quoted \<and> c = QUOTE then Some None
      else if length acc + 1 \<ge> FIELD_BYTES then Some None
      else csv_chars (pre @ c # r) quoted (length pre + 1) (acc @ [c]))"
  by (subst csv_chars.simps) (cases r, simp_all add: nth_append)

lemma chars_end: "csv_chars csv quoted (length csv) acc = Some (Some (acc, length csv, \<not> quoted))"
  by (subst csv_chars.simps) simp

lemma chars_quoted:
  assumes "list_all printable f" "length acc + length f < FIELD_BYTES" "\<forall>r'. rest \<noteq> QUOTE # r'"
  shows "csv_chars (pre @ escape f @ QUOTE # rest) True (length pre) acc =
     Some (Some (acc @ f, length pre + length (escape f) + 1, True))"
  using assms(1,2)
proof (induction f arbitrary: pre acc)
  case Nil
  then show ?case using assms(3) by (cases rest) (simp_all add: chars_at)
next
  case (Cons c f)
  show ?case
  proof (cases "c = QUOTE")
    case True
    from Cons.IH [of "acc @ [c]" "pre @ [QUOTE, QUOTE]"] Cons.prems True show ?thesis
      by (simp add: chars_at)
  next
    case False
    from Cons.IH [of "acc @ [c]" "pre @ [c]"] Cons.prems False show ?thesis
      by (simp add: chars_at)
  qed
qed

definition stops :: "string \<Rightarrow> bool" where
  "stops rest \<longleftrightarrow> (case rest of [] \<Rightarrow> True | c # _ \<Rightarrow> c = CHR '','' \<or> c = CR \<or> c = LF)"

lemma chars_plain:
  assumes "list_all printable f" "plain f" "length acc + length f < FIELD_BYTES" "stops rest"
  shows "csv_chars (pre @ f @ rest) False (length pre) acc = Some (Some (acc @ f, length pre + length f, True))"
  using assms(1-3)
proof (induction f arbitrary: pre acc)
  case Nil
  then show ?case using assms(4) chars_end [of pre]
    by (cases rest) (auto simp: chars_at stops_def)
next
  case (Cons c f)
  from Cons.IH [of "acc @ [c]" "pre @ [c]"] Cons.prems show ?case
    by (auto simp: chars_at plain_def)
qed

lemma read_field_text:
  assumes "field_text f t" "stops rest"
  shows "read_field (pre @ t @ rest) (length pre) = Some (Some (f, length pre + length t))"
proof -
  have nq: "\<forall>r'. rest \<noteq> QUOTE # r'" using assms(2) by (auto simp: stops_def QUOTE_def CR_def LF_def)
  from assms(1) consider "t = f" "plain f" "field_ok f" | "t = QUOTE # escape f @ [QUOTE]" "field_ok f"
    by (auto simp: field_text_def)
  then show ?thesis
  proof cases
    case 1
    have "\<not> (length pre < length (pre @ f @ rest) \<and> (pre @ f @ rest) ! length pre = QUOTE)"
      using 1 assms(2) by (cases f; cases rest) (auto simp: plain_def stops_def nth_append)
    then show ?thesis
      using 1 chars_plain [of f "[]" rest pre] assms(2) by (auto simp: read_field_def field_ok_def)
  next
    case 2
    then show ?thesis
      using chars_quoted [of f "[]" rest "pre @ [QUOTE]"] nq
      by (simp add: read_field_def field_ok_def)
  qed
qed

lemma row_end_stops: "row_end e rest \<Longrightarrow> stops (e @ rest)"
  by (auto simp: row_end_def stops_def)

lemma field_end_final:
  "row_end e rest \<Longrightarrow> field_end (pre @ e @ rest) True (length pre) = Some (Some (length pre + length e))"
  by (auto simp: row_end_def field_end_def end_of_line_def nth_append)

lemma read_fields_text:
  "row_text fs t \<Longrightarrow> row_end e rest \<Longrightarrow>
   read_fields (length fs) (pre @ t @ e @ rest) (length pre) = Some (Some (fs, length pre + length t + length e))"
proof (induction fs t arbitrary: pre rule: row_text.induct)
  case (2 f t)
  then show ?case
    using read_field_text [of f t "e @ rest" pre] field_end_final [of e rest "pre @ t"]
    by (simp add: row_end_stops)
next
  case (3 f g fs t)
  then obtain t1 t2 where t: "t = t1 @ CHR '','' # t2" "field_text f t1" "row_text (g # fs) t2"
    by auto
  have "read_field (pre @ t @ e @ rest) (length pre) = Some (Some (f, length pre + length t1))"
    using read_field_text [OF t(2), of "CHR '','' # t2 @ e @ rest" pre] t(1) by (simp add: stops_def)
  moreover have "field_end (pre @ t @ e @ rest) False (length pre + length t1) = Some (Some (length pre + length t1 + 1))"
    by (simp add: t(1) field_end_def nth_append)
  moreover have "read_fields (length (g # fs)) (pre @ t @ e @ rest) (length pre + length t1 + 1) =
      Some (Some (g # fs, length pre + length t + length e))"
    using "3.IH" [OF t(3) "3.prems"(2), of "pre @ t1 @ [CHR '','']"] t(1) by simp
  ultimately show ?case by simp
qed simp


subsection \<open>Writing what the scanner reads\<close>

lemma chars_never_fault [simp]: "csv_chars csv quoted pos acc \<noteq> None"
proof (induction csv quoted pos acc rule: csv_chars.induct)
  case (1 csv quoted pos acc)
  then show ?case by (subst csv_chars.simps) (auto simp del: not_None_eq)
qed

lemma chars_sound:
  assumes "csv_chars csv quoted pos acc = Some (Some (g, p, True))" "pos \<le> length csv" "length acc < FIELD_BYTES"
  shows "\<exists>f. g = acc @ f \<and> list_all printable f \<and> length g < FIELD_BYTES \<and>
    (if quoted then drop pos csv = escape f @ QUOTE # drop p csv \<and> p = pos + length (escape f) + 1
     else drop pos csv = f @ drop p csv \<and> p = pos + length f \<and> plain f)"
  using assms
proof (induction csv quoted pos acc rule: csv_chars.induct)
  case (1 csv quoted pos acc)
  show ?case
  proof (cases "pos < length csv")
    case False
    then show ?thesis using 1(3-) by (subst (asm) csv_chars.simps) (auto simp: plain_def)
  next
    case True
    then have d: "drop pos csv = csv ! pos # drop (pos + 1) csv" by (simp add: Cons_nth_drop_Suc)
    note step = 1(3) [unfolded csv_chars.simps [of csv quoted pos acc]]
    consider (stop) "\<not> quoted" "g = acc" "p = pos"
      | (shut) "quoted" "csv ! pos = QUOTE" "g = acc" "p = pos + 1"
      | (pair) "quoted" "csv ! pos = QUOTE" "pos + 1 < length csv" "csv ! (pos + 1) = QUOTE"
          "csv_chars csv quoted (pos + 2) (acc @ [QUOTE]) = Some (Some (g, p, True))" "length acc + 1 < FIELD_BYTES"
      | (char) "printable (csv ! pos)" "csv ! pos \<noteq> QUOTE" "quoted \<or> csv ! pos \<noteq> CHR '',''"
          "csv_chars csv quoted (pos + 1) (acc @ [csv ! pos]) = Some (Some (g, p, True))" "length acc + 1 < FIELD_BYTES"
      using step True by (auto split: if_splits)
    then show ?thesis
    proof cases
      case stop
      then show ?thesis using 1(5) by (auto simp: plain_def)
    next
      case shut
      then show ?thesis using 1(5) d by auto
    next
      case pair
      obtain f where f: "g = (acc @ [QUOTE]) @ f" "list_all printable f" "length g < FIELD_BYTES"
        "drop (pos + 2) csv = escape f @ QUOTE # drop p csv" "p = pos + 2 + length (escape f) + 1"
        using "1.IH"(1) [of "csv ! pos" "csv ! (pos + 1)"] pair True by auto
      have "drop pos csv = QUOTE # QUOTE # drop (pos + 2) csv"
        using d pair Cons_nth_drop_Suc [of "pos + 1" csv] by simp
      then show ?thesis using f pair(1) by (intro exI [of _ "QUOTE # f"]) simp
    next
      case char
      have "\<exists>f. g = (acc @ [csv ! pos]) @ f \<and> list_all printable f \<and> length g < FIELD_BYTES \<and>
        (if quoted then drop (pos + 1) csv = escape f @ QUOTE # drop p csv \<and> p = pos + 1 + length (escape f) + 1
         else drop (pos + 1) csv = f @ drop p csv \<and> p = pos + 1 + length f \<and> plain f)"
        using "1.IH"(2) [of "csv ! pos"] char True by auto
      then obtain f where f: "g = (acc @ [csv ! pos]) @ f" "list_all printable f" "length g < FIELD_BYTES"
        "if quoted then drop (pos + 1) csv = escape f @ QUOTE # drop p csv \<and> p = pos + 1 + length (escape f) + 1
         else drop (pos + 1) csv = f @ drop p csv \<and> p = pos + 1 + length f \<and> plain f"
        by blast
      show ?thesis using f char(1-3) d by (intro exI [of _ "csv ! pos # f"]) (auto simp: plain_def split: if_splits)
    qed
  qed
qed

lemma read_field_never_fault [simp]: "read_field csv pos \<noteq> None"
  by (auto simp: read_field_def split: option.splits if_splits)

lemma read_field_sound:
  assumes "read_field csv pos = Some (Some (f, p))" "pos \<le> length csv"
  shows "\<exists>t. field_text f t \<and> drop pos csv = t @ drop p csv \<and> p = pos + length t"
proof (cases "pos < length csv \<and> csv ! pos = QUOTE")
  case True
  then have c: "csv_chars csv True (pos + 1) [] = Some (Some (f, p, True))"
    using assms(1) by (auto simp: read_field_def split: option.splits if_splits)
  from chars_sound [OF c] True Cons_nth_drop_Suc [of pos csv] show ?thesis
    by (intro exI [of _ "QUOTE # escape f @ [QUOTE]"]) (auto simp: field_text_def field_ok_def FIELD_BYTES_def)
next
  case False
  then have c: "csv_chars csv False pos [] = Some (Some (f, p, True))"
    using assms(1) by (auto simp: read_field_def split: option.splits if_splits)
  from chars_sound [OF c] assms(2) show ?thesis
    by (intro exI [of _ f]) (auto simp: field_text_def field_ok_def FIELD_BYTES_def)
qed

lemma field_end_never_fault [simp]: "field_end csv final pos \<noteq> None"
  by (auto simp: field_end_def end_of_line_def)

lemma field_end_sound:
  assumes "field_end csv final pos = Some (Some p)" "pos \<le> length csv"
  shows "if final then \<exists>e. row_end e (drop p csv) \<and> drop pos csv = e @ drop p csv \<and> p = pos + length e
    else pos < length csv \<and> drop pos csv = CHR '','' # drop p csv \<and> p = pos + 1"
proof (cases "pos < length csv")
  case True
  note d = Cons_nth_drop_Suc [OF True, symmetric]
  show ?thesis
  proof (cases "final \<and> csv ! pos = CR")
    case True
    then have p: "pos + 1 < length csv" "csv ! (pos + 1) = LF" "p = pos + 2"
      using assms(1) \<open>pos < length csv\<close> by (auto simp: field_end_def end_of_line_def split: if_splits)
    then have "drop pos csv = [CR, LF] @ drop p csv"
      using d True Cons_nth_drop_Suc [of "pos + 1" csv] by simp
    then show ?thesis using True p by (auto simp: row_end_def)
  next
    case False
    then show ?thesis
      using assms(1) True d by (auto simp: field_end_def end_of_line_def row_end_def split: if_splits)
  qed
next
  case False
  then show ?thesis using assms by (cases final) (auto simp: field_end_def row_end_def)
qed

lemma read_fields_never_fault: "read_fields k csv pos \<noteq> None"
  by (induction k arbitrary: pos) (auto simp del: not_None_eq split: option.split prod.split)

lemma drop_step: "drop pos csv = t @ drop q csv \<Longrightarrow> q = pos + length t \<Longrightarrow> pos \<le> length csv \<Longrightarrow> q \<le> length csv"
  by (drule arg_cong [where f = length]) simp

lemma read_fields_sound:
  assumes "read_fields (Suc k) csv pos = Some (Some (fs, p))" "pos \<le> length csv"
  shows "length fs = Suc k \<and> (\<exists>t e. row_text fs t \<and> row_end e (drop p csv) \<and>
     drop pos csv = t @ e @ drop p csv \<and> p = pos + length t + length e)"
  using assms
proof (induction k arbitrary: pos fs)
  case 0
  then obtain f q where f: "read_field csv pos = Some (Some (f, q))" "field_end csv True q = Some (Some p)" "fs = [f]"
    by (auto split: option.splits)
  from read_field_sound [OF f(1) "0.prems"(2)] obtain t where
    t: "field_text f t" "drop pos csv = t @ drop q csv" "q = pos + length t" by blast
  have "q \<le> length csv" by (rule drop_step [OF t(2,3) "0.prems"(2)])
  from field_end_sound [OF f(2) this] t f(3) show ?case by auto
next
  case (Suc k)
  then obtain f q r gs where f: "read_field csv pos = Some (Some (f, q))" "field_end csv False q = Some (Some r)"
    "read_fields (Suc k) csv r = Some (Some (gs, p))" "fs = f # gs"
    by (auto simp del: read_fields.simps simp: read_fields.simps(2) [of "Suc k"] split: option.splits)
  from read_field_sound [OF f(1) Suc.prems(2)] obtain t where
    t: "field_text f t" "drop pos csv = t @ drop q csv" "q = pos + length t" by blast
  have "q \<le> length csv" by (rule drop_step [OF t(2,3) Suc.prems(2)])
  from field_end_sound [OF f(2) this] have
    r: "q < length csv" "drop q csv = CHR '','' # drop r csv" "r = q + 1" by auto
  from Suc.IH [OF f(3)] r have "length gs = Suc k" and "\<exists>u e. row_text gs u \<and> row_end e (drop p csv) \<and>
     drop r csv = u @ e @ drop p csv \<and> p = r + length u + length e" by auto
  then obtain u e where u: "row_text gs u" "row_end e (drop p csv)" "drop r csv = u @ e @ drop p csv"
    "p = r + length u + length e" and gs: "length gs = Suc k" by blast
  have "row_text fs (t @ CHR '','' # u)"
    using t(1) u(1) gs f(4) by (cases gs) auto
  then show ?case using t r u gs f(4) by (intro conjI exI [of _ "t @ CHR '','' # u"] exI [of _ e]) simp_all
qed

lemma row_text_nonempty: "row_text fs t \<Longrightarrow> fs \<noteq> []"
  by (cases fs) auto

text \<open>C28 (custom_row_exact): the scanner reads exactly the rows of the grammar. From any position of any
  text it never reads outside the text, and it returns fields \<open>fs\<close> and position \<open>p\<close> if and only if the
  text from there to \<open>p\<close> is fifteen printable fields of at most 512 characters, each plain or quoted
  with doubled quotes, separated by commas and closed by a line end or the end of the text.\<close>
theorem custom_row_exact:
  assumes "pos \<le> length csv"
  shows "read_row csv pos \<noteq> None \<and>
    (read_row csv pos = Some (Some (fs, p)) \<longleftrightarrow>
      length fs = FIELD_COUNT \<and> (\<exists>t e. row_text fs t \<and> row_end e (drop p csv) \<and>
        drop pos csv = t @ e @ drop p csv \<and> p = pos + length t + length e))"
proof -
  let ?row = "length fs = FIELD_COUNT \<and> (\<exists>t e. row_text fs t \<and> row_end e (drop p csv) \<and>
        drop pos csv = t @ e @ drop p csv \<and> p = pos + length t + length e)"
  have a: "?row" if "read_row csv pos = Some (Some (fs, p))"
    using read_fields_sound [of "FIELD_COUNT - 1" csv pos fs p] that assms
    by (simp add: read_row_def FIELD_COUNT_def)
  have b: "read_row csv pos = Some (Some (fs, p))" if row: "?row"
  proof -
    from row obtain t e where t: "length fs = FIELD_COUNT" "row_text fs t" "row_end e (drop p csv)"
      "drop pos csv = t @ e @ drop p csv" "p = pos + length t + length e" by blast
    have "csv = take pos csv @ t @ e @ drop p csv"
      by (metis append_take_drop_id t(4))
    then show ?thesis
      using read_fields_text [OF t(2,3), of "take pos csv"] t(1,5) assms
      by (simp add: read_row_def min_absorb1 min_absorb2)
  qed
  have c: "read_row csv pos \<noteq> None" unfolding read_row_def by (rule read_fields_never_fault)
  show ?thesis by (rule conjI [OF c], rule iffI, erule a, erule b)
qed

fun join :: "string list \<Rightarrow> string" where
  "join [] = []"
| "join [t] = t"
| "join (t # ts) = t @ CHR '','' # join ts"

lemma row_text_join: "list_all2 field_text fs ts \<Longrightarrow> fs \<noteq> [] \<Longrightarrow> row_text fs (join ts)"
proof (induction fs ts rule: list_all2_induct)
  case (Cons f fs t ts)
  then show ?case by (cases fs; cases ts) auto
qed simp

definition demo_fields :: "string list" where
  "demo_fields = [''1'', ''a,'', ''BI'', ''1'', ''7'', ''bool'', [], [], [], [], [], [], [], ''1000'', []]"

definition demo_row :: string where
  "demo_row = join (map (\<lambda>f. if plain f then f else QUOTE # escape f @ [QUOTE]) demo_fields)"

lemma demo_row_text: "row_text demo_fields demo_row"
  unfolding demo_row_def
proof (rule row_text_join)
  have "list_all field_ok demo_fields"
    by (simp add: demo_fields_def field_ok_def printable_def FIELD_BYTES_def)
  then show "list_all2 field_text demo_fields (map (\<lambda>f. if plain f then f else QUOTE # escape f @ [QUOTE]) demo_fields)"
    by (auto simp: list_all2_conv_all_nth list_all_length field_text_def)
qed (simp add: demo_fields_def)

lemma custom_row_exact_witness:
  "read_row (''x'' @ demo_row @ LF # ''2'') 1 = Some (Some (demo_fields, 1 + length demo_row + 1))"
proof -
  have "length demo_fields = FIELD_COUNT" by (simp add: demo_fields_def FIELD_COUNT_def)
  then show ?thesis
    using custom_row_exact [of 1 "''x'' @ demo_row @ LF # ''2''" demo_fields "1 + length demo_row + 1"] demo_row_text
    by (auto simp: row_end_def)
qed

end
