(* ===== verification/Ats_Map.thy ===== *)
theory Ats_Map
  imports Gw_Prelude
begin

section \<open>The MPAC1500 section-13 tables (main/ats_map.inc, main/ats_model.h)\<close>

text \<open>
  The point catalog, the decoder column and the scan blocks of the built-in profile, row by row as
  the generated C tables have them. Offsets, counts and sizes of the constant tables are natural
  numbers; \<open>block_limits\<close> and \<open>point_row_ok\<close> record that each fits the width of its C field. The rest of the theory
  checks the geometry the decoder relies on: blocks are disjoint and short enough, and every
  point lies inside exactly one of them.
\<close>

subsection \<open>Row types\<close>

record ats_point_def =
  pd_object_type :: nat   \<comment> \<open>BACnet: 0 AI, 3 BI, 13 MSI, 40 CharacterStringValue\<close>
  pd_instance :: nat
  pd_name :: string
  pd_description :: string
  pd_units :: nat
  pd_state_count :: nat
  pd_state_text :: "string list option"
  pd_offset :: nat
  pd_word_count :: nat
  pd_bit_lsb :: nat
  pd_bit_width :: nat

datatype encoding = ENC_U16 | ENC_BOOL | ENC_ENUM | ENC_U32 | ENC_ASCII | ENC_CLOCK | ENC_DATE | ENC_VERSION

record point_decode =
  dc_encoding :: encoding
  dc_numerator :: nat
  dc_denominator :: nat

record ats_scan_block =
  sb_offset :: nat
  sb_count :: nat
  sb_period_ms :: nat
  sb_stale_ms :: nat
  sb_name :: string

definition ATS_POINT_COUNT :: nat where "ATS_POINT_COUNT = 164"
definition ATS_BLOCK_COUNT :: nat where "ATS_BLOCK_COUNT = 23"
definition ATS_MAX_BLOCK_WORDS :: nat where "ATS_MAX_BLOCK_WORDS = 40"
definition ATS_MAX_POINT_WORDS :: nat where "ATS_MAX_POINT_WORDS = 10"
definition ATS_TEXT_CAPACITY :: nat where "ATS_TEXT_CAPACITY = 80"

lemmas ats_consts [cdefs] = ATS_POINT_COUNT_def ATS_BLOCK_COUNT_def ATS_MAX_BLOCK_WORDS_def
  ATS_MAX_POINT_WORDS_def ATS_TEXT_CAPACITY_def

subsection \<open>State texts\<close>

definition states_1002 :: "string list" where
  "states_1002 = [''Off'', ''Normal'', ''Emergency'', ''Fault'', ''Unknown'']"

definition states_1003 :: "string list" where
  "states_1003 = [''Source 1'', ''Source 2'', ''Unknown'']"

definition states_1026 :: "string list" where
  "states_1026 = [''Disabled'', ''ABC'', ''CBA'', ''Unknown'']"

definition states_1027 :: "string list" where
  "states_1027 = [''Disabled'', ''ABC'', ''CBA'', ''Unknown'']"

definition states_1028 :: "string list" where
  "states_1028 = [''Disabled'', ''ABC'', ''CBA'', ''Unknown'']"

definition states_1036 :: "string list" where
  "states_1036 = [''Open'', ''Programmed'', ''Closed'', ''Reserved'', ''Unknown'']"

definition states_1037 :: "string list" where
  "states_1037 = [''Genset to genset'', ''Genset to utility'', ''Utility to utility'', ''Utility to generator-generator'', ''Unknown'']"

definition states_1038 :: "string list" where
  "states_1038 = [''Auto'', ''Manual'', ''Unknown'']"

definition states_1082 :: "string list" where
  "states_1082 = [''Not installed'', ''Standard'', ''Power'', ''Unknown'']"

definition states_1083 :: "string list" where
  "states_1083 = [''Not installed'', ''Standard'', ''Power'', ''Unknown'']"

definition states_1084 :: "string list" where
  "states_1084 = [''Not installed'', ''Standard'', ''Power'', ''Unknown'']"

definition states_1085 :: "string list" where
  "states_1085 = [''Not installed'', ''Standard'', ''Power'', ''Unknown'']"

definition states_1086 :: "string list" where
  "states_1086 = [''Not installed'', ''Normal'', ''Chicago'', ''Silence'', ''Unknown'']"

definition states_1116 :: "string list" where
  "states_1116 = [''DMO (manual notation)'', ''Day'', ''Week'', ''Month'', ''Unknown'']"

definition states_1124 :: "string list" where
  "states_1124 = [''DMO (manual notation)'', ''Day'', ''Week'', ''Month'', ''Unknown'']"

lemmas state_texts = states_1002_def states_1003_def states_1026_def states_1027_def states_1028_def states_1036_def states_1037_def states_1038_def states_1082_def states_1083_def states_1084_def states_1085_def states_1086_def states_1116_def states_1124_def

subsection \<open>The point descriptions\<close>

definition descr_1001 :: string where
  "descr_1001 = ''MPAC1500 old-map section 13; FC03 offset 0; read-only System overview raw.''"

definition descr_1002 :: string where
  "descr_1002 = ''MPAC1500 old-map section 13; FC03 offset 0; read-only Contactor position.''"

definition descr_1003 :: string where
  "descr_1003 = ''MPAC1500 old-map section 13; FC03 offset 0; read-only Preferred source.''"

definition descr_1004 :: string where
  "descr_1004 = ''MPAC1500 old-map section 13; FC03 offset 0; read-only Top warning/event code. One top event only, not all simultaneous alarms; code 256 means System Ready.''"

definition descr_1005 :: string where
  "descr_1005 = ''MPAC1500 old-map section 13; FC03 offset 0; read-only Preferred source available.''"

definition descr_1006 :: string where
  "descr_1006 = ''MPAC1500 old-map section 13; FC03 offset 0; read-only Standby source available.''"

definition descr_1007 :: string where
  "descr_1007 = ''MPAC1500 old-map section 13; FC03 offset 1; read-only Normal voltage L1-N. Controller-reported L-N voltage; site sensing/wiring qualification not established.''"

definition descr_1008 :: string where
  "descr_1008 = ''MPAC1500 old-map section 13; FC03 offset 2; read-only Normal voltage L2-N. Controller-reported L-N voltage; site sensing/wiring qualification not established.''"

definition descr_1009 :: string where
  "descr_1009 = ''MPAC1500 old-map section 13; FC03 offset 3; read-only Normal voltage L3-N. Controller-reported L-N voltage; site sensing/wiring qualification not established.''"

definition descr_1010 :: string where
  "descr_1010 = ''MPAC1500 old-map section 13; FC03 offset 4; read-only Emergency voltage L1-N. Controller-reported L-N voltage; site sensing/wiring qualification not established.''"

definition descr_1011 :: string where
  "descr_1011 = ''MPAC1500 old-map section 13; FC03 offset 5; read-only Emergency voltage L2-N. Controller-reported L-N voltage; site sensing/wiring qualification not established.''"

definition descr_1012 :: string where
  "descr_1012 = ''MPAC1500 old-map section 13; FC03 offset 6; read-only Emergency voltage L3-N. Controller-reported L-N voltage; site sensing/wiring qualification not established.''"

definition descr_1013 :: string where
  "descr_1013 = ''MPAC1500 old-map section 13; FC03 offset 7; read-only Normal voltage L1-L2.''"

definition descr_1014 :: string where
  "descr_1014 = ''MPAC1500 old-map section 13; FC03 offset 8; read-only Normal voltage L2-L3.''"

definition descr_1015 :: string where
  "descr_1015 = ''MPAC1500 old-map section 13; FC03 offset 9; read-only Normal voltage L3-L1.''"

definition descr_1016 :: string where
  "descr_1016 = ''MPAC1500 old-map section 13; FC03 offset 10; read-only Emergency voltage L1-L2.''"

definition descr_1017 :: string where
  "descr_1017 = ''MPAC1500 old-map section 13; FC03 offset 11; read-only Emergency voltage L2-L3.''"

definition descr_1018 :: string where
  "descr_1018 = ''MPAC1500 old-map section 13; FC03 offset 12; read-only Emergency voltage L3-L1.''"

definition descr_1019 :: string where
  "descr_1019 = ''MPAC1500 old-map section 13; FC03 offset 13; read-only Normal frequency.''"

definition descr_1020 :: string where
  "descr_1020 = ''MPAC1500 old-map section 13; FC03 offset 14; read-only Emergency frequency.''"

definition descr_1021 :: string where
  "descr_1021 = ''MPAC1500 old-map section 13; FC03 offset 15; read-only Current L1. CT/current sensing is unverified; readable values remain faulted.''"

definition descr_1022 :: string where
  "descr_1022 = ''MPAC1500 old-map section 13; FC03 offset 16; read-only Current L2. CT/current sensing is unverified; readable values remain faulted.''"

definition descr_1023 :: string where
  "descr_1023 = ''MPAC1500 old-map section 13; FC03 offset 17; read-only Current L3. CT/current sensing is unverified; readable values remain faulted.''"

definition descr_1024 :: string where
  "descr_1024 = ''MPAC1500 old-map section 13; FC03 offset 18; read-only Closed-transition phase difference. Inter-source measurement requires qualified synchronization conditions; retain raw with qualification fault.''"

definition descr_1025 :: string where
  "descr_1025 = ''MPAC1500 old-map section 13; FC03 offset 40; read-only Synchronous phase-angle register. Inter-source measurement requires qualified synchronization conditions; retain raw with qualification fault.''"

definition descr_1026 :: string where
  "descr_1026 = ''MPAC1500 old-map section 13; FC03 offset 44; read-only Normal reported phase rotation. Reported code may be retained while source is unavailable.''"

definition descr_1027 :: string where
  "descr_1027 = ''MPAC1500 old-map section 13; FC03 offset 44; read-only Emergency reported phase rotation. Reported code may be retained while source is unavailable.''"

definition descr_1028 :: string where
  "descr_1028 = ''MPAC1500 old-map section 13; FC03 offset 45; read-only Expected phase rotation. Native setting is read-only through this gateway.''"

definition descr_1029 :: string where
  "descr_1029 = ''MPAC1500 old-map section 13; FC03 offset 46; read-only Nominal normal voltage. Native setting is read-only through this gateway.''"

definition descr_1030 :: string where
  "descr_1030 = ''MPAC1500 old-map section 13; FC03 offset 47; read-only Nominal emergency voltage. Native setting is read-only through this gateway.''"

definition descr_1031 :: string where
  "descr_1031 = ''MPAC1500 old-map section 13; FC03 offset 48; read-only Nominal normal frequency. Native setting is read-only through this gateway.''"

definition descr_1032 :: string where
  "descr_1032 = ''MPAC1500 old-map section 13; FC03 offset 49; read-only Nominal emergency frequency. Native setting is read-only through this gateway.''"

definition descr_1033 :: string where
  "descr_1033 = ''MPAC1500 old-map section 13; FC03 offset 50; read-only Normal phase count. Native setting is read-only through this gateway.''"

definition descr_1034 :: string where
  "descr_1034 = ''MPAC1500 old-map section 13; FC03 offset 51; read-only Emergency phase count. Native setting is read-only through this gateway.''"

definition descr_1035 :: string where
  "descr_1035 = ''MPAC1500 old-map section 13; FC03 offset 52; read-only Rated current. Native setting is read-only through this gateway.''"

definition descr_1036 :: string where
  "descr_1036 = ''MPAC1500 old-map section 13; FC03 offset 56; read-only Transition mode. Native setting is read-only through this gateway.''"

definition descr_1037 :: string where
  "descr_1037 = ''MPAC1500 old-map section 13; FC03 offset 56; read-only Operating mode. Native setting is read-only through this gateway.''"

definition descr_1038 :: string where
  "descr_1038 = ''MPAC1500 old-map section 13; FC03 offset 56; read-only Supervised transfer switch. Native setting is read-only through this gateway.''"

definition descr_1039 :: string where
  "descr_1039 = ''MPAC1500 old-map section 13; FC03 offset 74; read-only Active delay number.''"

definition descr_1040 :: string where
  "descr_1040 = ''MPAC1500 old-map section 13; FC03 offset 75; read-only Active delay remaining.''"

definition descr_1041 :: string where
  "descr_1041 = ''MPAC1500 old-map section 13; FC03 offset 76; read-only Active delay preset.''"

definition descr_1042 :: string where
  "descr_1042 = ''MPAC1500 old-map section 13; FC03 offset 58; read-only Normal engine-start delay. Native setting is read-only through this gateway.''"

definition descr_1043 :: string where
  "descr_1043 = ''MPAC1500 old-map section 13; FC03 offset 59; read-only Emergency engine-start delay. Native setting is read-only through this gateway.''"

definition descr_1044 :: string where
  "descr_1044 = ''MPAC1500 old-map section 13; FC03 offset 60; read-only Normal extended engine-start delay. Native setting is read-only through this gateway.''"

definition descr_1045 :: string where
  "descr_1045 = ''MPAC1500 old-map section 13; FC03 offset 61; read-only Emergency extended engine-start delay. Native setting is read-only through this gateway.''"

definition descr_1046 :: string where
  "descr_1046 = ''MPAC1500 old-map section 13; FC03 offset 62; read-only Normal engine cooldown. Native setting is read-only through this gateway.''"

definition descr_1047 :: string where
  "descr_1047 = ''MPAC1500 old-map section 13; FC03 offset 63; read-only Emergency engine cooldown. Native setting is read-only through this gateway.''"

definition descr_1048 :: string where
  "descr_1048 = ''MPAC1500 old-map section 13; FC03 offset 64; read-only Standby-to-preferred delay. Native setting is read-only through this gateway.''"

definition descr_1049 :: string where
  "descr_1049 = ''MPAC1500 old-map section 13; FC03 offset 65; read-only Preferred-to-standby delay. Native setting is read-only through this gateway.''"

definition descr_1050 :: string where
  "descr_1050 = ''MPAC1500 old-map section 13; FC03 offset 66; read-only Off delay preferred-to-standby. Native setting is read-only through this gateway.''"

definition descr_1051 :: string where
  "descr_1051 = ''MPAC1500 old-map section 13; FC03 offset 67; read-only Off delay standby-to-preferred. Native setting is read-only through this gateway.''"

definition descr_1052 :: string where
  "descr_1052 = ''MPAC1500 old-map section 13; FC03 offset 68; read-only Fail-to-acquire preferred delay. Native setting is read-only through this gateway.''"

definition descr_1053 :: string where
  "descr_1053 = ''MPAC1500 old-map section 13; FC03 offset 69; read-only Fail-to-acquire standby delay. Native setting is read-only through this gateway.''"

definition descr_1054 :: string where
  "descr_1054 = ''MPAC1500 old-map section 13; FC03 offset 70; read-only Fail-to-synchronize delay. Native setting is read-only through this gateway.''"

definition descr_1055 :: string where
  "descr_1055 = ''MPAC1500 old-map section 13; FC03 offset 71; read-only Fail-to-synchronize enabled. Native setting is read-only through this gateway.''"

definition descr_1056 :: string where
  "descr_1056 = ''MPAC1500 old-map section 13; FC03 offset 77; read-only Normal overvoltage dropout. Native setting is read-only through this gateway. Percent denominator: nominal. Configuration threshold, not a live alarm.''"

definition descr_1057 :: string where
  "descr_1057 = ''MPAC1500 old-map section 13; FC03 offset 78; read-only Normal overvoltage pickup. Native setting is read-only through this gateway. Percent denominator: nominal. Configuration threshold, not a live alarm.''"

definition descr_1058 :: string where
  "descr_1058 = ''MPAC1500 old-map section 13; FC03 offset 79; read-only Normal undervoltage pickup. Native setting is read-only through this gateway. Percent denominator: nominal. Configuration threshold, not a live alarm.''"

definition descr_1059 :: string where
  "descr_1059 = ''MPAC1500 old-map section 13; FC03 offset 80; read-only Normal undervoltage dropout. Native setting is read-only through this gateway. Percent denominator: pickup. Configuration threshold, not a live alarm.''"

definition descr_1060 :: string where
  "descr_1060 = ''MPAC1500 old-map section 13; FC03 offset 81; read-only Normal voltage unbalance enabled. Native setting is read-only through this gateway. Configuration threshold, not a live alarm.''"

definition descr_1061 :: string where
  "descr_1061 = ''MPAC1500 old-map section 13; FC03 offset 82; read-only Normal voltage unbalance dropout. Native setting is read-only through this gateway. Configuration threshold, not a live alarm.''"

definition descr_1062 :: string where
  "descr_1062 = ''MPAC1500 old-map section 13; FC03 offset 83; read-only Normal voltage unbalance pickup. Native setting is read-only through this gateway. Configuration threshold, not a live alarm.''"

definition descr_1063 :: string where
  "descr_1063 = ''MPAC1500 old-map section 13; FC03 offset 84; read-only Normal voltage debounce time. Native setting is read-only through this gateway. Configuration threshold, not a live alarm.''"

definition descr_1064 :: string where
  "descr_1064 = ''MPAC1500 old-map section 13; FC03 offset 85; read-only Emergency overvoltage dropout. Native setting is read-only through this gateway. Percent denominator: nominal. Configuration threshold, not a live alarm.''"

definition descr_1065 :: string where
  "descr_1065 = ''MPAC1500 old-map section 13; FC03 offset 86; read-only Emergency overvoltage pickup. Native setting is read-only through this gateway. Percent denominator: nominal. Configuration threshold, not a live alarm.''"

definition descr_1066 :: string where
  "descr_1066 = ''MPAC1500 old-map section 13; FC03 offset 87; read-only Emergency undervoltage pickup. Native setting is read-only through this gateway. Percent denominator: nominal. Configuration threshold, not a live alarm.''"

definition descr_1067 :: string where
  "descr_1067 = ''MPAC1500 old-map section 13; FC03 offset 88; read-only Emergency undervoltage dropout. Native setting is read-only through this gateway. Percent denominator: pickup. Configuration threshold, not a live alarm.''"

definition descr_1068 :: string where
  "descr_1068 = ''MPAC1500 old-map section 13; FC03 offset 89; read-only Emergency voltage unbalance enabled. Native setting is read-only through this gateway. Configuration threshold, not a live alarm.''"

definition descr_1069 :: string where
  "descr_1069 = ''MPAC1500 old-map section 13; FC03 offset 90; read-only Emergency voltage unbalance dropout. Native setting is read-only through this gateway. Configuration threshold, not a live alarm.''"

definition descr_1070 :: string where
  "descr_1070 = ''MPAC1500 old-map section 13; FC03 offset 91; read-only Emergency voltage unbalance pickup. Native setting is read-only through this gateway. Configuration threshold, not a live alarm.''"

definition descr_1071 :: string where
  "descr_1071 = ''MPAC1500 old-map section 13; FC03 offset 92; read-only Emergency voltage debounce time. Native setting is read-only through this gateway. Configuration threshold, not a live alarm.''"

definition descr_1072 :: string where
  "descr_1072 = ''MPAC1500 old-map section 13; FC03 offset 93; read-only Normal overfrequency dropout. Native setting is read-only through this gateway. Percent denominator: pickup. Configuration threshold, not a live alarm.''"

definition descr_1073 :: string where
  "descr_1073 = ''MPAC1500 old-map section 13; FC03 offset 94; read-only Normal overfrequency pickup. Native setting is read-only through this gateway. Percent denominator: nominal. Configuration threshold, not a live alarm.''"

definition descr_1074 :: string where
  "descr_1074 = ''MPAC1500 old-map section 13; FC03 offset 95; read-only Normal underfrequency dropout. Native setting is read-only through this gateway. Percent denominator: pickup. Configuration threshold, not a live alarm.''"

definition descr_1075 :: string where
  "descr_1075 = ''MPAC1500 old-map section 13; FC03 offset 96; read-only Normal underfrequency pickup. Native setting is read-only through this gateway. Percent denominator: nominal. Configuration threshold, not a live alarm.''"

definition descr_1076 :: string where
  "descr_1076 = ''MPAC1500 old-map section 13; FC03 offset 97; read-only Normal frequency dropout time. Native setting is read-only through this gateway. Configuration threshold, not a live alarm.''"

definition descr_1077 :: string where
  "descr_1077 = ''MPAC1500 old-map section 13; FC03 offset 98; read-only Emergency overfrequency dropout. Native setting is read-only through this gateway. Percent denominator: pickup. Configuration threshold, not a live alarm.''"

definition descr_1078 :: string where
  "descr_1078 = ''MPAC1500 old-map section 13; FC03 offset 99; read-only Emergency overfrequency pickup. Native setting is read-only through this gateway. Percent denominator: nominal. Configuration threshold, not a live alarm.''"

definition descr_1079 :: string where
  "descr_1079 = ''MPAC1500 old-map section 13; FC03 offset 100; read-only Emergency underfrequency dropout. Native setting is read-only through this gateway. Percent denominator: pickup. Configuration threshold, not a live alarm.''"

definition descr_1080 :: string where
  "descr_1080 = ''MPAC1500 old-map section 13; FC03 offset 101; read-only Emergency underfrequency pickup. Native setting is read-only through this gateway. Percent denominator: nominal. Configuration threshold, not a live alarm.''"

definition descr_1081 :: string where
  "descr_1081 = ''MPAC1500 old-map section 13; FC03 offset 102; read-only Emergency frequency dropout time. Native setting is read-only through this gateway. Configuration threshold, not a live alarm.''"

definition descr_1082 :: string where
  "descr_1082 = ''MPAC1500 old-map section 13; FC03 offset 153; read-only Expansion board 1 type.''"

definition descr_1083 :: string where
  "descr_1083 = ''MPAC1500 old-map section 13; FC03 offset 154; read-only Expansion board 2 type.''"

definition descr_1084 :: string where
  "descr_1084 = ''MPAC1500 old-map section 13; FC03 offset 155; read-only Expansion board 3 type.''"

definition descr_1085 :: string where
  "descr_1085 = ''MPAC1500 old-map section 13; FC03 offset 156; read-only Expansion board 4 type.''"

definition descr_1086 :: string where
  "descr_1086 = ''MPAC1500 old-map section 13; FC03 offset 159; read-only Alarm option board.''"

definition descr_1087 :: string where
  "descr_1087 = ''MPAC1500 old-map section 13; FC03 offset 160; read-only Battery option board installed.''"

definition descr_1088 :: string where
  "descr_1088 = ''MPAC1500 old-map section 13; FC03 offset 193; read-only Main board output 1. Electrical state only; configured function is not established.''"

definition descr_1089 :: string where
  "descr_1089 = ''MPAC1500 old-map section 13; FC03 offset 193; read-only Main board output 2. Electrical state only; configured function is not established.''"

definition descr_1090 :: string where
  "descr_1090 = ''MPAC1500 old-map section 13; FC03 offset 194; read-only Main board input 1. Electrical state only; configured function is not established.''"

definition descr_1091 :: string where
  "descr_1091 = ''MPAC1500 old-map section 13; FC03 offset 194; read-only Main board input 2. Electrical state only; configured function is not established.''"

definition descr_1092 :: string where
  "descr_1092 = ''MPAC1500 old-map section 13; FC03 offset 195; read-only Expansion board 1 outputs bitmap. Meaning requires corresponding installed expansion board; absent boards are not applicable.''"

definition descr_1093 :: string where
  "descr_1093 = ''MPAC1500 old-map section 13; FC03 offset 196; read-only Expansion board 2 outputs bitmap. Meaning requires corresponding installed expansion board; absent boards are not applicable.''"

definition descr_1094 :: string where
  "descr_1094 = ''MPAC1500 old-map section 13; FC03 offset 197; read-only Expansion board 3 outputs bitmap. Meaning requires corresponding installed expansion board; absent boards are not applicable.''"

definition descr_1095 :: string where
  "descr_1095 = ''MPAC1500 old-map section 13; FC03 offset 198; read-only Expansion board 4 outputs bitmap. Meaning requires corresponding installed expansion board; absent boards are not applicable.''"

definition descr_1096 :: string where
  "descr_1096 = ''MPAC1500 old-map section 13; FC03 offset 199; read-only Expansion board 1 inputs bitmap. Meaning requires corresponding installed expansion board; absent boards are not applicable.''"

definition descr_1097 :: string where
  "descr_1097 = ''MPAC1500 old-map section 13; FC03 offset 200; read-only Expansion board 2 inputs bitmap. Meaning requires corresponding installed expansion board; absent boards are not applicable.''"

definition descr_1098 :: string where
  "descr_1098 = ''MPAC1500 old-map section 13; FC03 offset 201; read-only Expansion board 3 inputs bitmap. Meaning requires corresponding installed expansion board; absent boards are not applicable.''"

definition descr_1099 :: string where
  "descr_1099 = ''MPAC1500 old-map section 13; FC03 offset 202; read-only Expansion board 4 inputs bitmap. Meaning requires corresponding installed expansion board; absent boards are not applicable.''"

definition descr_1100 :: string where
  "descr_1100 = ''MPAC1500 old-map section 13; FC03 offset 249; read-only Software output state bitmap. Native setting is read-only through this gateway. Raw logical state; no assigned functions means not applicable.''"

definition descr_1101 :: string where
  "descr_1101 = ''MPAC1500 old-map section 13; FC03 offset 250; read-only Software output assignment bitmap.''"

definition descr_1102 :: string where
  "descr_1102 = ''MPAC1500 old-map section 13; FC03 offset 251; read-only Remote monitored input state bitmap. Raw logical state; no assigned functions means not applicable.''"

definition descr_1103 :: string where
  "descr_1103 = ''MPAC1500 old-map section 13; FC03 offset 252; read-only Remote monitored input assignment bitmap.''"

definition descr_1104 :: string where
  "descr_1104 = ''MPAC1500 old-map section 13; FC03 offset 739; read-only Accessory setup raw. Native setting is read-only through this gateway.''"

definition descr_1105 :: string where
  "descr_1105 = ''MPAC1500 old-map section 13; FC03 offset 741; read-only Exercise in progress.''"

definition descr_1106 :: string where
  "descr_1106 = ''MPAC1500 old-map section 13; FC03 offset 741; read-only In-phase monitor active.''"

definition descr_1107 :: string where
  "descr_1107 = ''MPAC1500 old-map section 13; FC03 offset 741; read-only Load control in progress.''"

definition descr_1108 :: string where
  "descr_1108 = ''MPAC1500 old-map section 13; FC03 offset 741; read-only Peak shaving in progress.''"

definition descr_1109 :: string where
  "descr_1109 = ''MPAC1500 old-map section 13; FC03 offset 741; read-only Loaded test in progress.''"

definition descr_1110 :: string where
  "descr_1110 = ''MPAC1500 old-map section 13; FC03 offset 741; read-only Unloaded test in progress.''"

definition descr_1111 :: string where
  "descr_1111 = ''MPAC1500 old-map section 13; FC03 offset 741; read-only Auto-loaded test in progress.''"

definition descr_1112 :: string where
  "descr_1112 = ''MPAC1500 old-map section 13; FC03 offset 742; read-only Maintenance mode DIP switch.''"

definition descr_1113 :: string where
  "descr_1113 = ''MPAC1500 old-map section 13; FC03 offset 742; read-only Password-disabled DIP switch.''"

definition descr_1114 :: string where
  "descr_1114 = ''MPAC1500 old-map section 13; FC03 offset 904; read-only Next exercise enabled. Native setting is read-only through this gateway.''"

definition descr_1115 :: string where
  "descr_1115 = ''MPAC1500 old-map section 13; FC03 offset 904; read-only Next exercise loaded. Native setting is read-only through this gateway.''"

definition descr_1116 :: string where
  "descr_1116 = ''MPAC1500 old-map section 13; FC03 offset 904; read-only Next exercise interval. Native setting is read-only through this gateway.''"

definition descr_1117 :: string where
  "descr_1117 = ''MPAC1500 old-map section 13; FC03 offset 904; read-only Next exercise repeat rate. Native setting is read-only through this gateway.''"

definition descr_1118 :: string where
  "descr_1118 = ''MPAC1500 old-map section 13; FC03 offset 904; read-only Next exercise running.''"

definition descr_1119 :: string where
  "descr_1119 = ''MPAC1500 old-map section 13; FC03 offset 905; read-only Next exercise start time. Native setting is read-only through this gateway. Controller local calendar/clock; no timezone or UTC inference.''"

definition descr_1120 :: string where
  "descr_1120 = ''MPAC1500 old-map section 13; FC03 offset 906; read-only Next exercise start date. Native setting is read-only through this gateway. Controller local calendar/clock; no timezone or UTC inference.''"

definition descr_1121 :: string where
  "descr_1121 = ''MPAC1500 old-map section 13; FC03 offset 907; read-only Next exercise duration. Native setting is read-only through this gateway.''"

definition descr_1122 :: string where
  "descr_1122 = ''MPAC1500 old-map section 13; FC03 offset 909; read-only Exercise schedule 1 enabled. Native setting is read-only through this gateway.''"

definition descr_1123 :: string where
  "descr_1123 = ''MPAC1500 old-map section 13; FC03 offset 909; read-only Exercise schedule 1 loaded. Native setting is read-only through this gateway.''"

definition descr_1124 :: string where
  "descr_1124 = ''MPAC1500 old-map section 13; FC03 offset 909; read-only Exercise schedule 1 interval. Native setting is read-only through this gateway.''"

definition descr_1125 :: string where
  "descr_1125 = ''MPAC1500 old-map section 13; FC03 offset 909; read-only Exercise schedule 1 repeat rate. Native setting is read-only through this gateway.''"

definition descr_1126 :: string where
  "descr_1126 = ''MPAC1500 old-map section 13; FC03 offset 909; read-only Exercise schedule 1 running.''"

definition descr_1127 :: string where
  "descr_1127 = ''MPAC1500 old-map section 13; FC03 offset 910; read-only Exercise schedule 1 start time. Native setting is read-only through this gateway. Controller local calendar/clock; no timezone or UTC inference.''"

definition descr_1128 :: string where
  "descr_1128 = ''MPAC1500 old-map section 13; FC03 offset 911; read-only Exercise schedule 1 start date. Native setting is read-only through this gateway. Controller local calendar/clock; no timezone or UTC inference.''"

definition descr_1129 :: string where
  "descr_1129 = ''MPAC1500 old-map section 13; FC03 offset 912; read-only Exercise schedule 1 duration. Native setting is read-only through this gateway.''"

definition descr_1130 :: string where
  "descr_1130 = ''MPAC1500 old-map section 13; FC03 offset 1009; read-only Last outage start time. Controller local calendar/clock; no timezone or UTC inference.''"

definition descr_1131 :: string where
  "descr_1131 = ''MPAC1500 old-map section 13; FC03 offset 1010; read-only Last outage date. Controller local calendar/clock; no timezone or UTC inference.''"

definition descr_1132 :: string where
  "descr_1132 = ''MPAC1500 old-map section 13; FC03 offset 1011; read-only Last outage duration. MSW-first duration word order is unverified; raw pair retained.''"

definition descr_1133 :: string where
  "descr_1133 = ''MPAC1500 old-map section 13; FC03 offset 1109; read-only ATS designation. Native setting is read-only through this gateway. Observed firmware uses low-byte-first characters within each word; numeric word order is unchanged.''"

definition descr_1134 :: string where
  "descr_1134 = ''MPAC1500 old-map section 13; FC03 offset 1119; read-only Load description. Native setting is read-only through this gateway. Observed firmware uses low-byte-first characters within each word; numeric word order is unchanged.''"

definition descr_1135 :: string where
  "descr_1135 = ''MPAC1500 old-map section 13; FC03 offset 1129; read-only Branch description. Native setting is read-only through this gateway. Observed firmware uses low-byte-first characters within each word; numeric word order is unchanged.''"

definition descr_1136 :: string where
  "descr_1136 = ''MPAC1500 old-map section 13; FC03 offset 1139; read-only Location. Native setting is read-only through this gateway. Observed firmware uses low-byte-first characters within each word; numeric word order is unchanged.''"

definition descr_1137 :: string where
  "descr_1137 = ''MPAC1500 old-map section 13; FC03 offset 1199; read-only Controller firmware.''"

definition descr_1138 :: string where
  "descr_1138 = ''MPAC1500 old-map section 13; FC03 offset 1200; read-only FPGA revision raw. Only low byte minor version is documented; upper byte remains raw.''"

definition descr_1139 :: string where
  "descr_1139 = ''MPAC1500 old-map section 13; FC03 offset 1201; read-only MAC low 15 bits. Old-map low-15-bit identity fingerprint only; do not use on newer map.''"

definition descr_1140 :: string where
  "descr_1140 = ''MPAC1500 old-map section 13; FC03 offset 1249; read-only Controller time. Native setting is read-only through this gateway. Controller local calendar/clock; no timezone or UTC inference.''"

definition descr_1141 :: string where
  "descr_1141 = ''MPAC1500 old-map section 13; FC03 offset 1250; read-only Controller date. Native setting is read-only through this gateway. Controller local calendar/clock; no timezone or UTC inference.''"

definition descr_1142 :: string where
  "descr_1142 = ''MPAC1500 old-map section 13; FC03 offset 1251; read-only Daylight-saving adjustment enabled. Native setting is read-only through this gateway.''"

definition descr_1143 :: string where
  "descr_1143 = ''MPAC1500 old-map section 13; FC03 offset 1294; read-only Closed-transition parallel time.''"

definition descr_1144 :: string where
  "descr_1144 = ''MPAC1500 old-map section 13; FC03 offset 1295; read-only Normal contact opening time.''"

definition descr_1145 :: string where
  "descr_1145 = ''MPAC1500 old-map section 13; FC03 offset 1296; read-only Normal contact closing time.''"

definition descr_1146 :: string where
  "descr_1146 = ''MPAC1500 old-map section 13; FC03 offset 1297; read-only Emergency contact opening time.''"

definition descr_1147 :: string where
  "descr_1147 = ''MPAC1500 old-map section 13; FC03 offset 1298; read-only Emergency contact closing time.''"

definition descr_1148 :: string where
  "descr_1148 = ''MPAC1500 old-map section 13; FC03 offset 1299; read-only Time outside preferred source total. ATS controller minutes, not generator engine runtime.''"

definition descr_1149 :: string where
  "descr_1149 = ''MPAC1500 old-map section 13; FC03 offset 1301; read-only Time outside preferred source since reset. ATS controller minutes, not generator engine runtime.''"

definition descr_1150 :: string where
  "descr_1150 = ''MPAC1500 old-map section 13; FC03 offset 1303; read-only Time on standby total. ATS controller minutes, not generator engine runtime.''"

definition descr_1151 :: string where
  "descr_1151 = ''MPAC1500 old-map section 13; FC03 offset 1305; read-only Time on standby since reset. ATS controller minutes, not generator engine runtime.''"

definition descr_1152 :: string where
  "descr_1152 = ''MPAC1500 old-map section 13; FC03 offset 1307; read-only Operating time total. ATS controller minutes, not generator engine runtime.''"

definition descr_1153 :: string where
  "descr_1153 = ''MPAC1500 old-map section 13; FC03 offset 1309; read-only Operating time since reset. ATS controller minutes, not generator engine runtime.''"

definition descr_1154 :: string where
  "descr_1154 = ''MPAC1500 old-map section 13; FC03 offset 1311; read-only Transfer count total.''"

definition descr_1155 :: string where
  "descr_1155 = ''MPAC1500 old-map section 13; FC03 offset 1312; read-only Transfer count since reset.''"

definition descr_1156 :: string where
  "descr_1156 = ''MPAC1500 old-map section 13; FC03 offset 1313; read-only Failed transfer count total.''"

definition descr_1157 :: string where
  "descr_1157 = ''MPAC1500 old-map section 13; FC03 offset 1314; read-only Failed transfer count since reset.''"

definition descr_1158 :: string where
  "descr_1158 = ''MPAC1500 old-map section 13; FC03 offset 1315; read-only Loss-of-preferred transfer count total.''"

definition descr_1159 :: string where
  "descr_1159 = ''MPAC1500 old-map section 13; FC03 offset 1316; read-only Loss-of-preferred transfer count since reset.''"

definition descr_1160 :: string where
  "descr_1160 = ''MPAC1500 old-map section 13; FC03 offset 1317; read-only Normal-to-emergency transfer time.''"

definition descr_1161 :: string where
  "descr_1161 = ''MPAC1500 old-map section 13; FC03 offset 1318; read-only Emergency-to-normal transfer time.''"

definition descr_1162 :: string where
  "descr_1162 = ''MPAC1500 old-map section 13; FC03 offset 1319; read-only Last maintenance date. Controller local calendar/clock; no timezone or UTC inference. Stored date, not proof of maintenance; known default 2001-01-01 is unverified.''"

definition descr_1163 :: string where
  "descr_1163 = ''MPAC1500 old-map section 13; FC03 offset 3449; read-only Keypress state bitmap.''"

definition descr_1164 :: string where
  "descr_1164 = ''MPAC1500 old-map section 13; FC03 offset 9998; read-only Modbus device type.''"

subsection \<open>The tables\<close>

definition ats_points :: "ats_point_def list" where
  "ats_points = [
    ats_point_def.make 0 1001 ''ATS-System-overview-raw'' descr_1001
      95 0 None 0 1 0 0,
    ats_point_def.make 13 1002 ''ATS-Contactor-position'' descr_1002
      95 5 (Some states_1002) 0 1 0 2,
    ats_point_def.make 13 1003 ''ATS-Preferred-source'' descr_1003
      95 3 (Some states_1003) 0 1 2 1,
    ats_point_def.make 0 1004 ''ATS-Top-warning-event-code'' descr_1004
      95 0 None 0 1 3 10,
    ats_point_def.make 3 1005 ''ATS-Preferred-source-available'' descr_1005
      95 0 None 0 1 13 1,
    ats_point_def.make 3 1006 ''ATS-Standby-source-available'' descr_1006
      95 0 None 0 1 14 1,
    ats_point_def.make 0 1007 ''ATS-Normal-voltage-L1-N'' descr_1007
      5 0 None 1 1 0 0,
    ats_point_def.make 0 1008 ''ATS-Normal-voltage-L2-N'' descr_1008
      5 0 None 2 1 0 0,
    ats_point_def.make 0 1009 ''ATS-Normal-voltage-L3-N'' descr_1009
      5 0 None 3 1 0 0,
    ats_point_def.make 0 1010 ''ATS-Emergency-voltage-L1-N'' descr_1010
      5 0 None 4 1 0 0,
    ats_point_def.make 0 1011 ''ATS-Emergency-voltage-L2-N'' descr_1011
      5 0 None 5 1 0 0,
    ats_point_def.make 0 1012 ''ATS-Emergency-voltage-L3-N'' descr_1012
      5 0 None 6 1 0 0,
    ats_point_def.make 0 1013 ''ATS-Normal-voltage-L1-L2'' descr_1013
      5 0 None 7 1 0 0,
    ats_point_def.make 0 1014 ''ATS-Normal-voltage-L2-L3'' descr_1014
      5 0 None 8 1 0 0,
    ats_point_def.make 0 1015 ''ATS-Normal-voltage-L3-L1'' descr_1015
      5 0 None 9 1 0 0,
    ats_point_def.make 0 1016 ''ATS-Emergency-voltage-L1-L2'' descr_1016
      5 0 None 10 1 0 0,
    ats_point_def.make 0 1017 ''ATS-Emergency-voltage-L2-L3'' descr_1017
      5 0 None 11 1 0 0,
    ats_point_def.make 0 1018 ''ATS-Emergency-voltage-L3-L1'' descr_1018
      5 0 None 12 1 0 0,
    ats_point_def.make 0 1019 ''ATS-Normal-frequency'' descr_1019
      27 0 None 13 1 0 0,
    ats_point_def.make 0 1020 ''ATS-Emergency-frequency'' descr_1020
      27 0 None 14 1 0 0,
    ats_point_def.make 0 1021 ''ATS-Current-L1'' descr_1021
      3 0 None 15 1 0 0,
    ats_point_def.make 0 1022 ''ATS-Current-L2'' descr_1022
      3 0 None 16 1 0 0,
    ats_point_def.make 0 1023 ''ATS-Current-L3'' descr_1023
      3 0 None 17 1 0 0,
    ats_point_def.make 0 1024 ''ATS-Closed-transition-phase-difference'' descr_1024
      90 0 None 18 1 0 0,
    ats_point_def.make 0 1025 ''ATS-Synchronous-phase-angle-register'' descr_1025
      90 0 None 40 1 0 0,
    ats_point_def.make 13 1026 ''ATS-Normal-reported-phase-rotation'' descr_1026
      95 4 (Some states_1026) 44 1 8 8,
    ats_point_def.make 13 1027 ''ATS-Emergency-reported-phase-rotation'' descr_1027
      95 4 (Some states_1027) 44 1 0 8,
    ats_point_def.make 13 1028 ''ATS-Expected-phase-rotation'' descr_1028
      95 4 (Some states_1028) 45 1 0 0,
    ats_point_def.make 0 1029 ''ATS-Nominal-normal-voltage'' descr_1029
      5 0 None 46 1 0 0,
    ats_point_def.make 0 1030 ''ATS-Nominal-emergency-voltage'' descr_1030
      5 0 None 47 1 0 0,
    ats_point_def.make 0 1031 ''ATS-Nominal-normal-frequency'' descr_1031
      27 0 None 48 1 0 0,
    ats_point_def.make 0 1032 ''ATS-Nominal-emergency-frequency'' descr_1032
      27 0 None 49 1 0 0,
    ats_point_def.make 0 1033 ''ATS-Normal-phase-count'' descr_1033
      95 0 None 50 1 0 0,
    ats_point_def.make 0 1034 ''ATS-Emergency-phase-count'' descr_1034
      95 0 None 51 1 0 0,
    ats_point_def.make 0 1035 ''ATS-Rated-current'' descr_1035
      3 0 None 52 1 0 0,
    ats_point_def.make 13 1036 ''ATS-Transition-mode'' descr_1036
      95 5 (Some states_1036) 56 1 0 2,
    ats_point_def.make 13 1037 ''ATS-Operating-mode'' descr_1037
      95 5 (Some states_1037) 56 1 2 2,
    ats_point_def.make 13 1038 ''ATS-Supervised-transfer-switch'' descr_1038
      95 3 (Some states_1038) 56 1 4 1,
    ats_point_def.make 0 1039 ''ATS-Active-delay-number'' descr_1039
      95 0 None 74 1 0 0,
    ats_point_def.make 0 1040 ''ATS-Active-delay-remaining'' descr_1040
      73 0 None 75 1 0 0,
    ats_point_def.make 0 1041 ''ATS-Active-delay-preset'' descr_1041
      73 0 None 76 1 0 0,
    ats_point_def.make 0 1042 ''ATS-Normal-engine-start-delay'' descr_1042
      73 0 None 58 1 0 0,
    ats_point_def.make 0 1043 ''ATS-Emergency-engine-start-delay'' descr_1043
      73 0 None 59 1 0 0,
    ats_point_def.make 0 1044 ''ATS-Normal-extended-engine-start-delay'' descr_1044
      73 0 None 60 1 0 0,
    ats_point_def.make 0 1045 ''ATS-Emergency-extended-engine-start-delay'' descr_1045
      73 0 None 61 1 0 0,
    ats_point_def.make 0 1046 ''ATS-Normal-engine-cooldown'' descr_1046
      73 0 None 62 1 0 0,
    ats_point_def.make 0 1047 ''ATS-Emergency-engine-cooldown'' descr_1047
      73 0 None 63 1 0 0,
    ats_point_def.make 0 1048 ''ATS-Standby-to-preferred-delay'' descr_1048
      73 0 None 64 1 0 0,
    ats_point_def.make 0 1049 ''ATS-Preferred-to-standby-delay'' descr_1049
      73 0 None 65 1 0 0,
    ats_point_def.make 0 1050 ''ATS-Off-delay-preferred-to-standby'' descr_1050
      73 0 None 66 1 0 0,
    ats_point_def.make 0 1051 ''ATS-Off-delay-standby-to-preferred'' descr_1051
      73 0 None 67 1 0 0,
    ats_point_def.make 0 1052 ''ATS-Fail-to-acquire-preferred-delay'' descr_1052
      73 0 None 68 1 0 0,
    ats_point_def.make 0 1053 ''ATS-Fail-to-acquire-standby-delay'' descr_1053
      73 0 None 69 1 0 0,
    ats_point_def.make 0 1054 ''ATS-Fail-to-synchronize-delay'' descr_1054
      73 0 None 70 1 0 0,
    ats_point_def.make 3 1055 ''ATS-Fail-to-synchronize-enabled'' descr_1055
      95 0 None 71 1 0 1,
    ats_point_def.make 0 1056 ''ATS-Normal-overvoltage-dropout'' descr_1056
      98 0 None 77 1 0 0,
    ats_point_def.make 0 1057 ''ATS-Normal-overvoltage-pickup'' descr_1057
      98 0 None 78 1 0 0,
    ats_point_def.make 0 1058 ''ATS-Normal-undervoltage-pickup'' descr_1058
      98 0 None 79 1 0 0,
    ats_point_def.make 0 1059 ''ATS-Normal-undervoltage-dropout'' descr_1059
      98 0 None 80 1 0 0,
    ats_point_def.make 3 1060 ''ATS-Normal-voltage-unbalance-enabled'' descr_1060
      95 0 None 81 1 0 0,
    ats_point_def.make 0 1061 ''ATS-Normal-voltage-unbalance-dropout'' descr_1061
      98 0 None 82 1 0 0,
    ats_point_def.make 0 1062 ''ATS-Normal-voltage-unbalance-pickup'' descr_1062
      98 0 None 83 1 0 0,
    ats_point_def.make 0 1063 ''ATS-Normal-voltage-debounce-time'' descr_1063
      73 0 None 84 1 0 0,
    ats_point_def.make 0 1064 ''ATS-Emergency-overvoltage-dropout'' descr_1064
      98 0 None 85 1 0 0,
    ats_point_def.make 0 1065 ''ATS-Emergency-overvoltage-pickup'' descr_1065
      98 0 None 86 1 0 0,
    ats_point_def.make 0 1066 ''ATS-Emergency-undervoltage-pickup'' descr_1066
      98 0 None 87 1 0 0,
    ats_point_def.make 0 1067 ''ATS-Emergency-undervoltage-dropout'' descr_1067
      98 0 None 88 1 0 0,
    ats_point_def.make 3 1068 ''ATS-Emergency-voltage-unbalance-enabled'' descr_1068
      95 0 None 89 1 0 0,
    ats_point_def.make 0 1069 ''ATS-Emergency-voltage-unbalance-dropout'' descr_1069
      98 0 None 90 1 0 0,
    ats_point_def.make 0 1070 ''ATS-Emergency-voltage-unbalance-pickup'' descr_1070
      98 0 None 91 1 0 0,
    ats_point_def.make 0 1071 ''ATS-Emergency-voltage-debounce-time'' descr_1071
      73 0 None 92 1 0 0,
    ats_point_def.make 0 1072 ''ATS-Normal-overfrequency-dropout'' descr_1072
      98 0 None 93 1 0 0,
    ats_point_def.make 0 1073 ''ATS-Normal-overfrequency-pickup'' descr_1073
      98 0 None 94 1 0 0,
    ats_point_def.make 0 1074 ''ATS-Normal-underfrequency-dropout'' descr_1074
      98 0 None 95 1 0 0,
    ats_point_def.make 0 1075 ''ATS-Normal-underfrequency-pickup'' descr_1075
      98 0 None 96 1 0 0,
    ats_point_def.make 0 1076 ''ATS-Normal-frequency-dropout-time'' descr_1076
      73 0 None 97 1 0 0,
    ats_point_def.make 0 1077 ''ATS-Emergency-overfrequency-dropout'' descr_1077
      98 0 None 98 1 0 0,
    ats_point_def.make 0 1078 ''ATS-Emergency-overfrequency-pickup'' descr_1078
      98 0 None 99 1 0 0,
    ats_point_def.make 0 1079 ''ATS-Emergency-underfrequency-dropout'' descr_1079
      98 0 None 100 1 0 0,
    ats_point_def.make 0 1080 ''ATS-Emergency-underfrequency-pickup'' descr_1080
      98 0 None 101 1 0 0,
    ats_point_def.make 0 1081 ''ATS-Emergency-frequency-dropout-time'' descr_1081
      73 0 None 102 1 0 0,
    ats_point_def.make 13 1082 ''ATS-Expansion-board-1-type'' descr_1082
      95 4 (Some states_1082) 153 1 0 0,
    ats_point_def.make 13 1083 ''ATS-Expansion-board-2-type'' descr_1083
      95 4 (Some states_1083) 154 1 0 0,
    ats_point_def.make 13 1084 ''ATS-Expansion-board-3-type'' descr_1084
      95 4 (Some states_1084) 155 1 0 0,
    ats_point_def.make 13 1085 ''ATS-Expansion-board-4-type'' descr_1085
      95 4 (Some states_1085) 156 1 0 0,
    ats_point_def.make 13 1086 ''ATS-Alarm-option-board'' descr_1086
      95 5 (Some states_1086) 159 1 0 0,
    ats_point_def.make 3 1087 ''ATS-Battery-option-board-installed'' descr_1087
      95 0 None 160 1 0 1,
    ats_point_def.make 3 1088 ''ATS-Main-board-output-1'' descr_1088
      95 0 None 193 1 0 1,
    ats_point_def.make 3 1089 ''ATS-Main-board-output-2'' descr_1089
      95 0 None 193 1 1 1,
    ats_point_def.make 3 1090 ''ATS-Main-board-input-1'' descr_1090
      95 0 None 194 1 0 1,
    ats_point_def.make 3 1091 ''ATS-Main-board-input-2'' descr_1091
      95 0 None 194 1 1 1,
    ats_point_def.make 0 1092 ''ATS-Expansion-board-1-outputs-bitmap'' descr_1092
      95 0 None 195 1 0 0,
    ats_point_def.make 0 1093 ''ATS-Expansion-board-2-outputs-bitmap'' descr_1093
      95 0 None 196 1 0 0,
    ats_point_def.make 0 1094 ''ATS-Expansion-board-3-outputs-bitmap'' descr_1094
      95 0 None 197 1 0 0,
    ats_point_def.make 0 1095 ''ATS-Expansion-board-4-outputs-bitmap'' descr_1095
      95 0 None 198 1 0 0,
    ats_point_def.make 0 1096 ''ATS-Expansion-board-1-inputs-bitmap'' descr_1096
      95 0 None 199 1 0 0,
    ats_point_def.make 0 1097 ''ATS-Expansion-board-2-inputs-bitmap'' descr_1097
      95 0 None 200 1 0 0,
    ats_point_def.make 0 1098 ''ATS-Expansion-board-3-inputs-bitmap'' descr_1098
      95 0 None 201 1 0 0,
    ats_point_def.make 0 1099 ''ATS-Expansion-board-4-inputs-bitmap'' descr_1099
      95 0 None 202 1 0 0,
    ats_point_def.make 0 1100 ''ATS-Software-output-state-bitmap'' descr_1100
      95 0 None 249 1 0 0,
    ats_point_def.make 0 1101 ''ATS-Software-output-assignment-bitmap'' descr_1101
      95 0 None 250 1 0 0,
    ats_point_def.make 0 1102 ''ATS-Remote-monitored-input-state-bitmap'' descr_1102
      95 0 None 251 1 0 0,
    ats_point_def.make 0 1103 ''ATS-Remote-monitored-input-assignment-bitmap'' descr_1103
      95 0 None 252 1 0 0,
    ats_point_def.make 0 1104 ''ATS-Accessory-setup-raw'' descr_1104
      95 0 None 739 1 0 0,
    ats_point_def.make 3 1105 ''ATS-Exercise-in-progress'' descr_1105
      95 0 None 741 1 0 1,
    ats_point_def.make 3 1106 ''ATS-In-phase-monitor-active'' descr_1106
      95 0 None 741 1 1 1,
    ats_point_def.make 3 1107 ''ATS-Load-control-in-progress'' descr_1107
      95 0 None 741 1 2 1,
    ats_point_def.make 3 1108 ''ATS-Peak-shaving-in-progress'' descr_1108
      95 0 None 741 1 3 1,
    ats_point_def.make 3 1109 ''ATS-Loaded-test-in-progress'' descr_1109
      95 0 None 741 1 4 1,
    ats_point_def.make 3 1110 ''ATS-Unloaded-test-in-progress'' descr_1110
      95 0 None 741 1 5 1,
    ats_point_def.make 3 1111 ''ATS-Auto-loaded-test-in-progress'' descr_1111
      95 0 None 741 1 6 1,
    ats_point_def.make 3 1112 ''ATS-Maintenance-mode-DIP-switch'' descr_1112
      95 0 None 742 1 0 1,
    ats_point_def.make 3 1113 ''ATS-Password-disabled-DIP-switch'' descr_1113
      95 0 None 742 1 1 1,
    ats_point_def.make 3 1114 ''ATS-Next-exercise-enabled'' descr_1114
      95 0 None 904 1 0 1,
    ats_point_def.make 3 1115 ''ATS-Next-exercise-loaded'' descr_1115
      95 0 None 904 1 1 1,
    ats_point_def.make 13 1116 ''ATS-Next-exercise-interval'' descr_1116
      95 5 (Some states_1116) 904 1 2 2,
    ats_point_def.make 0 1117 ''ATS-Next-exercise-repeat-rate'' descr_1117
      95 0 None 904 1 4 4,
    ats_point_def.make 3 1118 ''ATS-Next-exercise-running'' descr_1118
      95 0 None 904 1 8 1,
    ats_point_def.make 40 1119 ''ATS-Next-exercise-start-time'' descr_1119
      95 0 None 905 1 0 0,
    ats_point_def.make 40 1120 ''ATS-Next-exercise-start-date'' descr_1120
      95 0 None 906 1 0 0,
    ats_point_def.make 0 1121 ''ATS-Next-exercise-duration'' descr_1121
      72 0 None 907 1 0 0,
    ats_point_def.make 3 1122 ''ATS-Exercise-schedule-1-enabled'' descr_1122
      95 0 None 909 1 0 1,
    ats_point_def.make 3 1123 ''ATS-Exercise-schedule-1-loaded'' descr_1123
      95 0 None 909 1 1 1,
    ats_point_def.make 13 1124 ''ATS-Exercise-schedule-1-interval'' descr_1124
      95 5 (Some states_1124) 909 1 2 2,
    ats_point_def.make 0 1125 ''ATS-Exercise-schedule-1-repeat-rate'' descr_1125
      95 0 None 909 1 4 4,
    ats_point_def.make 3 1126 ''ATS-Exercise-schedule-1-running'' descr_1126
      95 0 None 909 1 8 1,
    ats_point_def.make 40 1127 ''ATS-Exercise-schedule-1-start-time'' descr_1127
      95 0 None 910 1 0 0,
    ats_point_def.make 40 1128 ''ATS-Exercise-schedule-1-start-date'' descr_1128
      95 0 None 911 1 0 0,
    ats_point_def.make 0 1129 ''ATS-Exercise-schedule-1-duration'' descr_1129
      72 0 None 912 1 0 0,
    ats_point_def.make 40 1130 ''ATS-Last-outage-start-time'' descr_1130
      95 0 None 1009 1 0 0,
    ats_point_def.make 40 1131 ''ATS-Last-outage-date'' descr_1131
      95 0 None 1010 1 0 0,
    ats_point_def.make 0 1132 ''ATS-Last-outage-duration'' descr_1132
      72 0 None 1011 2 0 0,
    ats_point_def.make 40 1133 ''ATS-ATS-designation'' descr_1133
      95 0 None 1109 10 0 0,
    ats_point_def.make 40 1134 ''ATS-Load-description'' descr_1134
      95 0 None 1119 10 0 0,
    ats_point_def.make 40 1135 ''ATS-Branch-description'' descr_1135
      95 0 None 1129 10 0 0,
    ats_point_def.make 40 1136 ''ATS-Location'' descr_1136
      95 0 None 1139 10 0 0,
    ats_point_def.make 40 1137 ''ATS-Controller-firmware'' descr_1137
      95 0 None 1199 1 0 0,
    ats_point_def.make 0 1138 ''ATS-FPGA-revision-raw'' descr_1138
      95 0 None 1200 1 0 0,
    ats_point_def.make 0 1139 ''ATS-MAC-low-15-bits'' descr_1139
      95 0 None 1201 1 0 0,
    ats_point_def.make 40 1140 ''ATS-Controller-time'' descr_1140
      95 0 None 1249 1 0 0,
    ats_point_def.make 40 1141 ''ATS-Controller-date'' descr_1141
      95 0 None 1250 1 0 0,
    ats_point_def.make 3 1142 ''ATS-Daylight-saving-adjustment-enabled'' descr_1142
      95 0 None 1251 1 0 1,
    ats_point_def.make 0 1143 ''ATS-Closed-transition-parallel-time'' descr_1143
      159 0 None 1294 1 0 0,
    ats_point_def.make 0 1144 ''ATS-Normal-contact-opening-time'' descr_1144
      159 0 None 1295 1 0 0,
    ats_point_def.make 0 1145 ''ATS-Normal-contact-closing-time'' descr_1145
      159 0 None 1296 1 0 0,
    ats_point_def.make 0 1146 ''ATS-Emergency-contact-opening-time'' descr_1146
      159 0 None 1297 1 0 0,
    ats_point_def.make 0 1147 ''ATS-Emergency-contact-closing-time'' descr_1147
      159 0 None 1298 1 0 0,
    ats_point_def.make 0 1148 ''ATS-Time-outside-preferred-source-total'' descr_1148
      72 0 None 1299 2 0 0,
    ats_point_def.make 0 1149 ''ATS-Time-outside-preferred-source-since-reset'' descr_1149
      72 0 None 1301 2 0 0,
    ats_point_def.make 0 1150 ''ATS-Time-on-standby-total'' descr_1150
      72 0 None 1303 2 0 0,
    ats_point_def.make 0 1151 ''ATS-Time-on-standby-since-reset'' descr_1151
      72 0 None 1305 2 0 0,
    ats_point_def.make 0 1152 ''ATS-Operating-time-total'' descr_1152
      72 0 None 1307 2 0 0,
    ats_point_def.make 0 1153 ''ATS-Operating-time-since-reset'' descr_1153
      72 0 None 1309 2 0 0,
    ats_point_def.make 0 1154 ''ATS-Transfer-count-total'' descr_1154
      95 0 None 1311 1 0 0,
    ats_point_def.make 0 1155 ''ATS-Transfer-count-since-reset'' descr_1155
      95 0 None 1312 1 0 0,
    ats_point_def.make 0 1156 ''ATS-Failed-transfer-count-total'' descr_1156
      95 0 None 1313 1 0 0,
    ats_point_def.make 0 1157 ''ATS-Failed-transfer-count-since-reset'' descr_1157
      95 0 None 1314 1 0 0,
    ats_point_def.make 0 1158 ''ATS-Loss-of-preferred-transfer-count-total'' descr_1158
      95 0 None 1315 1 0 0,
    ats_point_def.make 0 1159 ''ATS-Loss-of-preferred-transfer-count-since-reset'' descr_1159
      95 0 None 1316 1 0 0,
    ats_point_def.make 0 1160 ''ATS-Normal-to-emergency-transfer-time'' descr_1160
      159 0 None 1317 1 0 0,
    ats_point_def.make 0 1161 ''ATS-Emergency-to-normal-transfer-time'' descr_1161
      159 0 None 1318 1 0 0,
    ats_point_def.make 40 1162 ''ATS-Last-maintenance-date'' descr_1162
      95 0 None 1319 1 0 0,
    ats_point_def.make 0 1163 ''ATS-Keypress-state-bitmap'' descr_1163
      95 0 None 3449 1 0 0,
    ats_point_def.make 0 1164 ''ATS-Modbus-device-type'' descr_1164
      95 0 None 9998 1 0 0]"

definition point_decoders :: "point_decode list" where
  "point_decoders = [
    point_decode.make ENC_U16 1 1, point_decode.make ENC_ENUM 1 1, point_decode.make ENC_ENUM 1 1,
    point_decode.make ENC_U16 1 1, point_decode.make ENC_BOOL 1 1, point_decode.make ENC_BOOL 1 1,
    point_decode.make ENC_U16 1 10, point_decode.make ENC_U16 1 10, point_decode.make ENC_U16 1 10,
    point_decode.make ENC_U16 1 10, point_decode.make ENC_U16 1 10, point_decode.make ENC_U16 1 10,
    point_decode.make ENC_U16 1 10, point_decode.make ENC_U16 1 10, point_decode.make ENC_U16 1 10,
    point_decode.make ENC_U16 1 10, point_decode.make ENC_U16 1 10, point_decode.make ENC_U16 1 10,
    point_decode.make ENC_U16 1 10, point_decode.make ENC_U16 1 10, point_decode.make ENC_U16 1 10,
    point_decode.make ENC_U16 1 10, point_decode.make ENC_U16 1 10, point_decode.make ENC_U16 1 1,
    point_decode.make ENC_U16 1 1, point_decode.make ENC_ENUM 1 1, point_decode.make ENC_ENUM 1 1,
    point_decode.make ENC_ENUM 1 1, point_decode.make ENC_U16 1 10, point_decode.make ENC_U16 1 10,
    point_decode.make ENC_U16 1 10, point_decode.make ENC_U16 1 10, point_decode.make ENC_U16 1 1,
    point_decode.make ENC_U16 1 1, point_decode.make ENC_U16 1 1, point_decode.make ENC_ENUM 1 1,
    point_decode.make ENC_ENUM 1 1, point_decode.make ENC_ENUM 1 1, point_decode.make ENC_U16 1 1,
    point_decode.make ENC_U16 1 10, point_decode.make ENC_U16 1 10, point_decode.make ENC_U16 1 1,
    point_decode.make ENC_U16 1 1, point_decode.make ENC_U16 1 1, point_decode.make ENC_U16 1 1,
    point_decode.make ENC_U16 1 1, point_decode.make ENC_U16 1 1, point_decode.make ENC_U16 1 1,
    point_decode.make ENC_U16 1 1, point_decode.make ENC_U16 1 1, point_decode.make ENC_U16 1 1,
    point_decode.make ENC_U16 1 1, point_decode.make ENC_U16 1 1, point_decode.make ENC_U16 1 1,
    point_decode.make ENC_BOOL 1 1, point_decode.make ENC_U16 1 1, point_decode.make ENC_U16 1 1,
    point_decode.make ENC_U16 1 1, point_decode.make ENC_U16 1 1, point_decode.make ENC_BOOL 1 1,
    point_decode.make ENC_U16 1 1, point_decode.make ENC_U16 1 1, point_decode.make ENC_U16 1 10,
    point_decode.make ENC_U16 1 1, point_decode.make ENC_U16 1 1, point_decode.make ENC_U16 1 1,
    point_decode.make ENC_U16 1 1, point_decode.make ENC_BOOL 1 1, point_decode.make ENC_U16 1 1,
    point_decode.make ENC_U16 1 1, point_decode.make ENC_U16 1 10, point_decode.make ENC_U16 1 1,
    point_decode.make ENC_U16 1 1, point_decode.make ENC_U16 1 1, point_decode.make ENC_U16 1 1,
    point_decode.make ENC_U16 1 10, point_decode.make ENC_U16 1 1, point_decode.make ENC_U16 1 1,
    point_decode.make ENC_U16 1 1, point_decode.make ENC_U16 1 1, point_decode.make ENC_U16 1 10,
    point_decode.make ENC_ENUM 1 1, point_decode.make ENC_ENUM 1 1, point_decode.make ENC_ENUM 1 1,
    point_decode.make ENC_ENUM 1 1, point_decode.make ENC_ENUM 1 1, point_decode.make ENC_BOOL 1 1,
    point_decode.make ENC_BOOL 1 1, point_decode.make ENC_BOOL 1 1, point_decode.make ENC_BOOL 1 1,
    point_decode.make ENC_BOOL 1 1, point_decode.make ENC_U16 1 1, point_decode.make ENC_U16 1 1,
    point_decode.make ENC_U16 1 1, point_decode.make ENC_U16 1 1, point_decode.make ENC_U16 1 1,
    point_decode.make ENC_U16 1 1, point_decode.make ENC_U16 1 1, point_decode.make ENC_U16 1 1,
    point_decode.make ENC_U16 1 1, point_decode.make ENC_U16 1 1, point_decode.make ENC_U16 1 1,
    point_decode.make ENC_U16 1 1, point_decode.make ENC_U16 1 1, point_decode.make ENC_BOOL 1 1,
    point_decode.make ENC_BOOL 1 1, point_decode.make ENC_BOOL 1 1, point_decode.make ENC_BOOL 1 1,
    point_decode.make ENC_BOOL 1 1, point_decode.make ENC_BOOL 1 1, point_decode.make ENC_BOOL 1 1,
    point_decode.make ENC_BOOL 1 1, point_decode.make ENC_BOOL 1 1, point_decode.make ENC_BOOL 1 1,
    point_decode.make ENC_BOOL 1 1, point_decode.make ENC_ENUM 1 1, point_decode.make ENC_U16 1 1,
    point_decode.make ENC_BOOL 1 1, point_decode.make ENC_CLOCK 1 1, point_decode.make ENC_DATE 1 1,
    point_decode.make ENC_U16 1 1, point_decode.make ENC_BOOL 1 1, point_decode.make ENC_BOOL 1 1,
    point_decode.make ENC_ENUM 1 1, point_decode.make ENC_U16 1 1, point_decode.make ENC_BOOL 1 1,
    point_decode.make ENC_CLOCK 1 1, point_decode.make ENC_DATE 1 1, point_decode.make ENC_U16 1 1,
    point_decode.make ENC_CLOCK 1 1, point_decode.make ENC_DATE 1 1, point_decode.make ENC_U32 1 1,
    point_decode.make ENC_ASCII 1 1, point_decode.make ENC_ASCII 1 1, point_decode.make ENC_ASCII 1 1,
    point_decode.make ENC_ASCII 1 1, point_decode.make ENC_VERSION 1 1, point_decode.make ENC_U16 1 1,
    point_decode.make ENC_U16 1 1, point_decode.make ENC_CLOCK 1 1, point_decode.make ENC_DATE 1 1,
    point_decode.make ENC_BOOL 1 1, point_decode.make ENC_U16 1 1, point_decode.make ENC_U16 1 1,
    point_decode.make ENC_U16 1 1, point_decode.make ENC_U16 1 1, point_decode.make ENC_U16 1 1,
    point_decode.make ENC_U32 1 1, point_decode.make ENC_U32 1 1, point_decode.make ENC_U32 1 1,
    point_decode.make ENC_U32 1 1, point_decode.make ENC_U32 1 1, point_decode.make ENC_U32 1 1,
    point_decode.make ENC_U16 1 1, point_decode.make ENC_U16 1 1, point_decode.make ENC_U16 1 1,
    point_decode.make ENC_U16 1 1, point_decode.make ENC_U16 1 1, point_decode.make ENC_U16 1 1,
    point_decode.make ENC_U16 1 1, point_decode.make ENC_U16 1 1, point_decode.make ENC_DATE 1 1,
    point_decode.make ENC_U16 1 1, point_decode.make ENC_U16 1 1]"

definition ats_scan_blocks :: "ats_scan_block list" where
  "ats_scan_blocks = [
    ats_scan_block.make 0 19 2000 6000 ''electrical-overview'',
    ats_scan_block.make 40 1 10000 30000 ''synchronous-angle'',
    ats_scan_block.make 44 1 10000 30000 ''reported-rotation'',
    ats_scan_block.make 56 1 10000 30000 ''operating-mode'',
    ats_scan_block.make 74 3 10000 30000 ''active-delay'',
    ats_scan_block.make 193 10 10000 30000 ''physical-io'',
    ats_scan_block.make 249 4 10000 30000 ''software-io'',
    ats_scan_block.make 741 2 5000 15000 ''accessory-dip-status'',
    ats_scan_block.make 3449 1 10000 30000 ''keypress'',
    ats_scan_block.make 45 8 60000 180000 ''nominal-settings'',
    ats_scan_block.make 58 14 60000 180000 ''delay-settings'',
    ats_scan_block.make 77 26 60000 180000 ''trip-settings'',
    ats_scan_block.make 153 4 60000 180000 ''expansion-presence'',
    ats_scan_block.make 159 2 60000 180000 ''option-presence'',
    ats_scan_block.make 739 1 60000 180000 ''accessory-setup'',
    ats_scan_block.make 904 4 60000 180000 ''next-exercise'',
    ats_scan_block.make 909 4 60000 180000 ''exercise-schedule'',
    ats_scan_block.make 1009 4 60000 180000 ''last-outage'',
    ats_scan_block.make 1109 40 60000 180000 ''identity-text'',
    ats_scan_block.make 1199 3 60000 180000 ''old-map-firmware-fingerprint'',
    ats_scan_block.make 1249 3 60000 180000 ''controller-clock'',
    ats_scan_block.make 1294 26 60000 180000 ''transfer-history'',
    ats_scan_block.make 9998 1 60000 180000 ''device-type'']"

subsection \<open>Geometry\<close>

lemma length_ats_points [simp]: "length ats_points = 164"
  by (simp add: ats_points_def)
lemma length_point_decoders [simp]: "length point_decoders = 164"
  by (simp add: point_decoders_def)
lemma length_ats_scan_blocks [simp]: "length ats_scan_blocks = 23"
  by (simp add: ats_scan_blocks_def)

definition block_spans :: "(nat \<times> nat) list" where
  "block_spans = [(0, 19), (40, 1), (44, 1), (56, 1), (74, 3), (193, 10), (249, 4), (741, 2), (3449, 1),
     (45, 8), (58, 14), (77, 26), (153, 4), (159, 2), (739, 1), (904, 4), (909, 4), (1009, 4),
     (1109, 40), (1199, 3), (1249, 3), (1294, 26), (9998, 1)]"

lemma block_spans_eq: "map (\<lambda>b. (sb_offset b, sb_count b)) ats_scan_blocks = block_spans"
  by (simp add: ats_scan_blocks_def ats_scan_block.defs block_spans_def)

fun spans_disjoint :: "(nat \<times> nat) list \<Rightarrow> bool" where
  "spans_disjoint [] = True"
| "spans_disjoint ((o1, c1) # r) = (list_all (\<lambda>(o2, c2). o1 + c1 \<le> o2 \<or> o2 + c2 \<le> o1) r \<and> spans_disjoint r)"

lemma block_spans_disjoint: "spans_disjoint block_spans"
  by (simp add: block_spans_def)

lemma block_limits: "list_all (\<lambda>b. 1 \<le> sb_count b \<and> sb_count b \<le> 40 \<and> sb_offset b + sb_count b \<le> 65536
   \<and> 2000 \<le> sb_period_ms b \<and> sb_period_ms b \<le> 60000 \<and> sb_stale_ms b = 3 * sb_period_ms b) ats_scan_blocks"
  by (simp add: ats_scan_blocks_def ats_scan_block.defs)

definition point_in_some_block :: "ats_point_def \<Rightarrow> bool" where
  "point_in_some_block d \<longleftrightarrow> list_ex (\<lambda>(ofs, c). ofs \<le> pd_offset d \<and> pd_offset d + pd_word_count d \<le> ofs + c) block_spans"

lemma points_contained: "list_all point_in_some_block ats_points"
  by (simp add: ats_points_def ats_point_def.defs point_in_some_block_def block_spans_def)

definition point_row_ok :: "ats_point_def \<Rightarrow> point_decode \<Rightarrow> bool" where
  "point_row_ok d c \<longleftrightarrow>
     1 \<le> pd_word_count d \<and> pd_word_count d \<le> 10 \<and> pd_offset d + pd_word_count d \<le> 65536 \<and>
     pd_bit_lsb d + pd_bit_width d \<le> 16 \<and> pd_units d < 65536 \<and> pd_instance d < 4194303 \<and>
     (dc_numerator c = 1 \<and> (dc_denominator c = 1 \<or> dc_denominator c = 10)) \<and>
     (case dc_encoding c of
        ENC_ENUM \<Rightarrow> pd_object_type d = 13 \<and> (\<exists>s. pd_state_text d = Some s \<and> pd_state_count d = length s \<and> 3 \<le> length s \<and> length s \<le> 5)
      | ENC_BOOL \<Rightarrow> pd_object_type d = 3 \<and> pd_word_count d = 1
      | ENC_U16 \<Rightarrow> pd_object_type d = 0 \<and> pd_word_count d = 1
      | ENC_U32 \<Rightarrow> pd_object_type d = 0 \<and> pd_word_count d = 2
      | _ \<Rightarrow> pd_object_type d = 40) \<and>
     (dc_encoding c \<noteq> ENC_ENUM \<longrightarrow> pd_state_count d = 0 \<and> pd_state_text d = None)"

lemma point_rows_ok: "list_all2 point_row_ok ats_points point_decoders"
  by (simp add: ats_points_def ats_point_def.defs point_decoders_def point_decode.defs point_row_ok_def state_texts)

text \<open>Instances are the catalog row plus 1000, and never repeat.\<close>

lemma ats_instances: "map pd_instance ats_points = [1001..<1165]"
  by (simp add: ats_points_def ats_point_def.defs upt_rec)


text \<open>Blocks as spans of registers: distinct blocks share no register.\<close>

lemma spans_disjoint_nth:
  "spans_disjoint ss \<Longrightarrow> i < j \<Longrightarrow> j < length ss \<Longrightarrow>
   fst (ss ! i) + snd (ss ! i) \<le> fst (ss ! j) \<or> fst (ss ! j) + snd (ss ! j) \<le> fst (ss ! i)"
proof (induction ss arbitrary: i j)
  case (Cons a ss)
  obtain o1 c1 where a: "a = (o1, c1)" by fastforce
  obtain k where j: "j = Suc k" using Cons.prems by (cases j) auto
  show ?case
  proof (cases i)
    case 0
    with Cons.prems j a show ?thesis by (auto simp: list_all_length split: prod.splits)
  next
    case (Suc n)
    with Cons j a show ?thesis by simp
  qed
qed simp

lemma block_span_nth:
  "k < 23 \<Longrightarrow> block_spans ! k = (sb_offset (ats_scan_blocks ! k), sb_count (ats_scan_blocks ! k))"
  by (simp flip: block_spans_eq)

lemma blocks_disjoint:
  assumes "i < 23" "j < 23" "i \<noteq> j"
  shows "sb_offset (ats_scan_blocks ! i) + sb_count (ats_scan_blocks ! i) \<le> sb_offset (ats_scan_blocks ! j)
       \<or> sb_offset (ats_scan_blocks ! j) + sb_count (ats_scan_blocks ! j) \<le> sb_offset (ats_scan_blocks ! i)"
proof -
  have len: "length block_spans = 23" by (simp flip: block_spans_eq)
  show ?thesis
    using assms spans_disjoint_nth [OF block_spans_disjoint, of i j]
      spans_disjoint_nth [OF block_spans_disjoint, of j i]
    by (cases "i < j") (auto simp: len block_span_nth)
qed

lemma block_limits_nth:
  assumes "k < 23"
  shows "1 \<le> sb_count (ats_scan_blocks ! k)" "sb_count (ats_scan_blocks ! k) \<le> 40"
    "sb_offset (ats_scan_blocks ! k) + sb_count (ats_scan_blocks ! k) \<le> 65536"
    "2000 \<le> sb_period_ms (ats_scan_blocks ! k)" "sb_period_ms (ats_scan_blocks ! k) \<le> 60000"
    "sb_stale_ms (ats_scan_blocks ! k) = 3 * sb_period_ms (ats_scan_blocks ! k)"
  using block_limits assms by (auto simp: list_all_length)

lemma point_row_nth: "i < 164 \<Longrightarrow> point_row_ok (ats_points ! i) (point_decoders ! i)"
  using point_rows_ok by (simp add: list_all2_conv_all_nth)

lemma point_block_nth:
  assumes "i < 164"
  shows "\<exists>b < 23. sb_offset (ats_scan_blocks ! b) \<le> pd_offset (ats_points ! i) \<and>
     pd_offset (ats_points ! i) + pd_word_count (ats_points ! i) \<le>
       sb_offset (ats_scan_blocks ! b) + sb_count (ats_scan_blocks ! b)"
proof -
  have "point_in_some_block (ats_points ! i)"
    using points_contained assms by (simp add: list_all_length)
  then have "\<exists>b < length block_spans. fst (block_spans ! b) \<le> pd_offset (ats_points ! i) \<and>
      pd_offset (ats_points ! i) + pd_word_count (ats_points ! i) \<le> fst (block_spans ! b) + snd (block_spans ! b)"
    by (simp add: point_in_some_block_def list_ex_length case_prod_beta)
  moreover have "length block_spans = 23"
    by (simp flip: block_spans_eq)
  ultimately show ?thesis
    using block_span_nth by auto
qed

end
