(* ===== verification/Ats_Model.thy ===== *)
theory Ats_Model
  imports C_Double C_Format Ats_Map
begin

section \<open>The MPAC1500 register model (main/ats_model.c, main/ats_model.h)\<close>

text \<open>
  The register image of the transfer switch: 23 scan blocks with their acquisition state, the two
  updates of the poller (\<open>ats_model_apply_block\<close>, \<open>ats_model_fail_block\<close>) and the decoder that turns
  the image into 164 qualified values. Times are 64-bit milliseconds.
\<close>

subsection \<open>State and values\<close>

datatype ats_quality = ATS_QUALITY_GOOD | ATS_QUALITY_COMM | ATS_QUALITY_UNVERIFIED | ATS_QUALITY_NA

record ats_value =
  v_numeric :: dbl
  v_text :: string              \<comment> \<open>the array \<open>text[80]\<close>, NUL padded\<close>
  v_quality :: ats_quality
  v_reason :: string
  v_last_good :: u64
  v_raw_words :: "u16 list"     \<comment> \<open>the array \<open>raw_words[10]\<close>\<close>
  v_raw_count :: nat

record ats_block_state =
  b_words :: "u16 list"         \<comment> \<open>the array \<open>words[40]\<close>\<close>
  b_last_good :: u64
  b_last_failure :: u64
  b_acquired :: bool
  b_failed :: bool

record ats_model =
  m_blocks :: "ats_block_state list"

definition ats_block_zero :: ats_block_state where
  "ats_block_zero = \<lparr>b_words = replicate ATS_MAX_BLOCK_WORDS 0, b_last_good = 0, b_last_failure = 0,
     b_acquired = False, b_failed = False\<rparr>"

definition ats_model_init :: ats_model where
  "ats_model_init = \<lparr>m_blocks = replicate ATS_BLOCK_COUNT ats_block_zero\<rparr>"

definition ats_value_zero :: ats_value where
  \<comment> \<open>the value \<open>memset\<close> to zero; the NULL reason is the empty string\<close>
  "ats_value_zero = \<lparr>v_numeric = Fin 0, v_text = replicate ATS_TEXT_CAPACITY NUL,
     v_quality = ATS_QUALITY_GOOD, v_reason = [], v_last_good = 0,
     v_raw_words = replicate ATS_MAX_POINT_WORDS 0, v_raw_count = 0\<rparr>"

subsection \<open>Finding blocks\<close>

text \<open>The two linear searches; the C result \<open>-1\<close> is \<open>None\<close>.\<close>

fun first_index :: "('a \<Rightarrow> bool) \<Rightarrow> 'a list \<Rightarrow> nat option" where
  "first_index P [] = None"
| "first_index P (x # xs) = (if P x then Some 0 else map_option Suc (first_index P xs))"

definition exact_block :: "nat \<Rightarrow> nat \<Rightarrow> nat option" where
  "exact_block offset count =
     first_index (\<lambda>b. sb_offset b = offset \<and> sb_count b = count) ats_scan_blocks"

definition containing_block :: "nat \<Rightarrow> nat \<Rightarrow> nat option" where
  "containing_block offset count =
     first_index (\<lambda>b. offset \<ge> sb_offset b \<and> offset + count \<le> sb_offset b + sb_count b)
       ats_scan_blocks"

subsection \<open>Updates\<close>

text \<open>
  The C functions take nullable pointers and reject NULL: \<open>None\<close> below. The result is the returned
  flag and the model afterwards.
\<close>

definition ats_model_apply_block ::
    "ats_model option \<Rightarrow> nat \<Rightarrow> nat \<Rightarrow> u16 list option \<Rightarrow> u64 \<Rightarrow> bool \<times> ats_model option" where
  "ats_model_apply_block model offset count words now_ms =
     (case (model, words, exact_block offset count) of
        (Some m, Some ws, Some index) \<Rightarrow>
          (let state = m_blocks m ! index in
           if b_acquired state \<and> now_ms < b_last_good state then (False, model)
           else (True, Some (m\<lparr>m_blocks := (m_blocks m)[index :=
                  state\<lparr>b_words := blit (b_words state) (take count ws),
                        b_last_good := now_ms, b_acquired := True, b_failed := False\<rparr>]\<rparr>)))
      | _ \<Rightarrow> (False, model))"

definition ats_model_fail_block ::
    "ats_model option \<Rightarrow> nat \<Rightarrow> nat \<Rightarrow> u64 \<Rightarrow> bool \<times> ats_model option" where
  "ats_model_fail_block model offset count now_ms =
     (case (model, exact_block offset count) of
        (Some m, Some index) \<Rightarrow>
          (let state = m_blocks m ! index in
           if b_acquired state \<and> now_ms < b_last_good state then (False, model)
           else (True, Some (m\<lparr>m_blocks := (m_blocks m)[index :=
                  state\<lparr>b_failed := True, b_last_failure := now_ms\<rparr>]\<rparr>)))
      | _ \<Rightarrow> (False, model))"

subsection \<open>Freshness\<close>

definition block_good :: "ats_model \<Rightarrow> nat option \<Rightarrow> u64 \<Rightarrow> bool" where
  "block_good model index now_ms =
     (case index of
        None \<Rightarrow> False
      | Some i \<Rightarrow>
          (let state = m_blocks model ! i in
           b_acquired state \<and> \<not> b_failed state \<and> now_ms \<ge> b_last_good state \<and>
           now_ms - b_last_good state \<le> of_nat (sb_stale_ms (ats_scan_blocks ! i))))"

definition register_good :: "ats_model \<Rightarrow> nat \<Rightarrow> u64 \<Rightarrow> u16 option" where
  "register_good model offset now_ms =
     (case containing_block offset 1 of
        None \<Rightarrow> None
      | Some i \<Rightarrow>
          if block_good model (Some i) now_ms
          then Some (b_words (m_blocks model ! i) ! (offset - sb_offset (ats_scan_blocks ! i)))
          else None)"

definition set_quality :: "ats_value \<Rightarrow> ats_quality \<Rightarrow> string \<Rightarrow> ats_value" where
  "set_quality v q reason = v\<lparr>v_quality := q, v_reason := reason\<rparr>"

subsection \<open>Decoding\<close>

definition month_days :: "nat list" where
  "month_days = [31,28,31,30,31,30,31,31,30,31,30,31]"

definition calendar_date :: "u16 \<Rightarrow> bool \<times> nat \<times> nat \<times> nat" where
  "calendar_date word =
     (let year = 2000 + unat (drop_bit 9 word);
          month = unat (drop_bit 5 word AND 15);
          day = unat (word AND 31)
      in if month < 1 \<or> month > 12 then (False, year, month, day)
         else let limit = month_days ! (month - 1);
                  limit = (if month = 2 \<and> year mod 4 = 0 \<and> (year mod 100 \<noteq> 0 \<or> year mod 400 = 0)
                           then limit + 1 else limit)
              in (day \<ge> 1 \<and> day \<le> limit, year, month, day))"

text \<open>
  The ASCII loop: low byte first, a NUL ends the text, other unprintable bytes become question
  marks. The accumulator is the write index, the array and the \<open>printable\<close> flag.
\<close>

primrec ascii_loop :: "u16 list \<Rightarrow> nat list \<Rightarrow> nat \<Rightarrow> string \<Rightarrow> bool \<Rightarrow> nat \<times> string \<times> bool" where
  "ascii_loop ws [] n text printable = (n, text, printable)"
| "ascii_loop ws (i # is) n text printable =
     (let c = unat (drop_bit ((i mod 2) * 8) (ws ! (i div 2)) AND 255) in
      if c = 0 then (n, text, printable)
      else let bad = (c < 32 \<or> c > 126);
               ch = (if bad then CHR ''?'' else char_of c);
               printable' = (printable \<and> \<not> bad)
           in if n + 1 < length text
              then ascii_loop ws is (n + 1) (text[n := ch]) printable'
              else ascii_loop ws is n text printable')"

definition raw_field :: "ats_point_def \<Rightarrow> u16 \<Rightarrow> u32" where
  "raw_field def w =
     (if pd_bit_width def \<noteq> 0
      then drop_bit (pd_bit_lsb def) (ucast w) AND (push_bit (pd_bit_width def) 1 - 1)
      else ucast w)"

definition decode_value :: "ats_point_def \<Rightarrow> point_decode \<Rightarrow> u16 list \<Rightarrow> ats_value \<Rightarrow> ats_value" where
  "decode_value def decoder words v =
     (let raw = raw_field def (words ! 0) in
      case dc_encoding decoder of
        ENC_U16 \<Rightarrow>
          v\<lparr>v_numeric := ddiv (dmul (dbl_of_int (uint raw)) (dbl_of_int (int (dc_numerator decoder))))
                              (dbl_of_int (int (dc_denominator decoder)))\<rparr>
      | ENC_BOOL \<Rightarrow>
          (let v = v\<lparr>v_numeric := dbl_of_int (uint raw)\<rparr> in
           if raw > 1
           then set_quality v ATS_QUALITY_UNVERIFIED ''Boolean register is neither zero nor one''
           else v)
      | ENC_ENUM \<Rightarrow>
          (let v = (if raw < of_nat (pd_state_count def) - 1
                    then v\<lparr>v_numeric := dadd (dbl_of_int (uint raw)) (Fin 1)\<rparr>
                    else set_quality (v\<lparr>v_numeric := dbl_of_int (int (pd_state_count def))\<rparr>)
                           ATS_QUALITY_UNVERIFIED ''Undocumented enumeration; raw value retained'')
           in if pd_offset def = 56 \<and> pd_bit_lsb def = 0 \<and> raw = 3
              then set_quality v ATS_QUALITY_UNVERIFIED ''Reserved transition mode'' else v)
      | ENC_U32 \<Rightarrow>
          v\<lparr>v_numeric := dbl_of_int (uint (push_bit 16 (ucast (words ! 0)) OR ucast (words ! 1) :: u32))\<rparr>
      | ENC_VERSION \<Rightarrow>
          v\<lparr>v_text := put_cstr (v_text v)
              (fmt_u (unat (drop_bit 8 (words ! 0))) @ ''.'' @ fmt_0u 2 (unat (words ! 0 AND 255)))\<rparr>
      | ENC_CLOCK \<Rightarrow>
          if raw < 1440
          then v\<lparr>v_text := put_cstr (v_text v)
                   (fmt_0u 2 (unat raw div 60) @ '':'' @ fmt_0u 2 (unat raw mod 60))\<rparr>
          else set_quality
                 (v\<lparr>v_text := put_cstr (v_text v) (''Invalid clock ('' @ fmt_u (unat raw) @ '')'')\<rparr>)
                 ATS_QUALITY_UNVERIFIED
                 ''Controller clock is outside minute-of-day range; no timezone inferred''
      | ENC_DATE \<Rightarrow>
          (case calendar_date (ucast raw) of (ok, year, month, day) \<Rightarrow>
             if ok
             then v\<lparr>v_text := put_cstr (v_text v)
                      (fmt_0u 4 year @ ''-'' @ fmt_0u 2 month @ ''-'' @ fmt_0u 2 day)\<rparr>
             else set_quality
                    (v\<lparr>v_text := put_cstr (v_text v) (''Invalid date (0x'' @ fmt_0X 4 (unat raw) @ '')'')\<rparr>)
                    ATS_QUALITY_UNVERIFIED ''Invalid or unset packed Gregorian date'')
      | ENC_ASCII \<Rightarrow>
          (case ascii_loop words [0..<pd_word_count def * 2] 0 (v_text v) True of
             (n, text, printable) \<Rightarrow>
               let v = v\<lparr>v_text := text[n := NUL]\<rparr> in
               if printable then v
               else set_quality v ATS_QUALITY_UNVERIFIED ''Non-ASCII text; raw words retained''))"

subsection \<open>Qualification\<close>

definition qualify :: "ats_model \<Rightarrow> ats_point_def \<Rightarrow> u64 \<Rightarrow> ats_value \<Rightarrow> ats_value" where
  "qualify model def now_ms v =
     (let off = pd_offset def; raw0 = v_raw_words v ! 0 in
      if v_quality v \<noteq> ATS_QUALITY_GOOD then v
      else if off \<ge> 15 \<and> off \<le> 17 then
        set_quality v ATS_QUALITY_UNVERIFIED
          ''Current sensing/CT installation has not been independently verified''
      else if off = 18 \<or> off = 40 then
        (case (register_good model 0 now_ms, register_good model 56 now_ms) of
           (Some overview, Some mode) \<Rightarrow>
             if overview AND 0x6000 \<noteq> 0x6000 \<or> (off = 18 \<and> mode AND 3 \<noteq> 2)
             then set_quality v ATS_QUALITY_NA
               ''Inter-source angle is not applicable with an unavailable source or incompatible transition mode''
             else set_quality v ATS_QUALITY_UNVERIFIED
               ''Angle register readable; synchronization/measurement applicability remains unverified''
         | _ \<Rightarrow> set_quality v ATS_QUALITY_COMM
               ''Source availability or transition mode is unavailable/stale'')
      else if off \<ge> 195 \<and> off \<le> 202 then
        (let board = (off - 195) mod 4 in
         case register_good model (153 + board) now_ms of
           None \<Rightarrow> set_quality v ATS_QUALITY_COMM ''Expansion-board presence is unavailable/stale''
         | Some context \<Rightarrow>
             if context = 0
             then set_quality v ATS_QUALITY_NA ''Corresponding expansion board is not installed''
             else if context > 2
             then set_quality v ATS_QUALITY_UNVERIFIED ''Unknown expansion-board type''
             else v)
      else if off = 249 \<or> off = 251 then
        (case register_good model (off + 1) now_ms of
           None \<Rightarrow> set_quality v ATS_QUALITY_COMM ''I/O assignment bitmap is unavailable/stale''
         | Some context \<Rightarrow>
             if context AND (if off = 249 then 15 else 31) = 0
             then set_quality v ATS_QUALITY_NA
               ''No software outputs or remote monitored inputs are assigned''
             else v)
      else if off = 1011 then
        set_quality v ATS_QUALITY_UNVERIFIED
          ''Outage duration word order is not independently verified; raw pair retained''
      else if off \<ge> 1294 \<and> off \<le> 1298 \<and> raw0 = 0 then
        set_quality v ATS_QUALITY_UNVERIFIED ''Zero historical timing may mean unset or inapplicable''
      else if off = 1319 \<and> raw0 = 0x0221 then
        set_quality v ATS_QUALITY_UNVERIFIED
          ''Stored maintenance date matches known default; not proof of a service visit''
      else if off = 0 \<and> pd_bit_width def = 0 \<and> raw0 AND 0x8000 \<noteq> 0 then
        set_quality v ATS_QUALITY_UNVERIFIED ''Reserved overview bit 15 is set; raw word retained''
      else v)"

subsection \<open>The whole image\<close>

definition decode_point :: "ats_model option \<Rightarrow> u64 \<Rightarrow> nat \<Rightarrow> ats_value" where
  "decode_point model now_ms i =
     (let def = ats_points ! i;
          v = set_quality (ats_value_zero\<lparr>v_numeric := NaN\<rparr>) ATS_QUALITY_COMM ''Not yet acquired''
      in case model of
           None \<Rightarrow> v
         | Some m \<Rightarrow>
             (case containing_block (pd_offset def) (pd_word_count def) of
                None \<Rightarrow> v\<lparr>v_reason := ''Point is not contained in a scan block''\<rparr>
              | Some block \<Rightarrow>
                  (let state = m_blocks m ! block in
                   if \<not> b_acquired state then v
                   else
                     let words = drop (pd_offset def - sb_offset (ats_scan_blocks ! block)) (b_words state);
                         v = v\<lparr>v_raw_words := blit (v_raw_words v) (take (pd_word_count def) words),
                               v_raw_count := pd_word_count def, v_last_good := b_last_good state\<rparr>;
                         v = set_quality v ATS_QUALITY_GOOD ''Fresh controller-reported value'';
                         v = decode_value def (point_decoders ! i) words v
                     in if \<not> block_good m (Some block) now_ms
                        then set_quality v ATS_QUALITY_COMM
                               (if b_failed state
                                then ''Latest block read failed; previous raw value retained''
                                else ''Block data is stale or clock moved backwards'')
                        else qualify m def now_ms v)))"

definition ats_model_decode_all :: "ats_model option \<Rightarrow> u64 \<Rightarrow> ats_value list" where
  "ats_model_decode_all model now_ms = map (decode_point model now_ms) [0..<ATS_POINT_COUNT]"

fun ats_quality_name :: "ats_quality \<Rightarrow> string" where
  "ats_quality_name ATS_QUALITY_GOOD = ''good''"
| "ats_quality_name ATS_QUALITY_COMM = ''communication-failure''"
| "ats_quality_name ATS_QUALITY_UNVERIFIED = ''unverified''"
| "ats_quality_name ATS_QUALITY_NA = ''not-applicable''"

section \<open>Lemmas\<close>

subsection \<open>The two searches\<close>

lemma first_index_Some:
  "first_index P xs = Some i \<longleftrightarrow> i < length xs \<and> P (xs ! i) \<and> (\<forall>j<i. \<not> P (xs ! j))"
proof (induction xs arbitrary: i)
  case (Cons x xs)
  then show ?case by (cases i) (auto simp: less_Suc_eq_0_disj)
qed simp

lemma first_index_None: "first_index P xs = None \<longleftrightarrow> (\<forall>x \<in> set xs. \<not> P x)"
  by (induction xs) auto

lemma first_index_unique:
  assumes "\<And>i j. i < length xs \<Longrightarrow> j < length xs \<Longrightarrow> P (xs ! i) \<Longrightarrow> P (xs ! j) \<Longrightarrow> i = j"
  shows "first_index P xs = Some i \<longleftrightarrow> i < length xs \<and> P (xs ! i)"
  unfolding first_index_Some using assms by (metis less_trans order_less_irrefl)

definition covers :: "nat \<Rightarrow> nat \<Rightarrow> nat \<Rightarrow> bool" where
  "covers b off n \<longleftrightarrow> b < 23 \<and> sb_offset (ats_scan_blocks ! b) \<le> off \<and>
     off + n \<le> sb_offset (ats_scan_blocks ! b) + sb_count (ats_scan_blocks ! b)"

lemma covers_unique: "covers b off n \<Longrightarrow> covers c off n \<Longrightarrow> 0 < n \<Longrightarrow> b = c"
  using blocks_disjoint [of b c] by (force simp: covers_def)

lemma containing_block_eq:
  assumes "0 < n" shows "containing_block off n = Some b \<longleftrightarrow> covers b off n"
  unfolding containing_block_def covers_def
  by (subst first_index_unique)
    (use covers_unique [OF _ _ assms] in \<open>auto simp: covers_def\<close>)

lemma exact_block_eq:
  "exact_block off n = Some b \<longleftrightarrow>
     b < 23 \<and> sb_offset (ats_scan_blocks ! b) = off \<and> sb_count (ats_scan_blocks ! b) = n"
  unfolding exact_block_def
proof (subst first_index_unique)
  fix i j
  assume "i < length ats_scan_blocks" "j < length ats_scan_blocks"
    "sb_offset (ats_scan_blocks ! i) = off \<and> sb_count (ats_scan_blocks ! i) = n"
    "sb_offset (ats_scan_blocks ! j) = off \<and> sb_count (ats_scan_blocks ! j) = n"
  then show "i = j"
    using covers_unique [of i off n j] block_limits_nth(1) [of i] by (auto simp: covers_def)
qed auto

lemma exact_block_nth [simp]:
  "b < 23 \<Longrightarrow> exact_block (sb_offset (ats_scan_blocks ! b)) (sb_count (ats_scan_blocks ! b)) = Some b"
  by (simp add: exact_block_eq)

lemma point_words: "i < 164 \<Longrightarrow> 1 \<le> pd_word_count (ats_points ! i) \<and> pd_word_count (ats_points ! i) \<le> 10"
  using point_row_nth [of i] by (simp add: point_row_ok_def)

definition point_block :: "nat \<Rightarrow> nat" where
  "point_block i = the (containing_block (pd_offset (ats_points ! i)) (pd_word_count (ats_points ! i)))"

lemma point_block:
  assumes "i < 164"
  shows "containing_block (pd_offset (ats_points ! i)) (pd_word_count (ats_points ! i)) = Some (point_block i)"
    and "covers (point_block i) (pd_offset (ats_points ! i)) (pd_word_count (ats_points ! i))"
    and "point_block i < 23"
proof -
  obtain b where b: "covers b (pd_offset (ats_points ! i)) (pd_word_count (ats_points ! i))"
    using point_block_nth [OF assms] by (auto simp: covers_def)
  have "0 < pd_word_count (ats_points ! i)" using point_words [OF assms] by simp
  from containing_block_eq [OF this, of "pd_offset (ats_points ! i)" b] b
  show 1: "containing_block (pd_offset (ats_points ! i)) (pd_word_count (ats_points ! i)) = Some (point_block i)"
    by (simp add: point_block_def)
  from 1 containing_block_eq [OF \<open>0 < pd_word_count (ats_points ! i)\<close>]
  show "covers (point_block i) (pd_offset (ats_points ! i)) (pd_word_count (ats_points ! i))" by simp
  then show "point_block i < 23" by (simp add: covers_def)
qed

subsection \<open>The image invariant\<close>

definition model_ok :: "ats_model \<Rightarrow> bool" where
  "model_ok m \<longleftrightarrow> length (m_blocks m) = 23 \<and> (\<forall>b < 23. length (b_words (m_blocks m ! b)) = 40)"

definition ats_apply :: "nat \<Rightarrow> u16 list \<Rightarrow> u64 \<Rightarrow> ats_model \<Rightarrow> bool \<times> ats_model" where
  \<comment> \<open>\<open>ats_model_apply_block\<close> on the exact rectangle of block \<open>b\<close>\<close>
  "ats_apply b ws now m =
     (case ats_model_apply_block (Some m) (sb_offset (ats_scan_blocks ! b)) (sb_count (ats_scan_blocks ! b)) (Some ws) now
      of (r, m') \<Rightarrow> (r, case m' of Some m' \<Rightarrow> m' | None \<Rightarrow> m))"

definition ats_fail :: "nat \<Rightarrow> u64 \<Rightarrow> ats_model \<Rightarrow> ats_model" where
  "ats_fail b now m =
     (case snd (ats_model_fail_block (Some m) (sb_offset (ats_scan_blocks ! b)) (sb_count (ats_scan_blocks ! b)) now)
      of Some m' \<Rightarrow> m' | None \<Rightarrow> m)"

lemma model_ok_init: "model_ok ats_model_init"
  by (simp add: model_ok_def ats_model_init_def ats_block_zero_def ATS_BLOCK_COUNT_def ATS_MAX_BLOCK_WORDS_def)

lemma ats_apply_eq:
  "b < 23 \<Longrightarrow> ats_apply b ws now m =
     (let state = m_blocks m ! b in
      if b_acquired state \<and> now < b_last_good state then (False, m)
      else (True, m\<lparr>m_blocks := (m_blocks m)[b :=
              state\<lparr>b_words := blit (b_words state) (take (sb_count (ats_scan_blocks ! b)) ws),
                    b_last_good := now, b_acquired := True, b_failed := False\<rparr>]\<rparr>))"
  by (simp add: ats_apply_def ats_model_apply_block_def Let_def)

lemma ats_fail_eq:
  "b < 23 \<Longrightarrow> ats_fail b now m =
     (let state = m_blocks m ! b in
      if b_acquired state \<and> now < b_last_good state then m
      else m\<lparr>m_blocks := (m_blocks m)[b := state\<lparr>b_failed := True, b_last_failure := now\<rparr>]\<rparr>)"
  by (simp add: ats_fail_def ats_model_fail_block_def Let_def)

lemma model_ok_apply:
  assumes "model_ok m" "b < 23"
  shows "model_ok (snd (ats_apply b ws now m))"
  using assms block_limits_nth(2) [OF assms(2)]
  by (auto simp: ats_apply_eq Let_def model_ok_def nth_list_update)

lemma model_ok_fail: "model_ok m \<Longrightarrow> b < 23 \<Longrightarrow> model_ok (ats_fail b now m)"
  by (auto simp: ats_fail_eq Let_def model_ok_def nth_list_update)



definition block_ready :: "u64 \<Rightarrow> ats_model \<Rightarrow> nat \<Rightarrow> bool" where
  "block_ready now m b \<longleftrightarrow> model_ok m \<and> \<not> (b_acquired (m_blocks m ! b) \<and> now < b_last_good (m_blocks m ! b))"

definition retained :: "ats_model \<Rightarrow> (u16 list \<times> u64 \<times> bool) list" where
  "retained m = map (\<lambda>b. (b_words b, b_last_good b, b_acquired b)) (m_blocks m)"

interpretation ats_faults: fault_loop_keeps "\<lambda>b. ats_fail b now" "\<lambda>m b. b_failed (m_blocks m ! b)"
    "block_ready now" 23 retained for now
proof unfold_locales
  fix b :: nat and m :: ats_model
  assume "b < 23"
  then show "retained (ats_fail b now m) = retained m"
    by (cases "b < length (m_blocks m)")
      (auto simp: ats_fail_eq Let_def retained_def map_update list_update_beyond intro: list_update_same_conv [THEN iffD2])
next
  fix i j :: nat and m :: ats_model
  assume "i < 23" "j < 23" "b_failed (m_blocks m ! j)"
  then show "b_failed (m_blocks (ats_fail i now m) ! j)"
    by (cases "i < length (m_blocks m)")
      (auto simp: ats_fail_eq Let_def nth_list_update list_update_beyond)
qed (auto simp: ats_fail_eq Let_def block_ready_def model_ok_fail nth_list_update model_ok_def)

lemma retained_map_nth:
  "b < length (m_blocks m) \<Longrightarrow>
   retained m ! b = (b_words (m_blocks m ! b), b_last_good (m_blocks m ! b), b_acquired (m_blocks m ! b))"
  by (simp add: retained_def)

lemma retained_nth:
  assumes r: "retained m = retained m'" and b: "b < length (m_blocks m)"
  shows "b_words (m_blocks m ! b) = b_words (m_blocks m' ! b)"
    "b_last_good (m_blocks m ! b) = b_last_good (m_blocks m' ! b)"
    "b_acquired (m_blocks m ! b) = b_acquired (m_blocks m' ! b)"
proof -
  have "length (m_blocks m) = length (m_blocks m')"
    using arg_cong [OF r, of length] by (simp add: retained_def)
  with b have b': "b < length (m_blocks m')" by simp
  note eq = retained_map_nth [OF b] retained_map_nth [OF b']
  show "b_words (m_blocks m ! b) = b_words (m_blocks m' ! b)"
    "b_last_good (m_blocks m ! b) = b_last_good (m_blocks m' ! b)"
    "b_acquired (m_blocks m ! b) = b_acquired (m_blocks m' ! b)"
    using eq unfolding r by simp_all
qed

subsection \<open>What decoding leaves alone\<close>

lemma set_quality_simps [simp]:
  "v_numeric (set_quality v q r) = v_numeric v" "v_text (set_quality v q r) = v_text v"
  "v_quality (set_quality v q r) = q" "v_reason (set_quality v q r) = r"
  "v_last_good (set_quality v q r) = v_last_good v" "v_raw_words (set_quality v q r) = v_raw_words v"
  "v_raw_count (set_quality v q r) = v_raw_count v"
  by (simp_all add: set_quality_def)

lemma decode_value_frame [simp]:
  "v_last_good (decode_value d c ws v) = v_last_good v"
  "v_raw_words (decode_value d c ws v) = v_raw_words v"
  "v_raw_count (decode_value d c ws v) = v_raw_count v"
  by (cases "dc_encoding c", simp_all add: decode_value_def Let_def split: prod.split)+

lemma decode_value_quality:
  "v_quality (decode_value d c ws v) = v_quality v \<or> v_quality (decode_value d c ws v) = ATS_QUALITY_UNVERIFIED"
  by (cases "dc_encoding c") (simp_all add: decode_value_def Let_def split: prod.split)

text \<open>
  The branches of the qualification, as a rule: a predicate holds of the result when it holds of
  the value, of every re-qualified value other than a communication failure, and of the
  communication failures, where one of the context registers is unavailable.
\<close>

definition context_registers :: "nat \<Rightarrow> nat list" where
  "context_registers off =
     (if off = 18 \<or> off = 40 then [0, 56]
      else if 195 \<le> off \<and> off \<le> 202 then [153 + (off - 195) mod 4]
      else if off = 249 \<or> off = 251 then [off + 1] else [])"

lemma if_cases: "(c \<Longrightarrow> P a) \<Longrightarrow> (\<not> c \<Longrightarrow> P b) \<Longrightarrow> P (if c then a else b)"
  by simp

lemma option_cases:
  "(x = None \<Longrightarrow> P a) \<Longrightarrow> (\<And>y. x = Some y \<Longrightarrow> P (f y)) \<Longrightarrow> P (case x of None \<Rightarrow> a | Some y \<Rightarrow> f y)"
  by (cases x) simp_all

lemma qualify_rule:
  assumes 0: "(v_quality v = ATS_QUALITY_GOOD \<Longrightarrow> \<forall>r \<in> set (context_registers (pd_offset d)). register_good m r now \<noteq> None) \<Longrightarrow> P v"
    and 1: "\<And>q r. q = ATS_QUALITY_UNVERIFIED \<or> q = ATS_QUALITY_NA \<Longrightarrow> P (set_quality v q r)"
    and 2: "\<And>r c. c \<in> set (context_registers (pd_offset d)) \<Longrightarrow> register_good m c now = None \<Longrightarrow>
              P (set_quality v ATS_QUALITY_COMM r)"
  shows "P (qualify m d now v)"
  unfolding qualify_def Let_def prod.case
  apply (intro if_cases [where P = P] option_cases [where P = P])
                      apply (simp_all add: 1)
         apply (rule 0, simp)
        apply (rule 2 [of 0]; force simp: context_registers_def)
       apply (rule 2 [of 56]; force simp: context_registers_def)
      apply (rule 2 [of "153 + (pd_offset d - 195) mod 4"]; force simp: context_registers_def)
     apply (rule 0; force simp: context_registers_def)
    apply (rule 2 [of "Suc (pd_offset d)"]; force simp: context_registers_def)
   apply (rule 0; force simp: context_registers_def)
  apply (rule 0; simp add: context_registers_def; blast)
  done

lemma qualify_frame [simp]:
  "v_numeric (qualify m d now v) = v_numeric v" "v_text (qualify m d now v) = v_text v"
  "v_last_good (qualify m d now v) = v_last_good v" "v_raw_words (qualify m d now v) = v_raw_words v"
  "v_raw_count (qualify m d now v) = v_raw_count v"
  by (rule qualify_rule; simp)+

lemma qualify_comm:
  assumes "v_quality v \<noteq> ATS_QUALITY_COMM"
    and "\<And>r. r \<in> set (context_registers (pd_offset d)) \<Longrightarrow> register_good m r now \<noteq> None"
  shows "v_quality (qualify m d now v) \<noteq> ATS_QUALITY_COMM"
  by (rule qualify_rule) (use assms in auto)

lemma qualify_good_context:
  "v_quality (qualify m d now v) = ATS_QUALITY_GOOD \<longrightarrow>
     (\<forall>r \<in> set (context_registers (pd_offset d)). register_good m r now \<noteq> None)"
  by (rule qualify_rule) auto

subsection \<open>One point\<close>

definition point_raw :: "ats_model \<Rightarrow> nat \<Rightarrow> u16 list" where
  \<comment> \<open>the words of point \<open>i\<close> in its block\<close>
  "point_raw m i = take (pd_word_count (ats_points ! i))
     (drop (pd_offset (ats_points ! i) - sb_offset (ats_scan_blocks ! point_block i))
        (b_words (m_blocks m ! point_block i)))"

definition point_start :: "ats_model \<Rightarrow> nat \<Rightarrow> ats_value" where
  \<comment> \<open>the value before decoding starts\<close>
  "point_start m i =
     set_quality (ats_value_zero\<lparr>v_numeric := NaN, v_raw_words := blit (replicate 10 0) (point_raw m i),
        v_raw_count := pd_word_count (ats_points ! i), v_last_good := b_last_good (m_blocks m ! point_block i)\<rparr>)
       ATS_QUALITY_GOOD ''Fresh controller-reported value''"

lemma decode_all_nth: "i < 164 \<Longrightarrow> ats_model_decode_all model now ! i = decode_point model now i"
  by (simp add: ats_model_decode_all_def ATS_POINT_COUNT_def)

lemma length_decode_all [simp]: "length (ats_model_decode_all model now) = 164"
  by (simp add: ats_model_decode_all_def ATS_POINT_COUNT_def)

definition point_decoded :: "ats_model \<Rightarrow> nat \<Rightarrow> ats_value" where
  "point_decoded m i = decode_value (ats_points ! i) (point_decoders ! i)
     (drop (pd_offset (ats_points ! i) - sb_offset (ats_scan_blocks ! point_block i))
        (b_words (m_blocks m ! point_block i))) (point_start m i)"

lemma decode_point_acquired:
  assumes "i < 164" "b_acquired (m_blocks m ! point_block i)"
  shows "decode_point (Some m) now i =
     (if block_good m (Some (point_block i)) now
      then qualify m (ats_points ! i) now (point_decoded m i)
      else set_quality (point_decoded m i) ATS_QUALITY_COMM
             (if b_failed (m_blocks m ! point_block i)
              then ''Latest block read failed; previous raw value retained''
              else ''Block data is stale or clock moved backwards''))"
  using assms point_block(1) [OF assms(1)]
  by (simp add: decode_point_def Let_def point_decoded_def point_start_def point_raw_def set_quality_def
      ats_value_zero_def ats_consts)

lemma decode_point_unacquired:
  assumes "i < 164" "\<not> b_acquired (m_blocks m ! point_block i)"
  shows "decode_point (Some m) now i =
     set_quality (ats_value_zero\<lparr>v_numeric := NaN\<rparr>) ATS_QUALITY_COMM ''Not yet acquired''"
  using assms point_block(1) [OF assms(1)] by (simp add: decode_point_def Let_def)

lemma point_decoded_quality: "v_quality (point_decoded m i) \<noteq> ATS_QUALITY_COMM"
  using decode_value_quality [of "ats_points ! i" "point_decoders ! i" _ "point_start m i"]
  unfolding point_decoded_def by (metis ats_quality.distinct(1,7) point_start_def set_quality_simps(3))

lemma length_point_raw:
  assumes "model_ok m" "i < 164" shows "length (point_raw m i) = pd_word_count (ats_points ! i)"
  using assms point_block(2) [OF assms(2)] block_limits_nth(2) [of "point_block i"]
  by (auto simp: point_raw_def model_ok_def covers_def min_def)

lemma point_start_raw:
  assumes "model_ok m" "i < 164"
  shows "take (pd_word_count (ats_points ! i)) (v_raw_words (point_start m i)) = point_raw m i"
  using take_blit [of "point_raw m i"] length_point_raw [OF assms]
  by (simp add: point_start_def)



subsection \<open>Freshness in milliseconds\<close>

definition fresh :: "ats_model \<Rightarrow> nat \<Rightarrow> u64 \<Rightarrow> bool" where
  \<comment> \<open>the specification of \<open>block_good\<close>, over the natural numbers\<close>
  "fresh m b now \<longleftrightarrow> b_acquired (m_blocks m ! b) \<and> \<not> b_failed (m_blocks m ! b) \<and>
     unat (b_last_good (m_blocks m ! b)) \<le> unat now \<and>
     unat now \<le> unat (b_last_good (m_blocks m ! b)) + 3 * sb_period_ms (ats_scan_blocks ! b)"

lemma block_good_eq:
  assumes "b < 23" shows "block_good m (Some b) now \<longleftrightarrow> fresh m b now"
proof -
  have s: "unat (of_nat (sb_stale_ms (ats_scan_blocks ! b)) :: u64) = 3 * sb_period_ms (ats_scan_blocks ! b)"
    using block_limits_nth(5,6) [OF assms] by (subst unat_of_nat_small) simp_all
  have "now - l \<le> of_nat (sb_stale_ms (ats_scan_blocks ! b)) \<longleftrightarrow>
      unat now \<le> unat l + 3 * sb_period_ms (ats_scan_blocks ! b)" if "l \<le> now" for l :: u64
    using that s by (auto simp: word_le_nat_alt unat_sub)
  then show ?thesis
    by (auto simp: block_good_def Let_def fresh_def word_le_nat_alt)
qed

lemma register_good_eq:
  "register_good m r now = (case containing_block r 1 of
     Some b \<Rightarrow> if fresh m b now then Some (b_words (m_blocks m ! b) ! (r - sb_offset (ats_scan_blocks ! b))) else None
   | None \<Rightarrow> None)"
proof (cases "containing_block r 1")
  case (Some b)
  then have "b < 23" using containing_block_eq [of 1 r b] by (simp add: covers_def)
  with Some show ?thesis by (simp add: register_good_def block_good_eq)
qed (simp add: register_good_def)

subsection \<open>Accepted updates\<close>

lemma ats_apply_accepted:
  assumes "model_ok m" "b < 23"
    "ats_model_apply_block (Some m) (sb_offset (ats_scan_blocks ! b)) (sb_count (ats_scan_blocks ! b)) (Some ws) now
       = (True, Some m')"
  shows "m_blocks m' = (m_blocks m)[b := (m_blocks m ! b)\<lparr>
            b_words := blit (b_words (m_blocks m ! b)) (take (sb_count (ats_scan_blocks ! b)) ws),
            b_last_good := now, b_acquired := True, b_failed := False\<rparr>]"
    and "model_ok m'"
proof -
  have "ats_apply b ws now m = (True, m')" using assms(3) by (simp add: ats_apply_def)
  then show "m_blocks m' = (m_blocks m)[b := (m_blocks m ! b)\<lparr>
            b_words := blit (b_words (m_blocks m ! b)) (take (sb_count (ats_scan_blocks ! b)) ws),
            b_last_good := now, b_acquired := True, b_failed := False\<rparr>]"
    and "model_ok m'"
    using model_ok_apply [OF assms(1,2), of ws now] assms(2)
    by (auto simp: ats_apply_eq Let_def split: if_splits)
qed

lemma ats_fail_accepted:
  assumes "model_ok m" "b < 23"
    "ats_model_fail_block (Some m) (sb_offset (ats_scan_blocks ! b)) (sb_count (ats_scan_blocks ! b)) now
       = (True, Some m')"
  shows "m_blocks m' = (m_blocks m)[b := (m_blocks m ! b)\<lparr>b_failed := True, b_last_failure := now\<rparr>]"
    and "model_ok m'"
proof -
  have f: "ats_fail b now m = m'" using assms(3) by (simp add: ats_fail_def)
  then show "model_ok m'" using model_ok_fail [OF assms(1,2), of now] by simp
  show "m_blocks m' = (m_blocks m)[b := (m_blocks m ! b)\<lparr>b_failed := True, b_last_failure := now\<rparr>]"
    using assms(2,3) by (auto simp: ats_model_fail_block_def Let_def split: if_splits)
qed

lemma point_raw_slice:
  assumes "i < 164" "b = point_block i" "length ws = sb_count (ats_scan_blocks ! b)"
    "b_words (m_blocks m ! b) = blit old ws"
  shows "point_raw m i = take (pd_word_count (ats_points ! i)) (drop (pd_offset (ats_points ! i) - sb_offset (ats_scan_blocks ! b)) ws)"
  using assms point_block(2) [OF assms(1)] by (auto simp: point_raw_def blit_def covers_def)

lemma fresh_decode:
  assumes "model_ok m" "i < 164" "fresh m (point_block i) t"
  shows "v_last_good (ats_model_decode_all (Some m) t ! i) = b_last_good (m_blocks m ! point_block i)"
    "take (pd_word_count (ats_points ! i)) (v_raw_words (ats_model_decode_all (Some m) t ! i)) = point_raw m i"
    "(\<And>r. r \<in> set (context_registers (pd_offset (ats_points ! i))) \<Longrightarrow> register_good m r t \<noteq> None) \<Longrightarrow>
      v_quality (ats_model_decode_all (Some m) t ! i) \<noteq> ATS_QUALITY_COMM"
proof -
  have "decode_point (Some m) t i = qualify m (ats_points ! i) t (point_decoded m i)"
    using assms by (simp add: decode_point_acquired block_good_eq point_block(3) fresh_def)
  then show "v_last_good (ats_model_decode_all (Some m) t ! i) = b_last_good (m_blocks m ! point_block i)"
    "take (pd_word_count (ats_points ! i)) (v_raw_words (ats_model_decode_all (Some m) t ! i)) = point_raw m i"
    "(\<And>r. r \<in> set (context_registers (pd_offset (ats_points ! i))) \<Longrightarrow> register_good m r t \<noteq> None) \<Longrightarrow>
      v_quality (ats_model_decode_all (Some m) t ! i) \<noteq> ATS_QUALITY_COMM"
    using assms point_start_raw [OF assms(1,2)] qualify_comm point_decoded_quality
    by (auto simp: decode_all_nth point_decoded_def point_start_def)
qed

lemma point_decoded_cong:
  "b_words (m_blocks m ! point_block i) = b_words (m_blocks m' ! point_block i) \<Longrightarrow>
   b_last_good (m_blocks m ! point_block i) = b_last_good (m_blocks m' ! point_block i) \<Longrightarrow>
   point_decoded m i = point_decoded m' i"
  by (simp add: point_decoded_def point_start_def point_raw_def)

lemma qualify_no_context:
  assumes "context_registers (pd_offset d) = []"
  shows "qualify m d now v = qualify m' d now v"
proof -
  have "\<not> (pd_offset d = 18 \<or> pd_offset d = 40)" "\<not> (195 \<le> pd_offset d \<and> pd_offset d \<le> 202)"
    "\<not> (pd_offset d = 249 \<or> pd_offset d = 251)"
    using assms by (auto simp: context_registers_def split: if_splits)
  then show ?thesis by (simp only: qualify_def Let_def if_False)
qed

lemma decode_same_block:
  assumes "i < 164" "m_blocks m' ! point_block i = m_blocks m ! point_block i"
    "context_registers (pd_offset (ats_points ! i)) = []"
  shows "decode_point (Some m') t i = decode_point (Some m) t i"
proof (cases "b_acquired (m_blocks m ! point_block i)")
  case True
  have "block_good m' (Some (point_block i)) t = block_good m (Some (point_block i)) t"
    using assms(2) by (simp add: block_good_def)
  then show ?thesis
    using True assms point_decoded_cong [of m' i m] qualify_no_context [OF assms(3), of m' t _ m]
    by (simp add: decode_point_acquired)
qed (use assms in \<open>simp add: decode_point_unacquired\<close>)

lemma decode_failed_block:
  assumes "i < 164" "b_words (m_blocks m' ! point_block i) = b_words (m_blocks m ! point_block i)"
    "b_last_good (m_blocks m' ! point_block i) = b_last_good (m_blocks m ! point_block i)"
    "b_acquired (m_blocks m' ! point_block i) = b_acquired (m_blocks m ! point_block i)"
    "b_failed (m_blocks m' ! point_block i)"
  shows "\<exists>r. decode_point (Some m') t i = set_quality (decode_point (Some m) t i) ATS_QUALITY_COMM r"
proof (cases "b_acquired (m_blocks m ! point_block i)")
  case True
  have s: "set_quality (set_quality v q r) q' r' = set_quality v q' r'" for v q r q' r'
    by (simp add: set_quality_def)
  have q0: "v = set_quality v (v_quality v) (v_reason v)" for v
    by (simp add: set_quality_def)
  have q: "\<exists>q r. qualify m d t v = set_quality v q r" for d v
    by (rule qualify_rule) (use q0 in blast)+
  have "\<not> block_good m' (Some (point_block i)) t"
    using assms(5) by (simp add: block_good_def)
  then obtain r where 1: "decode_point (Some m') t i = set_quality (point_decoded m i) ATS_QUALITY_COMM r"
    using True assms point_decoded_cong [of m' i m] by (simp add: decode_point_acquired)
  have "\<exists>q r. decode_point (Some m) t i = set_quality (point_decoded m i) q r"
    using q [of "ats_points ! i" "point_decoded m i"]
    by (simp add: decode_point_acquired [OF assms(1) True]) blast
  with 1 show ?thesis by (metis s)
qed (use assms in \<open>auto simp: decode_point_unacquired set_quality_def\<close>)

text \<open>A concrete point for the examples: row 6, a voltage in register 1 of block 0.\<close>

lemma row6: "pd_offset (ats_points ! 6) = 1" "pd_word_count (ats_points ! 6) = 1" "pd_bit_width (ats_points ! 6) = 0"
  "point_decoders ! 6 = \<lparr>dc_encoding = ENC_U16, dc_numerator = 1, dc_denominator = 10\<rparr>"
  by (simp_all add: ats_points_def ats_point_def.defs point_decoders_def point_decode.defs)

lemma block0: "sb_offset (ats_scan_blocks ! 0) = 0" "sb_count (ats_scan_blocks ! 0) = 19"
  "sb_period_ms (ats_scan_blocks ! 0) = 2000"
  by (simp_all add: ats_scan_blocks_def ats_scan_block.defs)

lemma point_block_6: "point_block 6 = 0"
  using containing_block_eq [of 1 1 0] by (simp add: point_block_def row6 covers_def block0)

definition demo_words :: "u16 list" where
  "demo_words = replicate 19 2400"

definition demo_model :: ats_model where
  "demo_model = snd (ats_apply 0 demo_words 1000 ats_model_init)"

lemma demo_apply:
  "ats_model_apply_block (Some ats_model_init) 0 19 (Some demo_words) 1000 = (True, Some demo_model)"
  using exact_block_nth [of 0]
  by (simp add: demo_model_def ats_apply_def ats_model_apply_block_def block0 Let_def ats_model_init_def
      ats_block_zero_def ats_consts)

lemma demo_facts: "model_ok demo_model" "length demo_words = 19"
  "m_blocks demo_model ! 0 = \<lparr>b_words = demo_words @ replicate 21 0, b_last_good = 1000, b_last_failure = 0,
     b_acquired = True, b_failed = False\<rparr>"
  using ats_apply_accepted [OF model_ok_init, of 0 demo_words 1000 demo_model] demo_apply
  by (simp_all add: block0 demo_words_def ats_model_init_def ats_block_zero_def ats_consts blit_def)

subsection \<open>Properties\<close>

text \<open>C29 (ats_quality_sound): a value that is not reported as a communication failure was decoded
  from a block that has been read, whose latest read did not fail, and whose last good read is
  not in the future and at most three of its own poll periods old; the raw words and the time
  stamp reported are those of that read, and a good value also has fresh context registers.\<close>
theorem ats_quality_sound:
  assumes "model_ok m" "i < 164" "v_quality (ats_model_decode_all (Some m) now ! i) \<noteq> ATS_QUALITY_COMM"
  shows "fresh m (point_block i) now
    \<and> v_last_good (ats_model_decode_all (Some m) now ! i) = b_last_good (m_blocks m ! point_block i)
    \<and> take (pd_word_count (ats_points ! i)) (v_raw_words (ats_model_decode_all (Some m) now ! i)) = point_raw m i
    \<and> (v_quality (ats_model_decode_all (Some m) now ! i) = ATS_QUALITY_GOOD \<longrightarrow>
        (\<forall>r \<in> set (context_registers (pd_offset (ats_points ! i))). register_good m r now \<noteq> None))"
proof (cases "b_acquired (m_blocks m ! point_block i)")
  case True
  then have "fresh m (point_block i) now"
    using assms(3) block_good_eq [OF point_block(3) [OF assms(2)]]
    by (auto simp: decode_all_nth assms(2) decode_point_acquired split: if_splits)
  then show ?thesis
    using True assms(2) point_start_raw [OF assms(1,2)] qualify_good_context
    by (auto simp: decode_all_nth decode_point_acquired block_good_eq point_block(3) point_decoded_def
        point_start_def)
qed (use assms in \<open>simp add: decode_all_nth decode_point_unacquired\<close>)


text \<open>C30 (ats_apply_then_decode): after an accepted update of a block, every point of the block
  decodes, for as long as three poll periods, with the raw words just written and the time of the
  update, and it is not a communication failure unless a register its applicability depends on is
  stale; no other block is touched.\<close>
theorem ats_apply_then_decode:
  assumes "model_ok m" "i < 164" "b = point_block i" "length ws = sb_count (ats_scan_blocks ! b)"
    and "ats_model_apply_block (Some m) (sb_offset (ats_scan_blocks ! b)) (sb_count (ats_scan_blocks ! b)) (Some ws) now
           = (True, Some m')"
    and "unat now \<le> unat t" "unat t \<le> unat now + 3 * sb_period_ms (ats_scan_blocks ! b)"
  shows "v_last_good (ats_model_decode_all (Some m') t ! i) = now
    \<and> take (pd_word_count (ats_points ! i)) (v_raw_words (ats_model_decode_all (Some m') t ! i))
        = take (pd_word_count (ats_points ! i)) (drop (pd_offset (ats_points ! i) - sb_offset (ats_scan_blocks ! b)) ws)
    \<and> ((\<forall>r \<in> set (context_registers (pd_offset (ats_points ! i))). register_good m' r t \<noteq> None) \<longrightarrow>
        v_quality (ats_model_decode_all (Some m') t ! i) \<noteq> ATS_QUALITY_COMM)
    \<and> (\<forall>c < 23. c \<noteq> b \<longrightarrow> m_blocks m' ! c = m_blocks m ! c)"
proof -
  have b: "b < 23" using assms(2,3) point_block(3) by simp
  note upd = ats_apply_accepted [OF assms(1) b assms(5)]
  have st: "m_blocks m' ! b = (m_blocks m ! b)\<lparr>b_words := blit (b_words (m_blocks m ! b)) ws,
            b_last_good := now, b_acquired := True, b_failed := False\<rparr>"
    using upd(1) assms(1,4) b by (simp add: model_ok_def)
  have "fresh m' (point_block i) t"
    using st assms(3,6,7) by (simp add: fresh_def)
  from fresh_decode [OF upd(2) assms(2) this] show ?thesis
    using st assms(3) upd(1) point_raw_slice [OF assms(2,3,4), of m'] by auto
qed

lemma ats_apply_then_decode_witness:
  "v_last_good (ats_model_decode_all (Some demo_model) 5000 ! 6) = 1000 \<and>
   take 1 (v_raw_words (ats_model_decode_all (Some demo_model) 5000 ! 6)) = [2400]"
  using ats_apply_then_decode [of ats_model_init 6 0 demo_words 1000 demo_model 5000] demo_apply
  by (simp add: model_ok_init point_block_6 row6 block0 demo_words_def)

lemma ats_quality_sound_witness: "fresh demo_model 0 5000"
proof -
  have "fresh demo_model 0 5000" by (simp add: fresh_def demo_facts block0)
  then have "v_quality (ats_model_decode_all (Some demo_model) 5000 ! 6) \<noteq> ATS_QUALITY_COMM"
    using fresh_decode(3) [OF demo_facts(1), of 6 5000] by (simp add: point_block_6 row6 context_registers_def)
  then show ?thesis
    using ats_quality_sound [OF demo_facts(1), of 6 5000] by (simp add: point_block_6)
qed

text \<open>After an accepted failure of a block, every point of the block is
  a communication failure at every later time, and still shows the same number, text, raw words
  and time stamp as before; the other blocks, and the points that depend on none of its registers,
  are unchanged.\<close>
theorem ats_fail_faults_points:
  assumes "model_ok m" "b < 23" "i < 164"
    and "ats_model_fail_block (Some m) (sb_offset (ats_scan_blocks ! b)) (sb_count (ats_scan_blocks ! b)) now
           = (True, Some m')"
  shows "if point_block i = b
    then v_quality (ats_model_decode_all (Some m') t ! i) = ATS_QUALITY_COMM
       \<and> v_numeric (ats_model_decode_all (Some m') t ! i) = v_numeric (ats_model_decode_all (Some m) t ! i)
       \<and> v_text (ats_model_decode_all (Some m') t ! i) = v_text (ats_model_decode_all (Some m) t ! i)
       \<and> v_raw_words (ats_model_decode_all (Some m') t ! i) = v_raw_words (ats_model_decode_all (Some m) t ! i)
       \<and> v_last_good (ats_model_decode_all (Some m') t ! i) = v_last_good (ats_model_decode_all (Some m) t ! i)
    else m_blocks m' ! point_block i = m_blocks m ! point_block i \<and>
       (context_registers (pd_offset (ats_points ! i)) = [] \<longrightarrow>
         ats_model_decode_all (Some m') t ! i = ats_model_decode_all (Some m) t ! i)"
proof -
  note upd = ats_fail_accepted [OF assms(1,2,4)]
  have len: "length (m_blocks m) = 23" using assms(1) by (simp add: model_ok_def)
  show ?thesis
  proof (cases "point_block i = b")
    case True
    then have "m_blocks m' ! point_block i = (m_blocks m ! b)\<lparr>b_failed := True, b_last_failure := now\<rparr>"
      using upd(1) len assms(2) by simp
    then show ?thesis
      using decode_failed_block [OF assms(3), of m' m t] True by (auto simp: decode_all_nth assms(3))
  next
    case False
    then have "m_blocks m' ! point_block i = m_blocks m ! point_block i"
      using upd(1) by simp
    then show ?thesis
      using False decode_same_block [OF assms(3), of m' m t] by (simp add: decode_all_nth assms(3))
  qed
qed

lemma ats_fail_faults_points_witness:
  "\<exists>m'. ats_model_fail_block (Some demo_model) 0 19 2000 = (True, Some m') \<and>
     v_quality (ats_model_decode_all (Some m') 2000 ! 6) = ATS_QUALITY_COMM"
proof -
  have "ats_model_fail_block (Some demo_model) 0 19 2000
      = (True, Some (demo_model\<lparr>m_blocks := (m_blocks demo_model)[0 := (m_blocks demo_model ! 0)\<lparr>b_failed := True, b_last_failure := 2000\<rparr>]\<rparr>))"
    using exact_block_nth [of 0] by (simp add: ats_model_fail_block_def block0 demo_facts)
  with ats_fail_faults_points [OF demo_facts(1), of 0 6 2000 _ 2000] show ?thesis
    by (auto simp: block0 point_block_6)
qed



subsection \<open>Decoded values\<close>

definition field_nat :: "ats_point_def \<Rightarrow> u16 \<Rightarrow> nat" where
  \<comment> \<open>the bit field of a register, over the natural numbers\<close>
  "field_nat d w = (if pd_bit_width d = 0 then unat w else unat w div 2 ^ pd_bit_lsb d mod 2 ^ pd_bit_width d)"

lemma raw_field_unat:
  assumes "pd_bit_width d < 32"
  shows "unat (raw_field d w) = field_nat d w"
proof (cases "pd_bit_width d = 0")
  case False
  have "unat (drop_bit l (ucast w :: u32) AND mask n) = unat w div 2 ^ l mod 2 ^ n" if "n < 32" for l n
  proof -
    have "unat (drop_bit l (ucast w :: u32) AND mask n) = take_bit n (unat (drop_bit l (ucast w :: u32)))"
      using that by (simp add: take_bit_eq_mask [symmetric] unsigned_take_bit_eq)
    also have "unat (drop_bit l (ucast w :: u32)) = unat w div 2 ^ l"
      using unat_lt_u16 [of w] by (simp add: unat_drop_bit_eq drop_bit_eq_div [where 'a = nat])
    finally show ?thesis by (simp add: take_bit_eq_mod)
  qed
  moreover have "raw_field d w = drop_bit (pd_bit_lsb d) (ucast w) AND mask (pd_bit_width d)"
    using False by (simp add: raw_field_def mask_eq_exp_minus_1)
  ultimately show ?thesis
    using False assms by (simp add: field_nat_def)
qed (simp add: raw_field_def field_nat_def)

lemma field_nat_less: "field_nat d w < 65536"
  using unat_lt_u16 [of w] by (auto simp: field_nat_def intro: le_less_trans [OF mod_less_eq_dividend] le_less_trans [OF div_le_dividend])

lemma point_width: "i < 164 \<Longrightarrow> pd_bit_width (ats_points ! i) < 32"
  using point_row_nth [of i] by (simp add: point_row_ok_def)

lemma dbl_small: "n < 2 ^ 53 \<Longrightarrow> dbl_of_int (int n) = Fin (of_nat n)"
  by (simp add: dbl_of_int_exact)

lemma dadd_small: "m + n < 2 ^ 53 \<Longrightarrow> dadd (Fin (of_nat m)) (Fin (of_nat n)) = Fin (of_nat (m + n))"
  using round64_int [of "int (m + n)"] by simp

lemma dmul_small: "m * n < 2 ^ 53 \<Longrightarrow> dmul (Fin (of_nat m)) (Fin (of_nat n)) = Fin (of_nat (m * n))"
  using round64_int [of "int (m * n)"] of_nat_less_iff [of "m * n" "2 ^ 53", where 'a = int] by simp

lemma uint_nat: "uint w = int (unat w)"
  by simp

text \<open>An enumerated point decodes to a state number that exists in its state
  table: the documented value plus one, or the last state, Unknown, and then never as a good value.\<close>
theorem ats_enum_in_range:
  assumes "i < 164" "dc_encoding (point_decoders ! i) = ENC_ENUM"
  shows "(let k = field_nat (ats_points ! i) (ws ! 0); n = pd_state_count (ats_points ! i);
              r = decode_value (ats_points ! i) (point_decoders ! i) ws v in
    v_numeric r = Fin (of_nat (if k < n - 1 then k + 1 else n)) \<and>
    1 \<le> (if k < n - 1 then k + 1 else n) \<and> (if k < n - 1 then k + 1 else n) \<le> n \<and>
    (\<exists>s. pd_state_text (ats_points ! i) = Some s \<and> length s = n) \<and>
    (n - 1 \<le> k \<longrightarrow> v_quality r = ATS_QUALITY_UNVERIFIED))"
proof -
  let ?d = "ats_points ! i"
  let ?k = "field_nat ?d (ws ! 0)"
  obtain s where s: "pd_state_text ?d = Some s" "pd_state_count ?d = length s" "3 \<le> length s" "length s \<le> 5"
    using point_row_nth [OF assms(1)] assms(2) by (auto simp: point_row_ok_def)
  have cmp: "raw_field ?d (ws ! 0) < of_nat (pd_state_count ?d) - 1 \<longleftrightarrow> ?k < pd_state_count ?d - 1"
  proof -
    have "(of_nat (pd_state_count ?d) :: u32) - 1 = of_nat (pd_state_count ?d - 1)"
      using s by (simp add: of_nat_diff)
    then show ?thesis
      using s(2,4) raw_field_unat [OF point_width [OF assms(1)], of "ws ! 0"]
      by (simp add: word_less_nat_alt unat_of_nat_small)
  qed
  have num: "dbl_of_int (uint (raw_field ?d (ws ! 0))) = Fin (of_nat ?k)"
    using field_nat_less [of ?d "ws ! 0"] raw_field_unat [OF point_width [OF assms(1)], of "ws ! 0"]
    unfolding uint_nat by (simp add: dbl_small)
  have "dadd (Fin (of_nat ?k)) (Fin 1) = Fin (of_nat (?k + 1))"
    using dadd_small [of ?k 1] field_nat_less [of ?d "ws ! 0"] by simp
  then show ?thesis
    using s cmp num dbl_small [of "length s"]
    by (auto simp: decode_value_def assms(2) Let_def)
qed


lemma ats_enum_in_range_witness:
  "v_numeric (decode_value (ats_points ! 1) (point_decoders ! 1) [2] ats_value_zero) = Fin 3"
proof -
  have "dc_encoding (point_decoders ! 1) = ENC_ENUM" "pd_bit_width (ats_points ! 1) = 2"
    "pd_bit_lsb (ats_points ! 1) = 0" "pd_state_count (ats_points ! 1) = 5"
    by (simp_all add: ats_points_def ats_point_def.defs point_decoders_def point_decode.defs)
  then show ?thesis
    using ats_enum_in_range [of 1 "[2]" ats_value_zero] by (simp add: field_nat_def)
qed

lemma unat_word_pair: "unat (push_bit 16 (ucast (a :: u16)) OR ucast (b :: u16) :: u32) = unat a * 65536 + unat b"
proof -
  have "push_bit 16 (ucast a) AND ucast b = (0 :: u32)"
    by (rule bit_eqI) (auto simp: bit_simps not_le dest: bit_imp_le_length)
  then have "push_bit 16 (ucast a) OR ucast b = push_bit 16 (ucast a) + (ucast b :: u32)"
    by (simp add: disjunctive_add_eq_or)
  moreover have "unat (push_bit 16 (ucast a) :: u32) = unat a * 65536"
    using unat_lt_u16 [of a] by (simp add: push_bit_eq_mult unat_word_ariths)
  ultimately show ?thesis
    using unat_lt_u16 [of a] unat_lt_u16 [of b] by (simp add: unat_add_small)
qed

lemma tenth_normal:
  assumes "1 \<le> k" "k < 65536"
  shows "(2::rat) powi (- 1022) \<le> \<bar>of_nat k / 10\<bar>" "\<bar>of_nat k / 10\<bar> < (2::rat) powi 1023"
proof -
  have k: "(1::rat) \<le> of_nat k" "(of_nat k :: rat) < 65536"
    using of_nat_mono [OF assms(1), where 'a = rat] assms(2) of_nat_less_iff [of k 65536, where 'a = rat]
    by simp_all
  have "(2::rat) powi (- 1022) \<le> 2 powi (- 4)" "(2::rat) powi 16 \<le> 2 powi 1023"
    by (rule power_int_increasing; simp)+
  moreover have "(2::rat) powi (- 4) = 1 / 16" "(2::rat) powi 16 = 65536"
    by (simp_all add: power_int_minus)
  ultimately show "(2::rat) powi (- 1022) \<le> \<bar>of_nat k / 10\<bar>" "\<bar>of_nat k / 10\<bar> < (2::rat) powi 1023"
    using k by linarith+
qed




subsection \<open>Text points\<close>

text \<open>The Gregorian calendar, independently of the table the code uses.\<close>

definition leap_year :: "nat \<Rightarrow> bool" where
  "leap_year y \<longleftrightarrow> 400 dvd y \<or> (4 dvd y \<and> \<not> 100 dvd y)"

definition days_in_month :: "nat \<Rightarrow> nat \<Rightarrow> nat" where
  "days_in_month y m =
     (if m = 2 then (if leap_year y then 29 else 28) else if m \<in> {4, 6, 9, 11} then 30 else 31)"

definition gregorian :: "nat \<Rightarrow> nat \<Rightarrow> nat \<Rightarrow> bool" where
  "gregorian y m d \<longleftrightarrow> 1 \<le> m \<and> m \<le> 12 \<and> 1 \<le> d \<and> d \<le> days_in_month y m"

definition pack_date :: "nat \<Rightarrow> nat \<Rightarrow> nat \<Rightarrow> nat" where
  "pack_date y m d = (y - 2000) * 512 + m * 32 + d"

definition iso_date :: "nat \<Rightarrow> nat \<Rightarrow> nat \<Rightarrow> string" where
  "iso_date y m d = fmt_0u 4 y @ ''-'' @ fmt_0u 2 m @ ''-'' @ fmt_0u 2 d"

lemma month_days_nth:
  "1 \<le> m \<Longrightarrow> m \<le> 12 \<Longrightarrow> month_days ! (m - 1) = (if m = 2 then 28 else if m \<in> {4, 6, 9, 11} then 30 else 31)"
proof -
  assume m: "1 \<le> m" "m \<le> 12"
  have "\<forall>k \<in> set [0..<12]. month_days ! k =
      (if Suc k = 2 then 28 else if Suc k \<in> {4, 6, 9, 11} then 30 else 31)"
    by (simp add: upt_rec month_days_def)
  from bspec [OF this, of "m - 1"] m show ?thesis by simp
qed

lemma mod_400: "(y :: nat) mod 400 = 0 \<Longrightarrow> y mod 4 = 0"
  using dvd_trans [of 4 400 y] by (simp add: mod_eq_0_iff_dvd)

lemma leap_year_eq: "(y mod 4 = 0 \<and> (y mod 100 \<noteq> 0 \<or> y mod 400 = 0)) = leap_year y"
  using mod_400 [of y] by (auto simp: leap_year_def dvd_eq_mod_eq_0)

lemma packed_fields:
  assumes "m < 16" "d < 32"
  shows "((a::nat) * 512 + m * 32 + d) div 512 = a" "(a * 512 + m * 32 + d) div 32 mod 16 = m"
    "(a * 512 + m * 32 + d) mod 32 = d"
proof -
  have x: "a * 512 + m * 32 + d = d + (a * 16 + m) * 32" by simp
  have y: "(a * 16 + m) mod 16 = m" "(a * 16 + m) div 16 = a" using assms by auto
  have z: "(d + (a * 16 + m) * 32) div 32 = a * 16 + m" using assms by simp
  show "(a * 512 + m * 32 + d) mod 32 = d" unfolding x mod_mult_self1 using assms by simp
  show "(a * 512 + m * 32 + d) div 32 mod 16 = m" unfolding x z by (rule y)
  have "(a * 512 + m * 32 + d) div 512 = (a * 512 + m * 32 + d) div 32 div 16"
    by (simp add: div_mult2_eq [symmetric])
  then show "(a * 512 + m * 32 + d) div 512 = a" unfolding x z y .
qed

lemma calendar_date_eq:
  "calendar_date w =
     (let y = 2000 + unat w div 512; m = unat w div 32 mod 16; d = unat w mod 32 in (gregorian y m d, y, m, d))"
proof -
  have w: "unat (drop_bit 9 w) = unat w div 512" "unat (drop_bit 5 w AND 15) = unat w div 32 mod 16"
    "unat (w AND 31) = unat w mod 32"
    using unat_and_mask [of 4 "drop_bit 5 w"] unat_and_mask [of 5 w]
    by (simp_all add: unat_drop_bit_eq drop_bit_eq_div [where 'a = nat] mask_eq_exp_minus_1)
  let ?m = "unat w div 32 mod 16" and ?y = "2000 + unat w div 512"
  have "(let limit = month_days ! (?m - 1) in
      if ?m = 2 \<and> ?y mod 4 = 0 \<and> (?y mod 100 \<noteq> 0 \<or> ?y mod 400 = 0) then limit + 1 else limit) = days_in_month ?y ?m"
    if "1 \<le> ?m" "?m \<le> 12"
    using month_days_nth [OF that] unfolding leap_year_eq by (simp add: days_in_month_def)
  then show ?thesis
    unfolding calendar_date_def Let_def w by (simp add: gregorian_def)
qed

lemma ucast_raw_field:
  assumes "pd_bit_width d = 0"
  shows "(ucast (raw_field d w) :: u16) = w"
  using assms by (simp add: raw_field_def) (rule bit_word_eqI, simp add: bit_simps)

lemma NUL_fmt [simp]: "NUL \<notin> set (fmt_0u n k)" "NUL \<notin> set (fmt_u k)"
  by (simp_all add: digits_no_NUL digits_fmt_u digits_fmt_0u)

lemma NUL_minus [simp]: "NUL \<noteq> CHR ''-''" "NUL \<noteq> CHR '':''" "NUL \<noteq> CHR ''.''"
  by (simp_all add: NUL_def)

lemma iso_date_length:
  assumes "gregorian y m d" "y < 10000"
  shows "length (iso_date y m d) = 10" "NUL \<notin> set (iso_date y m d)"
    "dec_value (take 4 (iso_date y m d)) = y" "dec_value (take 2 (drop 5 (iso_date y m d))) = m"
    "dec_value (drop 8 (iso_date y m d)) = d"
proof -
  have "d < 100" "m < 100"
    using assms by (auto simp: gregorian_def days_in_month_def split: if_splits)
  with assms(2) have "length (fmt_0u 4 y) = 4" "length (fmt_0u 2 m) = 2" "length (fmt_0u 2 d) = 2"
    by (simp_all add: length_fmt_0u)
  then show "length (iso_date y m d) = 10" "NUL \<notin> set (iso_date y m d)"
    "dec_value (take 4 (iso_date y m d)) = y" "dec_value (take 2 (drop 5 (iso_date y m d))) = m"
    "dec_value (drop 8 (iso_date y m d)) = d"
    by (auto simp: iso_date_def NUL_minus)
qed

text \<open>The ASCII loop against its specification.\<close>

definition text_bytes :: "u16 list \<Rightarrow> nat \<Rightarrow> nat list" where
  \<comment> \<open>the bytes of \<open>n\<close> registers, low byte first\<close>
  "text_bytes ws n = concat (map (\<lambda>w. [unat w mod 256, unat w div 256]) (take n ws))"

definition visible :: "nat \<Rightarrow> bool" where
  "visible c \<longleftrightarrow> 32 \<le> c \<and> c \<le> 126"

definition visible_char :: "nat \<Rightarrow> char" where
  "visible_char c = (if visible c then char_of c else CHR ''?'')"

definition ascii_byte :: "u16 list \<Rightarrow> nat \<Rightarrow> nat" where
  "ascii_byte ws i = unat (drop_bit ((i mod 2) * 8) (ws ! (i div 2)) AND 255)"

lemma ascii_loop_spec:
  assumes "n + length is < length t"
  shows "ascii_loop ws is n t p =
     (let bs = takeWhile (\<lambda>c. c \<noteq> 0) (map (ascii_byte ws) is) in
      (n + length bs, take n t @ map visible_char bs @ drop (n + length bs) t, p \<and> list_all visible bs))"
  using assms
proof (induction "is" arbitrary: n t p)
  case (Cons i "is")
  have c: "unat (drop_bit ((i mod 2) * 8) (ws ! (i div 2)) AND 255) = ascii_byte ws i"
    by (simp add: ascii_byte_def)
  show ?case
  proof (cases "ascii_byte ws i = 0")
    case False
    have "take (Suc n) (t[n := x]) = take n t @ [x]" for x
      using Cons.prems by (simp add: take_Suc_conv_app_nth)
    then show ?thesis
      using False Cons.prems Cons.IH [of "Suc n"]
      by (auto simp: c Let_def visible_def visible_char_def not_less not_le)
  qed (simp add: c)
qed simp

lemma ascii_bytes:
  assumes "n \<le> length ws"
  shows "map (ascii_byte ws) [0..<n * 2] = text_bytes ws n"
  using assms
proof (induction n)
  case (Suc n)
  have "[0..<Suc n * 2] = [0..<n * 2] @ [n * 2, Suc (n * 2)]" by simp
  moreover have odd: "Suc (n * 2) mod 2 = 1" "Suc (n * 2) div 2 = n" by presburger+
  moreover have "ascii_byte ws (n * 2) = unat (ws ! n) mod 256" "ascii_byte ws (Suc (n * 2)) = unat (ws ! n) div 256"
    using unat_and_mask [of 8 "ws ! n"] unat_and_mask [of 8 "drop_bit 8 (ws ! n)"] unat_lt_u16 [of "ws ! n"]
    by (simp_all add: ascii_byte_def odd mask_eq_exp_minus_1 unat_drop_bit_eq drop_bit_eq_div [where 'a = nat])
  moreover have "take (Suc n) ws = take n ws @ [ws ! n]"
    using Suc.prems by (simp add: take_Suc_conv_app_nth)
  ultimately show ?case
    using Suc by (simp only: map_append text_bytes_def) simp
qed (simp add: text_bytes_def)

text \<open>A text point decodes to the bytes of its registers, low byte first, up to
  the first NUL, with every byte that is not printable shown as a question mark and the point then
  marked unverified; the text always fits and is terminated.\<close>
theorem ats_ascii_text:
  assumes "dc_encoding c = ENC_ASCII" "length (v_text v) = 80"
    "pd_word_count def \<le> length ws" "pd_word_count def \<le> 10"
  shows "cstr (v_text (decode_value def c ws v)) = map visible_char (takeWhile (\<lambda>b. b \<noteq> 0) (text_bytes ws (pd_word_count def)))
    \<and> length (v_text (decode_value def c ws v)) = 80
    \<and> v_quality (decode_value def c ws v) =
        (if list_all visible (takeWhile (\<lambda>b. b \<noteq> 0) (text_bytes ws (pd_word_count def))) then v_quality v
         else ATS_QUALITY_UNVERIFIED)"
proof -
  let ?bs = "takeWhile (\<lambda>b. b \<noteq> 0) (text_bytes ws (pd_word_count def))"
  have bytes: "takeWhile (\<lambda>c. c \<noteq> 0) (map (ascii_byte ws) [0..<pd_word_count def * 2]) = ?bs"
    using assms(3) by (simp add: ascii_bytes)
  have len: "length ?bs \<le> 20"
    using arg_cong [OF ascii_bytes [OF assms(3)], of length] assms(4)
      length_takeWhile_le [of "\<lambda>b. b \<noteq> 0" "text_bytes ws (pd_word_count def)"] by simp
  have loop: "ascii_loop ws [0..<pd_word_count def * 2] 0 (v_text v) True
      = (length ?bs, map visible_char ?bs @ drop (length ?bs) (v_text v), list_all visible ?bs)"
    using ascii_loop_spec [of 0 "[0..<pd_word_count def * 2]" "v_text v" ws True] assms(2,4) bytes
    by (simp add: Let_def)
  have vis: "visible_char b \<noteq> NUL" for b
  proof
    assume "visible_char b = NUL"
    then have "of_char (visible_char b) = (0 :: nat)" by (simp add: NUL_def)
    then show False by (auto simp: visible_char_def visible_def split: if_splits)
  qed
  then have "NUL \<notin> set (map visible_char ?bs)" by (metis ex_map_conv)
  moreover have "(map visible_char ?bs @ drop (length ?bs) (v_text v))[length ?bs := NUL]
      = map visible_char ?bs @ NUL # drop (Suc (length ?bs)) (v_text v)"
    using len assms(2) by (simp add: list_update_append upd_conv_take_nth_drop)
  ultimately show ?thesis
    using len assms(2)
    by (simp add: decode_value_def assms(1) Let_def loop cstr_append_NUL)
qed

lemma ats_ascii_text_witness:
  "cstr (v_text (decode_value (ats_points ! 6) \<lparr>dc_encoding = ENC_ASCII, dc_numerator = 1, dc_denominator = 1\<rparr>
     [0x0041] ats_value_zero)) = [visible_char 65]"
  using ats_ascii_text [of "\<lparr>dc_encoding = ENC_ASCII, dc_numerator = 1, dc_denominator = 1\<rparr>" ats_value_zero
      "ats_points ! 6" "[0x0041]"]
  by (simp add: row6 ats_value_zero_def ats_consts text_bytes_def)

text \<open>A packed date register holding a day of the Gregorian calendar of
  2000..2127 decodes to the ten-character ISO text whose three decimal fields read back as that
  year, month and day, and its quality is kept; every other register is reported as unverified.\<close>
theorem ats_date_roundtrip:
  assumes "dc_encoding c = ENC_DATE" "pd_bit_width def = 0" "length (v_text v) = 80"
  shows "if (\<exists>y m d. gregorian y m d \<and> 2000 \<le> y \<and> y \<le> 2127 \<and> unat (ws ! 0) = pack_date y m d)
    then (\<exists>y m d. gregorian y m d \<and> unat (ws ! 0) = pack_date y m d \<and>
        length (cstr (v_text (decode_value def c ws v))) = 10 \<and>
        dec_value (take 4 (cstr (v_text (decode_value def c ws v)))) = y \<and>
        dec_value (take 2 (drop 5 (cstr (v_text (decode_value def c ws v))))) = m \<and>
        dec_value (drop 8 (cstr (v_text (decode_value def c ws v)))) = d) \<and>
        v_quality (decode_value def c ws v) = v_quality v
    else v_quality (decode_value def c ws v) = ATS_QUALITY_UNVERIFIED"
proof -
  let ?w = "ws ! 0"
  define y m d where "y = 2000 + unat ?w div 512" and "m = unat ?w div 32 mod 16" and "d = unat ?w mod 32"
  have cal: "calendar_date (ucast (raw_field def ?w)) = (gregorian y m d, y, m, d)"
    by (simp add: ucast_raw_field assms(2) calendar_date_eq Let_def y_def m_def d_def)
  have pack: "unat ?w = pack_date y m d"
  proof -
    have split: "(a::nat) * 512 + b * 32 + c = (a * 16 + b) * 32 + c" for a b c by simp
    have "unat ?w div 512 = unat ?w div 32 div 16"
      by (simp add: div_mult2_eq [symmetric])
    then show ?thesis
      unfolding pack_date_def y_def m_def d_def add_diff_cancel_left' split
      by (simp only: div_mult_mod_eq)
  qed
  have y: "2000 \<le> y" "y \<le> 2127"
    using unat_lt_u16 [of ?w] by (simp_all add: y_def)
  have uniq: "y' = y \<and> m' = m \<and> d' = d"
    if "gregorian y' m' d'" "2000 \<le> y'" "unat ?w = pack_date y' m' d'" for y' m' d'
  proof -
    have "m' < 16" "d' < 32" using that(1) by (auto simp: gregorian_def days_in_month_def split: if_splits)
    from packed_fields [OF this, of "y' - 2000"] that(2,3) show ?thesis
      by (simp add: pack_date_def y_def m_def d_def)
  qed
  show ?thesis
  proof (cases "gregorian y m d")
    case True
    have "cstr (put_cstr (v_text v) (iso_date y m d)) = iso_date y m d"
      using iso_date_length [OF True] y assms(3) by (simp add: cstr_put_cstr)
    then have "cstr (v_text (decode_value def c ws v)) = iso_date y m d"
      "v_quality (decode_value def c ws v) = v_quality v"
      using True by (simp_all add: decode_value_def assms(1) Let_def cal iso_date_def)
    then show ?thesis
      using True pack y iso_date_length [OF True] by auto
  next
    case False
    have "v_quality (decode_value def c ws v) = ATS_QUALITY_UNVERIFIED"
      using False by (simp add: decode_value_def assms(1) Let_def cal)
    moreover have "\<not> (\<exists>y m d. gregorian y m d \<and> 2000 \<le> y \<and> y \<le> 2127 \<and> unat ?w = pack_date y m d)"
      using False uniq by blast
    ultimately show ?thesis by (simp only: if_False)
  qed
qed

lemma ats_date_roundtrip_witness:
  "length (v_text ats_value_zero) = 80 \<and>
   v_quality (decode_value (ats_points ! 6) \<lparr>dc_encoding = ENC_DATE, dc_numerator = 1, dc_denominator = 1\<rparr>
     [0x3059] ats_value_zero) = ATS_QUALITY_GOOD"
proof -
  have "gregorian 2024 2 25 \<and> 2000 \<le> (2024::nat) \<and> 2024 \<le> (2127::nat) \<and> unat ([0x3059 :: u16] ! 0) = pack_date 2024 2 25"
    by (simp add: gregorian_def days_in_month_def pack_date_def)
  then have "\<exists>y m d. gregorian y m d \<and> 2000 \<le> y \<and> y \<le> 2127 \<and> unat ([0x3059 :: u16] ! 0) = pack_date y m d"
    by blast
  with ats_date_roundtrip [of "\<lparr>dc_encoding = ENC_DATE, dc_numerator = 1, dc_denominator = 1\<rparr>" "ats_points ! 6"
      ats_value_zero "[0x3059]"]
  show ?thesis
    by (simp only: if_True) (simp add: row6 ats_value_zero_def ats_consts)
qed

end
