(* ===== verification/Custom_Map.thy ===== *)
theory Custom_Map
  imports Custom_Csv Ats_Model
begin

section \<open>The custom register map (main/custom_map.c, main/custom_map.h)\<close>

text \<open>
  The map an installer uploads as CSV: up to 128 points with their data types, and the arena that
  holds their strings. Pointers into the arena are pairs of the object they point into and the
  index there, so that the rebasing of the parsed map is visible: \<open>custom_map_parse\<close> fills a scratch
  object and then moves every pointer to the caller's. The arena \<open>strings[32769]\<close> and the array
  \<open>state_text[512]\<close> are the lists of their used prefixes (\<open>strings_used\<close> and \<open>states_used\<close> are the
  lengths); \<open>defs\<close> and \<open>points\<close> are the lists of the first \<open>count\<close> entries.
\<close>

definition CUSTOM_MAX_POINTS :: nat where "CUSTOM_MAX_POINTS = 128"
definition CUSTOM_MAX_CSV_BYTES :: nat where "CUSTOM_MAX_CSV_BYTES = 32768"
definition CUSTOM_MAX_STATES :: nat where "CUSTOM_MAX_STATES = 16"
definition CUSTOM_MAX_TOTAL_STATES :: nat where "CUSTOM_MAX_TOTAL_STATES = 512"

definition CUSTOM_CSV_HEADER :: string where
  "CUSTOM_CSV_HEADER = ''instance,name,object_type,function,address,data_type,byte_order,scale,offset,units,bit,states,length,poll_ms,description''"

subsection \<open>Data\<close>

datatype custom_data_type =
    CUSTOM_U16 | CUSTOM_S16 | CUSTOM_U32 | CUSTOM_S32 | CUSTOM_F32
  | CUSTOM_BIT | CUSTOM_ASCII | CUSTOM_BOOL

text \<open>The code compares the enumerators as the integers they are.\<close>

primrec data_type_code :: "custom_data_type \<Rightarrow> nat" where
  "data_type_code CUSTOM_U16 = 0"
| "data_type_code CUSTOM_S16 = 1"
| "data_type_code CUSTOM_U32 = 2"
| "data_type_code CUSTOM_S32 = 3"
| "data_type_code CUSTOM_F32 = 4"
| "data_type_code CUSTOM_BIT = 5"
| "data_type_code CUSTOM_ASCII = 6"
| "data_type_code CUSTOM_BOOL = 7"

lemma data_type_code_inject: "data_type_code a = data_type_code b \<longleftrightarrow> a = b"
  by (cases a; cases b) simp_all

instantiation custom_data_type :: linorder
begin

definition less_eq_custom_data_type :: "custom_data_type \<Rightarrow> custom_data_type \<Rightarrow> bool" where
  "less_eq_custom_data_type a b \<longleftrightarrow> data_type_code a \<le> data_type_code b"

definition less_custom_data_type :: "custom_data_type \<Rightarrow> custom_data_type \<Rightarrow> bool" where
  "less_custom_data_type a b \<longleftrightarrow> data_type_code a < data_type_code b"

instance
  by standard (auto simp: less_eq_custom_data_type_def less_custom_data_type_def data_type_code_inject)

end

lemmas data_type_order = less_eq_custom_data_type_def less_custom_data_type_def

type_synonym ptr = "nat \<times> nat"

record custom_def =
  cd_object_type :: u16
  cd_instance :: u32
  cd_name :: ptr
  cd_description :: ptr
  cd_units :: u16
  cd_state_count :: nat          \<comment> \<open>at most 16\<close>
  cd_state_text :: "ptr option"  \<comment> \<open>into the array \<open>state_text\<close>\<close>
  cd_offset :: u16
  cd_word_count :: u8
  cd_bit_lsb :: u8
  cd_bit_width :: u8

record custom_point =
  cp_data_type :: custom_data_type
  cp_function :: u8
  cp_order :: u8
  cp_length :: u8
  cp_poll_ms :: u32
  cp_scale :: dbl
  cp_offset :: dbl

record custom_map =
  cm_self :: nat                 \<comment> \<open>the identity of this object\<close>
  cm_defs :: "custom_def list"
  cm_points :: "custom_point list"
  cm_strings :: string
  cm_states :: "ptr list"

definition custom_map_zero :: "nat \<Rightarrow> custom_map" where
  \<comment> \<open>a zeroed object\<close>
  "custom_map_zero self = \<lparr>cm_self = self, cm_defs = [], cm_points = [], cm_strings = [], cm_states = []\<rparr>"

definition str_at :: "custom_map \<Rightarrow> ptr \<Rightarrow> string" where
  \<comment> \<open>the C string a pointer into this object's arena designates\<close>
  "str_at m p = cstr (drop (snd p) (cm_strings m))"

definition save_string :: "custom_map \<Rightarrow> string \<Rightarrow> (custom_map \<times> ptr) option" where
  "save_string m s =
     (let n = length s + 1; used = length (cm_strings m) in
      if n > CUSTOM_MAX_CSV_BYTES + 1 - used then None
      else Some (m\<lparr>cm_strings := cm_strings m @ s @ [NUL]\<rparr>, (cm_self m, used)))"

subsection \<open>One row\<close>

text \<open>
  \<open>add_row\<close> in the order of its checks; \<open>Inl\<close> is \<open>REJECT\<close> with its reason. A rejected row ends the
  parse and the scratch object is dropped, so what it wrote by then is not part of the result.
\<close>

definition object_types :: "(string \<times> u16) list" where
  "object_types = [(''AI'', 0), (''BI'', 3), (''MSI'', 13), (''CSV'', 40)]"

definition data_types :: "(string \<times> custom_data_type) list" where
  "data_types = [(''u16'', CUSTOM_U16), (''s16'', CUSTOM_S16), (''u32'', CUSTOM_U32), (''s32'', CUSTOM_S32),
     (''f32'', CUSTOM_F32), (''bit'', CUSTOM_BIT), (''ascii'', CUSTOM_ASCII), (''bool'', CUSTOM_BOOL)]"

definition row_object :: "custom_map \<Rightarrow> string list \<Rightarrow> string + u32 \<times> u16" where
  "row_object m row =
     (if length (cm_defs m) = CUSTOM_MAX_POINTS then Inl ''Maximum 128 points exceeded''
      else case integer (row ! 0) 1 4194302 of
        None \<Rightarrow> Inl ''Invalid/reserved instance''
      | Some inst \<Rightarrow>
        if inst \<ge> 9001 \<and> inst \<le> 9004 then Inl ''Invalid/reserved instance''
        else if row ! 1 = [] \<or> length (row ! 1) > 63 \<or> take 8 (row ! 1) = ''Gateway-''
        then Inl ''Name must be 1..63 characters and not start Gateway-''
        else if length (row ! 14) > 127 then Inl ''Description exceeds 127 characters''
        else case map_of object_types (row ! 2) of
          None \<Rightarrow> Inl ''object_type must be AI, BI, MSI or CSV''
        | Some ot \<Rightarrow>
          (case find (\<lambda>d. str_at m (cd_name d) = row ! 1 \<or> (cd_object_type d = ot \<and> cd_instance d = inst)) (cm_defs m) of
             Some d \<Rightarrow> Inl (if str_at m (cd_name d) = row ! 1 then ''Duplicate point name''
                           else ''Duplicate BACnet object identifier'')
           | None \<Rightarrow> Inr (inst, ot)))"

definition row_source :: "u16 \<Rightarrow> string list \<Rightarrow> string + u8 \<times> u16 \<times> custom_data_type" where
  "row_source ot row =
     (case integer (row ! 3) 1 4 of
        None \<Rightarrow> Inl ''Only read functions 1..4 allowed''
      | Some fn \<Rightarrow>
     case integer (row ! 4) 0 65535 of
        None \<Rightarrow> Inl ''Address must be zero-based 0..65535''
      | Some addr \<Rightarrow>
     case map_of data_types (row ! 5) of
        None \<Rightarrow> Inl ''Unknown data_type''
      | Some kind \<Rightarrow>
        if fn \<le> 2 \<and> (kind \<noteq> CUSTOM_BOOL \<or> ot \<noteq> 3) then Inl ''FC1/2 require BI bool''
        else if fn \<ge> 3 \<and> kind = CUSTOM_BOOL then Inl ''bool requires FC1/2; use bit for a register''
        else if (ot = 40) \<noteq> (kind = CUSTOM_ASCII) then Inl ''CSV objects require ascii and vice versa''
        else if ot = 3 \<and> kind \<noteq> CUSTOM_BIT \<and> kind \<noteq> CUSTOM_BOOL then Inl ''BI requires bit or bool''
        else if ot = 13 \<and> kind > CUSTOM_S32 then Inl ''MSI requires an integer data_type''
        else if ot = 0 \<and> kind > CUSTOM_F32 then Inl ''AI requires a numeric data_type''
        else Inr (ucast fn, ucast addr, kind))"

definition row_scaling :: "u16 \<Rightarrow> custom_data_type \<Rightarrow> string list \<Rightarrow> string + dbl \<times> dbl \<times> u16" where
  "row_scaling ot kind row =
     (case number (row ! 7) (Fin 1) of
        None \<Rightarrow> Inl ''Scale/offset must be finite numbers''
      | Some scale \<Rightarrow>
     case number (row ! 8) (Fin 0) of
        None \<Rightarrow> Inl ''Scale/offset must be finite numbers''
      | Some off \<Rightarrow>
        if (kind = CUSTOM_BIT \<or> kind = CUSTOM_BOOL \<or> kind = CUSTOM_ASCII) \<and> (\<not> deq scale (Fin 1) \<or> \<not> deq off (Fin 0))
        then Inl ''Bit/bool/ascii require scale=1 and offset=0''
        else case (if row ! 9 \<noteq> [] then map_option ucast (integer (row ! 9) 0 65535) else Some 95) of
          None \<Rightarrow> Inl ''Units must be a BACnet units enumeration''
        | Some units \<Rightarrow>
          if ot \<noteq> 0 \<and> units \<noteq> 95 then Inl ''Only AI can have engineering units''
          else Inr (scale, off, units))"

definition row_extent :: "custom_data_type \<Rightarrow> u16 \<Rightarrow> string list \<Rightarrow> string + u8 \<times> u8 \<times> u8 \<times> u8" where
  \<comment> \<open>\<open>bit_lsb\<close>, \<open>bit_width\<close>, \<open>length\<close>, \<open>word_count\<close>\<close>
  "row_extent kind addr row =
     (case (if kind = CUSTOM_BIT
            then (case integer (row ! 10) 0 15 of None \<Rightarrow> Inl ''bit must be 0..15'' | Some v \<Rightarrow> Inr (ucast v, 1))
            else if row ! 10 \<noteq> [] then Inl ''bit field is valid only for bit data_type'' else Inr (0, 0)) of
        Inl why \<Rightarrow> Inl why
      | Inr (lsb, width) \<Rightarrow>
     case (if kind = CUSTOM_ASCII
            then (case integer (row ! 12) 1 (of_nat ATS_MAX_POINT_WORDS * 2) of
                    None \<Rightarrow> Inl ''ASCII length must be 1..20 characters''
                  | Some v \<Rightarrow> Inr (ucast v, ucast ((v + 1) div 2)))
            else if row ! 12 \<noteq> [] then Inl ''length field is valid only for ascii''
            else Inr (0, if kind \<ge> CUSTOM_U32 \<and> kind \<le> CUSTOM_F32 then 2 else 1)) of
        Inl why \<Rightarrow> Inl why
      | Inr (len, wc) \<Rightarrow>
        if ucast (wc :: u8) + ucast addr > (65536 :: u32) then Inl ''Point extends past address 65535''
        else Inr (lsb, width, len, wc))"

definition row_order :: "custom_data_type \<Rightarrow> string list \<Rightarrow> string + u8" where
  "row_order kind row =
     (if kind = CUSTOM_BOOL then
        (if row ! 6 \<noteq> [] then Inl ''bool byte_order must be empty'' else Inr 0)
      else if kind \<ge> CUSTOM_U32 \<and> kind \<le> CUSTOM_F32 then
        (case map_of [(''ABCD'', 0), (''BADC'', 1), (''CDAB'', 2), (''DCBA'', 3)] (row ! 6) of
           None \<Rightarrow> Inl ''32-bit byte_order must be ABCD, BADC, CDAB or DCBA''
         | Some order \<Rightarrow> Inr order)
      else
        (case map_of [(''AB'', 0), (''BA'', 1)] (row ! 6) of
           None \<Rightarrow> Inl ''16-bit/ascii byte_order must be AB or BA''
         | Some order \<Rightarrow> Inr order))"

text \<open>The state labels of a multi-state point: \<open>base\<close> is the index of \<open>d->state_text\<close>.\<close>

definition PIPE :: char where "PIPE = CHR ''|''"

function state_loop :: "custom_map \<Rightarrow> nat \<Rightarrow> nat \<Rightarrow> string \<Rightarrow> string + custom_map \<times> nat" where
  "state_loop m base state_count start =
     (let label = takeWhile (\<lambda>c. c \<noteq> PIPE) start; rest = dropWhile (\<lambda>c. c \<noteq> PIPE) start in
      if label = [] \<or> length label > 63 \<or> state_count = CUSTOM_MAX_STATES \<or> length (cm_states m) = CUSTOM_MAX_TOTAL_STATES
      then Inl ''Invalid state label/count; max16 per point,512 total''
      else if list_ex (\<lambda>previous. str_at m (cm_states m ! (base + previous)) = label) [0..<state_count]
      then Inl ''Duplicate MSI state label''
      else case save_string m label of
        None \<Rightarrow> Inl ''String storage limit exceeded''
      | Some (m', p) \<Rightarrow>
        (let m'' = m'\<lparr>cm_states := cm_states m' @ [p]\<rparr> in
         if rest = [] then Inr (m'', state_count + 1)
         else state_loop m'' base (state_count + 1) (tl rest)))"
  by pat_completeness auto
termination
proof (relation "measure (\<lambda>(m, base, state_count, start). length start)", goal_cases)
  case (2 m base state_count start label rest x m' p m'')
  have "length rest \<le> length start" using 2(2) by (simp add: length_dropWhile_le)
  with \<open>rest \<noteq> []\<close> show ?case by (cases rest) simp_all
qed simp

declare state_loop.simps [simp del]

definition row_states :: "custom_map \<Rightarrow> u16 \<Rightarrow> string list \<Rightarrow> string + custom_map \<times> ptr option \<times> nat" where
  "row_states m ot row =
     (if ot = 13 then
        (if row ! 11 = [] then Inl ''MSI states must contain 1..16 pipe-separated labels''
         else case state_loop m (length (cm_states m)) 0 (row ! 11) of
                Inl why \<Rightarrow> Inl why
              | Inr (m', n) \<Rightarrow> Inr (m', Some (cm_self m, length (cm_states m)), n))
      else if row ! 11 \<noteq> [] then Inl ''states field is valid only for MSI''
      else Inr (m, None, 0))"

definition save_names :: "custom_map \<Rightarrow> string list \<Rightarrow> string + custom_map \<times> ptr \<times> ptr" where
  "save_names m row =
     (case save_string m (row ! 1) of
        None \<Rightarrow> Inl ''String storage limit exceeded''
      | Some (m', name) \<Rightarrow>
          (case save_string m' (row ! 14) of
             None \<Rightarrow> Inl ''String storage limit exceeded''
           | Some (m'', description) \<Rightarrow> Inr (m'', name, description)))"

definition add_row :: "custom_map \<Rightarrow> string list \<Rightarrow> string + custom_map" where
  "add_row m row =
     (case row_object m row of Inl why \<Rightarrow> Inl why | Inr (inst, ot) \<Rightarrow>
      case row_source ot row of Inl why \<Rightarrow> Inl why | Inr (fn, addr, kind) \<Rightarrow>
      case row_scaling ot kind row of Inl why \<Rightarrow> Inl why | Inr (scale, off, units) \<Rightarrow>
      case row_extent kind addr row of Inl why \<Rightarrow> Inl why | Inr (lsb, width, len, wc) \<Rightarrow>
      case row_order kind row of Inl why \<Rightarrow> Inl why | Inr order \<Rightarrow>
      case integer (row ! 13) 1000 3600000 of None \<Rightarrow> Inl ''poll_ms must be 1000..3600000'' | Some poll \<Rightarrow>
      case save_names m row of Inl why \<Rightarrow> Inl why | Inr (m', name, description) \<Rightarrow>
      case row_states m' ot row of Inl why \<Rightarrow> Inl why | Inr (m'', state_text, state_count) \<Rightarrow>
        Inr (m''\<lparr>cm_defs := cm_defs m'' @ [\<lparr>cd_object_type = ot, cd_instance = inst, cd_name = name,
                   cd_description = description, cd_units = units, cd_state_count = state_count,
                   cd_state_text = state_text, cd_offset = addr, cd_word_count = wc, cd_bit_lsb = lsb,
                   cd_bit_width = width\<rparr>],
                 cm_points := cm_points m'' @ [\<lparr>cp_data_type = kind, cp_function = fn, cp_order = order,
                   cp_length = len, cp_poll_ms = poll, cp_scale = scale, cp_offset = off\<rparr>]\<rparr>))"


subsection \<open>The whole text\<close>

lemma row_text_length: "row_text fs t \<Longrightarrow> length fs \<le> length t + 1"
  by (induction fs t rule: row_text.induct) (auto, meson trans_le_add2)

lemma read_row_progress:
  assumes "read_row csv pos = Some (Some (fs, p))" "pos \<le> length csv"
  shows "pos < p" "p \<le> length csv" "length fs = FIELD_COUNT"
proof -
  have "read_fields (Suc (FIELD_COUNT - 1)) csv pos = Some (Some (fs, p))"
    using assms(1) by (simp add: read_row_def FIELD_COUNT_def)
  from read_fields_sound [OF this assms(2)] obtain t e where
    t: "length fs = FIELD_COUNT" "row_text fs t" "drop pos csv = t @ e @ drop p csv" "p = pos + length (t @ e)"
    by (auto simp: FIELD_COUNT_def)
  then show "length fs = FIELD_COUNT" by simp
  show "pos < p" using row_text_length [OF t(2)] t(1,4) by (cases t) (simp_all add: FIELD_COUNT_def)
  show "p \<le> length csv"
    by (rule drop_step [of pos csv "t @ e" p]) (use t assms(2) in simp_all)
qed

lemma read_row_never_fault [simp]: "read_row csv pos \<noteq> None"
  unfolding read_row_def by (rule read_fields_never_fault)

definition syntax_why :: string where
  "syntax_why = ''Invalid CSV syntax, field size or non-ASCII text''"

function parse_rows :: "custom_map \<Rightarrow> string \<Rightarrow> nat \<Rightarrow> nat \<Rightarrow> (nat \<times> string + nat \<times> custom_map) option" where
  "parse_rows scratch csv pos line =
     (if pos < length csv then
        (case read_row csv pos of
           None \<Rightarrow> None
         | Some None \<Rightarrow> Some (Inl (line + 1, syntax_why))
         | Some (Some (row, p)) \<Rightarrow>
             (case add_row scratch row of
                Inl why \<Rightarrow> Some (Inl (line + 1, why))
              | Inr m \<Rightarrow> parse_rows m csv p (line + 1)))
      else Some (Inr (line, scratch)))"
  by pat_completeness auto
termination
  by (relation "measure (\<lambda>(m, csv, pos, line). length csv - pos)") (auto dest: read_row_progress)

declare parse_rows.simps [simp del]

definition header_ok :: "string \<Rightarrow> bool" where
  "header_ok csv \<longleftrightarrow>
     \<not> (length csv < length CUSTOM_CSV_HEADER \<or> take (length CUSTOM_CSV_HEADER) csv \<noteq> CUSTOM_CSV_HEADER \<or>
        (length csv > length CUSTOM_CSV_HEADER \<and> csv ! length CUSTOM_CSV_HEADER \<noteq> CR \<and>
         csv ! length CUSTOM_CSV_HEADER \<noteq> LF))"

definition rebase_ptr :: "nat \<Rightarrow> ptr \<Rightarrow> ptr" where
  "rebase_ptr self p = (self, snd p)"

definition rebase :: "nat \<Rightarrow> custom_map \<Rightarrow> custom_map" where
  "rebase self m =
     m\<lparr>cm_self := self,
       cm_defs := map (\<lambda>d. d\<lparr>cd_name := rebase_ptr self (cd_name d), cd_description := rebase_ptr self (cd_description d),
                            cd_state_text := map_option (rebase_ptr self) (cd_state_text d)\<rparr>) (cm_defs m),
       cm_states := map (rebase_ptr self) (cm_states m)\<rparr>"

text \<open>What the parse finds: the map for the caller's object, or a line and a reason. The scratch object
  and the row buffer may not be available.\<close>

definition parse_scratch :: "nat \<Rightarrow> nat option \<Rightarrow> string \<Rightarrow> (nat \<times> string + custom_map) option" where
  "parse_scratch self scratch csv =
     (case scratch of
        None \<Rightarrow> Some (Inl (1, ''Insufficient memory''))
      | Some object \<Rightarrow>
          if \<not> header_ok csv then Some (Inl (1, ''Header must match documented 15 columns exactly''))
          else case read_row csv 0 of
                 None \<Rightarrow> None
               | Some None \<Rightarrow> Some (Inl (1, syntax_why))
               | Some (Some (_, p)) \<Rightarrow>
                   (case parse_rows (custom_map_zero object) csv p 1 of
                      None \<Rightarrow> None
                    | Some (Inl e) \<Rightarrow> Some (Inl e)
                    | Some (Inr (line, m)) \<Rightarrow>
                        if cm_defs m = [] then Some (Inl (line, ''At least one point is required''))
                        else Some (Inr (rebase self m))))"

text \<open>\<open>fail\<close> writes the reason into the caller's buffer; an absent buffer is the empty list.\<close>

definition fail_text :: "string \<Rightarrow> nat \<Rightarrow> string \<Rightarrow> string" where
  "fail_text buf line why = (if buf = [] then [] else put_cstr buf (''Line '' @ fmt_u line @ '': '' @ why))"

definition custom_map_parse ::
    "custom_map option \<Rightarrow> nat option \<Rightarrow> string option \<Rightarrow> string \<Rightarrow> (bool \<times> custom_map option \<times> string) option" where
  \<comment> \<open>the caller's map, the identity of the scratch object if it can be allocated, the text, the
     error buffer; the result is the flag and the map and buffer afterwards\<close>
  "custom_map_parse target scratch csv buf =
     (let buf = (if buf = [] then [] else buf[0 := NUL]) in
      case (target, csv) of
        (Some m, Some text) \<Rightarrow>
          if text = [] \<or> length text > CUSTOM_MAX_CSV_BYTES
          then Some (False, target, fail_text buf 1 ''CSV size must be 1..32768 bytes'')
          else (case parse_scratch (cm_self m) scratch text of
                  None \<Rightarrow> None
                | Some (Inl (line, why)) \<Rightarrow> Some (False, target, fail_text buf line why)
                | Some (Inr m') \<Rightarrow> Some (True, Some m', buf))
      | _ \<Rightarrow> Some (False, target, fail_text buf 1 ''CSV size must be 1..32768 bytes''))"

subsection \<open>Applying a reply\<close>

definition swap16 :: "u16 \<Rightarrow> u16" where
  "swap16 w = (drop_bit 8 w OR push_bit 8 w)"

text \<open>The ASCII loop: \<open>Some None\<close> is \<open>goto invalid\<close>; \<open>ended\<close> once a NUL was seen.\<close>

fun ascii_chars :: "u8 \<Rightarrow> u16 list \<Rightarrow> bool \<Rightarrow> nat list \<Rightarrow> string option option" where
  "ascii_chars order words ended [] = Some (Some [])"
| "ascii_chars order words ended (i # is) =
     (case rd words (i div 2) of
        None \<Rightarrow> None
      | Some w \<Rightarrow>
          let word = (if order \<noteq> 0 then swap16 w else w);
              ch = unat ((ucast (if i mod 2 = 1 then word else drop_bit 8 word)) :: u8);
              ended = (ended \<or> ch = 0)
          in if ch \<noteq> 0 \<and> (ch < 32 \<or> ch > 126) \<or> ended \<and> ch \<noteq> 0 then Some None
             else case ascii_chars order words ended is of
                    None \<Rightarrow> None
                  | Some None \<Rightarrow> Some None
                  | Some (Some cs) \<Rightarrow> Some (Some (char_of ch # cs)))"

definition full_word :: "u8 \<Rightarrow> u16 \<Rightarrow> u16 \<Rightarrow> u32" where
  \<comment> \<open>the two registers, already swapped as \<open>order\<close> says\<close>
  "full_word order a b =
     (if order AND 2 \<noteq> 0 then push_bit 16 (ucast b) OR ucast a else push_bit 16 (ucast a) OR ucast b)"

definition raw_number :: "custom_point \<Rightarrow> custom_def \<Rightarrow> u16 list \<Rightarrow> dbl option option" where
  "raw_number p d words = do {
     w0 \<leftarrow> rd words 0;
     let a = (if cp_order p AND 1 \<noteq> 0 then swap16 w0 else w0);
     full \<leftarrow> (if cd_word_count d = 2
              then do { w1 \<leftarrow> rd words 1;
                        Some (full_word (cp_order p) a (if cp_order p AND 1 \<noteq> 0 then swap16 w1 else w1)) }
              else Some 0);
     Some (case cp_data_type p of
        CUSTOM_U16 \<Rightarrow> Some (dbl_of_int (uint a))
      | CUSTOM_S16 \<Rightarrow> Some (dbl_of_int (if a \<ge> 0x8000 then uint a - 65536 else uint a))
      | CUSTOM_U32 \<Rightarrow> Some (dbl_of_int (uint full))
      | CUSTOM_S32 \<Rightarrow> Some (dbl_of_int (if full \<ge> 0x80000000 then uint full - 4294967296 else uint full))
      | CUSTOM_F32 \<Rightarrow> Some (f32_of_bits full)
      | CUSTOM_BIT \<Rightarrow> Some (dbl_of_int (uint (drop_bit (unat (cd_bit_lsb d)) a AND 1)))
      | CUSTOM_BOOL \<Rightarrow> if w0 > 1 then None else Some (dbl_of_int (uint w0))
      | CUSTOM_ASCII \<Rightarrow> None) }"

text \<open>The number after scaling, or \<open>Some None\<close> for \<open>goto invalid\<close>.\<close>

definition scaled_number :: "custom_point \<Rightarrow> custom_def \<Rightarrow> u16 list \<Rightarrow> dbl option option" where
  "scaled_number p d words =
     (case raw_number p d words of
        None \<Rightarrow> None
      | Some None \<Rightarrow> Some None
      | Some (Some raw) \<Rightarrow>
          let n = dadd (dmul raw (cp_scale p)) (cp_offset p) in
          if \<not> is_finite n \<or> dlt FLT_MAX (dfabs n) then Some None
          else if cd_object_type d = 13 \<and>
             (dlt n (Fin 1) \<or> dlt (dbl_of_int (int (cd_state_count d))) n \<or> \<not> deq (dfloor n) n)
          then Some None
          else Some (Some n))"

definition next_value :: "custom_point \<Rightarrow> custom_def \<Rightarrow> u16 list \<Rightarrow> ats_value \<Rightarrow> ats_value option option" where
  "next_value p d words v =
     (if cp_data_type p = CUSTOM_ASCII
      then (case ascii_chars (cp_order p) words False [0..<unat (cp_length p)] of
              None \<Rightarrow> None
            | Some None \<Rightarrow> Some None
            | Some (Some cs) \<Rightarrow> Some (Some (v\<lparr>v_text := blit (v_text v) (cs @ [NUL])\<rparr>)))
      else (case scaled_number p d words of
              None \<Rightarrow> None
            | Some None \<Rightarrow> Some None
            | Some (Some n) \<Rightarrow> Some (Some (v\<lparr>v_numeric := n\<rparr>))))"

definition custom_map_apply ::
    "custom_map option \<Rightarrow> nat \<Rightarrow> u16 list option \<Rightarrow> nat \<Rightarrow> u64 \<Rightarrow> ats_value option \<Rightarrow> (bool \<times> ats_value option) option" where
  "custom_map_apply target index words count now value =
     (case (target, words, value) of
        (Some m, Some ws, Some v) \<Rightarrow>
          if index \<ge> length (cm_defs m) then Some (False, value)
          else let d = cm_defs m ! index; p = cm_points m ! index in
            if count \<noteq> unat (cd_word_count d) then Some (False, value)
            else (case next_value p d ws v of
                    None \<Rightarrow> None
                  | Some None \<Rightarrow> Some (False, Some (v\<lparr>v_quality := ATS_QUALITY_UNVERIFIED,
                      v_reason := ''Invalid/nonfinite decoded value or out-of-range state''\<rparr>))
                  | Some (Some w) \<Rightarrow>
                      if length ws < count then None
                      else Some (True, Some (w\<lparr>v_raw_count := count, v_raw_words := blit (v_raw_words w) (take count ws),
                             v_quality := ATS_QUALITY_GOOD, v_reason := ''Validated custom-map value'',
                             v_last_good := now\<rparr>)))
      | _ \<Rightarrow> Some (False, value))"

section \<open>Well-formed maps\<close>

subsection \<open>Fields\<close>

lemma integer_bounds: "integer s lo hi = Some n \<Longrightarrow> lo \<le> n \<and> n \<le> hi"
  using unat_of_nat_small [of "dec_value s", where 'a = 32] unat_lt_u32 [of hi]
  by (auto simp: integer_def integer_loop_eq dec_from_0 word_le_nat_alt word_less_nat_alt split: if_splits option.splits)

lemma number_finite: "number s x = Some y \<Longrightarrow> is_finite x \<Longrightarrow> is_finite y"
  by (auto simp: number_def split: if_splits prod.splits)

lemma Inr_if [simp]: "(if c then Inl e else x) = Inr v \<longleftrightarrow> \<not> c \<and> x = Inr v"
  by simp

lemma Inr_option [simp]: "(case y of None \<Rightarrow> Inl e | Some z \<Rightarrow> f z) = Inr v \<longleftrightarrow> (\<exists>z. y = Some z \<and> f z = Inr v)"
  by (cases y) simp_all

lemma Inr_sum [simp]: "(case y of Inl e \<Rightarrow> Inl e | Inr z \<Rightarrow> f z) = Inr v \<longleftrightarrow> (\<exists>z. y = Inr z \<and> f z = Inr v)"
  by (cases y) simp_all

lemma row_fields_ok: "row_text fs t \<Longrightarrow> list_all field_ok fs"
  by (induction fs t rule: row_text.induct) (auto simp: field_text_def)

lemma read_row_fields:
  assumes "read_row csv pos = Some (Some (fs, p))" "pos \<le> length csv"
  shows "list_all field_ok fs"
proof -
  have "read_fields (Suc (FIELD_COUNT - 1)) csv pos = Some (Some (fs, p))"
    using assms(1) by (simp add: read_row_def FIELD_COUNT_def)
  from read_fields_sound [OF this assms(2)] show ?thesis using row_fields_ok by blast
qed

lemma field_ok_NUL: "field_ok f \<Longrightarrow> NUL \<notin> set f"
  by (auto simp: field_ok_def list_all_iff printable_def NUL_def)

subsection \<open>The arena\<close>

definition ptr_ok :: "custom_map \<Rightarrow> ptr \<Rightarrow> bool" where
  "ptr_ok m p \<longleftrightarrow> fst p = cm_self m \<and> NUL \<in> set (drop (snd p) (cm_strings m))"

lemma arena_frame [simp]:
  "ptr_ok (m\<lparr>cm_states := ss\<rparr>) q = ptr_ok m q" "str_at (m\<lparr>cm_states := ss\<rparr>) q = str_at m q"
  "ptr_ok (m\<lparr>cm_defs := ds\<rparr>) q = ptr_ok m q" "str_at (m\<lparr>cm_defs := ds\<rparr>) q = str_at m q"
  "ptr_ok (m\<lparr>cm_points := ps\<rparr>) q = ptr_ok m q" "str_at (m\<lparr>cm_points := ps\<rparr>) q = str_at m q"
  by (simp_all add: ptr_ok_def str_at_def)

definition arena_ok :: "custom_map \<Rightarrow> bool" where
  "arena_ok m \<longleftrightarrow> length (cm_strings m) \<le> CUSTOM_MAX_CSV_BYTES + 1 \<and> length (cm_states m) \<le> CUSTOM_MAX_TOTAL_STATES \<and>
     list_all (ptr_ok m) (cm_states m)"

definition extends :: "custom_map \<Rightarrow> custom_map \<Rightarrow> bool" where
  \<comment> \<open>what a row does to the arena: it appends\<close>
  "extends m m' \<longleftrightarrow> cm_self m' = cm_self m \<and> cm_defs m' = cm_defs m \<and> cm_points m' = cm_points m \<and>
     take (length (cm_strings m)) (cm_strings m') = cm_strings m \<and>
     take (length (cm_states m)) (cm_states m') = cm_states m"

lemma extends_refl [simp]: "extends m m"
  by (simp add: extends_def)

lemma take_prefix_trans:
  "take (length a) b = a \<Longrightarrow> take (length b) c = b \<Longrightarrow> take (length a) c = a"
  by (metis length_take min.commute min_def nat_le_linear take_take)

lemma extends_trans [trans]: "extends a b \<Longrightarrow> extends b c \<Longrightarrow> extends a c"
  by (auto simp: extends_def intro: take_prefix_trans)

lemma cstr_append: "NUL \<in> set s \<Longrightarrow> cstr (s @ r) = cstr s"
  by (induction s) (auto simp: cstr_def)

lemma extends_ptr:
  assumes "extends m m'" "ptr_ok m p"
  shows "ptr_ok m' p" "str_at m' p = str_at m p"
proof -
  let ?n = "length (cm_strings m)"
  have t: "take ?n (cm_strings m') = cm_strings m" using assms(1) by (simp add: extends_def)
  have p: "snd p < ?n" using assms(2) by (cases "snd p < ?n") (simp_all add: ptr_ok_def)
  have "cm_strings m' = cm_strings m @ drop ?n (cm_strings m')"
    using t by (metis append_take_drop_id)
  then have d: "drop (snd p) (cm_strings m') = drop (snd p) (cm_strings m) @ drop ?n (cm_strings m')"
    using p by (metis drop_append diff_is_0_eq' drop0 less_imp_le)
  then show "ptr_ok m' p" using assms by (simp add: ptr_ok_def extends_def)
  show "str_at m' p = str_at m p"
    using assms(2) by (simp add: str_at_def d ptr_ok_def cstr_append)
qed

lemma save_string_ok:
  assumes "save_string m s = Some (m', p)" "NUL \<notin> set s"
  shows "extends m m'" "ptr_ok m' p" "str_at m' p = s" "cm_states m' = cm_states m"
    "length (cm_strings m) \<le> CUSTOM_MAX_CSV_BYTES + 1 \<Longrightarrow> length (cm_strings m') \<le> CUSTOM_MAX_CSV_BYTES + 1"
  using assms by (auto simp: save_string_def Let_def extends_def ptr_ok_def str_at_def cstr_append_NUL split: if_splits)

lemma arena_extends:
  assumes "arena_ok m" "extends m m'" "cm_states m' = cm_states m" "length (cm_strings m') \<le> CUSTOM_MAX_CSV_BYTES + 1"
  shows "arena_ok m'"
  using assms extends_ptr(1) [OF assms(2)] by (auto simp: arena_ok_def list_all_iff)

lemma save_string_arena:
  assumes "save_string m s = Some (m', p)" "NUL \<notin> set s" "arena_ok m"
  shows "arena_ok m'"
  using arena_extends [OF assms(3)] save_string_ok [OF assms(1,2)] assms(3) by (simp add: arena_ok_def)

subsection \<open>State labels\<close>

definition label_ok :: "string \<Rightarrow> bool" where
  "label_ok l \<longleftrightarrow> l \<noteq> [] \<and> length l \<le> 63"

definition labels :: "custom_map \<Rightarrow> nat \<Rightarrow> nat \<Rightarrow> string list" where
  "labels m base n = map (\<lambda>i. str_at m (cm_states m ! (base + i))) [0..<n]"

definition label_bytes :: "string list \<Rightarrow> nat" where
  \<comment> \<open>the labels with their terminators\<close>
  "label_bytes ls = sum_list (map (\<lambda>l. length l + 1) ls)"

lemma label_bytes_simps [simp]:
  "label_bytes [] = 0" "label_bytes (ls @ [l]) = label_bytes ls + length l + 1"
  by (simp_all add: label_bytes_def)

definition states_ok :: "custom_map \<Rightarrow> nat \<Rightarrow> nat \<Rightarrow> bool" where
  "states_ok m base n \<longleftrightarrow> base + n \<le> length (cm_states m) \<and> n \<le> CUSTOM_MAX_STATES \<and>
     distinct (labels m base n) \<and> list_all label_ok (labels m base n) \<and> label_bytes (labels m base n) \<le> FIELD_BYTES"

lemma labels_extends:
  assumes "extends m m'" "list_all (ptr_ok m) (cm_states m)" "base + n \<le> length (cm_states m)"
  shows "labels m' base n = labels m base n"
proof -
  have "cm_states m' ! (base + i) = cm_states m ! (base + i)" "ptr_ok m (cm_states m ! (base + i))" if "i < n" for i
    using that assms by (auto simp: extends_def list_all_length) (metis add_strict_left_mono less_le_trans nth_take)+
  then show ?thesis using extends_ptr(2) [OF assms(1)] by (simp add: labels_def)
qed

lemma extends_length: "extends m m' \<Longrightarrow> length (cm_states m) \<le> length (cm_states m')"
  by (auto simp: extends_def dest!: arg_cong [where f = length])

lemma states_extends: "extends m m' \<Longrightarrow> list_all (ptr_ok m) (cm_states m) \<Longrightarrow> states_ok m base n \<Longrightarrow> states_ok m' base n"
  using extends_length [of m m'] by (simp add: states_ok_def labels_extends)

lemma labels_Suc: "labels m base (Suc n) = labels m base n @ [str_at m (cm_states m ! (base + n))]"
  by (simp add: labels_def)

lemma state_loop_ok:
  assumes "state_loop m base n start = Inr (m', n')" "arena_ok m" "NUL \<notin> set start"
    and "base + n = length (cm_states m)" "states_ok m base n"
    and "label_bytes (labels m base n) + length start + 1 \<le> FIELD_BYTES"
  shows "extends m m' \<and> arena_ok m' \<and> n < n' \<and> states_ok m' base n'"
  using assms
proof (induction m base n start rule: state_loop.induct)
  case (1 m base n start)
  let ?label = "takeWhile (\<lambda>c. c \<noteq> PIPE) start" and ?rest = "dropWhile (\<lambda>c. c \<noteq> PIPE) start"
  from 1(2) [unfolded state_loop.simps [of m base n start] Let_def] obtain m1 p where
    c: "\<not> (?label = [] \<or> length ?label > 63 \<or> n = CUSTOM_MAX_STATES \<or> length (cm_states m) = CUSTOM_MAX_TOTAL_STATES)"
       "\<not> list_ex (\<lambda>previous. str_at m (cm_states m ! (base + previous)) = ?label) [0..<n]"
       "save_string m ?label = Some (m1, p)" and
    r: "(if ?rest = [] then Inr (m1\<lparr>cm_states := cm_states m1 @ [p]\<rparr>, n + 1)
         else state_loop (m1\<lparr>cm_states := cm_states m1 @ [p]\<rparr>) base (n + 1) (tl ?rest)) = Inr (m', n')"
    by (auto simp del: not_None_eq)
  have "set (tl xs) \<subseteq> set xs" for xs :: string by (cases xs) auto
  from this [of ?rest] have nul: "NUL \<notin> set ?label" "NUL \<notin> set (tl ?rest)"
    using 1(4) by (auto dest: set_takeWhileD set_dropWhileD)
  note s = save_string_ok [OF c(3) nul(1)]
  define m2 where "m2 = m1\<lparr>cm_states := cm_states m1 @ [p]\<rparr>"
  have e: "extends m m2" using s(1,4) by (simp add: m2_def extends_def)
  have p: "ptr_ok m2 q = ptr_ok m1 q" "str_at m2 q = str_at m1 q" for q by (simp_all add: m2_def)
  have old: "list_all (ptr_ok m) (cm_states m)" using 1(3) by (simp add: arena_ok_def)
  have ar: "arena_ok m2"
    using save_string_arena [OF c(3) nul(1) 1(3)] s(2,4) c(1) 1(3)
    by (auto simp: arena_ok_def m2_def list_all_iff)
  have l: "labels m2 base (Suc n) = labels m base n @ [?label]"
    using labels_extends [OF e old] 1(5,6) s(3,4) by (simp add: labels_Suc states_ok_def p) (simp add: m2_def nth_append)
  have split: "length ?label + length ?rest = length start"
    by (metis length_append takeWhile_dropWhile_id)
  have st: "states_ok m2 base (n + 1)"
  proof -
    have "?label \<notin> set (labels m base n)" using c(2) by (auto simp: labels_def list_ex_iff)
    moreover have "base + Suc n \<le> length (cm_states m2)" using 1(5) s(4) by (simp add: m2_def)
    ultimately show ?thesis using 1(6,7) c(1) split by (simp add: states_ok_def label_ok_def l)
  qed
  show ?case
  proof (cases "?rest = []")
    case True
    with r have "m' = m2" "n' = n + 1" by (auto simp: m2_def)
    then show ?thesis using e ar st by simp
  next
    case False
    then have "state_loop m2 base (n + 1) (tl ?rest) = Inr (m', n')"
      using r by (simp only: m2_def if_False)
    moreover have "base + (n + 1) = length (cm_states m2)" using 1(5) s(4) by (simp add: m2_def)
    moreover have "label_bytes (labels m2 base (n + 1)) + length (tl ?rest) + 1 \<le> FIELD_BYTES"
      using 1(7) split False by (cases ?rest) (simp_all add: l)
    ultimately have "extends m2 m' \<and> arena_ok m' \<and> n + 1 < n' \<and> states_ok m' base n'"
      using "1.IH" [OF refl refl c(1,2,3) refl m2_def False] ar nul(2) st by simp
    then show ?thesis using extends_trans [OF e] by auto
  qed
qed

subsection \<open>Points\<close>

definition wide :: "custom_data_type \<Rightarrow> bool" where
  "wide kind \<longleftrightarrow> kind \<ge> CUSTOM_U32 \<and> kind \<le> CUSTOM_F32"

text \<open>The agreement of object type, function, data type and extent of a point.\<close>

definition point_ok :: "custom_def \<Rightarrow> custom_point \<Rightarrow> bool" where
  "point_ok d p \<longleftrightarrow>
     cp_function p \<in> {1, 2, 3, 4} \<and> (cp_function p \<le> 2 \<longleftrightarrow> cp_data_type p = CUSTOM_BOOL) \<and>
     cd_object_type d \<in> {0, 3, 13, 40} \<and>
     (cd_object_type d = 40 \<longleftrightarrow> cp_data_type p = CUSTOM_ASCII) \<and>
     (cd_object_type d = 3 \<longrightarrow> cp_data_type p \<in> {CUSTOM_BIT, CUSTOM_BOOL}) \<and>
     (cd_object_type d = 13 \<longrightarrow> cp_data_type p \<le> CUSTOM_S32) \<and>
     (cd_object_type d = 0 \<longrightarrow> cp_data_type p \<le> CUSTOM_F32) \<and>
     (cd_object_type d \<noteq> 0 \<longrightarrow> cd_units d = 95) \<and>
     is_finite (cp_scale p) \<and> is_finite (cp_offset p) \<and>
     (if cp_data_type p = CUSTOM_ASCII
      then 1 \<le> unat (cp_length p) \<and> unat (cp_length p) \<le> 2 * ATS_MAX_POINT_WORDS \<and>
           unat (cd_word_count d) = (unat (cp_length p) + 1) div 2
      else cp_length p = 0 \<and> unat (cd_word_count d) = (if wide (cp_data_type p) then 2 else 1)) \<and>
     unat (cd_offset d) + unat (cd_word_count d) \<le> 65536 \<and>
     unat (cd_bit_lsb d) \<le> 15 \<and>
     unat (cp_order p) \<le> (if cp_data_type p = CUSTOM_BOOL then 0 else if wide (cp_data_type p) then 3 else 1) \<and>
     1000 \<le> unat (cp_poll_ms p) \<and> unat (cp_poll_ms p) \<le> 3600000"

definition name_ok :: "string \<Rightarrow> bool" where
  "name_ok s \<longleftrightarrow> s \<noteq> [] \<and> length s \<le> 63 \<and> take 8 s \<noteq> ''Gateway-''"

text \<open>The strings of a point, and where they are.\<close>

definition def_ok :: "custom_map \<Rightarrow> custom_def \<Rightarrow> bool" where
  "def_ok m d \<longleftrightarrow>
     1 \<le> unat (cd_instance d) \<and> unat (cd_instance d) \<le> 4194302 \<and> unat (cd_instance d) \<notin> {9001..9004} \<and>
     ptr_ok m (cd_name d) \<and> name_ok (str_at m (cd_name d)) \<and>
     ptr_ok m (cd_description d) \<and> length (str_at m (cd_description d)) \<le> 127 \<and>
     (case cd_state_text d of
        None \<Rightarrow> cd_object_type d \<noteq> 13 \<and> cd_state_count d = 0
      | Some (self, base) \<Rightarrow> cd_object_type d = 13 \<and> self = cm_self m \<and> 0 < cd_state_count d \<and>
          states_ok m base (cd_state_count d))"

definition custom_map_ok :: "custom_map \<Rightarrow> bool" where
  "custom_map_ok m \<longleftrightarrow> arena_ok m \<and> length (cm_points m) = length (cm_defs m) \<and>
     length (cm_defs m) \<le> CUSTOM_MAX_POINTS \<and> list_all (def_ok m) (cm_defs m) \<and>
     list_all2 point_ok (cm_defs m) (cm_points m) \<and>
     distinct (map (\<lambda>d. str_at m (cd_name d)) (cm_defs m)) \<and>
     distinct (map (\<lambda>d. (cd_object_type d, cd_instance d)) (cm_defs m))"

subsection \<open>The checks of a row\<close>

lemma find_None: "find P xs = None \<longleftrightarrow> (\<forall>x \<in> set xs. \<not> P x)"
  by (auto simp: find_None_iff)

lemma if_find: "(case find P xs of Some d \<Rightarrow> Inl (f d) | None \<Rightarrow> Inr v) = Inr w \<longleftrightarrow> find P xs = None \<and> v = w"
  by (cases "find P xs") simp_all

lemma row_object_ok:
  assumes "row_object m row = Inr (inst, ot)"
  shows "length (cm_defs m) \<noteq> CUSTOM_MAX_POINTS" "1 \<le> unat inst" "unat inst \<le> 4194302" "unat inst \<notin> {9001..9004}"
    "name_ok (row ! 1)" "length (row ! 14) \<le> 127" "ot \<in> {0, 3, 13, 40}"
    "\<forall>d \<in> set (cm_defs m). str_at m (cd_name d) \<noteq> row ! 1 \<and> (cd_object_type d, cd_instance d) \<noteq> (ot, inst)"
proof -
  from assms have a: "integer (row ! 0) 1 4194302 = Some inst" "length (cm_defs m) \<noteq> CUSTOM_MAX_POINTS"
    "\<not> (inst \<ge> 9001 \<and> inst \<le> 9004)" "name_ok (row ! 1)" "length (row ! 14) \<le> 127" "map_of object_types (row ! 2) = Some ot"
    "find (\<lambda>d. str_at m (cd_name d) = row ! 1 \<or> (cd_object_type d = ot \<and> cd_instance d = inst)) (cm_defs m) = None"
    by (auto simp: row_object_def if_find name_ok_def)
  then show "length (cm_defs m) \<noteq> CUSTOM_MAX_POINTS" "name_ok (row ! 1)" "length (row ! 14) \<le> 127" by simp_all
  show "1 \<le> unat inst" "unat inst \<le> 4194302" "unat inst \<notin> {9001..9004}"
    using integer_bounds [OF a(1)] a(3) by (simp_all add: word_le_nat_alt)
  show "ot \<in> {0, 3, 13, 40}" using a(6) by (auto simp: object_types_def split: if_splits)
  show "\<forall>d \<in> set (cm_defs m). str_at m (cd_name d) \<noteq> row ! 1 \<and> (cd_object_type d, cd_instance d) \<noteq> (ot, inst)"
    using a(7) by (auto simp: find_None)
qed

lemma unat_ucast_down: "unat (w :: u32) < 2 ^ LENGTH('b) \<Longrightarrow> unat (ucast w :: 'b::len word) = unat w"
  by (simp add: unsigned_ucast_eq take_bit_nat_eq_self)

lemma word_1_4: "1 \<le> (w :: u32) \<Longrightarrow> w \<le> 4 \<Longrightarrow> w \<in> {1, 2, 3, 4}"
proof -
  assume a: "1 \<le> w" "w \<le> 4"
  then have "unat w = 1 \<or> unat w = 2 \<or> unat w = 3 \<or> unat w = 4"
    by (simp add: word_le_nat_alt) linarith
  then show ?thesis by (auto simp: unat_eq_iff)
qed

lemma row_source_ok:
  assumes "row_source ot row = Inr (fn, addr, kind)"
  shows "fn \<in> {1, 2, 3, 4}" "fn \<le> 2 \<longleftrightarrow> kind = CUSTOM_BOOL" "ot = 40 \<longleftrightarrow> kind = CUSTOM_ASCII"
    "ot = 3 \<longrightarrow> kind \<in> {CUSTOM_BIT, CUSTOM_BOOL}" "ot = 13 \<longrightarrow> kind \<le> CUSTOM_S32" "ot = 0 \<longrightarrow> kind \<le> CUSTOM_F32"
proof -
  from assms obtain f where f: "integer (row ! 3) 1 4 = Some f" "fn = ucast f"
    "\<not> (f \<le> 2 \<and> (kind \<noteq> CUSTOM_BOOL \<or> ot \<noteq> 3))" "\<not> (f \<ge> 3 \<and> kind = CUSTOM_BOOL)"
    and k: "(ot = 40) = (kind = CUSTOM_ASCII)" "\<not> (ot = 3 \<and> kind \<noteq> CUSTOM_BIT \<and> kind \<noteq> CUSTOM_BOOL)"
      "\<not> (ot = 13 \<and> kind > CUSTOM_S32)" "\<not> (ot = 0 \<and> kind > CUSTOM_F32)"
    by (auto simp: row_source_def)
  have 4: "f \<in> {1, 2, 3, 4}" using integer_bounds [OF f(1)] word_1_4 by blast
  then show "fn \<in> {1, 2, 3, 4}" "fn \<le> 2 \<longleftrightarrow> kind = CUSTOM_BOOL" using f(2-4) by auto
  show "ot = 40 \<longleftrightarrow> kind = CUSTOM_ASCII" "ot = 3 \<longrightarrow> kind \<in> {CUSTOM_BIT, CUSTOM_BOOL}"
    "ot = 13 \<longrightarrow> kind \<le> CUSTOM_S32" "ot = 0 \<longrightarrow> kind \<le> CUSTOM_F32"
    using k by auto
qed

lemma row_scaling_ok:
  assumes "row_scaling ot kind row = Inr (scale, off, units)"
  shows "is_finite scale" "is_finite off" "ot \<noteq> 0 \<longrightarrow> units = 95"
proof -
  from assms have n: "number (row ! 7) (Fin 1) = Some scale" "number (row ! 8) (Fin 0) = Some off"
    "\<not> (ot \<noteq> 0 \<and> units \<noteq> 95)"
    by (auto simp: row_scaling_def)
  from number_finite [OF n(1)] number_finite [OF n(2)] n(3)
  show "is_finite scale" "is_finite off" "ot \<noteq> 0 \<longrightarrow> units = 95" by auto
qed

lemma row_extent_ok:
  assumes "row_extent kind addr row = Inr (lsb, width, len, wc)"
  shows "unat lsb \<le> 15" "unat addr + unat wc \<le> 65536"
    "if kind = CUSTOM_ASCII then 1 \<le> unat len \<and> unat len \<le> 2 * ATS_MAX_POINT_WORDS \<and> unat wc = (unat len + 1) div 2
     else len = 0 \<and> unat wc = (if wide kind then 2 else 1)"
proof -
  from assms obtain
    b: "(if kind = CUSTOM_BIT
            then (case integer (row ! 10) 0 15 of None \<Rightarrow> Inl ''bit must be 0..15'' | Some v \<Rightarrow> Inr (ucast v, 1))
            else if row ! 10 \<noteq> [] then Inl ''bit field is valid only for bit data_type'' else Inr (0, 0)) = Inr (lsb, width)" and
    l: "(if kind = CUSTOM_ASCII
            then (case integer (row ! 12) 1 (of_nat ATS_MAX_POINT_WORDS * 2) of
                    None \<Rightarrow> Inl ''ASCII length must be 1..20 characters''
                  | Some v \<Rightarrow> Inr (ucast v, ucast ((v + 1) div 2)))
            else if row ! 12 \<noteq> [] then Inl ''length field is valid only for ascii''
            else Inr (0, if kind \<ge> CUSTOM_U32 \<and> kind \<le> CUSTOM_F32 then 2 else 1)) = Inr (len, wc)" and
    e: "\<not> ucast (wc :: u8) + ucast addr > (65536 :: u32)"
    unfolding row_extent_def by auto
  show "unat lsb \<le> 15"
    using b by (auto split: if_splits dest!: integer_bounds simp: word_le_nat_alt unat_ucast_down)
  show "unat addr + unat wc \<le> 65536"
    using e unat_lt_u16 [of addr] unat_lt_u8 [of wc]
    by (simp add: word_less_nat_alt unat_add_small unat_ucast_up)
  show "if kind = CUSTOM_ASCII then 1 \<le> unat len \<and> unat len \<le> 2 * ATS_MAX_POINT_WORDS \<and> unat wc = (unat len + 1) div 2
     else len = 0 \<and> unat wc = (if wide kind then 2 else 1)"
  proof (cases "kind = CUSTOM_ASCII")
    case True
    then obtain v where v: "integer (row ! 12) 1 (of_nat ATS_MAX_POINT_WORDS * 2) = Some v" "len = ucast v"
      "wc = ucast ((v + 1) div 2)" using l by auto
    have b: "1 \<le> unat v" "unat v \<le> 20"
      using integer_bounds [OF v(1)] by (simp_all add: ATS_MAX_POINT_WORDS_def word_le_nat_alt)
    then have "unat ((v + 1) div 2) = (unat v + 1) div 2" by (simp add: unat_div unat_add_small)
    then show ?thesis using True b v(2,3) by (simp add: unat_ucast_down ATS_MAX_POINT_WORDS_def)
  next
    case False
    then show ?thesis using l by (auto simp: wide_def)
  qed
qed

lemma row_order_ok:
  assumes "row_order kind row = Inr order"
  shows "unat order \<le> (if kind = CUSTOM_BOOL then 0 else if wide kind then 3 else 1)"
  using assms by (auto simp: row_order_def wide_def split: if_splits)


lemma save_names_ok:
  assumes "save_names m row = Inr (m', name, description)" "NUL \<notin> set (row ! 1)" "NUL \<notin> set (row ! 14)" "arena_ok m"
  shows "extends m m'" "arena_ok m'" "ptr_ok m' name" "str_at m' name = row ! 1"
    "ptr_ok m' description" "str_at m' description = row ! 14" "cm_states m' = cm_states m"
proof -
  from assms(1) obtain m1 where s: "save_string m (row ! 1) = Some (m1, name)"
    "save_string m1 (row ! 14) = Some (m', description)"
    by (auto simp: save_names_def)
  note a = save_string_ok [OF s(1) assms(2)] save_string_arena [OF s(1) assms(2,4)]
  note b = save_string_ok [OF s(2) assms(3)] save_string_arena [OF s(2) assms(3) a(6)]
  show "extends m m'" using extends_trans [OF a(1) b(1)] .
  show "arena_ok m'" by (rule b(6))
  show "ptr_ok m' name" "str_at m' name = row ! 1"
    using extends_ptr [OF b(1) a(2)] a(3) by simp_all
  show "ptr_ok m' description" "str_at m' description = row ! 14" "cm_states m' = cm_states m"
    using a b by simp_all
qed

lemma row_states_ok:
  assumes "row_states m ot row = Inr (m', state_text, n)" "arena_ok m" "NUL \<notin> set (row ! 11)"
    and bytes: "length (row ! 11) < FIELD_BYTES"
  shows "extends m m'" "arena_ok m'"
    "case state_text of None \<Rightarrow> ot \<noteq> 13 \<and> n = 0
      | Some (self, base) \<Rightarrow> ot = 13 \<and> self = cm_self m' \<and> 0 < n \<and> states_ok m' base n"
proof -
  have "extends m m' \<and> arena_ok m' \<and> (case state_text of None \<Rightarrow> ot \<noteq> 13 \<and> n = 0
      | Some (self, base) \<Rightarrow> ot = 13 \<and> self = cm_self m' \<and> 0 < n \<and> states_ok m' base n)"
  proof (cases "ot = 13")
    case True
    then have l: "state_loop m (length (cm_states m)) 0 (row ! 11) = Inr (m', n)"
      and t: "state_text = Some (cm_self m, length (cm_states m))"
      using assms(1) by (auto simp: row_states_def)
    have "states_ok m (length (cm_states m)) 0" by (simp add: states_ok_def labels_def)
    moreover have "label_bytes (labels m (length (cm_states m)) 0) + length (row ! 11) + 1 \<le> FIELD_BYTES"
      using bytes by (simp add: labels_def)
    ultimately show ?thesis using state_loop_ok [OF l assms(2,3)] t True by (simp add: extends_def)
  next
    case False
    then show ?thesis using assms by (auto simp: row_states_def)
  qed
  then show "extends m m'" "arena_ok m'"
    "case state_text of None \<Rightarrow> ot \<noteq> 13 \<and> n = 0
      | Some (self, base) \<Rightarrow> ot = 13 \<and> self = cm_self m' \<and> 0 < n \<and> states_ok m' base n"
    by blast+
qed

lemma extends_self: "extends m m' \<Longrightarrow> cm_self m' = cm_self m"
  by (simp add: extends_def)

lemma def_extends: "extends m m' \<Longrightarrow> arena_ok m \<Longrightarrow> def_ok m d \<Longrightarrow> def_ok m' d"
  using extends_self [of m m'] states_extends [of m m']
  by (cases "cd_state_text d") (auto simp: def_ok_def extends_ptr arena_ok_def)

lemma states_ok_frame [simp]:
  "states_ok (m\<lparr>cm_defs := ds\<rparr>) base n = states_ok m base n" "states_ok (m\<lparr>cm_points := ps\<rparr>) base n = states_ok m base n"
  by (simp_all add: states_ok_def labels_def)

lemma def_ok_frame [simp]:
  "def_ok (m\<lparr>cm_defs := ds\<rparr>) d = def_ok m d" "def_ok (m\<lparr>cm_points := ps\<rparr>) d = def_ok m d"
  by (simp_all add: def_ok_def split: option.split)

lemma arena_ok_frame [simp]:
  "arena_ok (m\<lparr>cm_defs := ds\<rparr>) = arena_ok m" "arena_ok (m\<lparr>cm_points := ps\<rparr>) = arena_ok m"
  by (simp_all add: arena_ok_def list_all_iff)

lemma add_row_ok:
  assumes "add_row m row = Inr m'" "custom_map_ok m" "\<forall>i < FIELD_COUNT. field_ok (row ! i)"
  shows "custom_map_ok m'" "cm_self m' = cm_self m" "cm_defs m' \<noteq> []"
proof -
  from assms(1) obtain inst ot fn addr kind scale off units lsb width len wc order poll m1 name description m2 st n where
    r: "row_object m row = Inr (inst, ot)" "row_source ot row = Inr (fn, addr, kind)"
      "row_scaling ot kind row = Inr (scale, off, units)" "row_extent kind addr row = Inr (lsb, width, len, wc)"
      "row_order kind row = Inr order" "integer (row ! 13) 1000 3600000 = Some poll"
      "save_names m row = Inr (m1, name, description)" "row_states m1 ot row = Inr (m2, st, n)" and
    m': "m' = m2\<lparr>cm_defs := cm_defs m2 @ [\<lparr>cd_object_type = ot, cd_instance = inst, cd_name = name,
                   cd_description = description, cd_units = units, cd_state_count = n,
                   cd_state_text = st, cd_offset = addr, cd_word_count = wc, cd_bit_lsb = lsb,
                   cd_bit_width = width\<rparr>],
                 cm_points := cm_points m2 @ [\<lparr>cp_data_type = kind, cp_function = fn, cp_order = order,
                   cp_length = len, cp_poll_ms = poll, cp_scale = scale, cp_offset = off\<rparr>]\<rparr>"
    unfolding add_row_def by auto
  have nul: "NUL \<notin> set (row ! 1)" "NUL \<notin> set (row ! 14)" "NUL \<notin> set (row ! 11)"
    using assms(3) field_ok_NUL by (auto simp: FIELD_COUNT_def)
  have bytes: "length (row ! 11) < FIELD_BYTES" using assms(3) by (simp add: FIELD_COUNT_def field_ok_def)
  have ar: "arena_ok m" using assms(2) by (simp add: custom_map_ok_def)
  note o = row_object_ok [OF r(1)]
  note s = save_names_ok [OF r(7) nul(1,2) ar]
  note t = row_states_ok [OF r(8) s(2) nul(3) bytes]
  have e: "extends m m2" using extends_trans [OF s(1) t(1)] .
  note p = extends_ptr [OF t(1) s(3)] extends_ptr [OF t(1) s(5)]
  define d where "d = \<lparr>cd_object_type = ot, cd_instance = inst, cd_name = name,
                   cd_description = description, cd_units = units, cd_state_count = n,
                   cd_state_text = st, cd_offset = addr, cd_word_count = wc, cd_bit_lsb = lsb, cd_bit_width = width\<rparr>"
  define q where "q = \<lparr>cp_data_type = kind, cp_function = fn, cp_order = order,
                   cp_length = len, cp_poll_ms = poll, cp_scale = scale, cp_offset = off\<rparr>"
  have d: "def_ok m2 d" using o p s(4,6) t(3) by (cases st) (auto simp: def_ok_def d_def)
  have poll: "1000 \<le> unat poll" "unat poll \<le> 3600000"
    using integer_bounds [OF r(6)] by (simp_all add: word_le_nat_alt)
  have q: "point_ok d q"
    unfolding point_ok_def d_def q_def custom_def.select_convs custom_point.select_convs
    using row_source_ok [OF r(2)] row_scaling_ok [OF r(3)] row_extent_ok [OF r(4)] row_order_ok [OF r(5)] poll o(7)
    by (intro conjI) assumption+
  have ds: "cm_defs m2 = cm_defs m" "cm_points m2 = cm_points m" "cm_self m2 = cm_self m"
    using e by (simp_all add: extends_def)
  have old: "list_all (def_ok m2) (cm_defs m)" "\<forall>x \<in> set (cm_defs m). str_at m2 (cd_name x) = str_at m (cd_name x)"
    using assms(2) def_extends [OF e ar] extends_ptr(2) [OF e]
    by (auto simp: custom_map_ok_def list_all_iff def_ok_def)
  have m'': "m' = m2\<lparr>cm_defs := cm_defs m @ [d], cm_points := cm_points m @ [q]\<rparr>"
    unfolding m' ds d_def q_def ..
  have names: "map (\<lambda>x. str_at m2 (cd_name x)) (cm_defs m @ [d]) = map (\<lambda>x. str_at m (cd_name x)) (cm_defs m) @ [row ! 1]"
    using old(2) p(2) s(4) by (simp add: d_def)
  have ids: "map (\<lambda>x. (cd_object_type x, cd_instance x)) (cm_defs m @ [d]) =
     map (\<lambda>x. (cd_object_type x, cd_instance x)) (cm_defs m) @ [(ot, inst)]"
    by (simp add: d_def)
  have names_new: "distinct (map (\<lambda>x. str_at m (cd_name x)) (cm_defs m) @ [row ! 1])"
    using assms(2) o(8) unfolding custom_map_ok_def by auto
  have ids_new: "distinct (map (\<lambda>x. (cd_object_type x, cd_instance x)) (cm_defs m) @ [(ot, inst)])"
    using assms(2) o(8) unfolding custom_map_ok_def by auto
  have l2: "list_all2 point_ok (cm_defs m @ [d]) (cm_points m @ [q])"
    using assms(2) q by (simp add: custom_map_ok_def list_all2_appendI)
  show "cm_self m' = cm_self m" "cm_defs m' \<noteq> []" using m'' ds by simp_all
  show "custom_map_ok m'"
    unfolding custom_map_ok_def m''
  proof (intro conjI)
    show "length (cm_defs (m2\<lparr>cm_defs := cm_defs m @ [d], cm_points := cm_points m @ [q]\<rparr>)) \<le> CUSTOM_MAX_POINTS"
      using assms(2) o(1) by (simp add: custom_map_ok_def)
    show "distinct (map (\<lambda>x. str_at (m2\<lparr>cm_defs := cm_defs m @ [d], cm_points := cm_points m @ [q]\<rparr>) (cd_name x))
       (cm_defs (m2\<lparr>cm_defs := cm_defs m @ [d], cm_points := cm_points m @ [q]\<rparr>)))"
      using names names_new by (simp del: map_append)
  qed (use t(2) assms(2) old(1) d l2 names names_new ids ids_new in \<open>simp_all add: custom_map_ok_def list_all_iff\<close>)
qed


subsection \<open>The parse\<close>

lemma parse_rows_never_fault [simp]: "parse_rows m csv pos line \<noteq> None"
proof (induction m csv pos line rule: parse_rows.induct)
  case (1 m csv pos line)
  then show ?case by (subst parse_rows.simps) (auto simp del: not_None_eq split: option.split sum.split)
qed

lemma parse_rows_ok:
  assumes "parse_rows m csv pos line = Some (Inr (n, m'))" "custom_map_ok m" "pos \<le> length csv"
  shows "custom_map_ok m' \<and> cm_self m' = cm_self m"
  using assms
proof (induction m csv pos line rule: parse_rows.induct)
  case (1 m csv pos line)
  show ?case
  proof (cases "pos < length csv")
    case True
    then obtain row p m1 where r: "read_row csv pos = Some (Some (row, p))" "add_row m row = Inr m1"
      "parse_rows m1 csv p (line + 1) = Some (Inr (n, m'))"
      using 1(2) by (subst (asm) parse_rows.simps) (auto split: option.splits sum.splits)
    note f = read_row_progress [OF r(1) 1(4)] read_row_fields [OF r(1) 1(4)]
    then have "\<forall>i < FIELD_COUNT. field_ok (row ! i)"
      by (auto simp: list_all_length)
    note a = add_row_ok [OF r(2) 1(3) this]
    show ?thesis
      using "1.IH" [OF True r(1) refl _ r(2) r(3) a(1) f(2)] a(2) by simp
  next
    case False
    then show ?thesis using 1(2,3) by (subst (asm) parse_rows.simps) simp
  qed
qed

lemma custom_map_ok_zero: "custom_map_ok (custom_map_zero self)"
  by (simp add: custom_map_ok_def custom_map_zero_def arena_ok_def)

text \<open>Rebasing moves every pointer to the caller's object and changes no string.\<close>

lemma rebase_simps [simp]:
  "cm_self (rebase self m) = self" "cm_strings (rebase self m) = cm_strings m" "cm_points (rebase self m) = cm_points m"
  "length (cm_states (rebase self m)) = length (cm_states m)" "length (cm_defs (rebase self m)) = length (cm_defs m)"
  "cm_states (rebase self m) = map (rebase_ptr self) (cm_states m)"
  by (simp_all add: rebase_def)

lemma rebase_defs:
  "cm_defs (rebase self m) = map (\<lambda>d. d\<lparr>cd_name := rebase_ptr self (cd_name d),
     cd_description := rebase_ptr self (cd_description d), cd_state_text := map_option (rebase_ptr self) (cd_state_text d)\<rparr>) (cm_defs m)"
  by (simp add: rebase_def)

lemma rebase_ptr_ok [simp]: "ptr_ok m p \<Longrightarrow> ptr_ok (rebase self m) (rebase_ptr self p)"
  by (simp add: ptr_ok_def rebase_ptr_def)

lemma rebase_str_at [simp]: "str_at (rebase self m) (rebase_ptr self p) = str_at m p"
  by (simp add: str_at_def rebase_ptr_def)

lemma rebase_labels: "base + n \<le> length (cm_states m) \<Longrightarrow> labels (rebase self m) base n = labels m base n"
  by (simp add: labels_def)

lemma rebase_states: "states_ok m base n \<Longrightarrow> states_ok (rebase self m) base n"
  by (auto simp: states_ok_def rebase_labels)

lemma rebase_def_ok:
  "def_ok m d \<Longrightarrow> def_ok (rebase self m) (d\<lparr>cd_name := rebase_ptr self (cd_name d),
     cd_description := rebase_ptr self (cd_description d), cd_state_text := map_option (rebase_ptr self) (cd_state_text d)\<rparr>)"
  by (cases "cd_state_text d") (auto simp: def_ok_def rebase_states rebase_ptr_def [of self "(_, _)"])

lemma point_ok_rebase:
  "point_ok (d\<lparr>cd_name := a, cd_description := b, cd_state_text := c\<rparr>) p = point_ok d p"
  by (cases d) (simp only: point_ok_def custom_def.simps)

lemma rebase_ok: "custom_map_ok m \<Longrightarrow> custom_map_ok (rebase self m)"
proof -
  assume ok: "custom_map_ok m"
  have "arena_ok (rebase self m)" using ok by (auto simp: custom_map_ok_def arena_ok_def list_all_iff)
  moreover have "list_all (def_ok (rebase self m)) (cm_defs (rebase self m))"
    using ok rebase_def_ok unfolding custom_map_ok_def rebase_defs list_all_iff by auto
  moreover have "list_all2 point_ok (cm_defs (rebase self m)) (cm_points m)"
    using ok unfolding custom_map_ok_def rebase_defs by (simp add: list_all2_map1 point_ok_rebase)
  moreover have "map (\<lambda>d. str_at (rebase self m) (cd_name d)) (cm_defs (rebase self m)) = map (\<lambda>d. str_at m (cd_name d)) (cm_defs m)"
    "map (\<lambda>d. (cd_object_type d, cd_instance d)) (cm_defs (rebase self m)) = map (\<lambda>d. (cd_object_type d, cd_instance d)) (cm_defs m)"
    by (simp_all add: rebase_def str_at_def rebase_ptr_def)
  ultimately show ?thesis using ok by (simp add: custom_map_ok_def)
qed

lemma parse_scratch_ok:
  assumes "parse_scratch self scratch csv = Some (Inr m)"
  shows "custom_map_ok m" "cm_self m = self" "cm_defs m \<noteq> []"
proof -
  from assms obtain object row p line m1 where p: "read_row csv 0 = Some (Some (row, p))"
    "parse_rows (custom_map_zero object) csv p 1 = Some (Inr (line, m1))" "cm_defs m1 \<noteq> []" "m = rebase self m1"
    by (auto simp: parse_scratch_def split: option.splits if_splits sum.splits)
  have "custom_map_ok m1"
    using parse_rows_ok [OF p(2) custom_map_ok_zero] read_row_progress(2) [OF p(1)] by simp
  then show "custom_map_ok m" "cm_self m = self" "cm_defs m \<noteq> []"
    using p(3,4) rebase_ok by (simp_all flip: length_greater_0_conv)
qed

lemma parse_scratch_never_fault [simp]: "parse_scratch self scratch csv \<noteq> None"
  by (auto simp: parse_scratch_def simp del: not_None_eq split: option.split sum.split)

lemma custom_map_parse_returns:
  "\<exists>ok target' buf'. custom_map_parse target scratch csv buf = Some (ok, target', buf') \<and>
     (ok \<or> target' = target) \<and> length buf' = length buf"
proof -
  have "length (fail_text b l w) = length b" "fail_text [] l w = []" for b l w by (simp_all add: fail_text_def)
  then show ?thesis
    by (cases target; cases csv) (auto simp: custom_map_parse_def Let_def simp del: not_None_eq split: option.split sum.split)
qed

text \<open>C27 (custom_parse_total): the upload parser is total. Whatever bytes are uploaded, whatever buffers
  are supplied and whether or not memory is available, it returns without reading outside the text;
  it answers true or leaves the map as it was.\<close>
theorem custom_parse_total:
  "\<exists>ok target' buf'. custom_map_parse target scratch csv buf = Some (ok, target', buf') \<and>
     (ok \<or> target' = target) \<and> length buf' = length buf"
  by (rule custom_map_parse_returns)

text \<open>C25 (custom_parse_valid): an accepted map is well formed. It has between one and 128 points whose
  names and object identifiers are unique; every string and state label it points to lies, terminated,
  in the map's own arena (none in the scratch object that is freed); the arena and the state table are
  within their arrays; each point is a read of function 1 to 4 that ends at or before address 65535 and
  whose data type suits its object type, with finite scale and offset and a poll period of 1 s to 1 h.\<close>
theorem custom_parse_valid:
  assumes "custom_map_parse (Some m) scratch csv buf = Some (True, Some m', buf')"
  shows "custom_map_ok m' \<and> cm_self m' = cm_self m \<and> cm_defs m' \<noteq> []"
proof -
  obtain t where c: "csv = Some t" "parse_scratch (cm_self m) scratch t = Some (Inr m')"
    using assms by (cases csv) (auto simp: custom_map_parse_def Let_def split: option.splits sum.splits if_splits)
  from parse_scratch_ok [OF c(2)] show ?thesis by simp
qed

subsection \<open>A small upload\<close>

definition demo_names :: "string list" where
  "demo_names = [''instance'', ''name'', ''object_type'', ''function'', ''address'', ''data_type'', ''byte_order'', ''scale'',
     ''offset'', ''units'', ''bit'', ''states'', ''length'', ''poll_ms'', ''description'']"

lemma plain_fields_text: "list_all field_ok fs \<Longrightarrow> list_all plain fs \<Longrightarrow> fs \<noteq> [] \<Longrightarrow> row_text fs (join fs)"
  by (intro row_text_join) (auto simp: list_all2_same field_text_def list_all_iff)

lemma demo_names_text: "row_text demo_names CUSTOM_CSV_HEADER"
proof -
  have "CUSTOM_CSV_HEADER = join demo_names" by (simp add: CUSTOM_CSV_HEADER_def demo_names_def)
  moreover have "list_all field_ok demo_names"
    by (simp add: demo_names_def field_ok_def printable_def FIELD_BYTES_def)
  moreover have "list_all plain demo_names" by (simp add: demo_names_def plain_def QUOTE_def)
  ultimately show ?thesis using plain_fields_text [of demo_names] by (simp add: demo_names_def)
qed

definition demo_csv :: string where
  "demo_csv = CUSTOM_CSV_HEADER @ [LF] @ demo_row @ [LF]"

definition demo_map :: "nat \<Rightarrow> custom_map" where
  "demo_map self = \<lparr>cm_self = self,
     cm_defs = [\<lparr>cd_object_type = 3, cd_instance = 1, cd_name = (self, 0), cd_description = (self, 3), cd_units = 95,
       cd_state_count = 0, cd_state_text = None, cd_offset = 7, cd_word_count = 1, cd_bit_lsb = 0, cd_bit_width = 0\<rparr>],
     cm_points = [\<lparr>cp_data_type = CUSTOM_BOOL, cp_function = 1, cp_order = 0, cp_length = 0, cp_poll_ms = 1000,
       cp_scale = Fin 1, cp_offset = Fin 0\<rparr>],
     cm_strings = ''a,'' @ [NUL, NUL], cm_states = []\<rparr>"

lemma demo_integers:
  "integer ''1'' 1 4194302 = Some 1" "integer ''1'' 1 4 = Some 1" "integer ''7'' 0 65535 = Some 7"
  "integer ''1000'' 1000 3600000 = Some 1000"
  by (simp_all add: integer_def is_digit_def digit_val_def Let_def)

lemma demo_add_row: "add_row (custom_map_zero self) demo_fields = Inr (demo_map self)"
proof -
  have "row_object (custom_map_zero self) demo_fields = Inr (1, 3)"
    by (simp add: row_object_def custom_map_zero_def demo_fields_def demo_integers object_types_def CUSTOM_MAX_POINTS_def word_le_nat_alt)
  moreover have "row_source 3 demo_fields = Inr (1, 7, CUSTOM_BOOL)"
    by (simp add: row_source_def demo_fields_def demo_integers data_types_def word_le_nat_alt)
  moreover have "row_scaling 3 CUSTOM_BOOL demo_fields = Inr (Fin 1, Fin 0, 95)"
    by (simp add: row_scaling_def demo_fields_def number_def)
  moreover have "row_extent CUSTOM_BOOL 7 demo_fields = Inr (0, 0, 0, 1)"
    by (simp add: row_extent_def demo_fields_def data_type_order)
  moreover have "row_order CUSTOM_BOOL demo_fields = Inr 0"
    by (simp add: row_order_def demo_fields_def)
  moreover have "integer (demo_fields ! 13) 1000 3600000 = Some 1000"
    by (simp add: demo_fields_def demo_integers)
  moreover have "save_names (custom_map_zero self) demo_fields =
      Inr (custom_map_zero self\<lparr>cm_strings := ''a,'' @ [NUL, NUL]\<rparr>, (self, 0), (self, 3))"
    by (simp add: save_names_def save_string_def demo_fields_def custom_map_zero_def CUSTOM_MAX_CSV_BYTES_def)
  moreover have "row_states m 3 demo_fields = Inr (m, None, 0)" for m
    by (simp add: row_states_def demo_fields_def)
  ultimately show ?thesis
    by (simp add: add_row_def demo_map_def custom_map_zero_def)
qed

lemma demo_parse: "parse_scratch self (Some object) demo_csv = Some (Inr (demo_map self))"
proof -
  have h: "header_ok demo_csv"
    unfolding header_ok_def demo_csv_def by (simp add: nth_append)
  have "length demo_names = FIELD_COUNT" by (simp add: demo_names_def FIELD_COUNT_def)
  then have r0: "read_row demo_csv 0 = Some (Some (demo_names, length CUSTOM_CSV_HEADER + 1))"
    using read_fields_text [OF demo_names_text, of "[LF]" "demo_row @ [LF]" "[]"]
    by (simp add: read_row_def demo_csv_def row_end_def)
  have "length demo_fields = FIELD_COUNT" by (simp add: demo_fields_def FIELD_COUNT_def)
  then have r1: "read_row demo_csv (length CUSTOM_CSV_HEADER + 1) = Some (Some (demo_fields, length demo_csv))"
    using read_fields_text [OF demo_row_text, of "[LF]" "[]" "CUSTOM_CSV_HEADER @ [LF]"]
    by (simp add: read_row_def demo_csv_def row_end_def)
  have "parse_rows (custom_map_zero object) demo_csv (length CUSTOM_CSV_HEADER + 1) 1 = Some (Inr (2, demo_map object))"
    using r1 by (subst parse_rows.simps, subst parse_rows.simps) (simp add: demo_add_row, simp add: demo_csv_def)
  then show ?thesis
    using h r0 by (simp add: parse_scratch_def) (simp add: demo_map_def rebase_def rebase_ptr_def)
qed

lemma demo_csv_length: "demo_csv \<noteq> [] \<and> length demo_csv \<le> CUSTOM_MAX_CSV_BYTES"
  by (simp add: demo_csv_def demo_row_def demo_fields_def plain_def QUOTE_def CUSTOM_CSV_HEADER_def CUSTOM_MAX_CSV_BYTES_def)

lemma custom_parse_valid_witness:
  "custom_map_parse (Some (custom_map_zero 7)) (Some 8) (Some demo_csv) [] = Some (True, Some (demo_map 7), []) \<and>
   custom_map_ok (demo_map 7) \<and> cm_defs (demo_map 7) \<noteq> []"
proof -
  have p: "custom_map_parse (Some (custom_map_zero 7)) (Some 8) (Some demo_csv) [] = Some (True, Some (demo_map 7), [])"
    using demo_parse [of 7 8] demo_csv_length by (simp add: custom_map_parse_def custom_map_zero_def)
  from custom_parse_valid [OF p] p show ?thesis by simp
qed

end
