(* ===== verification/Gateway_Config.thy ===== *)
theory Gateway_Config
  imports Custom_Map Ats_Map
begin

section \<open>The gateway settings (main/gateway_config.c, main/gateway_config.h)\<close>

text \<open>
  The settings record, the checks on an uploaded JSON text before it is parsed, and the strict
  reading of the parsed object. The JSON library is a parameter: its parser, and the lookup of a
  member of an object. The character arrays of the record are given by the C strings they hold.
\<close>

subsection \<open>Types\<close>

definition GW_CONFIG_MAX_JSON :: nat where "GW_CONFIG_MAX_JSON = 96 * 1024"
definition GW_ELECTRICAL_POINT_COUNT :: nat where "GW_ELECTRICAL_POINT_COUNT = 24"

datatype gw_profile = GW_PROFILE_FULL | GW_PROFILE_ELECTRICAL | GW_PROFILE_CUSTOM

record gateway_config =
  gc_profile :: gw_profile
  gc_modbus_host :: string
  gc_modbus_port :: u16
  gc_bacnet_port :: u16
  gc_modbus_unit :: u8
  gc_device_instance :: u32
  gc_revision :: u32
  gc_device_name :: string
  gc_expected_firmware :: u16
  gc_expected_mac_fragment :: u16
  gc_csv :: string

datatype cjson =
    CJ_Null | CJ_False | CJ_True | CJ_Number dbl | CJ_String string | CJ_Array "cjson list"
  | CJ_Object "(string \<times> cjson) list"

record cjson_lib =
  cj_parse :: "string \<Rightarrow> cjson option \<times> nat option"    \<comment> \<open>the tree and where the parse ended\<close>
  cj_get :: "cjson \<Rightarrow> string \<Rightarrow> cjson option"          \<comment> \<open>\<open>cJSON_GetObjectItemCaseSensitive\<close>\<close>

text \<open>Whether each allocation of a parse succeeds; a map is known by the identity of its object.\<close>

record config_memory =
  mem_candidate :: bool
  mem_scratch :: "nat option"
  mem_scratch_rows :: "nat option"         \<comment> \<open>inside the first \<open>custom_map_parse\<close>\<close>
  mem_final_rows :: "nat option"           \<comment> \<open>inside the second\<close>

subsection \<open>Profiles and defaults\<close>

fun gateway_profile_id :: "gw_profile \<Rightarrow> string" where
  "gateway_profile_id GW_PROFILE_FULL = ''mpac1500_full''"
| "gateway_profile_id GW_PROFILE_ELECTRICAL = ''mpac1500_electrical''"
| "gateway_profile_id GW_PROFILE_CUSTOM = ''custom''"

definition gateway_config_defaults :: gateway_config where
  "gateway_config_defaults =
     \<lparr>gc_profile = GW_PROFILE_FULL, gc_modbus_host = ''192.0.2.81'', gc_modbus_port = 502, gc_bacnet_port = 47808,
      gc_modbus_unit = 41, gc_device_instance = 75181, gc_revision = 1, gc_device_name = ''Kohler-MPAC1500-Gateway'',
      gc_expected_firmware = 515, gc_expected_mac_fragment = 0, gc_csv = []\<rparr>"

subsection \<open>Checks on the text\<close>

definition BACKSLASH :: char where "BACKSLASH = CHR 0x5C"
definition NUL_ESCAPE :: string where "NUL_ESCAPE = BACKSLASH # ''u0000''"

fun nul_scan :: "string \<Rightarrow> bool" where
  "nul_scan [] = False"
| "nul_scan (c # cs) =
     (if c = BACKSLASH \<and> cs \<noteq> []
      then if take 6 (c # cs) = NUL_ESCAPE then True else nul_scan (tl cs)
      else nul_scan cs)"

definition gateway_json_has_nul :: "string \<Rightarrow> bool" where
  "gateway_json_has_nul s \<longleftrightarrow> NUL \<in> set s \<or> nul_scan s"

fun flat_scan :: "bool \<Rightarrow> nat \<Rightarrow> string \<Rightarrow> bool" where
  "flat_scan quoted depth [] = (\<not> quoted \<and> depth = 0)"
| "flat_scan quoted depth (c # cs) =
     (if quoted \<and> c = BACKSLASH then flat_scan quoted depth (tl cs)
      else if c = QUOTE then flat_scan (\<not> quoted) depth cs
      else if quoted then flat_scan quoted depth cs
      else if c = CHR ''{'' \<or> c = CHR ''['' then (if depth + 1 > 1 then False else flat_scan quoted (depth + 1) cs)
      else if c = CHR ''}'' \<or> c = CHR '']'' then (if depth = 0 then False else flat_scan quoted (depth - 1) cs)
      else flat_scan quoted depth cs)"

definition gateway_json_is_flat :: "string \<Rightarrow> bool" where
  "gateway_json_is_flat s = flat_scan False 0 s"

subsection \<open>Members\<close>

definition fail :: "string \<Rightarrow> string \<Rightarrow> string" where
  \<comment> \<open>the error buffer afterwards; no buffer, or one of size 0, is the empty list\<close>
  "fail buf message = (if buf = [] then [] else put_cstr buf message)"

definition number_field :: "cjson_lib \<Rightarrow> cjson \<Rightarrow> string \<Rightarrow> dbl \<Rightarrow> dbl \<Rightarrow> dbl option" where
  "number_field lib j key low high =
     (case cj_get lib j key of
        Some (CJ_Number v) \<Rightarrow>
          if \<not> is_finite v \<or> dlt v low \<or> dlt high v \<or> \<not> deq (dfloor v) v then None else Some v
      | _ \<Rightarrow> None)"

definition string_field :: "cjson_lib \<Rightarrow> cjson \<Rightarrow> string \<Rightarrow> nat \<Rightarrow> string option" where
  "string_field lib j key capacity =
     (case cj_get lib j key of
        Some (CJ_String v) \<Rightarrow>
          if v = [] \<or> length v \<ge> capacity then None
          else if list_ex (\<lambda>c. (of_char c :: nat) < 32 \<or> (of_char c :: nat) > 126) v then None
          else Some v
      | _ \<Rightarrow> None)"

definition config_keys :: "string list" where
  "config_keys = [''profile'', ''modbus_host'', ''modbus_port'', ''modbus_unit'', ''device_instance'', ''device_name'',
     ''bacnet_port'', ''expected_firmware'', ''expected_mac_fragment'', ''revision'', ''csv'']"

fun key_index :: "string list \<Rightarrow> string \<Rightarrow> nat \<Rightarrow> nat" where
  "key_index [] k n = n"
| "key_index (x # xs) k n = (if k = x then n else key_index xs k (n + 1))"

fun keys_loop :: "u32 \<Rightarrow> (string \<times> cjson) list \<Rightarrow> bool" where
  "keys_loop seen [] = True"
| "keys_loop seen ((k, v) # items) =
     (let n = key_index config_keys k 0 in
      if n = length config_keys \<or> seen AND push_bit n 1 \<noteq> 0 then False
      else keys_loop (seen OR push_bit n 1) items)"

subsection \<open>Reading the fields\<close>

text \<open>The conversion of an integral double to an unsigned type.\<close>

fun dbl_int :: "dbl \<Rightarrow> int" where
  "dbl_int (Fin q) = \<lfloor>q\<rfloor>"
| "dbl_int _ = 0"

definition FIELD :: "cjson_lib \<Rightarrow> cjson \<Rightarrow> string \<Rightarrow> int \<Rightarrow> int \<Rightarrow> string + int" where
  "FIELD lib j name low high =
     (case number_field lib j name (Fin (of_int low)) (Fin (of_int high)) of
        None \<Rightarrow> Inl (''Invalid '' @ name) | Some v \<Rightarrow> Inr (dbl_int v))"

definition field_why :: string where "field_why = ''Missing or invalid configuration field''"

definition profile_field :: "cjson_lib \<Rightarrow> cjson \<Rightarrow> string + gw_profile" where
  "profile_field lib j =
     (case string_field lib j ''profile'' 32 of None \<Rightarrow> Inl field_why | Some p \<Rightarrow>
        if p = ''mpac1500_full'' then Inr GW_PROFILE_FULL
        else if p = ''mpac1500_electrical'' then Inr GW_PROFILE_ELECTRICAL
        else if p = ''custom'' then Inr GW_PROFILE_CUSTOM
        else Inl ''Unknown device profile'')"

text \<open>\<open>inet_pton\<close> gives the address in host order.\<close>

definition unicast :: "u32 \<Rightarrow> bool" where
  "unicast ip \<longleftrightarrow> \<not> (ip = 0 \<or> drop_bit 24 ip = 0 \<or> drop_bit 24 ip \<ge> 224)"

definition host_field :: "cjson_lib \<Rightarrow> (string \<Rightarrow> u32 option) \<Rightarrow> cjson \<Rightarrow> string + string" where
  "host_field lib inet_pton j =
     (case string_field lib j ''modbus_host'' 16 of
        None \<Rightarrow> Inl ''Modbus host must be a unicast IPv4 address''
      | Some h \<Rightarrow> (case inet_pton h of
          None \<Rightarrow> Inl ''Modbus host must be a unicast IPv4 address''
        | Some ip \<Rightarrow> if \<not> unicast ip then Inl ''Modbus host must be a unicast IPv4 address'' else Inr h))"

definition name_why :: string where
  "name_why = ''Device name must be 1-95 printable ASCII characters and cannot begin Gateway-''"

definition name_field :: "cjson_lib \<Rightarrow> cjson \<Rightarrow> string + string" where
  "name_field lib j =
     (case string_field lib j ''device_name'' 96 of None \<Rightarrow> Inl name_why
      | Some n \<Rightarrow> if take 8 n = ''Gateway-'' then Inl name_why else Inr n)"

definition number_fields :: "cjson_lib \<Rightarrow> cjson \<Rightarrow> gateway_config \<Rightarrow> string + gateway_config" where
  "number_fields lib j c =
     (case FIELD lib j ''modbus_port'' 1 65535 of Inl why \<Rightarrow> Inl why | Inr mp \<Rightarrow>
      case FIELD lib j ''modbus_unit'' 0 255 of Inl why \<Rightarrow> Inl why | Inr mu \<Rightarrow>
      case FIELD lib j ''bacnet_port'' 1 65535 of Inl why \<Rightarrow> Inl why | Inr bp \<Rightarrow>
      case FIELD lib j ''device_instance'' 0 4194302 of Inl why \<Rightarrow> Inl why | Inr di \<Rightarrow>
      case FIELD lib j ''expected_firmware'' 0 65535 of Inl why \<Rightarrow> Inl why | Inr ef \<Rightarrow>
      case FIELD lib j ''expected_mac_fragment'' 0 32767 of Inl why \<Rightarrow> Inl why | Inr em \<Rightarrow>
      case FIELD lib j ''revision'' 1 4294967295 of Inl why \<Rightarrow> Inl why | Inr rv \<Rightarrow>
      Inr (c\<lparr>gc_modbus_port := of_int mp, gc_modbus_unit := of_int mu, gc_bacnet_port := of_int bp,
             gc_device_instance := of_int di, gc_expected_firmware := of_int ef,
             gc_expected_mac_fragment := of_int em, gc_revision := of_int rv\<rparr>))"

definition csv_field :: "cjson_lib \<Rightarrow> cjson \<Rightarrow> gateway_config \<Rightarrow> string + gateway_config" where
  "csv_field lib j c =
     (case (case cj_get lib j ''csv'' of
        None \<Rightarrow> Inr c
      | Some (CJ_String v) \<Rightarrow>
          if length v > CUSTOM_MAX_CSV_BYTES then Inl ''CSV exceeds 32768 bytes or is not a string''
          else Inr (c\<lparr>gc_csv := v\<rparr>)
      | Some _ \<Rightarrow> Inl ''CSV exceeds 32768 bytes or is not a string'') of
        Inl why \<Rightarrow> Inl why
      | Inr c \<Rightarrow> if gc_profile c = GW_PROFILE_CUSTOM \<and> gc_csv c = []
                 then Inl ''Upload a CSV point map before selecting Custom CSV'' else Inr c)"

definition read_fields_of :: "cjson_lib \<Rightarrow> (string \<Rightarrow> u32 option) \<Rightarrow> cjson \<Rightarrow> gateway_config \<Rightarrow> string + gateway_config" where
  "read_fields_of lib inet_pton j base =
     (case profile_field lib j of Inl why \<Rightarrow> Inl why | Inr p \<Rightarrow>
      case host_field lib inet_pton j of Inl why \<Rightarrow> Inl why | Inr h \<Rightarrow>
      case name_field lib j of Inl why \<Rightarrow> Inl why | Inr n \<Rightarrow>
      case number_fields lib j (base\<lparr>gc_profile := p, gc_modbus_host := h, gc_device_name := n\<rparr>) of
        Inl why \<Rightarrow> Inl why | Inr c \<Rightarrow> csv_field lib j c)"

subsection \<open>Checking the point maps\<close>

text \<open>
  The checks after the fields. The result is an error with its message, an error the map parser has
  already reported in the buffer, or the buffer to go on with.
\<close>

datatype map_check = Refused string string | Reported string | Checked string

definition check_csv :: "config_memory \<Rightarrow> gateway_config \<Rightarrow> string \<Rightarrow> map_check option" where
  "check_csv mem c buf =
     (if gc_csv c = [] then Some (Checked buf)
      else case mem_scratch mem of
        None \<Rightarrow> Some (Refused ''Out of memory'' buf)
      | Some object \<Rightarrow>
          (case custom_map_parse (Some (custom_map_zero object)) (mem_scratch_rows mem) (Some (gc_csv c)) buf of
             Some (True, Some m, buf') \<Rightarrow>
               if list_ex (\<lambda>d. str_at m (cd_name d) = gc_device_name c) (cm_defs m)
               then Some (Refused ''Device name duplicates a CSV point name'' buf')
               else Some (Checked buf')
           | Some (_, _, buf') \<Rightarrow> Some (Reported buf')
           | None \<Rightarrow> None))"

definition check_presets :: "gateway_config \<Rightarrow> bool" where
  "check_presets c \<longleftrightarrow> gc_profile c = GW_PROFILE_CUSTOM \<or>
     \<not> list_ex (\<lambda>p. pd_name p = gc_device_name c)
         (take (if gc_profile c = GW_PROFILE_FULL then ATS_POINT_COUNT else GW_ELECTRICAL_POINT_COUNT) ats_points)"

text \<open>The end of the parse: both maps are checked, then the caller's map is filled.\<close>

definition finish_parse :: "config_memory \<Rightarrow> gateway_config \<Rightarrow> gateway_config option \<Rightarrow> custom_map \<Rightarrow> string \<Rightarrow>
    (bool \<times> gateway_config option \<times> custom_map option \<times> string) option" where
  "finish_parse mem c out m buf =
     (case check_csv mem c buf of
        None \<Rightarrow> None
      | Some (Refused why buf) \<Rightarrow> Some (False, out, Some m, fail buf why)
      | Some (Reported buf) \<Rightarrow> Some (False, out, Some m, buf)
      | Some (Checked buf) \<Rightarrow>
          if \<not> check_presets c
          then Some (False, out, Some m, fail buf ''Device name duplicates a preset point name'')
          else if gc_csv c = []
          then Some (True, Some c, Some (custom_map_zero (cm_self m)), if buf = [] then [] else buf[0 := NUL])
          else (case custom_map_parse (Some m) (mem_final_rows mem) (Some (gc_csv c)) buf of
                  None \<Rightarrow> None
                | Some (True, m', buf) \<Rightarrow> Some (True, Some c, m', if buf = [] then [] else buf[0 := NUL])
                | Some (False, m', buf) \<Rightarrow> Some (False, out, m', buf)))"

definition json_blank :: "char \<Rightarrow> bool" where
  "json_blank c \<longleftrightarrow> c = CHR '' '' \<or> c = CHR 0x0D \<or> c = CHR 0x0A \<or> c = CHR 0x09"

definition gateway_config_parse ::
    "cjson_lib \<Rightarrow> (string \<Rightarrow> u32 option) \<Rightarrow> config_memory \<Rightarrow> string option \<Rightarrow> gateway_config option \<Rightarrow>
     gateway_config option \<Rightarrow> custom_map option \<Rightarrow> string \<Rightarrow>
     (bool \<times> gateway_config option \<times> custom_map option \<times> string) option" where
  \<comment> \<open>the flag, and \<open>out\<close>, \<open>map\<close> and the error buffer afterwards\<close>
  "gateway_config_parse lib inet_pton mem json base out target buf =
     (let refuse = (\<lambda>why. Some (False, out, target, fail buf why)) in
      case (json, base, out, target) of
        (Some s, Some b, Some old, Some m) \<Rightarrow>
          if s = [] \<or> length s > GW_CONFIG_MAX_JSON \<or> NUL \<in> set s
          then refuse ''Invalid or oversized configuration JSON''
          else if gateway_json_has_nul s then refuse ''NUL characters are not supported''
          else if \<not> gateway_json_is_flat s then refuse ''Configuration must contain scalar fields only''
          else let (tree, end) = cj_parse lib s;
                   at_end = (case end of None \<Rightarrow> False
                             | Some e \<Rightarrow> dropWhile json_blank (drop e s) = [] \<and> e \<le> length s)
               in (case tree of
                     Some (CJ_Object items) \<Rightarrow>
                       if \<not> at_end then refuse ''Expected one complete JSON object''
                       else if \<not> keys_loop 0 items then refuse ''Unknown or duplicate configuration property''
                       else if \<not> mem_candidate mem then refuse ''Out of memory''
                       else (case read_fields_of lib inet_pton (CJ_Object items) b of
                               Inl why \<Rightarrow> refuse why
                             | Inr c \<Rightarrow> finish_parse mem c out m buf)
                   | _ \<Rightarrow> refuse ''Expected one complete JSON object'')
      | _ \<Rightarrow> refuse ''Invalid or oversized configuration JSON'')"

subsection \<open>Writing the settings\<close>

definition config_items :: "gateway_config \<Rightarrow> bool \<Rightarrow> (string \<times> cjson) list" where
  "config_items c include_csv =
     [(''profile'', CJ_String (gateway_profile_id (gc_profile c))),
      (''modbus_host'', CJ_String (gc_modbus_host c)), (''device_name'', CJ_String (gc_device_name c)),
      (''modbus_port'', CJ_Number (dbl_of_int (uint (gc_modbus_port c)))),
      (''modbus_unit'', CJ_Number (dbl_of_int (uint (gc_modbus_unit c)))),
      (''device_instance'', CJ_Number (dbl_of_int (uint (gc_device_instance c)))),
      (''bacnet_port'', CJ_Number (dbl_of_int (uint (gc_bacnet_port c)))),
      (''expected_firmware'', CJ_Number (dbl_of_int (uint (gc_expected_firmware c)))),
      (''expected_mac_fragment'', CJ_Number (dbl_of_int (uint (gc_expected_mac_fragment c)))),
      (''revision'', CJ_Number (dbl_of_int (uint (gc_revision c))))] @
     (if include_csv then [(''csv'', CJ_String (gc_csv c))] else [])"

text \<open>\<open>mem 0\<close> is the allocation of the object, \<open>mem (Suc k)\<close> the addition of its \<open>k\<close>-th member.\<close>

definition gateway_config_json :: "(nat \<Rightarrow> bool) \<Rightarrow> gateway_config \<Rightarrow> bool \<Rightarrow> cjson option" where
  "gateway_config_json mem c include_csv =
     (let items = config_items c include_csv in
      if mem 0 \<and> list_all (\<lambda>k. mem (Suc k)) [0..<length items] then Some (CJ_Object items) else None)"

section \<open>Lemmas\<close>

subsection \<open>Flat texts\<close>

text \<open>The body of a string literal: plain characters and escaped pairs.\<close>

inductive literal_body :: "string \<Rightarrow> bool" where
  body_Nil: "literal_body []"
| body_char: "c \<noteq> BACKSLASH \<Longrightarrow> c \<noteq> QUOTE \<Longrightarrow> literal_body b \<Longrightarrow> literal_body (c # b)"
| body_escape: "literal_body b \<Longrightarrow> literal_body (BACKSLASH # c # b)"

definition opens :: "char \<Rightarrow> bool" where "opens c \<longleftrightarrow> c = CHR ''{'' \<or> c = CHR ''[''"
definition closes :: "char \<Rightarrow> bool" where "closes c \<longleftrightarrow> c = CHR ''}'' \<or> c = CHR '']''"

text \<open>Text without structure: characters that are no brackets, and complete string literals.\<close>

inductive scalars :: "string \<Rightarrow> bool" where
  scalars_Nil: "scalars []"
| scalars_char: "c \<noteq> QUOTE \<Longrightarrow> \<not> opens c \<Longrightarrow> \<not> closes c \<Longrightarrow> scalars s \<Longrightarrow> scalars (c # s)"
| scalars_literal: "literal_body b \<Longrightarrow> scalars s \<Longrightarrow> scalars (QUOTE # b @ QUOTE # s)"

text \<open>A sequence of bracketed groups without nesting.\<close>

inductive flat_text :: "string \<Rightarrow> bool" where
  flat_scalars: "scalars s \<Longrightarrow> flat_text s"
| flat_group: "scalars s \<Longrightarrow> opens l \<Longrightarrow> scalars t \<Longrightarrow> closes r \<Longrightarrow> flat_text u \<Longrightarrow> flat_text (s @ l # t @ r # u)"

inductive_simps literal_body_Cons: "literal_body (c # b)"
inductive_simps scalars_Cons: "scalars (c # s)"
inductive_cases flat_textE: "flat_text s"

lemma special_chars [simp]: "BACKSLASH \<noteq> QUOTE" "QUOTE \<noteq> BACKSLASH" "\<not> opens QUOTE" "\<not> closes QUOTE"
  "opens c \<Longrightarrow> c \<noteq> QUOTE" "closes c \<Longrightarrow> c \<noteq> QUOTE" "opens c \<Longrightarrow> \<not> closes c"
  by (auto simp: BACKSLASH_def QUOTE_def opens_def closes_def)

lemma flat_scan_Cons:
  "flat_scan False d (c # s) = (if c = QUOTE then flat_scan True d s
     else if opens c then d = 0 \<and> flat_scan False 1 s
     else if closes c then d \<noteq> 0 \<and> flat_scan False (d - 1) s
     else flat_scan False d s)"
  by (auto simp: opens_def closes_def)

lemma flat_scan_quoted:
  "flat_scan True d [] = False"
  "flat_scan True d (QUOTE # s) = flat_scan False d s"
  "flat_scan True d [BACKSLASH] = False"
  "flat_scan True d (BACKSLASH # e # s) = flat_scan True d s"
  "c \<noteq> QUOTE \<Longrightarrow> c \<noteq> BACKSLASH \<Longrightarrow> flat_scan True d (c # s) = flat_scan True d s"
  by simp_all

declare flat_scan.simps(2) [simp del]
declare flat_scan_Cons [simp] flat_scan_quoted [simp]

text \<open>The rest of a literal, and the scan behind its closing quote.\<close>

definition literal_end :: "nat \<Rightarrow> string \<Rightarrow> bool" where
  "literal_end d s \<longleftrightarrow> (\<exists>b r. literal_body b \<and> s = b @ QUOTE # r \<and> flat_scan False d r)"

lemma literal_endI: "literal_body b \<Longrightarrow> flat_scan False d r \<Longrightarrow> literal_end d (b @ QUOTE # r)"
  by (auto simp: literal_end_def)

lemma literal_end_simps:
  "literal_end d [] = False"
  "literal_end d (QUOTE # s) = flat_scan False d s"
  "literal_end d [BACKSLASH] = False"
  "literal_end d (BACKSLASH # e # s) = literal_end d s"
  "c \<noteq> QUOTE \<Longrightarrow> c \<noteq> BACKSLASH \<Longrightarrow> literal_end d (c # s) = literal_end d s"
proof -
  show "literal_end d [] = False" by (simp add: literal_end_def)
  show "literal_end d (QUOTE # s) = flat_scan False d s"
    using literal_endI [OF body_Nil, of d s] by (auto simp: literal_end_def Cons_eq_append_conv literal_body_Cons)
  show "literal_end d [BACKSLASH] = False"
    by (auto simp: literal_end_def Cons_eq_append_conv)
  show "literal_end d (BACKSLASH # e # s) = literal_end d s"
  proof
    assume "literal_end d (BACKSLASH # e # s)"
    then obtain b r where b: "literal_body b" "BACKSLASH # e # s = b @ QUOTE # r" "flat_scan False d r"
      by (auto simp: literal_end_def)
    from b(1) show "literal_end d s" using b(2,3)
      by cases (auto simp: literal_endI)
  next
    assume "literal_end d s"
    then show "literal_end d (BACKSLASH # e # s)"
      using literal_endI [OF body_escape] by (fastforce simp: literal_end_def)
  qed
  show "literal_end d (c # s) = literal_end d s" if c: "c \<noteq> QUOTE" "c \<noteq> BACKSLASH"
  proof
    assume "literal_end d (c # s)"
    then obtain b r where b: "literal_body b" "c # s = b @ QUOTE # r" "flat_scan False d r"
      by (auto simp: literal_end_def)
    from b(1) show "literal_end d s" using b(2,3) c
      by cases (auto simp: literal_endI)
  next
    assume "literal_end d s"
    then show "literal_end d (c # s)"
      using literal_endI [OF body_char [OF c(2,1)]] by (fastforce simp: literal_end_def)
  qed
qed

lemma scan_literal: "flat_scan True d s = literal_end d s"
proof (induction s rule: length_induct)
  case (1 s)
  show ?case
  proof (cases s)
    case (Cons c cs)
    consider "c = QUOTE" | "c = BACKSLASH" "cs = []" | e es where "c = BACKSLASH" "cs = e # es" | "c \<noteq> QUOTE" "c \<noteq> BACKSLASH"
      by (cases cs) auto
    then show ?thesis using 1 Cons by cases (simp_all add: literal_end_simps)
  qed (simp add: literal_end_simps)
qed

text \<open>At a positive depth the scan looks for the closes bracket, at depth 0 for a group or the end.\<close>

lemma scan_scalars: "scalars t \<Longrightarrow> flat_scan False d (t @ s) = flat_scan False d s"
proof (induction rule: scalars.induct)
  case (scalars_char c t)
  then show ?case by (simp add: flat_scan_Cons)
next
  case (scalars_literal b t)
  have "flat_scan True d (b @ QUOTE # t @ s) = flat_scan False d (t @ s)" if "literal_body b"
    using that by (induction b rule: literal_body.induct) simp_all
  then show ?case using scalars_literal by (simp add: flat_scan_Cons)
qed simp

lemma scan_split: "flat_scan False d s \<Longrightarrow> \<exists>t u. scalars t \<and> s = t @ u \<and>
    (u = [] \<and> d = 0 \<or> (\<exists>c r. u = c # r \<and> (opens c \<and> d = 0 \<and> flat_scan False 1 r \<or> closes c \<and> d \<noteq> 0 \<and> flat_scan False (d - 1) r)))"
proof (induction s rule: length_induct)
  case (1 s)
  let ?P = "\<lambda>s. \<exists>t u. scalars t \<and> s = t @ u \<and>
    (u = [] \<and> d = 0 \<or> (\<exists>c r. u = c # r \<and> (opens c \<and> d = 0 \<and> flat_scan False 1 r \<or> closes c \<and> d \<noteq> 0 \<and> flat_scan False (d - 1) r)))"
  have IH: "?P s'" if "length s' < length s" "flat_scan False d s'" for s'
    using 1(1) that by blast
  show ?case
  proof (cases s)
    case Nil
    then show ?thesis using 1(2) scalars_Nil by auto
  next
    case (Cons c cs)
    consider "c = QUOTE" | "opens c \<or> closes c" | "c \<noteq> QUOTE" "\<not> opens c" "\<not> closes c" by blast
    then show ?thesis
    proof cases
      case 1
      then obtain b r where b: "literal_body b" "cs = b @ QUOTE # r" "flat_scan False d r"
        using \<open>flat_scan False d s\<close> Cons by (auto simp: scan_literal literal_end_def)
      obtain t u where t: "scalars t" "r = t @ u" "u = [] \<and> d = 0 \<or> (\<exists>c r. u = c # r \<and>
          (opens c \<and> d = 0 \<and> flat_scan False 1 r \<or> closes c \<and> d \<noteq> 0 \<and> flat_scan False (d - 1) r))"
        using IH [of r] b Cons by auto
      then show ?thesis using 1 b Cons scalars_literal [OF b(1) t(1)]
        by (intro exI [of _ "QUOTE # b @ QUOTE # t"] exI [of _ u]) simp
    next
      case 2
      then show ?thesis using \<open>flat_scan False d s\<close> Cons scalars_Nil
        by (intro exI [of _ "[]"] exI [of _ s]) (auto simp: flat_scan_Cons split: if_splits)
    next
      case 3
      then obtain t u where t: "scalars t" "cs = t @ u" "u = [] \<and> d = 0 \<or> (\<exists>c r. u = c # r \<and>
          (opens c \<and> d = 0 \<and> flat_scan False 1 r \<or> closes c \<and> d \<noteq> 0 \<and> flat_scan False (d - 1) r))"
        using IH [of cs] \<open>flat_scan False d s\<close> Cons by (auto simp: flat_scan_Cons)
      then show ?thesis using 3 Cons scalars_char [OF 3 t(1)]
        by (intro exI [of _ "c # t"] exI [of _ u]) simp
    qed
  qed
qed

lemma flat_text_scan: "flat_text s \<Longrightarrow> flat_scan False 0 s"
proof (induction rule: flat_text.induct)
  case (flat_scalars s)
  then show ?case using scan_scalars [of s 0 "[]"] by simp
next
  case (flat_group s l t r u)
  then show ?case by (auto simp: scan_scalars flat_scan_Cons)
qed

lemma scan_flat_text: "flat_scan False 0 s \<Longrightarrow> flat_text s"
proof (induction s rule: length_induct)
  case (1 s)
  obtain t u where t: "scalars t" "s = t @ u" "u = [] \<or> (\<exists>c r. u = c # r \<and> opens c \<and> flat_scan False 1 r)"
    using scan_split [OF 1(2)] by auto
  show ?case
  proof (cases u)
    case Nil
    then show ?thesis using t flat_scalars by simp
  next
    case (Cons c r)
    then have c: "opens c" "flat_scan False 1 r" using t by auto
    obtain t' c' r' where r: "scalars t'" "r = t' @ c' # r'" "closes c'" "flat_scan False 0 r'"
      using scan_split [OF c(2)] by auto
    have "flat_text r'" using 1(1) r(4) by (simp add: t(2) Cons r(2))
    then show ?thesis using flat_group [OF t(1) c(1) r(1,3)] by (simp add: t(2) Cons r(2))
  qed
qed

subsection \<open>The identity of the parsed object\<close>

text \<open>Parsing does not depend on which object holds the scratch map: everything commutes with moving
  the pointers to another object.\<close>

lemma find_map: "find P (map f xs) = map_option f (find (P \<circ> f) xs)"
  by (induction xs) simp_all

lemma save_string_rebase:
  "save_string (rebase v m) s = map_option (map_prod (rebase v) (rebase_ptr v)) (save_string m s)"
  by (cases m) (auto simp: save_string_def Let_def rebase_def rebase_ptr_def)

lemma row_object_rebase: "row_object (rebase v m) row = row_object m row"
proof -
  have "str_at (rebase v m) (rebase_ptr v p) = str_at m p" for p by simp
  then show ?thesis
    unfolding row_object_def rebase_defs find_map
    by (auto simp: comp_def option.map_comp split: option.split if_split)
qed

lemma save_names_rebase:
  "save_names (rebase v m) row = map_sum id (map_prod (rebase v) (map_prod (rebase_ptr v) (rebase_ptr v))) (save_names m row)"
  by (auto simp: save_names_def save_string_rebase split: option.split)

lemma rebase_add_state: "(rebase v m)\<lparr>cm_states := map (rebase_ptr v) (cm_states m) @ [rebase_ptr v p]\<rparr> = rebase v (m\<lparr>cm_states := cm_states m @ [p]\<rparr>)"
  by (cases m) (simp add: rebase_def)

lemma state_loop_rebase:
  "base + n \<le> length (cm_states m) \<Longrightarrow>
   state_loop (rebase v m) base n s = map_sum id (map_prod (rebase v) id) (state_loop m base n s)"
proof (induction m base n s rule: state_loop.induct)
  case (1 m base n s)
  have ex: "list_ex (\<lambda>i. str_at (rebase v m) (map (rebase_ptr v) (cm_states m) ! (base + i)) = l) [0..<n] =
      list_ex (\<lambda>i. str_at m (cm_states m ! (base + i)) = l) [0..<n]" for l
    using 1(2) by (auto simp: list_ex_iff)
  let ?label = "takeWhile (\<lambda>c. c \<noteq> PIPE) s" and ?rest = "dropWhile (\<lambda>c. c \<noteq> PIPE) s"
  let ?bad = "?label = [] \<or> length ?label > 63 \<or> n = CUSTOM_MAX_STATES \<or> length (cm_states m) = CUSTOM_MAX_TOTAL_STATES"
  let ?dup = "list_ex (\<lambda>i. str_at m (cm_states m ! (base + i)) = ?label) [0..<n]"
  show ?case
  proof (cases "\<not> ?bad \<and> \<not> ?dup \<and> save_string m ?label \<noteq> None \<and> ?rest \<noteq> []")
    case True
    then obtain m' p where sv: "save_string m ?label = Some (m', p)" by auto
    let ?m = "m'\<lparr>cm_states := cm_states m' @ [p]\<rparr>"
    have st: "cm_states m' = cm_states m" using sv by (auto simp: save_string_def Let_def split: if_splits)
    have "state_loop (rebase v ?m) base (n + 1) (tl ?rest) = map_sum id (map_prod (rebase v) id) (state_loop ?m base (n + 1) (tl ?rest))"
      by (rule 1(1) [OF refl refl _ _ sv refl refl]) (use True 1(2) st in simp_all)
    then show ?thesis using True sv
      by (subst (1 2) state_loop.simps) (auto simp: Let_def ex save_string_rebase rebase_add_state)
  next
    case False
    then show ?thesis
      by (subst (1 2) state_loop.simps)
         (auto simp: Let_def ex save_string_rebase rebase_add_state split: option.split)
  qed
qed

lemma row_states_rebase:
  "row_states (rebase v m) ot row =
   map_sum id (map_prod (rebase v) (map_prod (map_option (rebase_ptr v)) id)) (row_states m ot row)"
  using state_loop_rebase [of "length (cm_states m)" 0 m v]
  by (auto simp: row_states_def rebase_ptr_def split: sum.split)

lemma rebase_add_row:
  "(rebase v m)\<lparr>cm_defs := cm_defs (rebase v m) @ [\<lparr>cd_object_type = ot, cd_instance = inst, cd_name = rebase_ptr v name,
      cd_description = rebase_ptr v description, cd_units = units, cd_state_count = n,
      cd_state_text = map_option (rebase_ptr v) st, cd_offset = addr, cd_word_count = wc, cd_bit_lsb = lsb, cd_bit_width = width\<rparr>],
    cm_points := cm_points m @ [p]\<rparr> =
   rebase v (m\<lparr>cm_defs := cm_defs m @ [\<lparr>cd_object_type = ot, cd_instance = inst, cd_name = name,
      cd_description = description, cd_units = units, cd_state_count = n, cd_state_text = st, cd_offset = addr,
      cd_word_count = wc, cd_bit_lsb = lsb, cd_bit_width = width\<rparr>], cm_points := cm_points m @ [p]\<rparr>)"
  by (cases m) (simp add: rebase_def)

lemma add_row_rebase: "add_row (rebase v m) row = map_sum id (rebase v) (add_row m row)"
proof (cases "save_names m row")
  case (Inl e)
  then show ?thesis by (simp add: add_row_def row_object_rebase save_names_rebase split: sum.split option.split)
next
  case (Inr r)
  obtain m' name d where r: "r = (m', name, d)" by (rule prod_cases3)
  show ?thesis
  proof (cases "\<exists>e ot. row_states m' ot row = Inl e")
    case True
    then show ?thesis using Inr r
      by (simp add: add_row_def row_object_rebase save_names_rebase row_states_rebase rebase_add_row
           split: sum.split option.split prod.split)
  next
    case False
    then show ?thesis using Inr r
      by (simp add: add_row_def row_object_rebase save_names_rebase row_states_rebase rebase_add_row
           split: sum.split option.split prod.split)
  qed
qed

lemma parse_rows_rebase:
  "parse_rows (rebase v m) csv pos line = map_option (map_sum id (map_prod id (rebase v))) (parse_rows m csv pos line)"
proof (induction m csv pos line rule: parse_rows.induct)
  case (1 m csv pos line)
  show ?case
  proof (cases "\<exists>row p m'. pos < length csv \<and> read_row csv pos = Some (Some (row, p)) \<and> add_row m row = Inr m'")
    case True
    then obtain row p m' where r: "pos < length csv" "read_row csv pos = Some (Some (row, p))" "add_row m row = Inr m'"
      by blast
    from 1 [OF r(1,2) refl refl r(3)] show ?thesis
      by (subst (1 2) parse_rows.simps) (simp add: r add_row_rebase id_def)
  next
    case False
    then show ?thesis
      by (subst (1 2) parse_rows.simps) (auto simp: add_row_rebase split: option.split sum.split)
  qed
qed

lemma rebase_ptr_ptr [simp]: "rebase_ptr v (rebase_ptr w p) = rebase_ptr v p"
  by (simp add: rebase_ptr_def)

lemma rebase_rebase [simp]: "rebase v (rebase w m) = rebase v m"
  by (cases m) (auto simp: rebase_def option.map_comp comp_def)

lemma rebase_zero: "rebase v (custom_map_zero w) = custom_map_zero v"
  by (simp add: rebase_def custom_map_zero_def)

lemma parse_scratch_identity:
  assumes "parse_scratch s1 (Some a) csv = Some (Inr m)"
  shows "parse_scratch s2 (Some b) csv = Some (Inr (rebase s2 m))"
proof -
  obtain row p line m1 where p: "header_ok csv" "read_row csv 0 = Some (Some (row, p))"
    "parse_rows (custom_map_zero a) csv p 1 = Some (Inr (line, m1))" "cm_defs m1 \<noteq> []" "m = rebase s1 m1"
    using assms by (auto simp: parse_scratch_def split: option.splits if_splits sum.splits)
  have "parse_rows (custom_map_zero b) csv p 1 = Some (Inr (line, rebase b m1))"
    using p(3) parse_rows_rebase [of b "custom_map_zero a" csv p 1] by (simp add: rebase_zero)
  moreover have "cm_defs (rebase b m1) \<noteq> []" using p(4) by (simp add: rebase_def)
  ultimately show ?thesis using p by (simp add: parse_scratch_def)
qed

subsection \<open>Accepted fields\<close>

definition printable_text :: "string \<Rightarrow> bool" where
  "printable_text s \<longleftrightarrow> (\<forall>c \<in> set s. 32 \<le> (of_char c :: nat) \<and> (of_char c :: nat) \<le> 126)"

lemma string_field_iff:
  "string_field lib j key cap = Some v \<longleftrightarrow>
     cj_get lib j key = Some (CJ_String v) \<and> v \<noteq> [] \<and> length v < cap \<and> printable_text v"
  by (auto simp: string_field_def printable_text_def list_ex_iff not_less not_le split: option.split cjson.split)

lemma number_field_iff:
  "number_field lib j key (Fin (of_int low)) (Fin (of_int high)) = Some v \<longleftrightarrow>
     (\<exists>i. v = Fin (of_int i) \<and> low \<le> i \<and> i \<le> high \<and> cj_get lib j key = Some (CJ_Number v))"
proof -
  have "\<not> (\<not> is_finite v \<or> dlt v (Fin (of_int low)) \<or> dlt (Fin (of_int high)) v \<or> \<not> deq (dfloor v) v) \<longleftrightarrow>
      (\<exists>i. v = Fin (of_int i) \<and> low \<le> i \<and> i \<le> high)" for v
  proof (cases v)
    case (Fin q)
    show ?thesis
    proof (cases "of_int \<lfloor>q\<rfloor> = q")
      case True
      then obtain i where "q = of_int i" by metis
      then show ?thesis by (auto simp: Fin not_less)
    next
      case False
      then show ?thesis by (auto simp: Fin)
    qed
  qed auto
  then show ?thesis by (auto simp: number_field_def split: option.split cjson.split if_split_asm)
qed

lemma FIELD_iff: "FIELD lib j name low high = Inr i \<longleftrightarrow>
    low \<le> i \<and> i \<le> high \<and> cj_get lib j name = Some (CJ_Number (Fin (of_int i)))"
  by (auto simp: FIELD_def number_field_iff split: option.split)

text \<open>What every accepted record satisfies.\<close>

definition config_ok :: "(string \<Rightarrow> u32 option) \<Rightarrow> gateway_config \<Rightarrow> bool" where
  "config_ok inet_pton c \<longleftrightarrow>
     printable_text (gc_modbus_host c) \<and> gc_modbus_host c \<noteq> [] \<and> length (gc_modbus_host c) < 16 \<and>
     (\<exists>ip. inet_pton (gc_modbus_host c) = Some ip \<and> unicast ip) \<and>
     printable_text (gc_device_name c) \<and> gc_device_name c \<noteq> [] \<and> length (gc_device_name c) < 96 \<and>
     take 8 (gc_device_name c) \<noteq> ''Gateway-'' \<and>
     gc_modbus_port c \<noteq> 0 \<and> gc_bacnet_port c \<noteq> 0 \<and> unat (gc_device_instance c) \<le> 4194302 \<and>
     unat (gc_expected_mac_fragment c) \<le> 32767 \<and> gc_revision c \<noteq> 0 \<and>
     length (gc_csv c) \<le> CUSTOM_MAX_CSV_BYTES \<and> (gc_profile c = GW_PROFILE_CUSTOM \<longrightarrow> gc_csv c \<noteq> [])"

lemma number_fields_ok:
  assumes "number_fields lib j c = Inr c'"
  shows "gc_profile c' = gc_profile c" "gc_modbus_host c' = gc_modbus_host c" "gc_device_name c' = gc_device_name c"
    "gc_csv c' = gc_csv c" "gc_modbus_port c' \<noteq> 0" "gc_bacnet_port c' \<noteq> 0" "gc_revision c' \<noteq> 0"
    "unat (gc_device_instance c') \<le> 4194302" "unat (gc_expected_mac_fragment c') \<le> 32767"
proof -
  obtain mp mu bp di ef em rv where f: "FIELD lib j ''modbus_port'' 1 65535 = Inr mp"
    "FIELD lib j ''bacnet_port'' 1 65535 = Inr bp" "FIELD lib j ''device_instance'' 0 4194302 = Inr di"
    "FIELD lib j ''expected_mac_fragment'' 0 32767 = Inr em" "FIELD lib j ''revision'' 1 4294967295 = Inr rv"
    and c': "c' = c\<lparr>gc_modbus_port := of_int mp, gc_modbus_unit := of_int mu, gc_bacnet_port := of_int bp,
             gc_device_instance := of_int di, gc_expected_firmware := of_int ef,
             gc_expected_mac_fragment := of_int em, gc_revision := of_int rv\<rparr>"
    using assms by (auto simp: number_fields_def)
  show "gc_profile c' = gc_profile c" "gc_modbus_host c' = gc_modbus_host c" "gc_device_name c' = gc_device_name c"
    "gc_csv c' = gc_csv c"
    by (simp_all add: c')
  have u: "unat (of_int i :: 'a::len word) = nat i" if "0 \<le> i" "i < 2 ^ LENGTH('a)" for i
    using that by (simp add: unat_eq_nat_uint uint_word_of_int take_bit_int_eq_self)
  have "unat (gc_modbus_port c') = nat mp" "unat (gc_bacnet_port c') = nat bp" "unat (gc_revision c') = nat rv"
    "unat (gc_device_instance c') = nat di" "unat (gc_expected_mac_fragment c') = nat em"
    using f by (auto simp: FIELD_iff c' u)
  then show "gc_modbus_port c' \<noteq> 0" "gc_bacnet_port c' \<noteq> 0" "gc_revision c' \<noteq> 0"
    "unat (gc_device_instance c') \<le> 4194302" "unat (gc_expected_mac_fragment c') \<le> 32767"
    using f by (auto simp: FIELD_iff)
qed

lemma read_fields_ok:
  assumes "read_fields_of lib inet_pton j base = Inr c" "length (gc_csv base) \<le> CUSTOM_MAX_CSV_BYTES"
  shows "config_ok inet_pton c"
proof -
  obtain p h n c1 where f: "profile_field lib j = Inr p" "host_field lib inet_pton j = Inr h" "name_field lib j = Inr n"
    "number_fields lib j (base\<lparr>gc_profile := p, gc_modbus_host := h, gc_device_name := n\<rparr>) = Inr c1"
    "csv_field lib j c1 = Inr c"
    using assms(1) by (auto simp: read_fields_of_def)
  note N = number_fields_ok [OF f(4), simplified]
  have csv: "c = c1\<lparr>gc_csv := gc_csv c\<rparr>" "length (gc_csv c) \<le> CUSTOM_MAX_CSV_BYTES"
      "gc_profile c = GW_PROFILE_CUSTOM \<longrightarrow> gc_csv c \<noteq> []"
    using f(5) assms(2) N(4) by (auto simp: csv_field_def split: option.splits cjson.splits if_splits)
  have h: "printable_text h" "h \<noteq> []" "length h < 16" "\<exists>ip. inet_pton h = Some ip \<and> unicast ip"
    using f(2) by (auto simp: host_field_def string_field_iff)
  have n: "printable_text n" "n \<noteq> []" "length n < 96" "take 8 n \<noteq> ''Gateway-''"
    using f(3) by (auto simp: name_field_def string_field_iff)
  have eqs: "gc_modbus_host c = h" "gc_device_name c = n" "gc_modbus_port c = gc_modbus_port c1"
    "gc_bacnet_port c = gc_bacnet_port c1" "gc_revision c = gc_revision c1" "gc_device_instance c = gc_device_instance c1"
    "gc_expected_mac_fragment c = gc_expected_mac_fragment c1"
    using N by (subst csv(1), simp)+
  show ?thesis using h n N csv by (simp add: config_ok_def eqs)
qed

subsection \<open>Accepted uploads\<close>

lemma map_parse_True:
  "custom_map_parse (Some m) scratch (Some csv) buf = Some (True, t', buf') \<Longrightarrow>
    \<exists>m'. t' = Some m' \<and> parse_scratch (cm_self m) scratch csv = Some (Inr m') \<and>
      csv \<noteq> [] \<and> length csv \<le> CUSTOM_MAX_CSV_BYTES"
  by (auto simp: custom_map_parse_def Let_def split: option.splits sum.splits if_splits)

definition point_names :: "custom_map \<Rightarrow> string set" where
  "point_names m = (\<lambda>d. str_at m (cd_name d)) ` set (cm_defs m)"

lemma point_names_rebase: "point_names (rebase v m) = point_names m"
  by (auto simp: point_names_def rebase_defs image_image)

definition preset_names :: "gw_profile \<Rightarrow> string set" where
  "preset_names p = pd_name ` set (case p of GW_PROFILE_FULL \<Rightarrow> take ATS_POINT_COUNT ats_points
     | GW_PROFILE_ELECTRICAL \<Rightarrow> take GW_ELECTRICAL_POINT_COUNT ats_points | GW_PROFILE_CUSTOM \<Rightarrow> [])"

lemma check_presets_iff: "check_presets c \<longleftrightarrow> gc_device_name c \<notin> preset_names (gc_profile c)"
  by (cases "gc_profile c") (fastforce simp: check_presets_def preset_names_def list_ex_iff image_iff)+

text \<open>The map an accepted upload leaves behind.\<close>

definition map_from :: "gateway_config \<Rightarrow> custom_map \<Rightarrow> custom_map \<Rightarrow> bool" where
  "map_from c m m' \<longleftrightarrow> cm_self m' = cm_self m \<and> gc_device_name c \<notin> point_names m' \<and>
     (if gc_csv c = [] then m' = custom_map_zero (cm_self m)
      else custom_map_ok m' \<and> cm_defs m' \<noteq> [] \<and> (\<exists>scratch. parse_scratch (cm_self m) scratch (gc_csv c) = Some (Inr m')))"

lemma check_csv_Checked:
  assumes "check_csv mem c buf = Some (Checked buf')" "gc_csv c \<noteq> []"
  shows "\<exists>object rows m. mem_scratch mem = Some object \<and> mem_scratch_rows mem = Some rows \<and>
    parse_scratch object (Some rows) (gc_csv c) = Some (Inr m) \<and> gc_device_name c \<notin> point_names m"
proof -
  obtain object m buf2 where p: "mem_scratch mem = Some object"
    "custom_map_parse (Some (custom_map_zero object)) (mem_scratch_rows mem) (Some (gc_csv c)) buf = Some (True, Some m, buf2)"
    "\<not> list_ex (\<lambda>d. str_at m (cd_name d) = gc_device_name c) (cm_defs m)"
    using assms by (auto simp: check_csv_def split: option.splits bool.splits if_splits)
  then have "parse_scratch object (mem_scratch_rows mem) (gc_csv c) = Some (Inr m)"
    by (auto dest: map_parse_True simp: custom_map_zero_def)
  moreover from this obtain rows where "mem_scratch_rows mem = Some rows"
    by (cases "mem_scratch_rows mem") (auto simp: parse_scratch_def)
  ultimately show ?thesis using p by (auto simp: point_names_def list_ex_iff)
qed

lemma finish_parse_True:
  assumes "finish_parse mem c out m buf = Some (True, out', target', buf')"
  shows "out' = Some c \<and> check_presets c \<and> (\<exists>m'. target' = Some m' \<and> map_from c m m')"
proof -
  obtain buf1 where ch: "check_csv mem c buf = Some (Checked buf1)" and pr: "check_presets c"
    using assms by (auto simp: finish_parse_def split: option.splits map_check.splits if_splits)
  show ?thesis
  proof (cases "gc_csv c = []")
    case True
    then show ?thesis using assms ch pr
      by (auto simp: finish_parse_def map_from_def point_names_def custom_map_zero_def)
  next
    case False
    obtain buf2 where f: "custom_map_parse (Some m) (mem_final_rows mem) (Some (gc_csv c)) buf1 = Some (True, target', buf2)"
      "out' = Some c"
      using assms ch pr False by (auto simp: finish_parse_def split: option.splits bool.splits)
    obtain m' where m': "target' = Some m'" "parse_scratch (cm_self m) (mem_final_rows mem) (gc_csv c) = Some (Inr m')"
      using map_parse_True [OF f(1)] by blast
    obtain object rows m0 where m0: "parse_scratch object (Some rows) (gc_csv c) = Some (Inr m0)" "gc_device_name c \<notin> point_names m0"
      using check_csv_Checked [OF ch False] by blast
    obtain final where "mem_final_rows mem = Some final"
      using m'(2) by (cases "mem_final_rows mem") (auto simp: parse_scratch_def)
    then have "m' = rebase (cm_self m) m0"
      using parse_scratch_identity [OF m0(1), of "cm_self m" final] m'(2) by simp
    then have "gc_device_name c \<notin> point_names m'" using m0(2) by (simp add: point_names_rebase)
    then show ?thesis using parse_scratch_ok [OF m'(2)] m' f(2) pr False by (auto simp: map_from_def)
  qed
qed

lemma check_csv_total: "\<exists>r. check_csv mem c buf = Some r \<and>
    (case r of Refused why b \<Rightarrow> length b = length buf | Reported b \<Rightarrow> length b = length buf | Checked b \<Rightarrow> length b = length buf)"
proof (cases "gc_csv c = [] \<or> mem_scratch mem = None")
  case True
  then show ?thesis by (auto simp: check_csv_def split: option.split)
next
  case False
  then obtain object where o: "mem_scratch mem = Some object" by auto
  obtain ok t b where r: "custom_map_parse (Some (custom_map_zero object)) (mem_scratch_rows mem) (Some (gc_csv c)) buf = Some (ok, t, b)"
    "ok \<or> t = Some (custom_map_zero object)" "length b = length buf"
    using custom_map_parse_returns [of "Some (custom_map_zero object)" "mem_scratch_rows mem" "Some (gc_csv c)" buf] by blast
  moreover have "\<exists>m. t = Some m" if ok using map_parse_True r that by fastforce
  ultimately show ?thesis using False o by (cases ok) (auto simp: check_csv_def)
qed

lemma fail_length [simp]: "length (fail buf why) = length buf"
  by (simp add: fail_def)

lemma finish_parse_total: "\<exists>ok out' target' buf'. finish_parse mem c out m buf = Some (ok, out', target', buf') \<and>
    (ok \<or> out' = out \<and> target' = Some m) \<and> length buf' = length buf"
proof -
  obtain r where r: "check_csv mem c buf = Some r" "case r of Refused why b \<Rightarrow> length b = length buf
      | Reported b \<Rightarrow> length b = length buf | Checked b \<Rightarrow> length b = length buf"
    using check_csv_total by blast
  show ?thesis
  proof (cases r)
    case (Checked b)
    obtain ok t b' where p: "custom_map_parse (Some m) (mem_final_rows mem) (Some (gc_csv c)) b = Some (ok, t, b')"
      "ok \<or> t = Some m" "length b' = length b"
      using custom_map_parse_returns [of "Some m" "mem_final_rows mem" "Some (gc_csv c)" b] by blast
    have ch: "check_csv mem c buf = Some (Checked b)" "length b = length buf" using r Checked by simp_all
    consider "\<not> check_presets c" | "check_presets c" "gc_csv c = []" | "check_presets c" "gc_csv c \<noteq> []" by blast
    then show ?thesis
    proof cases
      case 1
      then have "finish_parse mem c out m buf = Some (False, out, Some m, fail b ''Device name duplicates a preset point name'')"
        using ch by (simp only: finish_parse_def option.case map_check.case if_True simp_thms)
      then show ?thesis using ch by (auto simp: ex_bool_eq)
    next
      case 2
      then have "finish_parse mem c out m buf = Some (True, Some c, Some (custom_map_zero (cm_self m)), if b = [] then [] else b[0 := NUL])"
        using ch by (simp only: finish_parse_def option.case map_check.case if_True if_False simp_thms)
      then show ?thesis using ch by (auto simp: ex_bool_eq)
    next
      case 3
      then have "finish_parse mem c out m buf = (if ok then Some (True, Some c, t, if b' = [] then [] else b'[0 := NUL])
          else Some (False, out, t, b'))"
        using ch p(1) by (cases ok) (simp_all only: finish_parse_def option.case map_check.case prod.case bool.case if_True if_False simp_thms)
      then show ?thesis using ch p by (cases ok) (auto simp: ex_bool_eq)
    qed
  qed (use r in \<open>auto simp: finish_parse_def\<close>)
qed

lemma parse_accepts:
  "gateway_config_parse lib inet_pton mem json base out target buf = Some (True, out', target', buf') \<Longrightarrow>
   \<exists>s b old m items c e. json = Some s \<and> base = Some b \<and> out = Some old \<and> target = Some m \<and>
     s \<noteq> [] \<and> length s \<le> GW_CONFIG_MAX_JSON \<and> \<not> gateway_json_has_nul s \<and> gateway_json_is_flat s \<and>
     cj_parse lib s = (Some (CJ_Object items), Some e) \<and> keys_loop 0 items \<and> mem_candidate mem \<and>
     read_fields_of lib inet_pton (CJ_Object items) b = Inr c \<and>
     finish_parse mem c out m buf = Some (True, out', target', buf')"
  by (auto simp: gateway_config_parse_def Let_def split: option.splits cjson.splits if_splits prod.splits sum.splits)

subsection \<open>Written settings\<close>

text \<open>The documented lookup of the JSON library: the first member with the name.\<close>

definition lib_ok :: "cjson_lib \<Rightarrow> bool" where
  "lib_ok lib \<longleftrightarrow> (\<forall>items k. cj_get lib (CJ_Object items) k = map_of items k)"

lemma small_int: "dbl_of_int (uint (w :: u8)) = Fin (of_int (uint w))" "dbl_of_int (uint (v :: u16)) = Fin (of_int (uint v))"
  "dbl_of_int (uint (u :: u32)) = Fin (of_int (uint u))"
proof -
  have "dbl_of_int (uint w) = Fin (of_int (uint w))" if "uint w < 2 ^ 53" for w :: "'a::len word"
    using that by (intro dbl_of_int_exact) simp
  moreover have "uint w < 2 ^ 53" "uint v < 2 ^ 53" "uint u < 2 ^ 53"
    using uint_lt2p [of w] uint_lt2p [of v] uint_lt2p [of u] by simp_all
  ultimately show "dbl_of_int (uint (w :: u8)) = Fin (of_int (uint w))" "dbl_of_int (uint (v :: u16)) = Fin (of_int (uint v))"
    "dbl_of_int (uint (u :: u32)) = Fin (of_int (uint u))" by auto
qed

lemma uint_le_int: "unat (w :: 'a::len word) \<le> n \<Longrightarrow> uint w \<le> int n"
  by (simp only: uint_nat of_nat_le_iff)

lemma written_keys: "keys_loop 0 (config_items c b)"
  by (simp add: config_items_def config_keys_def)

lemma written_members:
  "map_of (config_items c True) ''modbus_port'' = Some (CJ_Number (Fin (of_int (uint (gc_modbus_port c)))))"
  "map_of (config_items c True) ''modbus_unit'' = Some (CJ_Number (Fin (of_int (uint (gc_modbus_unit c)))))"
  "map_of (config_items c True) ''bacnet_port'' = Some (CJ_Number (Fin (of_int (uint (gc_bacnet_port c)))))"
  "map_of (config_items c True) ''device_instance'' = Some (CJ_Number (Fin (of_int (uint (gc_device_instance c)))))"
  "map_of (config_items c True) ''expected_firmware'' = Some (CJ_Number (Fin (of_int (uint (gc_expected_firmware c)))))"
  "map_of (config_items c True) ''expected_mac_fragment'' = Some (CJ_Number (Fin (of_int (uint (gc_expected_mac_fragment c)))))"
  "map_of (config_items c True) ''revision'' = Some (CJ_Number (Fin (of_int (uint (gc_revision c)))))"
  by (simp_all add: config_items_def small_int)

lemma FIELD_written:
  assumes "cj_get lib j name = Some (CJ_Number (Fin (of_int (uint w))))" "low \<le> uint w" "uint w \<le> high"
  shows "FIELD lib j name low high = Inr (uint w)"
  using assms by (simp add: FIELD_iff)

lemma read_written:
  assumes "lib_ok lib" "config_ok inet_pton c"
  shows "read_fields_of lib inet_pton (CJ_Object (config_items c True)) base = Inr c"
proof -
  let ?j = "CJ_Object (config_items c True)"
  have get: "cj_get lib ?j k = map_of (config_items c True) k" for k
    using assms(1) by (simp add: lib_ok_def)
  have pr: "string_field lib ?j ''profile'' 32 = Some (gateway_profile_id (gc_profile c))"
    unfolding string_field_iff get
    by (cases "gc_profile c") (simp_all add: config_items_def printable_text_def)
  have "profile_field lib ?j = Inr (gc_profile c)"
    by (cases "gc_profile c") (simp_all add: profile_field_def pr)
  moreover have "host_field lib inet_pton ?j = Inr (gc_modbus_host c)"
  proof -
    have "string_field lib ?j ''modbus_host'' 16 = Some (gc_modbus_host c)"
      unfolding string_field_iff get using assms(2) by (simp add: config_items_def config_ok_def)
    then show ?thesis using assms(2) by (auto simp: host_field_def config_ok_def)
  qed
  moreover have "name_field lib ?j = Inr (gc_device_name c)"
  proof -
    have "string_field lib ?j ''device_name'' 96 = Some (gc_device_name c)"
      unfolding string_field_iff get using assms(2) by (simp add: config_items_def config_ok_def)
    then show ?thesis using assms(2) by (auto simp: name_field_def config_ok_def)
  qed
  moreover have "number_fields lib ?j x = Inr (x\<lparr>gc_modbus_port := gc_modbus_port c, gc_modbus_unit := gc_modbus_unit c,
      gc_bacnet_port := gc_bacnet_port c, gc_device_instance := gc_device_instance c,
      gc_expected_firmware := gc_expected_firmware c, gc_expected_mac_fragment := gc_expected_mac_fragment c,
      gc_revision := gc_revision c\<rparr>)" for x
  proof -
    have b: "0 < uint (gc_modbus_port c)" "0 < uint (gc_bacnet_port c)" "0 < uint (gc_revision c)"
      using assms(2) by (simp_all add: config_ok_def word_neq_0_conv flip: word_less_alt [of 0, simplified])
    have t: "uint (gc_modbus_port c) \<le> 65535" "uint (gc_bacnet_port c) \<le> 65535" "uint (gc_revision c) \<le> 4294967295"
      "uint (gc_expected_firmware c) \<le> 65535" "uint (gc_modbus_unit c) \<le> 255"
      using uint_lt2p [of "gc_modbus_port c"] uint_lt2p [of "gc_bacnet_port c"] uint_lt2p [of "gc_revision c"]
        uint_lt2p [of "gc_expected_firmware c"] uint_lt2p [of "gc_modbus_unit c"] by simp_all
    have i: "uint (gc_device_instance c) \<le> 4194302" "uint (gc_expected_mac_fragment c) \<le> 32767"
      using assms(2) uint_le_int [of "gc_device_instance c" 4194302] uint_le_int [of "gc_expected_mac_fragment c" 32767]
      by (simp_all add: config_ok_def)
    have f1: "FIELD lib ?j ''modbus_port'' 1 65535 = Inr (uint (gc_modbus_port c))"
      by (rule FIELD_written) (use get written_members [of c] b t i in simp_all)
    have f2: "FIELD lib ?j ''modbus_unit'' 0 255 = Inr (uint (gc_modbus_unit c))"
      by (rule FIELD_written) (use get written_members [of c] b t i in simp_all)
    have f3: "FIELD lib ?j ''bacnet_port'' 1 65535 = Inr (uint (gc_bacnet_port c))"
      by (rule FIELD_written) (use get written_members [of c] b t i in simp_all)
    have f4: "FIELD lib ?j ''device_instance'' 0 4194302 = Inr (uint (gc_device_instance c))"
      by (rule FIELD_written) (use get written_members [of c] b t i in simp_all)
    have f5: "FIELD lib ?j ''expected_firmware'' 0 65535 = Inr (uint (gc_expected_firmware c))"
      by (rule FIELD_written) (use get written_members [of c] b t i in simp_all)
    have f6: "FIELD lib ?j ''expected_mac_fragment'' 0 32767 = Inr (uint (gc_expected_mac_fragment c))"
      by (rule FIELD_written) (use get written_members [of c] b t i in simp_all)
    have f7: "FIELD lib ?j ''revision'' 1 4294967295 = Inr (uint (gc_revision c))"
      by (rule FIELD_written) (use get written_members [of c] b t i in simp_all)
    show ?thesis by (simp add: number_fields_def f1 f2 f3 f4 f5 f6 f7)
  qed
  moreover have "csv_field lib ?j x = Inr (x\<lparr>gc_csv := gc_csv c\<rparr>)" if "gc_profile x = gc_profile c" for x
  proof -
    have "cj_get lib ?j ''csv'' = Some (CJ_String (gc_csv c))" unfolding get by (simp add: config_items_def)
    then show ?thesis using assms(2) that by (auto simp: csv_field_def config_ok_def)
  qed
  ultimately show ?thesis by (simp add: read_fields_of_def)
qed

section \<open>Properties\<close>

text \<open>
  C24 (json_flat_exact): The check before the recursive JSON parser accepts exactly the texts that are
  sequences of complete string literals, plain characters and bracketed groups without nesting: no
  accepted text nests deeper than one level outside its string literals.
\<close>

theorem json_flat_exact: "gateway_json_is_flat s \<longleftrightarrow> flat_text s"
  using flat_text_scan scan_flat_text by (auto simp: gateway_json_is_flat_def)

text \<open>
  C19 (config_parse_sound): Accepted settings are sound: a unicast numeric host, a printable name of 1
  to 95 characters outside the reserved prefix, all numbers in range, a point map when the custom
  profile is chosen. The map left behind is the well-formed map parsed from the saved text, or empty
  when there is none, belongs to the caller's object, and no point that will be served, of the map or
  of the chosen preset, has the device's name.
\<close>

theorem config_parse_sound:
  assumes "gateway_config_parse lib inet_pton mem json base out target buf = Some (True, out', target', buf')"
    and "length (gc_csv (the base)) \<le> CUSTOM_MAX_CSV_BYTES"
  shows "\<exists>c m m'. target = Some m \<and> out' = Some c \<and> target' = Some m' \<and> config_ok inet_pton c \<and> map_from c m m' \<and>
    gc_device_name c \<notin> preset_names (gc_profile c)"
proof -
  obtain b items c m where p: "base = Some b" "target = Some m"
    "read_fields_of lib inet_pton (CJ_Object items) b = Inr c"
    "finish_parse mem c out m buf = Some (True, out', target', buf')"
    using parse_accepts [OF assms(1)] by blast
  have "config_ok inet_pton c" using read_fields_ok [OF p(3)] assms(2) p(1) by simp
  then show ?thesis using finish_parse_True [OF p(4)] p(2) by (auto simp: check_presets_iff)
qed

lemma parse_transactional:
  "\<exists>ok out' target' buf'. gateway_config_parse lib inet_pton mem json base out target buf = Some (ok, out', target', buf') \<and>
     (ok \<or> out' = out \<and> target' = target) \<and> length buf' = length buf"
proof -
  let ?G = "gateway_config_parse lib inet_pton mem json base out target buf"
  define Q where "Q X \<longleftrightarrow> (\<exists>why. X = Some (False, out, target, fail buf why)) \<or>
      (\<exists>c m. target = Some m \<and> X = finish_parse mem c out m buf)" for X
  have refused: "Q (Some (False, out, target, fail buf why))" for why
    by (auto simp: Q_def)
  have finished: "target = Some m \<Longrightarrow> Q (finish_parse mem c out m buf)" for c m
    by (auto simp: Q_def)
  have Qif: "Q (if b then x else y)" if "b \<Longrightarrow> Q x" "\<not> b \<Longrightarrow> Q y" for b x y
    using that by simp
  have "Q ?G"
  proof (cases "\<exists>s b old m. json = Some s \<and> base = Some b \<and> out = Some old \<and> target = Some m")
    case False
    then have "?G = Some (False, out, target, fail buf ''Invalid or oversized configuration JSON'')"
      by (cases json; cases base; cases out; cases target) (simp_all add: gateway_config_parse_def)
    then show ?thesis using refused by simp
  next
    case True
    then obtain s b old m where e: "json = Some s" "base = Some b" "out = Some old" "target = Some m" by blast
    obtain tree fin where p: "cj_parse lib s = (tree, fin)" by fastforce
    have kind: "Q (case tree of Some (CJ_Object items) \<Rightarrow> f items | _ \<Rightarrow> Some (False, out, target, fail buf why))"
      if "\<And>items. Q (f items)" for f why
      using that refused by (auto split: option.split cjson.split)
    have fields: "Q (case r of Inl why \<Rightarrow> Some (False, out, target, fail buf why) | Inr c \<Rightarrow> finish_parse mem c out m buf)" for r
      using refused finished [OF e(4)] by (cases r) simp_all
    show ?thesis
      unfolding gateway_config_parse_def Let_def e option.case prod.case p
      by (intro Qif refused [unfolded e] kind [unfolded e] fields [unfolded e])
  qed
  then show ?thesis
    unfolding Q_def
  proof (elim disjE exE conjE)
    fix why assume "?G = Some (False, out, target, fail buf why)"
    then show ?thesis by (intro exI [of _ False] exI [of _ out] exI [of _ target] exI [of _ "fail buf why"]) simp
  next
    fix c m assume "target = Some m" "?G = finish_parse mem c out m buf"
    then show ?thesis using finish_parse_total [of mem c out m buf] by simp
  qed
qed

text \<open>
  C20 (config_parse_transactional): Every upload gets an answer, whatever its bytes and whichever
  allocation fails; a refused upload leaves the settings and the map as they were, and the error
  buffer is never overrun.
\<close>

theorem config_parse_transactional:
  "\<exists>ok out' target' buf'. gateway_config_parse lib inet_pton mem json base out target buf = Some (ok, out', target', buf') \<and>
     (ok \<or> out' = out \<and> target' = target) \<and> length buf' = length buf"
  by (rule parse_transactional)


section \<open>A concrete upload\<close>

definition demo_lib :: cjson_lib where
  "demo_lib = \<lparr>cj_parse = \<lambda>s. (Some (CJ_Object (config_items gateway_config_defaults True)), Some (length s)),
     cj_get = \<lambda>j k. case j of CJ_Object items \<Rightarrow> map_of items k | _ \<Rightarrow> None\<rparr>"

definition demo_memory :: config_memory where
  "demo_memory = \<lparr>mem_candidate = True, mem_scratch = None, mem_scratch_rows = None, mem_final_rows = None\<rparr>"

lemma demo_lib_ok: "lib_ok demo_lib"
  by (simp add: lib_ok_def demo_lib_def)

lemma defaults_ok: "config_ok (\<lambda>_. Some 0xC0000251) gateway_config_defaults"
  by (simp add: config_ok_def gateway_config_defaults_def printable_text_def unicast_def CUSTOM_MAX_CSV_BYTES_def)

lemma preset_prefix: "list_all (\<lambda>p. take 4 (pd_name p) = ''ATS-'') ats_points"
  by (simp add: ats_points_def ats_point_def.defs)

lemma defaults_preset: "check_presets gateway_config_defaults"
proof -
  have "take 4 (gc_device_name gateway_config_defaults) \<noteq> ''ATS-''"
    by (simp add: gateway_config_defaults_def)
  then have "gc_device_name gateway_config_defaults \<noteq> pd_name p" if "p \<in> set ats_points" for p
    using preset_prefix that by (auto simp: list_all_iff)
  then show ?thesis by (fastforce simp: check_presets_def list_ex_iff dest: in_set_takeD)
qed

lemma demo_accepts:
  "gateway_config_parse demo_lib (\<lambda>_. Some 0xC0000251) demo_memory (Some ''{}'') (Some gateway_config_defaults)
     (Some gateway_config_defaults) (Some (custom_map_zero 7)) [] =
   Some (True, Some gateway_config_defaults, Some (custom_map_zero 7), [])"
proof -
  have r: "read_fields_of demo_lib (\<lambda>_. Some 0xC0000251) (CJ_Object (config_items gateway_config_defaults True)) b =
      Inr gateway_config_defaults" for b
    by (rule read_written [OF demo_lib_ok defaults_ok])
  have f: "finish_parse demo_memory gateway_config_defaults out (custom_map_zero 7) [] =
      Some (True, Some gateway_config_defaults, Some (custom_map_zero 7), [])" for out
    using defaults_preset by (simp add: finish_parse_def check_csv_def gateway_config_defaults_def custom_map_zero_def)
  have p: "cj_parse demo_lib s = (Some (CJ_Object (config_items gateway_config_defaults True)), Some (length s))" for s
    by (simp add: demo_lib_def)
  have mc: "mem_candidate demo_memory" by (simp add: demo_memory_def)
  show ?thesis
    by (simp add: gateway_config_parse_def Let_def p r f written_keys gateway_json_has_nul_def gateway_json_is_flat_def
         GW_CONFIG_MAX_JSON_def mc opens_def closes_def BACKSLASH_def QUOTE_def NUL_def)
qed

theorem config_parse_sound_witness:
  "\<exists>c m'. gateway_config_parse demo_lib (\<lambda>_. Some 0xC0000251) demo_memory (Some ''{}'') (Some gateway_config_defaults)
     (Some gateway_config_defaults) (Some (custom_map_zero 7)) [] = Some (True, Some c, Some m', []) \<and>
     config_ok (\<lambda>_. Some 0xC0000251) c \<and> map_from c (custom_map_zero 7) m'"
  using config_parse_sound [OF demo_accepts] demo_accepts by (auto simp: gateway_config_defaults_def)


end
