(* ===== verification/Poll_Schedule.thy ===== *)
theory Poll_Schedule
  imports Gw_Prelude
begin

section \<open>What the two pollers share\<close>

text \<open>
  Both pollers (\<open>gateway_poll.c\<close>, \<open>custom_map.c\<close>) pick the entry that has been due longest with the
  same loop and keep the same promise towards the controller: one request at a time, a gap after
  each. The loop is \<open>earliest_due\<close>; the promise is the locale \<open>poll_machine\<close>, which each poller
  interprets and in which the spacing of the requests of any run is proved once.
\<close>

subsection \<open>Picking the next entry\<close>

text \<open>\<open>UINT64_MAX\<close> starts the search, so an entry due at that time is never picked.\<close>

definition due_step :: "u64 list \<Rightarrow> u64 \<Rightarrow> u64 \<times> nat option \<Rightarrow> nat \<Rightarrow> u64 \<times> nat option" where
  "due_step due now acc i =
     (if due ! i \<le> now \<and> due ! i < fst acc then (due ! i, Some i) else acc)"

definition earliest_due :: "u64 list \<Rightarrow> nat \<Rightarrow> u64 \<Rightarrow> nat option" where
  "earliest_due due n now = snd (foldl (due_step due now) (- 1, None) [0..<n])"

definition due_best :: "u64 list \<Rightarrow> nat \<Rightarrow> u64 \<Rightarrow> u64 \<times> nat option \<Rightarrow> bool" where
  "due_best due n now acc \<longleftrightarrow>
     (case snd acc of
        None \<Rightarrow> fst acc = - 1
      | Some i \<Rightarrow> i < n \<and> fst acc = due ! i \<and> due ! i \<le> now) \<and>
     (\<forall>j < n. due ! j \<le> now \<longrightarrow> fst acc \<le> due ! j)"

lemma due_best_loop: "due_best due n now (foldl (due_step due now) (- 1, None) [0..<n])"
proof (induction n)
  case 0
  show ?case by (simp add: due_best_def)
next
  case (Suc n)
  obtain e b where acc: "foldl (due_step due now) (- 1, None) [0..<n] = (e, b)" by fastforce
  with Suc show ?case
    by (auto simp: due_best_def due_step_def less_Suc_eq split: option.splits)
qed

lemma earliest_due_Some:
  assumes "earliest_due due n now = Some i"
  shows "i < n" "due ! i \<le> now" "\<And>j. j < n \<Longrightarrow> due ! j \<le> now \<Longrightarrow> due ! i \<le> due ! j"
proof -
  obtain e where acc: "foldl (due_step due now) (- 1, None) [0..<n] = (e, Some i)"
    using assms by (metis earliest_due_def prod.collapse)
  then show "i < n" "due ! i \<le> now" "\<And>j. j < n \<Longrightarrow> due ! j \<le> now \<Longrightarrow> due ! i \<le> due ! j"
    using due_best_loop [of due n now] by (auto simp: due_best_def)
qed

lemma earliest_due_None:
  assumes "earliest_due due n now = None" "j < n" "due ! j \<le> now"
  shows "due ! j = - 1"
proof -
  obtain e where acc: "foldl (due_step due now) (- 1, None) [0..<n] = (e, None)"
    using assms(1) by (metis earliest_due_def prod.collapse)
  then show ?thesis
    using due_best_loop [of due n now] assms(2,3) by (auto simp: due_best_def word_order.extremum_unique)
qed

lemma earliest_due_zero:
  assumes "\<forall>i < Suc n. due ! i = 0"
  shows "earliest_due due (Suc n) now = Some 0"
proof -
  have "foldl (due_step due now) (- 1, None) [0..<Suc k] = (0, Some 0)" if "k \<le> n" for k
    using that assms by (induction k) (simp_all add: due_step_def word_gt_0)
  then show ?thesis by (simp only: earliest_due_def) simp
qed

text \<open>
  Earliest first starves nobody: serving another entry, and making it due later than entry \<open>i\<close>,
  strictly shrinks the set of entries that can be served before \<open>i\<close>.
\<close>

definition rivals :: "u64 list \<Rightarrow> nat \<Rightarrow> nat set" where
  "rivals due i = {j. j < length due \<and> j \<noteq> i \<and> due ! j \<le> due ! i}"

lemma finite_rivals [simp]: "finite (rivals due i)"
  by (rule finite_subset [of _ "{..<length due}"]) (auto simp: rivals_def)

lemma card_rivals: "i < length due \<Longrightarrow> card (rivals due i) < length due"
proof -
  assume i: "i < length due"
  have "rivals due i \<subseteq> {..<length due} - {i}" by (auto simp: rivals_def)
  from card_mono [OF _ this] show ?thesis using i by simp
qed

lemma rivals_decrease:
  assumes "earliest_due due (length due) now = Some j" "i < length due" "due ! i \<le> now" "j \<noteq> i" "due ! i < t"
  shows "card (rivals (due[j := t]) i) < card (rivals due i)"
proof -
  have j: "j < length due" "due ! j \<le> due ! i"
    using earliest_due_Some [OF assms(1)] assms(2,3) by auto
  have "rivals (due[j := t]) i = rivals due i - {j}"
    using assms(4,5) j(1) by (auto simp: rivals_def nth_list_update split: if_splits)
  moreover have "j \<in> rivals due i" using j assms(4) by (simp add: rivals_def)
  ultimately show ?thesis by (metis card_Diff1_less finite_rivals)
qed

subsection \<open>Backoff and times\<close>

text \<open>The wait after \<open>k\<close> consecutive failures, five seconds each and thirty at most, as both pollers
  compute it in 32 bits.\<close>

definition backoff :: "u32 \<Rightarrow> nat" where
  "backoff k = (if k < 6 then unat k * 5000 else 30000)"

lemma unat_wait: "unat (ucast (if (k::u32) < 6 then k * 5000 else 30000) :: u64) = backoff k"
proof -
  have "unat (k * 5000) = unat k * 5000" if "k < 6"
    using that by (simp add: word_less_nat_alt unat_word_ariths)
  then show ?thesis by (simp add: backoff_def)
qed

lemma backoff_le: "backoff k \<le> 30000"
  by (simp add: backoff_def word_less_nat_alt)

text \<open>Times: the completion of a request issued before \<open>2 ^ 63\<close> is far from wrapping.\<close>

lemma completed_unat:
  assumes "unat (now :: u64) < 2 ^ 63"
  shows "unat (now + ucast (e :: u32)) = unat now + unat e" "unat (now + ucast e) < 2 ^ 63 + 2 ^ 32"
proof -
  have e: "unat e < 2 ^ 32" using unat_lt_u32 [of e] by simp
  then show 1: "unat (now + ucast e) = unat now + unat e"
    using assms by (subst unat_add_small) simp_all
  show "unat (now + ucast e) < 2 ^ 63 + 2 ^ 32" unfolding 1 using e assms by simp
qed

lemma add_small:
  assumes "unat (t :: u64) < 2 ^ 63 + 2 ^ 32" "n < 2 ^ 32"
  shows "unat (t + of_nat n) = unat t + n"
proof -
  have "unat (of_nat n :: u64) = n" using assms(2) by (subst unat_of_nat_small) simp_all
  then show ?thesis using assms by (subst unat_add_small) simp_all
qed

lemma backoff_min: "k \<noteq> 0 \<Longrightarrow> 5000 \<le> backoff k"
  using unat_gt_0 [of k] by (auto simp: backoff_def word_less_nat_alt)

lemma add_backoff:
  assumes "unat (t :: u64) < 2 ^ 63 + 2 ^ 32"
  shows "unat (t + ucast (if (k :: u32) < 6 then k * 5000 else 30000)) = unat t + backoff k"
proof -
  have "(ucast (if k < 6 then k * 5000 else 30000) :: u64) = of_nat (backoff k)"
    unfolding unat_wait [symmetric] by (rule word_of_unat [symmetric])
  then show ?thesis using add_small [OF assms, of "backoff k"] backoff_le [of k] by simp
qed

lemma unat_max_word: "unat (if a < b then b else a) = max (unat a) (unat (b :: u64))"
  by (simp add: word_less_nat_alt max_def)

subsection \<open>The promise of a poller\<close>

text \<open>The times at which a run of steps issued a request, in order.\<close>

fun request_times :: "('e \<Rightarrow> u64 \<Rightarrow> 's \<Rightarrow> bool \<times> 's) \<Rightarrow> ('e \<times> u64) list \<Rightarrow> 's \<Rightarrow> u64 list" where
  "request_times step [] s = []"
| "request_times step ((e, now) # run) s =
     (if fst (step e now s) then [now] else []) @ request_times step run (snd (step e now s))"

text \<open>
  A step that issues a request does so at the earliest at \<open>next_request\<close>, and then moves it at
  least \<open>gap\<close> past the time of the request; a step that issues none leaves it alone. Times below
  \<open>2 ^ 63\<close> do not wrap.
\<close>

locale poll_machine =
  fixes step :: "'e \<Rightarrow> u64 \<Rightarrow> 's \<Rightarrow> bool \<times> 's" and next_request :: "'s \<Rightarrow> u64" and gap :: nat
  assumes step_idle: "\<not> fst (step e now s) \<Longrightarrow> next_request (snd (step e now s)) = next_request s"
    and step_waits: "fst (step e now s) \<Longrightarrow> next_request s \<le> now"
    and step_gap: "fst (step e now s) \<Longrightarrow> unat now < 2 ^ 63 \<Longrightarrow> unat now + gap \<le> unat (next_request (snd (step e now s)))"
begin

lemma requests_not_before:
  assumes "\<forall>x \<in> set run. unat (snd x) < 2 ^ 63" "t \<in> set (request_times step run s)"
  shows "unat (next_request s) \<le> unat t"
  using assms
proof (induction run arbitrary: s)
  case (Cons x run)
  obtain e now where x: "x = (e, now)" by fastforce
  show ?case
  proof (cases "fst (step e now s)")
    case True
    then have "unat (next_request s) \<le> unat now"
      using step_waits word_le_nat_alt by blast
    moreover have "unat now + gap \<le> unat (next_request (snd (step e now s)))"
      using True Cons.prems(1) x by (intro step_gap) auto
    ultimately show ?thesis
      using Cons.IH [of "snd (step e now s)"] Cons.prems True x by force
  next
    case False
    then show ?thesis
      using Cons.IH [of "snd (step e now s)"] Cons.prems x step_idle [OF False] by simp
  qed
qed simp

lemma requests_spaced:
  assumes "\<forall>x \<in> set run. unat (snd x) < 2 ^ 63"
  shows "sorted_wrt (\<lambda>t u. unat t + gap \<le> unat u) (request_times step run s)"
  using assms
proof (induction run arbitrary: s)
  case (Cons x run)
  obtain e now where x: "x = (e, now)" by fastforce
  have IH: "sorted_wrt (\<lambda>t u. unat t + gap \<le> unat u) (request_times step run (snd (step e now s)))"
    using Cons by simp
  show ?case
  proof (cases "fst (step e now s)")
    case True
    have "unat now + gap \<le> unat t" if "t \<in> set (request_times step run (snd (step e now s)))" for t
      using requests_not_before [OF _ that] step_gap [OF True] Cons.prems x by fastforce
    with IH True x show ?thesis by simp
  qed (use IH x in simp)
qed simp

lemma request_rate:
  assumes "\<forall>x \<in> set run. unat (snd x) < 2 ^ 63" "request_times step run s = t # ts"
  shows "unat t + gap * length ts \<le> unat (last (t # ts))"
proof -
  have "sorted_wrt (\<lambda>t u. unat t + gap \<le> unat u) (t # ts)"
    using requests_spaced [OF assms(1), of s] assms(2) by simp
  then show ?thesis
  proof (induction ts arbitrary: t)
    case (Cons u ts)
    from Cons.IH [of u] Cons.prems show ?case by force
  qed simp
qed

end

end
