(* ===== verification/Gateway_Poll.thy ===== *)
theory Gateway_Poll
  imports Modbus_Frame Ats_Model Poll_Schedule
begin

section \<open>The MPAC1500 poller (main/gateway_poll.c, main/gateway_poll.h)\<close>

text \<open>
  One step of the poller: the identity check of the controller, the choice of the block to read,
  one bounded request, and what its result does to the register image, the schedule and the
  counters. The request itself (\<open>mb_read_holding\<close>) is a parameter: it returns the result record
  and the words of the buffer, which the code reads only after a success.
\<close>

subsection \<open>State\<close>

record gateway_poll_config =
  pc_host :: string
  pc_port :: u16
  pc_unit :: u8
  pc_expected_firmware :: u16
  pc_expected_mac_fragment :: u16

record gateway_poll =
  gp_model :: ats_model
  gp_next_due :: "u64 list"     \<comment> \<open>the array \<open>next_due[23]\<close>\<close>
  gp_next_request :: u64
  gp_profile_check :: u64
  gp_last_success :: u64
  gp_requests :: u32
  gp_successes :: u32
  gp_failures :: u32
  gp_consecutive_failures :: u32
  gp_transaction_id :: u16
  gp_last_offset :: u16
  gp_last_quantity :: u16
  gp_profile_stage :: u8
  gp_profile_valid :: bool
  gp_last_checking :: bool
  gp_last_result :: mb_result
  gp_profile_status :: string

text \<open>A read: host, port, unit, offset, quantity, transaction, deadline.\<close>

type_synonym mb_reader = "string \<Rightarrow> u16 \<Rightarrow> u8 \<Rightarrow> u16 \<Rightarrow> u16 \<Rightarrow> u16 \<Rightarrow> nat \<Rightarrow> mb_result \<times> u16 list"

definition gateway_poll_init :: gateway_poll where
  "gateway_poll_init = \<lparr>gp_model = ats_model_init, gp_next_due = replicate ATS_BLOCK_COUNT 0,
     gp_next_request = 0, gp_profile_check = 0, gp_last_success = 0, gp_requests = 0, gp_successes = 0,
     gp_failures = 0, gp_consecutive_failures = 0, gp_transaction_id = 0, gp_last_offset = 0,
     gp_last_quantity = 0, gp_profile_stage = 0, gp_profile_valid = False, gp_last_checking = False,
     gp_last_result = reset_result, gp_profile_status = ''Awaiting controller identity''\<rparr>"

subsection \<open>Losing the controller\<close>

definition gateway_poll_offline :: "gateway_poll \<Rightarrow> u64 \<Rightarrow> gateway_poll" where
  "gateway_poll_offline s now =
     s\<lparr>gp_model := fold (\<lambda>b. ats_fail b now) [0..<ATS_BLOCK_COUNT] (gp_model s),
       gp_profile_valid := False, gp_profile_stage := 0,
       gp_profile_status := ''Network unavailable; identity check required''\<rparr>"

definition reject_profile :: "gateway_poll \<Rightarrow> u64 \<Rightarrow> string \<Rightarrow> gateway_poll" where
  "reject_profile s now why =
     (gateway_poll_offline s now)\<lparr>gp_profile_status := why, gp_next_request := now + 30000\<rparr>"

subsection \<open>One step\<close>

text \<open>The profile expires before the choice of what to read.\<close>

definition poll_recheck :: "gateway_poll \<Rightarrow> u64 \<Rightarrow> gateway_poll" where
  "poll_recheck s now =
     (if gp_profile_valid s \<and> now \<ge> gp_profile_check s
      then s\<lparr>gp_profile_valid := False, gp_profile_stage := 0,
             gp_profile_status := ''Rechecking controller identity''\<rparr>
      else s)"

definition identity_register :: "u8 \<Rightarrow> u16 \<times> u16" where
  "identity_register stage =
     (if stage = 0 then (9998, 1) else if stage = 1 then (1199, 1)
      else if stage = 2 then (1209, 3) else (1201, 1))"

text \<open>The block to read (\<open>None\<close> while checking) with offset and count; \<open>None\<close> when nothing is due.\<close>

definition poll_target :: "gateway_poll \<Rightarrow> u64 \<Rightarrow> (nat option \<times> u16 \<times> u16) option" where
  "poll_target s now =
     (if \<not> gp_profile_valid s then Some (None, identity_register (gp_profile_stage s))
      else case earliest_due (gp_next_due s) ATS_BLOCK_COUNT now of
             None \<Rightarrow> None
           | Some b \<Rightarrow> Some (Some b, of_nat (sb_offset (ats_scan_blocks ! b)), of_nat (sb_count (ats_scan_blocks ! b))))"

text \<open>A request that failed (and is not the expected refusal of the new map): the counters, the
  block, the consequences of a transport failure or a rejected identity read, the backoff.\<close>

definition count_failure :: "gateway_poll \<Rightarrow> gateway_poll" where
  "count_failure s = s\<lparr>gp_failures := gp_failures s + 1,
     gp_consecutive_failures := gp_consecutive_failures s + 1\<rparr>"

definition fault_block :: "gateway_poll \<Rightarrow> nat option \<Rightarrow> u64 \<Rightarrow> gateway_poll" where
  "fault_block s block completed =
     (case block of
        None \<Rightarrow> s
      | Some b \<Rightarrow> s\<lparr>gp_model := ats_fail b completed (gp_model s),
                   gp_next_due := (gp_next_due s)[b := completed + 5000]\<rparr>)"

definition fault_global :: "gateway_poll \<Rightarrow> bool \<Rightarrow> u64 \<Rightarrow> gateway_poll" where
  "fault_global s checking completed =
     (if exception_code (gp_last_result s) = 0 then gateway_poll_offline s completed
      else if checking then reject_profile s completed ''Identity read rejected'' else s)"

definition poll_backoff :: "gateway_poll \<Rightarrow> u64 \<Rightarrow> gateway_poll" where
  "poll_backoff s completed =
     (let wait = (if gp_consecutive_failures s < 6 then gp_consecutive_failures s * 5000 else 30000)
      in if gp_next_request s < completed + ucast wait
         then s\<lparr>gp_next_request := completed + ucast wait\<rparr> else s)"

definition poll_failed :: "gateway_poll \<Rightarrow> nat option \<Rightarrow> bool \<Rightarrow> u64 \<Rightarrow> gateway_poll" where
  "poll_failed s block checking completed =
     poll_backoff (fault_global (fault_block (count_failure s) block completed) checking completed) completed"

text \<open>An identity reply that was read, or refused as expected.\<close>

definition poll_identity :: "gateway_poll \<Rightarrow> gateway_poll_config \<Rightarrow> u16 list \<Rightarrow> bool \<Rightarrow> u64 \<Rightarrow> gateway_poll" where
  "poll_identity s c words expected_old_map completed =
     (if gp_profile_stage s = 0 \<and> words ! 0 \<noteq> 23
      then reject_profile s completed ''Wrong controller type: expected MPAC1500 ID23''
      else if gp_profile_stage s = 1 \<and> words ! 0 \<noteq> pc_expected_firmware c
      then reject_profile s completed ''Firmware does not match commissioned old-map profile''
      else if gp_profile_stage s = 2 \<and> \<not> expected_old_map
      then reject_profile s completed ''Newer MPAC map detected; old map disabled''
      else if gp_profile_stage s = 3
      then if pc_expected_mac_fragment c \<noteq> 0 \<and> words ! 0 AND 0x7fff \<noteq> pc_expected_mac_fragment c
           then reject_profile s completed ''Controller MAC fingerprint mismatch''
           else s\<lparr>gp_profile_valid := True, gp_profile_check := completed + 300000,
                  gp_profile_status := ''Old MPAC1500 profile verified''\<rparr>
      else s\<lparr>gp_profile_stage := gp_profile_stage s + 1\<rparr>)"

text \<open>What the step does with the reply to the request it has just counted.\<close>

definition poll_reply ::
    "gateway_poll \<Rightarrow> gateway_poll_config \<Rightarrow> nat option \<Rightarrow> bool \<Rightarrow> mb_result \<Rightarrow> u16 list \<Rightarrow> u64 \<Rightarrow> gateway_poll" where
  "poll_reply s c block checking result words now =
     (let completed = now + ucast (elapsed_ms result);
          s = s\<lparr>gp_last_result := result, gp_next_request := completed + 250\<rparr>;
          expected_old_map = (checking \<and> gp_profile_stage s = 2 \<and> error result = MB_ERR_EXCEPTION \<and>
                              exception_code result = 2)
      in if error result \<noteq> MB_OK \<and> \<not> expected_old_map
         then poll_failed s block checking completed
         else let s = s\<lparr>gp_successes := gp_successes s + 1, gp_consecutive_failures := 0,
                        gp_last_success := completed\<rparr>
              in case block of
                   None \<Rightarrow> poll_identity s c words expected_old_map completed
                 | Some b \<Rightarrow> s\<lparr>gp_model := snd (ats_apply b words completed (gp_model s)),
                              gp_next_due := (gp_next_due s)[b := completed + of_nat (sb_period_ms (ats_scan_blocks ! b))]\<rparr>)"

definition poll_step :: "mb_reader \<Rightarrow> gateway_poll_config \<Rightarrow> u64 \<Rightarrow> gateway_poll \<Rightarrow> bool \<times> gateway_poll" where
  "poll_step read c now s =
     (if now < gp_next_request s then (False, s)
      else let s = poll_recheck s now; checking = (\<not> gp_profile_valid s) in
        case poll_target s now of
          None \<Rightarrow> (False, s)
        | Some (block, offset, count) \<Rightarrow>
            (let s = s\<lparr>gp_last_offset := offset, gp_last_quantity := count, gp_last_checking := checking,
                       gp_requests := gp_requests s + 1, gp_transaction_id := gp_transaction_id s + 1\<rparr>;
                 (result, words) = read (pc_host c) (pc_port c) (pc_unit c) offset count (gp_transaction_id s) 1200
             in (True, poll_reply s c block checking result words now)))"

text \<open>The exported functions reject NULL pointers.\<close>

definition gateway_poll_step ::
    "mb_reader \<Rightarrow> gateway_poll option \<Rightarrow> gateway_poll_config option \<Rightarrow> u64 \<Rightarrow> bool \<times> gateway_poll option" where
  "gateway_poll_step read s c now =
     (case (s, c) of
        (Some s, Some c) \<Rightarrow> map_prod id Some (poll_step read c now s)
      | _ \<Rightarrow> (False, s))"


subsection \<open>Runs of the poller\<close>

text \<open>
  The exchanges of a run, newest first: when the request was issued and completed, whether it was
  an identity check, what was read and what came back; \<open>Offline\<close> is a call of
  \<open>gateway_poll_offline\<close> by the application.
\<close>

datatype poll_event =
    Exchange (ev_now: u64) (ev_done: u64) (ev_checking: bool) (ev_offset: u16) (ev_count: u16)
             (ev_result: mb_result) (ev_words: "u16 list")
  | Offline

definition reply :: "mb_result \<Rightarrow> u16 list \<Rightarrow> mb_reader" where
  "reply r ws = (\<lambda>_ _ _ _ _ _ _. (r, ws))"

inductive poll_runs :: "gateway_poll_config \<Rightarrow> gateway_poll \<Rightarrow> poll_event list \<Rightarrow> bool" for c where
  runs_init: "poll_runs c gateway_poll_init []"
| runs_idle: "poll_runs c s tr \<Longrightarrow> poll_step (reply r ws) c now s = (False, s') \<Longrightarrow> poll_runs c s' tr"
| runs_step: "poll_runs c s tr \<Longrightarrow> unat now < 2 ^ 63 \<Longrightarrow> poll_step (reply r ws) c now s = (True, s') \<Longrightarrow>
    poll_runs c s' (Exchange now (now + ucast (elapsed_ms r)) (gp_last_checking s') (gp_last_offset s')
                      (gp_last_quantity s') r ws # tr)"
| runs_offline: "poll_runs c s tr \<Longrightarrow> poll_runs c (gateway_poll_offline s now) (Offline # tr)"

inductive_cases poll_runs_nonempty: "poll_runs c s (e # tr)"

text \<open>Every reader is a reply at the arguments of the one request of a step.\<close>

lemma poll_step_reply:
  "\<exists>r ws. poll_step read c now s = poll_step (reply r ws) c now s"
proof -
  let ?s = "poll_recheck s now"
  show ?thesis
  proof (cases "poll_target ?s now")
    case (Some t)
    obtain b off cnt where "t = (b, off, cnt)" by (cases t)
    moreover obtain r ws where "read (pc_host c) (pc_port c) (pc_unit c) off cnt (gp_transaction_id ?s + 1) 1200 = (r, ws)"
      by fastforce
    ultimately have "poll_step read c now s = poll_step (reply r ws) c now s"
      using Some by (simp add: poll_step_def reply_def Let_def)
    then show ?thesis by blast
  qed (simp add: poll_step_def Let_def)
qed

lemma poll_step_idle: "\<not> fst (poll_step read c now s) \<Longrightarrow> snd (poll_step read c now s) = s"
  by (auto simp: poll_step_def poll_recheck_def poll_target_def Let_def split: prod.splits option.splits if_splits)

definition poll_issue :: "gateway_poll \<Rightarrow> u16 \<Rightarrow> u16 \<Rightarrow> gateway_poll" where
  "poll_issue s offset count = s\<lparr>gp_last_offset := offset, gp_last_quantity := count,
     gp_last_checking := (\<not> gp_profile_valid s), gp_requests := gp_requests s + 1,
     gp_transaction_id := gp_transaction_id s + 1\<rparr>"

lemma poll_step_busy:
  assumes "poll_step (reply r ws) c now s = (True, s')"
  obtains block off cnt where
    "gp_next_request s \<le> now" "poll_target (poll_recheck s now) now = Some (block, off, cnt)"
    "s' = poll_reply (poll_issue (poll_recheck s now) off cnt) c block (\<not> gp_profile_valid (poll_recheck s now)) r ws now"
  using assms
  by (auto simp: poll_step_def poll_issue_def reply_def Let_def not_less split: option.splits if_splits prod.splits)

subsection \<open>What each part leaves alone\<close>

lemma offline_simps [simp]:
  "gp_next_due (gateway_poll_offline s now) = gp_next_due s"
  "gp_next_request (gateway_poll_offline s now) = gp_next_request s"
  "gp_profile_valid (gateway_poll_offline s now) = False"
  "gp_profile_stage (gateway_poll_offline s now) = 0"
  "gp_consecutive_failures (gateway_poll_offline s now) = gp_consecutive_failures s"
  "gp_last_result (gateway_poll_offline s now) = gp_last_result s"
  "gp_last_offset (gateway_poll_offline s now) = gp_last_offset s"
  "gp_last_quantity (gateway_poll_offline s now) = gp_last_quantity s"
  "gp_last_checking (gateway_poll_offline s now) = gp_last_checking s"
  "gp_model (gateway_poll_offline s now) = fold (\<lambda>b. ats_fail b now) [0..<ATS_BLOCK_COUNT] (gp_model s)"
  by (simp_all add: gateway_poll_offline_def)

lemma reject_simps [simp]:
  "gp_next_due (reject_profile s now why) = gp_next_due s"
  "gp_next_request (reject_profile s now why) = now + 30000"
  "gp_profile_valid (reject_profile s now why) = False"
  "gp_profile_stage (reject_profile s now why) = 0"
  "gp_consecutive_failures (reject_profile s now why) = gp_consecutive_failures s"
  "gp_last_offset (reject_profile s now why) = gp_last_offset s"
  "gp_last_quantity (reject_profile s now why) = gp_last_quantity s"
  "gp_last_checking (reject_profile s now why) = gp_last_checking s"
  "gp_model (reject_profile s now why) = fold (\<lambda>b. ats_fail b now) [0..<ATS_BLOCK_COUNT] (gp_model s)"
  by (simp_all add: reject_profile_def)

lemma recheck_simps [simp]:
  "gp_next_due (poll_recheck s now) = gp_next_due s"
  "gp_next_request (poll_recheck s now) = gp_next_request s"
  "gp_model (poll_recheck s now) = gp_model s"
  "gp_consecutive_failures (poll_recheck s now) = gp_consecutive_failures s"
  "gp_profile_check (poll_recheck s now) = gp_profile_check s"
  "gp_profile_valid (poll_recheck s now) \<longleftrightarrow> gp_profile_valid s \<and> now < gp_profile_check s"
  "gp_profile_stage (poll_recheck s now) =
     (if gp_profile_valid s \<and> gp_profile_check s \<le> now then 0 else gp_profile_stage s)"
  by (auto simp: poll_recheck_def)

lemma issue_simps [simp]:
  "gp_next_due (poll_issue s off cnt) = gp_next_due s"
  "gp_next_request (poll_issue s off cnt) = gp_next_request s"
  "gp_model (poll_issue s off cnt) = gp_model s"
  "gp_consecutive_failures (poll_issue s off cnt) = gp_consecutive_failures s"
  "gp_profile_valid (poll_issue s off cnt) = gp_profile_valid s"
  "gp_profile_stage (poll_issue s off cnt) = gp_profile_stage s"
  "gp_profile_check (poll_issue s off cnt) = gp_profile_check s"
  "gp_last_offset (poll_issue s off cnt) = off"
  "gp_last_quantity (poll_issue s off cnt) = cnt"
  "gp_last_checking (poll_issue s off cnt) = (\<not> gp_profile_valid s)"
  by (simp_all add: poll_issue_def)

text \<open>The parts of a failure.\<close>

lemma count_failure_simps [simp]:
  "gp_next_due (count_failure s) = gp_next_due s" "gp_next_request (count_failure s) = gp_next_request s"
  "gp_model (count_failure s) = gp_model s" "gp_profile_valid (count_failure s) = gp_profile_valid s"
  "gp_profile_stage (count_failure s) = gp_profile_stage s" "gp_profile_check (count_failure s) = gp_profile_check s"
  "gp_last_offset (count_failure s) = gp_last_offset s" "gp_last_quantity (count_failure s) = gp_last_quantity s"
  "gp_last_checking (count_failure s) = gp_last_checking s" "gp_last_result (count_failure s) = gp_last_result s"
  "gp_consecutive_failures (count_failure s) = gp_consecutive_failures s + 1"
  by (simp_all add: count_failure_def)

lemma fault_block_simps [simp]:
  "gp_next_request (fault_block s b t) = gp_next_request s"
  "gp_profile_valid (fault_block s b t) = gp_profile_valid s"
  "gp_profile_stage (fault_block s b t) = gp_profile_stage s" "gp_profile_check (fault_block s b t) = gp_profile_check s"
  "gp_last_offset (fault_block s b t) = gp_last_offset s" "gp_last_quantity (fault_block s b t) = gp_last_quantity s"
  "gp_last_checking (fault_block s b t) = gp_last_checking s" "gp_last_result (fault_block s b t) = gp_last_result s"
  "gp_consecutive_failures (fault_block s b t) = gp_consecutive_failures s"
  "gp_next_due (fault_block s b t) = (case b of None \<Rightarrow> gp_next_due s | Some b \<Rightarrow> (gp_next_due s)[b := t + 5000])"
  "gp_model (fault_block s b t) = (case b of None \<Rightarrow> gp_model s | Some b \<Rightarrow> ats_fail b t (gp_model s))"
  by (simp_all add: fault_block_def split: option.split)

lemma fault_global_simps [simp]:
  "gp_next_due (fault_global s ch t) = gp_next_due s"
  "gp_profile_valid (fault_global s ch t) \<longleftrightarrow> exception_code (gp_last_result s) \<noteq> 0 \<and> \<not> ch \<and> gp_profile_valid s"
  "gp_profile_stage (fault_global s ch t) =
     (if exception_code (gp_last_result s) \<noteq> 0 \<and> \<not> ch then gp_profile_stage s else 0)"
  "gp_last_offset (fault_global s ch t) = gp_last_offset s" "gp_last_quantity (fault_global s ch t) = gp_last_quantity s"
  "gp_last_checking (fault_global s ch t) = gp_last_checking s"
  "gp_consecutive_failures (fault_global s ch t) = gp_consecutive_failures s"
  "gp_next_request (fault_global s ch t) =
     (if exception_code (gp_last_result s) \<noteq> 0 \<and> ch then t + 30000 else gp_next_request s)"
  "gp_model (fault_global s ch t) =
     (if exception_code (gp_last_result s) = 0 \<or> ch then fold (\<lambda>b. ats_fail b t) [0..<ATS_BLOCK_COUNT] (gp_model s) else gp_model s)"
  by (simp_all add: fault_global_def)

lemma fault_global_check:
  "gp_profile_valid (fault_global s ch t) \<Longrightarrow> gp_profile_check (fault_global s ch t) = gp_profile_check s"
  by (auto simp: fault_global_def split: if_splits)

lemma poll_backoff_simps [simp]:
  "gp_next_due (poll_backoff s t) = gp_next_due s" "gp_model (poll_backoff s t) = gp_model s"
  "gp_profile_valid (poll_backoff s t) = gp_profile_valid s" "gp_profile_stage (poll_backoff s t) = gp_profile_stage s"
  "gp_profile_check (poll_backoff s t) = gp_profile_check s" "gp_last_offset (poll_backoff s t) = gp_last_offset s"
  "gp_last_quantity (poll_backoff s t) = gp_last_quantity s" "gp_last_checking (poll_backoff s t) = gp_last_checking s"
  "gp_consecutive_failures (poll_backoff s t) = gp_consecutive_failures s"
  by (simp_all add: poll_backoff_def Let_def)

lemma poll_backoff_next:
  assumes "unat t < 2 ^ 63 + 2 ^ 32"
  shows "unat (gp_next_request (poll_backoff s t)) = max (unat (gp_next_request s)) (unat t + backoff (gp_consecutive_failures s))"
proof -
  have "unat (t + ucast (if gp_consecutive_failures s < 6 then gp_consecutive_failures s * 5000 else 30000))
      = unat t + backoff (gp_consecutive_failures s)" (is "unat (t + ?w) = _")
  proof -
    have "unat t + unat ?w < 2 ^ LENGTH(64)"
      using assms backoff_le [of "gp_consecutive_failures s"] unfolding unat_wait by simp
    from unat_add_small [OF this] show ?thesis unfolding unat_wait .
  qed
  moreover have "gp_next_request (poll_backoff s t) = (if gp_next_request s < t + ?w then t + ?w else gp_next_request s)"
    by (simp add: poll_backoff_def Let_def)
  ultimately show ?thesis by (simp only: unat_max_word)
qed

subsection \<open>The identity check\<close>

definition identity_answer :: "gateway_poll_config \<Rightarrow> nat \<Rightarrow> mb_result \<Rightarrow> u16 list \<Rightarrow> bool" where
  \<comment> \<open>what stage \<open>k\<close> must come back with\<close>
  "identity_answer c k r ws \<longleftrightarrow>
     (if k = 0 then error r = MB_OK \<and> ws ! 0 = 23
      else if k = 1 then error r = MB_OK \<and> ws ! 0 = pc_expected_firmware c
      else if k = 2 then error r = MB_ERR_EXCEPTION \<and> exception_code r = 2
      else error r = MB_OK \<and> (pc_expected_mac_fragment c = 0 \<or> ws ! 0 AND 0x7fff = pc_expected_mac_fragment c))"

lemma poll_identity_cases:
  assumes "unat (gp_profile_stage s) \<le> 3" "error r = MB_OK \<or> x"
    "x = (gp_profile_stage s = 2 \<and> error r = MB_ERR_EXCEPTION \<and> exception_code r = 2)"
  obtains (rejected) why where "poll_identity s c ws x t = reject_profile s t why"
  | (valid) "gp_profile_stage s = 3" "identity_answer c 3 r ws"
      "poll_identity s c ws x t = s\<lparr>gp_profile_valid := True, gp_profile_check := t + 300000,
         gp_profile_status := ''Old MPAC1500 profile verified''\<rparr>"
  | (next_stage) "unat (gp_profile_stage s) < 3" "identity_answer c (unat (gp_profile_stage s)) r ws"
      "poll_identity s c ws x t = s\<lparr>gp_profile_stage := gp_profile_stage s + 1\<rparr>"
proof -
  have "unat (gp_profile_stage s) = 0 \<or> unat (gp_profile_stage s) = 1 \<or> unat (gp_profile_stage s) = 2 \<or>
      unat (gp_profile_stage s) = 3"
    using assms(1) by arith
  then consider "gp_profile_stage s = 0" | "gp_profile_stage s = 1" | "gp_profile_stage s = 2" | "gp_profile_stage s = 3"
    by (auto simp: unat_eq_iff)
  then show thesis
  proof cases
    case 1
    then show thesis
      using assms(2,3) rejected next_stage
      by (cases "ws ! 0 = 23") (auto simp: poll_identity_def identity_answer_def)
  next
    case 2
    then show thesis
      using assms(2,3) rejected next_stage
      by (cases "ws ! 0 = pc_expected_firmware c") (auto simp: poll_identity_def identity_answer_def)
  next
    case 3
    then show thesis
      using assms(2,3) rejected next_stage
      by (cases x) (auto simp: poll_identity_def identity_answer_def)
  next
    case 4
    then show thesis
      using assms(2,3) rejected valid
      by (cases "pc_expected_mac_fragment c = 0 \<or> ws ! 0 AND 0x7fff = pc_expected_mac_fragment c")
        (auto simp: poll_identity_def identity_answer_def)
  qed
qed

subsection \<open>The invariant\<close>

definition poll_inv :: "gateway_poll \<Rightarrow> bool" where
  "poll_inv s \<longleftrightarrow> model_ok (gp_model s) \<and> length (gp_next_due s) = 23 \<and> unat (gp_profile_stage s) \<le> 3 \<and>
     (\<forall>b < 23. b_acquired (m_blocks (gp_model s) ! b) \<longrightarrow> b_last_good (m_blocks (gp_model s) ! b) \<le> gp_next_request s)"

definition good_by :: "ats_model \<Rightarrow> u64 \<Rightarrow> bool" where
  \<comment> \<open>no block was read after \<open>t\<close>\<close>
  "good_by m t \<longleftrightarrow> model_ok m \<and> (\<forall>b < 23. b_acquired (m_blocks m ! b) \<longrightarrow> b_last_good (m_blocks m ! b) \<le> t)"

lemma poll_inv_eq:
  "poll_inv s \<longleftrightarrow> good_by (gp_model s) (gp_next_request s) \<and> length (gp_next_due s) = 23 \<and> unat (gp_profile_stage s) \<le> 3"
  by (auto simp: poll_inv_def good_by_def)

lemma good_by_mono: "good_by m t \<Longrightarrow> t \<le> u \<Longrightarrow> good_by m u"
  by (auto simp: good_by_def intro: order_trans)

lemma good_by_retained:
  assumes "good_by m t" "model_ok m'" "retained m' = retained m"
  shows "good_by m' t"
proof -
  have "length (m_blocks m') = 23" using assms(2) by (simp add: model_ok_def)
  then show ?thesis
    using retained_nth [OF assms(3)] assms(1,2) by (simp add: good_by_def)
qed

lemma good_by_fail: "good_by m t \<Longrightarrow> b < 23 \<Longrightarrow> good_by (ats_fail b now m) t"
  using good_by_retained model_ok_fail ats_faults.kept_fault by (simp add: good_by_def)

lemma good_by_fold: "good_by m t \<Longrightarrow> set bs \<subseteq> {..<23} \<Longrightarrow> good_by (fold (\<lambda>b. ats_fail b now) bs m) t"
  by (induction bs arbitrary: m) (auto simp: good_by_fail)

lemma good_by_offline [simp]: "good_by m t \<Longrightarrow> good_by (fold (\<lambda>b. ats_fail b now) [0..<ATS_BLOCK_COUNT] m) t"
  by (rule good_by_fold) (auto simp: ATS_BLOCK_COUNT_def)

lemma good_by_apply:
  assumes "good_by m t" "b < 23" "t \<le> now"
  shows "good_by (snd (ats_apply b ws now m)) now"
  using assms model_ok_apply [of m b ws now] good_by_mono [OF assms(1,3)]
  by (auto simp: good_by_def ats_apply_eq Let_def nth_list_update model_ok_def)

lemma poll_inv_init: "poll_inv gateway_poll_init"
  by (simp add: poll_inv_eq good_by_def model_ok_init gateway_poll_init_def ATS_BLOCK_COUNT_def)
    (simp add: ats_model_init_def ats_block_zero_def ATS_BLOCK_COUNT_def)

lemma poll_inv_offline: "poll_inv s \<Longrightarrow> poll_inv (gateway_poll_offline s now)"
  by (simp add: poll_inv_eq)

lemma poll_target_block:
  "poll_target s now = Some (Some b, off, cnt) \<Longrightarrow> b < 23 \<and> gp_profile_valid s \<and>
     earliest_due (gp_next_due s) 23 now = Some b \<and>
     off = of_nat (sb_offset (ats_scan_blocks ! b)) \<and> cnt = of_nat (sb_count (ats_scan_blocks ! b))"
  using earliest_due_Some(1) [of "gp_next_due s" 23 now b]
  by (auto simp: poll_target_def ats_consts split: option.splits if_splits)

lemma poll_target_identity:
  "poll_target s now = Some (None, off, cnt) \<Longrightarrow> \<not> gp_profile_valid s \<and> (off, cnt) = identity_register (gp_profile_stage s)"
  by (auto simp: poll_target_def split: option.splits if_splits)

text \<open>The reply, invariant and timing together.\<close>

lemma poll_reply_inv:
  assumes inv: "good_by (gp_model s) now" "length (gp_next_due s) = 23" "unat (gp_profile_stage s) \<le> 3"
    and t: "unat now < 2 ^ 63" and b: "\<And>k. b = Some k \<Longrightarrow> k < 23" "ch = (b = None)"
  shows "poll_inv (poll_reply s c b ch r ws now)"
    and "unat now + 250 \<le> unat (gp_next_request (poll_reply s c b ch r ws now))"
proof -
  let ?t = "now + ucast (elapsed_ms r)"
  let ?s = "s\<lparr>gp_last_result := r, gp_next_request := ?t + 250\<rparr>"
  note ct = completed_unat [OF t, of "elapsed_ms r"]
  have t250: "unat (?t + 250) = unat ?t + 250" and t30: "unat (?t + 30000) = unat ?t + 30000"
    using add_small [OF ct(2), of 250] add_small [OF ct(2), of 30000] by simp_all
  have le: "now \<le> ?t" "?t \<le> ?t + 250" "?t \<le> ?t + 30000"
    using ct t250 t30 by (simp_all add: word_le_nat_alt)
  note gt = good_by_mono [OF inv(1) le(1)]
  have failed: "poll_inv (poll_failed ?s b ch ?t) \<and> unat now + 250 \<le> unat (gp_next_request (poll_failed ?s b ch ?t))"
  proof -
    have next_t: "unat ?t + 250 \<le> unat (gp_next_request (poll_failed ?s b ch ?t))"
      by (simp add: poll_failed_def poll_backoff_next [OF ct(2)] t250 t30 le_max_iff_disj)
    then have "?t \<le> gp_next_request (poll_failed ?s b ch ?t)" by (simp add: word_le_nat_alt)
    moreover have "good_by (gp_model (poll_failed ?s b ch ?t)) ?t"
      using gt b by (auto simp: poll_failed_def good_by_fail split: option.split)
    ultimately have "good_by (gp_model (poll_failed ?s b ch ?t)) (gp_next_request (poll_failed ?s b ch ?t))"
      using good_by_mono by blast
    moreover have "length (gp_next_due (poll_failed ?s b ch ?t)) = 23" "unat (gp_profile_stage (poll_failed ?s b ch ?t)) \<le> 3"
      using inv by (simp_all add: poll_failed_def split: option.split)
    ultimately show ?thesis using next_t ct(1) by (simp add: poll_inv_eq)
  qed
  let ?x = "ch \<and> gp_profile_stage s = 2 \<and> error r = MB_ERR_EXCEPTION \<and> exception_code r = 2"
  let ?s1 = "?s\<lparr>gp_successes := gp_successes ?s + 1, gp_consecutive_failures := 0, gp_last_success := ?t\<rparr>"
  have next1: "good_by m ?t \<Longrightarrow> good_by m (?t + 250)" "good_by m ?t \<Longrightarrow> good_by m (?t + 30000)" for m
    using good_by_mono le by blast+
  have ok: "poll_inv (poll_identity ?s1 c ws ?x ?t) \<and> unat now + 250 \<le> unat (gp_next_request (poll_identity ?s1 c ws ?x ?t))"
    if "error r = MB_OK \<or> ?x" "ch"
  proof (rule poll_identity_cases [of ?s1 r ?x c ws ?t])
    show "unat (gp_profile_stage ?s1) \<le> 3" using inv(3) by simp
  next
    assume "unat (gp_profile_stage ?s1) < 3"
      "poll_identity ?s1 c ws ?x ?t = ?s1\<lparr>gp_profile_stage := gp_profile_stage ?s1 + 1\<rparr>"
    moreover from this have "unat (gp_profile_stage s + 1) \<le> 3"
      by (subst unat_add_small) simp_all
    ultimately show ?thesis using inv gt next1 ct t250 by (simp add: poll_inv_eq)
  qed (use that inv gt next1 ct t250 t30 in \<open>simp_all add: poll_inv_eq\<close>)
  have "poll_inv (poll_reply s c b ch r ws now) \<and> unat now + 250 \<le> unat (gp_next_request (poll_reply s c b ch r ws now))"
  proof (cases "error r = MB_OK \<or> ?x")
    case False
    then have "poll_reply s c b ch r ws now = poll_failed ?s b ch ?t"
      by (auto simp: poll_reply_def Let_def)
    with failed show ?thesis by simp
  next
    case True
    show ?thesis
    proof (cases b)
      case None
      with True have "poll_reply s c b ch r ws now = poll_identity ?s1 c ws ?x ?t"
        by (auto simp: poll_reply_def Let_def)
      with ok True None b(2) show ?thesis by simp
    next
      case (Some k)
      then have k: "k < 23" "\<not> ch" using b by auto
      with True Some have "poll_reply s c b ch r ws now =
          ?s1\<lparr>gp_model := snd (ats_apply k ws ?t (gp_model s)),
              gp_next_due := (gp_next_due s)[k := ?t + of_nat (sb_period_ms (ats_scan_blocks ! k))]\<rparr>"
        by (simp add: poll_reply_def Let_def)
      moreover have "good_by (snd (ats_apply k ws ?t (gp_model s))) (?t + 250)"
        using next1(1) good_by_apply [OF gt k(1)] by blast
      ultimately show ?thesis using inv ct t250 by (simp add: poll_inv_eq)
    qed
  qed
  then show "poll_inv (poll_reply s c b ch r ws now)"
    and "unat now + 250 \<le> unat (gp_next_request (poll_reply s c b ch r ws now))"
    by blast+
qed


lemma poll_step_inv:
  assumes "poll_inv s" "unat now < 2 ^ 63" "poll_step (reply r ws) c now s = (True, s')"
  shows "poll_inv s'" "unat now + 250 \<le> unat (gp_next_request s')" "gp_next_request s \<le> now"
proof -
  obtain block off cnt where st: "gp_next_request s \<le> now"
    "poll_target (poll_recheck s now) now = Some (block, off, cnt)"
    "s' = poll_reply (poll_issue (poll_recheck s now) off cnt) c block (\<not> gp_profile_valid (poll_recheck s now)) r ws now"
    using assms(3) by (rule poll_step_busy)
  let ?s = "poll_issue (poll_recheck s now) off cnt"
  have i: "good_by (gp_model ?s) now" "length (gp_next_due ?s) = 23" "unat (gp_profile_stage ?s) \<le> 3"
    using assms(1) good_by_mono [OF _ st(1)] by (auto simp: poll_inv_eq)
  have k: "k < 23" if "block = Some k" for k
    using poll_target_block st(2) that by blast
  have ch: "(\<not> gp_profile_valid (poll_recheck s now)) = (block = None)"
    using st(2) poll_target_block poll_target_identity by (cases block) blast+
  show "poll_inv s'" "unat now + 250 \<le> unat (gp_next_request s')"
    unfolding st(3) by (rule poll_reply_inv [OF i assms(2) k ch]; assumption)+
  show "gp_next_request s \<le> now" by (rule st(1))
qed

lemma poll_runs_inv: "poll_runs c s tr \<Longrightarrow> poll_inv s"
proof (induction rule: poll_runs.induct)
  case (runs_idle s tr r ws now s')
  then have "s' = s" using poll_step_idle [of "reply r ws" c now s] by simp
  with runs_idle show ?case by simp
qed (use poll_step_inv poll_inv_init poll_inv_offline in blast)+

subsection \<open>Spacing of the requests\<close>

lemma poll_identity_next:
  "gp_next_request (poll_identity s c ws x t) = gp_next_request s \<or> gp_next_request (poll_identity s c ws x t) = t + 30000"
  by (simp add: poll_identity_def)

lemma poll_reply_gap:
  assumes "unat now < 2 ^ 63"
  shows "unat now + 250 \<le> unat (gp_next_request (poll_reply s c b ch r ws now))"
proof -
  let ?t = "now + ucast (elapsed_ms r)"
  note ct = completed_unat [OF assms, of "elapsed_ms r"]
  have t: "unat (?t + 250) = unat ?t + 250" "unat (?t + 30000) = unat ?t + 30000"
    using add_small [OF ct(2), of 250] add_small [OF ct(2), of 30000] by simp_all
  have "unat now + 250 \<le> unat (gp_next_request (poll_failed (s\<lparr>gp_last_result := r, gp_next_request := ?t + 250\<rparr>) b ch ?t))"
    using ct(1) by (simp add: poll_failed_def poll_backoff_next [OF ct(2)] t le_max_iff_disj)
  moreover have "unat now + 250 \<le> unat (gp_next_request (poll_identity s' c ws x ?t))"
    if "gp_next_request s' = ?t + 250" for s' x
    using poll_identity_next [of s' c ws x ?t] that t ct(1) by auto
  ultimately show ?thesis
    using ct(1) t by (simp add: poll_reply_def Let_def split: option.split)
qed

interpretation ats_poller: poll_machine "\<lambda>(read, c) now s. poll_step read c now s" gp_next_request 250
proof unfold_locales
  fix e :: "mb_reader \<times> gateway_poll_config" and now s
  assume "fst ((\<lambda>(read, c) now s. poll_step read c now s) e now s)"
  then show "gp_next_request s \<le> now"
    by (auto simp: poll_step_def not_less Let_def split: if_splits prod.splits)
next
  fix e :: "mb_reader \<times> gateway_poll_config" and now s
  assume *: "fst ((\<lambda>(read, c) now s. poll_step read c now s) e now s)" "unat now < 2 ^ 63"
  obtain read c where e: "e = (read, c)" by fastforce
  obtain r ws where "poll_step read c now s = poll_step (reply r ws) c now s"
    using poll_step_reply by blast
  then obtain s' where s': "poll_step read c now s = (True, s')" "poll_step (reply r ws) c now s = (True, s')"
    using *(1) unfolding e case_prod_conv by (metis prod.collapse)
  have "unat now + 250 \<le> unat (gp_next_request s')"
    by (rule poll_step_busy [OF s'(2)]) (use poll_reply_gap [OF *(2)] in \<open>simp only:\<close>)
  then show "unat now + 250 \<le> unat (gp_next_request (snd ((\<lambda>(read, c) now s. poll_step read c now s) e now s)))"
    by (simp add: e s'(1))
qed (auto dest: poll_step_idle)

text \<open>Whatever the controller answers and whenever the step is called, the
  requests of any run of the poller are at least 250 ms apart, so a run of \<open>n + 1\<close> requests takes
  at least \<open>250 n\<close> ms; the times are those at which the requests are issued.\<close>
theorem ats_request_spacing:
  assumes "\<forall>x \<in> set run. unat (snd x) < 2 ^ 63"
    "request_times (\<lambda>(read, c) now s. poll_step read c now s) run s = t # ts"
  shows "sorted_wrt (\<lambda>t u. unat t + 250 \<le> unat u) (t # ts) \<and> unat t + 250 * length ts \<le> unat (last (t # ts))"
  using ats_poller.requests_spaced [OF assms(1), of s] ats_poller.request_rate [OF assms] assms(2) by simp

text \<open>Concrete replies and the first steps of a run, for the examples.\<close>

definition demo_ok :: mb_result where
  "demo_ok = \<lparr>error = MB_OK, exception_code = 0, elapsed_ms = 5, system_error = 0\<rparr>"

definition demo_config :: gateway_poll_config where
  "demo_config = \<lparr>pc_host = ''10.0.0.2'', pc_port = 502, pc_unit = 1, pc_expected_firmware = 0x0105,
     pc_expected_mac_fragment = 0\<rparr>"

lemma demo_step1:
  "poll_step (reply demo_ok [23]) demo_config 0 gateway_poll_init =
   (True, gateway_poll_init\<lparr>gp_last_offset := 9998, gp_last_quantity := 1, gp_last_checking := True,
      gp_requests := 1, gp_transaction_id := 1, gp_last_result := demo_ok, gp_next_request := 255,
      gp_successes := 1, gp_consecutive_failures := 0, gp_last_success := 5, gp_profile_stage := 1\<rparr>)"
  by (simp add: poll_step_def gateway_poll_init_def poll_recheck_def poll_target_def identity_register_def reply_def
      poll_reply_def demo_ok_def poll_identity_def Let_def)

lemma ats_request_spacing_witness:
  "request_times (\<lambda>(read, c) now s. poll_step read c now s)
     [((reply demo_ok [23], demo_config), 0), ((reply demo_ok [0x0105], demo_config), 300)] gateway_poll_init = [0, 300]
   \<and> unat (0::u64) + 250 * 1 \<le> unat (300::u64)"
proof -
  have "fst (poll_step (reply demo_ok [0x0105]) demo_config 300 (snd (poll_step (reply demo_ok [23]) demo_config 0 gateway_poll_init)))"
    unfolding demo_step1 by (simp add: poll_step_def poll_recheck_def poll_target_def gateway_poll_init_def
        identity_register_def reply_def Let_def)
  then have "request_times (\<lambda>(read, c) now s. poll_step read c now s)
     [((reply demo_ok [23], demo_config), 0), ((reply demo_ok [0x0105], demo_config), 300)] gateway_poll_init = [0, 300]"
    by (simp add: demo_step1)
  then show ?thesis
    using ats_request_spacing [of "[((reply demo_ok [23], demo_config), 0), ((reply demo_ok [0x0105], demo_config), 300)]"
        gateway_poll_init 0 "[300]"] by simp
qed

subsection \<open>Transport failures\<close>

lemma poll_failed_next:
  assumes "unat t < 2 ^ 63 + 2 ^ 32"
  shows "unat (gp_next_request (poll_failed s b ch t)) =
    max (if exception_code (gp_last_result s) \<noteq> 0 \<and> ch then unat (t + 30000) else unat (gp_next_request s))
        (unat t + backoff (gp_consecutive_failures s + 1))"
  by (simp add: poll_failed_def poll_backoff_next [OF assms])

lemma offline_faults_all:
  assumes "good_by m t" "i < 164"
  shows "v_quality (ats_model_decode_all (Some (fold (\<lambda>b. ats_fail b t) [0..<ATS_BLOCK_COUNT] m)) now ! i) = ATS_QUALITY_COMM"
proof -
  have b: "point_block i < 23" using point_block(3) assms(2) .
  have "block_ready t m (point_block i)"
    using assms(1) b by (auto simp: block_ready_def good_by_def)
  with ats_faults.all_faulted [OF b] have
    "b_failed (m_blocks (fold (\<lambda>b. ats_fail b t) [0..<ATS_BLOCK_COUNT] m) ! point_block i)"
    unfolding ATS_BLOCK_COUNT_def by blast
  then show ?thesis
    using b by (cases "b_acquired (m_blocks (fold (\<lambda>b. ats_fail b t) [0..<ATS_BLOCK_COUNT] m) ! point_block i)")
      (simp_all add: decode_all_nth assms(2) decode_point_acquired decode_point_unacquired block_good_eq fresh_def)
qed

text \<open>C2 (ats_transport_failure_faults_all): a request that fails without an exception reply faults
  the whole image: in every reachable state, whatever the time, all 164 points are then
  communication failures, the profile is no longer valid, the identity check starts over, and the
  next request waits for the backoff: five seconds per consecutive failure, at most thirty.\<close>
theorem ats_transport_failure_faults_all:
  assumes "poll_runs c s tr" "unat now < 2 ^ 63" "poll_step (reply r ws) c now s = (True, s')"
    and "error r \<noteq> MB_OK" "exception_code r = 0" "i < 164"
  shows "v_quality (ats_model_decode_all (Some (gp_model s')) t ! i) = ATS_QUALITY_COMM
    \<and> \<not> gp_profile_valid s' \<and> gp_profile_stage s' = 0
    \<and> gp_consecutive_failures s' = gp_consecutive_failures s + 1
    \<and> unat (gp_next_request s') = unat now + unat (elapsed_ms r) + max 250 (backoff (gp_consecutive_failures s + 1))"
proof -
  let ?t = "now + ucast (elapsed_ms r)"
  obtain block off cnt where st: "gp_next_request s \<le> now"
    "poll_target (poll_recheck s now) now = Some (block, off, cnt)"
    "s' = poll_reply (poll_issue (poll_recheck s now) off cnt) c block (\<not> gp_profile_valid (poll_recheck s now)) r ws now"
    using assms(3) by (rule poll_step_busy)
  let ?s = "(poll_issue (poll_recheck s now) off cnt)\<lparr>gp_last_result := r, gp_next_request := ?t + 250\<rparr>"
  note ct = completed_unat [OF assms(2), of "elapsed_ms r"]
  have t: "unat (?t + 250) = unat ?t + 250" using add_small [OF ct(2), of 250] by simp
  have s': "s' = poll_failed ?s block (\<not> gp_profile_valid (poll_recheck s now)) ?t"
    using assms(4,5) by (auto simp: st(3) poll_reply_def Let_def)
  have "now \<le> ?t" using ct(1) by (simp add: word_le_nat_alt)
  then have good: "good_by (gp_model s) ?t"
    using poll_runs_inv [OF assms(1)] good_by_mono [of "gp_model s"] st(1) by (auto simp: poll_inv_eq)
  have "good_by (case block of None \<Rightarrow> gp_model s | Some b \<Rightarrow> ats_fail b ?t (gp_model s)) ?t"
    using good good_by_fail poll_target_block st(2) by (cases block) auto
  note faulted = offline_faults_all [OF this assms(6)]
  have model: "gp_model s' = fold (\<lambda>b. ats_fail b ?t) [0..<ATS_BLOCK_COUNT]
      (case block of None \<Rightarrow> gp_model s | Some b \<Rightarrow> ats_fail b ?t (gp_model s))"
    using assms(5) by (cases block) (simp_all add: s' poll_failed_def)
  have rest: "\<not> gp_profile_valid s'" "gp_profile_stage s' = 0"
      "gp_consecutive_failures s' = gp_consecutive_failures s + 1"
    using assms(5) by (simp_all add: s' poll_failed_def)
  have "unat (gp_next_request s') = unat now + unat (elapsed_ms r) + max 250 (backoff (gp_consecutive_failures s + 1))"
    using assms(5) ct(1) t by (simp add: s' poll_failed_next [OF ct(2)] max_def)
  with faulted rest show ?thesis unfolding model by blast
qed


definition demo_timeout :: mb_result where
  "demo_timeout = \<lparr>error = MB_ERR_TIMEOUT, exception_code = 0, elapsed_ms = 1200, system_error = 0\<rparr>"

lemma ats_transport_failure_faults_all_witness:
  "\<exists>s'. poll_step (reply demo_timeout []) demo_config 0 gateway_poll_init = (True, s') \<and>
     unat (gp_next_request s') = 6200 \<and>
     v_quality (ats_model_decode_all (Some (gp_model s')) 7 ! 6) = ATS_QUALITY_COMM"
proof -
  have "fst (poll_step (reply demo_timeout []) demo_config 0 gateway_poll_init)"
    by (simp add: poll_step_def poll_recheck_def poll_target_def gateway_poll_init_def
        identity_register_def reply_def Let_def)
  then obtain s' where s': "poll_step (reply demo_timeout []) demo_config 0 gateway_poll_init = (True, s')"
    by (metis prod.collapse)
  from ats_transport_failure_faults_all [OF runs_init _ this, of 6 7] s' show ?thesis
    by (simp add: demo_timeout_def gateway_poll_init_def backoff_def)
qed

subsection \<open>Identity before data\<close>

text \<open>
  The evidence a trace holds, newest event first: the first \<open>k\<close> identity stages have just been
  answered as expected, in order; a profile verified by all four of them stays good until five
  minutes after the last, as long as only data reads that were answered came in between.
\<close>

definition answered :: "gateway_poll_config \<Rightarrow> nat \<Rightarrow> poll_event \<Rightarrow> bool" where
  "answered c k e = (case e of
     Exchange t d ch off cnt r ws \<Rightarrow> ch \<and> (off, cnt) = identity_register (of_nat k) \<and> identity_answer c k r ws
   | Offline \<Rightarrow> False)"

fun identity_prefix :: "gateway_poll_config \<Rightarrow> nat \<Rightarrow> poll_event list \<Rightarrow> bool" where
  "identity_prefix c 0 tr = True"
| "identity_prefix c (Suc k) [] = False"
| "identity_prefix c (Suc k) (e # tr) = (answered c k e \<and> identity_prefix c k tr)"

lemma identity_prefix_4: "identity_prefix c 4 (e # tr) = (answered c 3 e \<and> identity_prefix c 3 tr)"
  using identity_prefix.simps(3) [of c 3 e tr] by simp

definition answered_data :: "poll_event \<Rightarrow> bool" where
  "answered_data e = (case e of
     Exchange t d ch off cnt r ws \<Rightarrow> \<not> ch \<and> (error r = MB_OK \<or> exception_code r \<noteq> 0)
   | Offline \<Rightarrow> False)"

fun verified_until :: "gateway_poll_config \<Rightarrow> poll_event list \<Rightarrow> u64 option" where
  "verified_until c [] = None"
| "verified_until c (e # tr) =
     (if answered_data e then verified_until c tr
      else if identity_prefix c 4 (e # tr) then Some (ev_done e + 300000) else None)"

definition event_ok :: "gateway_poll_config \<Rightarrow> poll_event \<Rightarrow> poll_event list \<Rightarrow> bool" where
  "event_ok c e older = (case e of
     Exchange t d ch off cnt r ws \<Rightarrow>
       if ch then (\<exists>k < 4. (off, cnt) = identity_register (of_nat k) \<and> identity_prefix c k older)
       else (\<exists>b < 23. off = of_nat (sb_offset (ats_scan_blocks ! b)) \<and> cnt = of_nat (sb_count (ats_scan_blocks ! b)))
          \<and> (\<exists>deadline. verified_until c older = Some deadline \<and> t < deadline)
   | Offline \<Rightarrow> True)"

definition evidence :: "gateway_poll_config \<Rightarrow> gateway_poll \<Rightarrow> poll_event list \<Rightarrow> bool" where
  "evidence c s tr \<longleftrightarrow>
     (if gp_profile_valid s then verified_until c tr = Some (gp_profile_check s)
      else identity_prefix c (unat (gp_profile_stage s)) tr)"

lemma evidence_recheck: "evidence c s tr \<Longrightarrow> evidence c (poll_recheck s now) tr"
  by (auto simp: evidence_def)

lemma evidence_issue: "evidence c (poll_issue s off cnt) tr = evidence c s tr"
  by (simp add: evidence_def)

lemma poll_failed_stage:
  "gp_profile_valid (poll_failed s b ch t) \<longleftrightarrow> exception_code (gp_last_result s) \<noteq> 0 \<and> \<not> ch \<and> gp_profile_valid s"
  "gp_profile_stage (poll_failed s b ch t) = (if exception_code (gp_last_result s) \<noteq> 0 \<and> \<not> ch then gp_profile_stage s else 0)"
  "gp_profile_valid (poll_failed s b ch t) \<Longrightarrow> gp_profile_check (poll_failed s b ch t) = gp_profile_check s"
  by (simp_all add: poll_failed_def fault_global_check)

lemma poll_identity_frame:
  "gp_last_offset (poll_identity s c ws x t) = gp_last_offset s" "gp_last_quantity (poll_identity s c ws x t) = gp_last_quantity s"
  "gp_last_checking (poll_identity s c ws x t) = gp_last_checking s"
  by (simp_all add: poll_identity_def)

lemma poll_reply_frame [simp]:
  "gp_last_offset (poll_reply s c b ch r ws now) = gp_last_offset s"
  "gp_last_quantity (poll_reply s c b ch r ws now) = gp_last_quantity s"
  "gp_last_checking (poll_reply s c b ch r ws now) = gp_last_checking s"
  by (simp_all add: poll_reply_def Let_def poll_failed_def poll_identity_frame split: option.split)

lemma data_reply_evidence:
  assumes "gp_profile_valid s" "verified_until c tr = Some (gp_profile_check s)" "b < 23"
  shows "evidence c (poll_reply s c (Some b) False r ws now) (Exchange now d False off cnt r ws # tr)"
proof (cases "error r = MB_OK \<or> exception_code r \<noteq> 0")
  case True
  then show ?thesis
    using assms by (auto simp: evidence_def answered_data_def poll_reply_def Let_def poll_failed_stage)
next
  case False
  then show ?thesis
    by (simp add: evidence_def poll_reply_def Let_def poll_failed_stage)
qed

lemma identity_reply_evidence:
  assumes "\<not> gp_profile_valid s" "identity_prefix c (unat (gp_profile_stage s)) tr" "unat (gp_profile_stage s) \<le> 3"
    and "(off, cnt) = identity_register (gp_profile_stage s)"
  shows "evidence c (poll_reply s c None True r ws now) (Exchange now (now + ucast (elapsed_ms r)) True off cnt r ws # tr)"
proof -
  let ?t = "now + ucast (elapsed_ms r)"
  let ?e = "Exchange now ?t True off cnt r ws"
  let ?x = "gp_profile_stage s = 2 \<and> error r = MB_ERR_EXCEPTION \<and> exception_code r = 2"
  define s1 where "s1 = s\<lparr>gp_last_result := r, gp_next_request := ?t + 250, gp_successes := gp_successes s + 1,
      gp_consecutive_failures := 0, gp_last_success := ?t\<rparr>"
  have ans: "answered c (unat (gp_profile_stage s)) ?e" if "identity_answer c (unat (gp_profile_stage s)) r ws"
    using that assms(4) by (simp add: answered_def)
  show ?thesis
  proof (cases "error r = MB_OK \<or> ?x")
    case False
    then show ?thesis
      by (auto simp: evidence_def poll_reply_def Let_def poll_failed_stage)
  next
    case True
    then have r: "poll_reply s c None True r ws now = poll_identity s1 c ws ?x ?t"
      by (auto simp: poll_reply_def Let_def s1_def)
    have s1: "gp_profile_stage s1 = gp_profile_stage s" "gp_profile_valid s1 = False"
      using assms(1) by (simp_all add: s1_def)
    show ?thesis
      unfolding r
    proof (rule poll_identity_cases [of s1 r ?x c ws ?t])
      assume "gp_profile_stage s1 = 3" "identity_answer c 3 r ws"
        "poll_identity s1 c ws ?x ?t = s1\<lparr>gp_profile_valid := True, gp_profile_check := ?t + 300000,
           gp_profile_status := ''Old MPAC1500 profile verified''\<rparr>"
      moreover from this have k: "unat (gp_profile_stage s) = 3" by (simp add: s1)
      ultimately show "evidence c (poll_identity s1 c ws ?x ?t) (?e # tr)"
        using ans assms(2) unfolding k by (simp add: evidence_def s1 answered_data_def identity_prefix_4)
    next
      assume *: "unat (gp_profile_stage s1) < 3" "identity_answer c (unat (gp_profile_stage s1)) r ws"
        "poll_identity s1 c ws ?x ?t = s1\<lparr>gp_profile_stage := gp_profile_stage s1 + 1\<rparr>"
      then have "unat (gp_profile_stage s + 1) = Suc (unat (gp_profile_stage s))"
        by (subst unat_add_small) (simp_all add: s1)
      with * ans assms(2) show "evidence c (poll_identity s1 c ws ?x ?t) (?e # tr)"
        by (simp add: evidence_def s1)
    qed (use True assms(3) in \<open>auto simp: s1 evidence_def\<close>)
  qed
qed


lemma poll_step_evidence:
  assumes "poll_inv s" "evidence c s tr" "poll_step (reply r ws) c now s = (True, s')"
  shows "evidence c s' (Exchange now (now + ucast (elapsed_ms r)) (gp_last_checking s') (gp_last_offset s') (gp_last_quantity s') r ws # tr)"
    and "event_ok c (Exchange now (now + ucast (elapsed_ms r)) (gp_last_checking s') (gp_last_offset s') (gp_last_quantity s') r ws) tr"
proof -
  obtain block off cnt where st: "gp_next_request s \<le> now"
    "poll_target (poll_recheck s now) now = Some (block, off, cnt)"
    "s' = poll_reply (poll_issue (poll_recheck s now) off cnt) c block (\<not> gp_profile_valid (poll_recheck s now)) r ws now"
    using assms(3) by (rule poll_step_busy)
  let ?s = "poll_issue (poll_recheck s now) off cnt"
  have ev: "evidence c ?s tr"
    using evidence_recheck [OF assms(2), of now] by (simp only: evidence_issue)
  have "evidence c s' (Exchange now (now + ucast (elapsed_ms r)) (\<not> gp_profile_valid ?s) off cnt r ws # tr) \<and>
      event_ok c (Exchange now (now + ucast (elapsed_ms r)) (\<not> gp_profile_valid ?s) off cnt r ws) tr"
  proof (cases block)
    case (Some b)
    from poll_target_block [OF st(2) [unfolded Some]] have b: "b < 23" "gp_profile_valid ?s" "now < gp_profile_check ?s"
      "off = of_nat (sb_offset (ats_scan_blocks ! b))" "cnt = of_nat (sb_count (ats_scan_blocks ! b))"
      by auto
    moreover have v: "verified_until c tr = Some (gp_profile_check ?s)" using ev b(2) by (simp only: evidence_def if_True)
    moreover have "s' = poll_reply ?s c (Some b) False r ws now" using b(2) st(3) Some by simp
    ultimately show ?thesis
      using data_reply_evidence [OF b(2) v b(1), of r ws now "now + ucast (elapsed_ms r)" off cnt]
      by (auto simp: event_ok_def)
  next
    case None
    from poll_target_identity [OF st(2) [unfolded None]] have n: "\<not> gp_profile_valid ?s"
      "(off, cnt) = identity_register (gp_profile_stage ?s)" by auto
    have p: "identity_prefix c (unat (gp_profile_stage ?s)) tr" using ev n(1) by (simp only: evidence_def if_False)
    have k: "unat (gp_profile_stage ?s) \<le> 3" using assms(1) by (auto simp: poll_inv_def)
    have s': "s' = poll_reply ?s c None True r ws now" using n(1) st(3) None by simp
    have "\<exists>k < 4. (off, cnt) = identity_register (of_nat k) \<and> identity_prefix c k tr"
      by (rule exI [of _ "unat (gp_profile_stage ?s)"]) (use k n(2) p in \<open>simp only: word_of_unat; simp\<close>)
    then show ?thesis
      unfolding s' using identity_reply_evidence [OF n(1) p k n(2)] n(1) by (simp add: event_ok_def)
  qed
  moreover have "gp_last_checking s' = (\<not> gp_profile_valid ?s)" "gp_last_offset s' = off" "gp_last_quantity s' = cnt"
    unfolding st(3) by simp_all
  ultimately show "evidence c s' (Exchange now (now + ucast (elapsed_ms r)) (gp_last_checking s') (gp_last_offset s') (gp_last_quantity s') r ws # tr)"
    and "event_ok c (Exchange now (now + ucast (elapsed_ms r)) (gp_last_checking s') (gp_last_offset s') (gp_last_quantity s') r ws) tr"
    by simp_all
qed

lemma poll_runs_evidence:
  "poll_runs c s tr \<Longrightarrow> evidence c s tr \<and> (\<forall>newer e older. tr = newer @ e # older \<longrightarrow> event_ok c e older)"
proof (induction rule: poll_runs.induct)
  case runs_init
  show ?case by (simp add: evidence_def gateway_poll_init_def)
next
  case (runs_idle s tr r ws now s')
  then have "s' = s" using poll_step_idle [of "reply r ws" c now s] by simp
  with runs_idle show ?case by simp
next
  case (runs_step s tr now r ws s')
  have inv: "poll_inv s" using poll_runs_inv runs_step.hyps(1) .
  show ?case
    using poll_step_evidence [OF inv _ runs_step.hyps(3)] runs_step.IH by (auto simp: Cons_eq_append_conv)
next
  case (runs_offline s tr now)
  then show ?case by (auto simp: evidence_def event_ok_def Cons_eq_append_conv)
qed



subsection \<open>No block starves\<close>

text \<open>A run of requests with a good profile in which block \<open>i\<close> is due all the time and is not the
  block that is read; the number counts the requests.\<close>

inductive waits :: "gateway_poll_config \<Rightarrow> nat \<Rightarrow> gateway_poll \<Rightarrow> nat \<Rightarrow> gateway_poll \<Rightarrow> bool" for c i s where
  waits_none: "waits c i s 0 s"
| waits_more: "waits c i s n s1 \<Longrightarrow> gp_profile_valid s1 \<Longrightarrow> now < gp_profile_check s1 \<Longrightarrow> unat now < 2 ^ 63 \<Longrightarrow>
    gp_next_due s1 ! i \<le> now \<Longrightarrow> poll_step (reply r ws) c now s1 = (True, s2) \<Longrightarrow>
    gp_last_offset s2 \<noteq> of_nat (sb_offset (ats_scan_blocks ! i)) \<Longrightarrow> waits c i s (Suc n) s2"

lemma data_reply_due:
  "gp_next_due (poll_reply s c (Some b) ch r ws now) = (gp_next_due s)[b := now + ucast (elapsed_ms r) + 5000] \<or>
   gp_next_due (poll_reply s c (Some b) ch r ws now) =
     (gp_next_due s)[b := now + ucast (elapsed_ms r) + of_nat (sb_period_ms (ats_scan_blocks ! b))]"
  by (simp add: poll_reply_def Let_def poll_failed_def)

lemma data_step_progress:
  assumes "poll_inv s" "gp_profile_valid s" "now < gp_profile_check s" "unat now < 2 ^ 63" "i < 23"
    and "gp_next_due s ! i \<le> now" "poll_step (reply r ws) c now s = (True, s')"
    and "gp_last_offset s' \<noteq> of_nat (sb_offset (ats_scan_blocks ! i))"
  shows "card (rivals (gp_next_due s') i) < card (rivals (gp_next_due s) i)"
proof -
  let ?t = "now + ucast (elapsed_ms r)"
  note ct = completed_unat [OF assms(4), of "elapsed_ms r"]
  obtain block off cnt where st: "poll_target (poll_recheck s now) now = Some (block, off, cnt)"
    "s' = poll_reply (poll_issue (poll_recheck s now) off cnt) c block (\<not> gp_profile_valid (poll_recheck s now)) r ws now"
    using assms(7) by (rule poll_step_busy)
  have "gp_profile_valid (poll_recheck s now)" using assms(2,3) by simp
  then obtain b where b: "block = Some b" using st(1) poll_target_identity [of "poll_recheck s now" now off cnt]
    by (cases block) auto
  from poll_target_block [OF st(1) [unfolded b]]
  have t: "b < 23" "earliest_due (gp_next_due s) 23 now = Some b" "off = of_nat (sb_offset (ats_scan_blocks ! b))" by auto
  have len: "length (gp_next_due s) = 23" using assms(1) by (simp add: poll_inv_def)
  have "b \<noteq> i" using assms(8) t(3) by (auto simp: st(2))
  have later: "gp_next_due s ! i < ?t + of_nat n" if "1 \<le> n" "n \<le> 60000" for n
    using that assms(6) ct(1) add_small [OF ct(2), of n] by (simp add: word_less_nat_alt word_le_nat_alt)
  have "gp_next_due s ! i < ?t + 5000" "gp_next_due s ! i < ?t + of_nat (sb_period_ms (ats_scan_blocks ! b))"
    using later [of 5000] later [of "sb_period_ms (ats_scan_blocks ! b)"] block_limits_nth(4,5) [OF t(1)] by simp_all
  then obtain u where "gp_next_due s' = (gp_next_due s)[b := u]" "gp_next_due s ! i < u"
    using data_reply_due [of "poll_issue (poll_recheck s now) off cnt" c b _ r ws now]
    unfolding st(2) b by fastforce
  then show ?thesis
    using rivals_decrease [of "gp_next_due s" now b i u] t(2) len assms(5,6) \<open>b \<noteq> i\<close> by simp
qed

lemma waits_bound:
  assumes "waits c i s n s'" "poll_inv s" "i < 23"
  shows "poll_inv s' \<and> card (rivals (gp_next_due s') i) + n \<le> card (rivals (gp_next_due s) i)"
  using assms
proof (induction rule: waits.induct)
  case (waits_more n s1 now r ws s2)
  then have inv: "poll_inv s1" by simp
  have "card (rivals (gp_next_due s2) i) < card (rivals (gp_next_due s1) i)"
    using data_step_progress [OF inv waits_more.hyps(2-4) assms(3) waits_more.hyps(5-7)] .
  moreover have "poll_inv s2" using poll_step_inv(1) [OF inv waits_more.hyps(4,6)] .
  ultimately show ?case using waits_more by simp
qed simp


text \<open>The four identity stages and a first data read, for the examples.\<close>

definition demo_refused :: mb_result where
  "demo_refused = \<lparr>error = MB_ERR_EXCEPTION, exception_code = 2, elapsed_ms = 5, system_error = 0\<rparr>"

lemmas demo_eval = poll_step_def poll_recheck_def poll_target_def identity_register_def reply_def
  poll_reply_def demo_ok_def demo_refused_def demo_config_def poll_identity_def Let_def

definition demo_at :: "u64 \<Rightarrow> u8 \<Rightarrow> bool \<Rightarrow> gateway_poll \<Rightarrow> bool" where
  "demo_at t k v s \<longleftrightarrow> gp_next_request s = t \<and> gp_profile_stage s = k \<and> gp_profile_valid s = v \<and>
     gp_next_due s = replicate 23 0 \<and> (v \<longrightarrow> gp_profile_check s = 300905)"

lemma demo_stages:
  "demo_at 255 1 False s \<Longrightarrow> \<exists>s'. poll_step (reply demo_ok [0x0105]) demo_config 300 s = (True, s') \<and> demo_at 555 2 False s'"
  "demo_at 555 2 False s \<Longrightarrow> \<exists>s'. poll_step (reply demo_refused []) demo_config 600 s = (True, s') \<and> demo_at 855 3 False s'"
  "demo_at 855 3 False s \<Longrightarrow> \<exists>s'. poll_step (reply demo_ok [7]) demo_config 900 s = (True, s') \<and> demo_at 1155 3 True s'"
  by (simp_all add: demo_eval demo_at_def)

lemma demo_data_step:
  assumes "demo_at 1155 3 True s"
  shows "\<exists>s'. poll_step (reply demo_ok demo_words) demo_config 1200 s = (True, s') \<and> gp_last_offset s' = 0"
proof -
  have "earliest_due (gp_next_due s) 23 1200 = Some 0"
    using assms earliest_due_zero [of 22 "gp_next_due s" 1200] by (simp add: demo_at_def)
  then show ?thesis
    using assms by (simp add: demo_eval demo_at_def ats_consts block0)
qed

lemma demo_verified: "\<exists>s tr. poll_runs demo_config s tr \<and> demo_at 1155 3 True s"
proof -
  have "\<exists>s tr. poll_runs demo_config s tr \<and> demo_at 255 1 False s"
    using runs_step [OF runs_init _ demo_step1] by (fastforce simp: demo_at_def gateway_poll_init_def ats_consts)
  then obtain s1 tr1 where "poll_runs demo_config s1 tr1" "demo_at 255 1 False s1" by blast
  with demo_stages(1) [of s1] runs_step [of demo_config s1 tr1 300 demo_ok "[0x0105]"]
  obtain s2 tr2 where "poll_runs demo_config s2 tr2" "demo_at 555 2 False s2" by auto
  with demo_stages(2) [of s2] runs_step [of demo_config s2 tr2 600 demo_refused "[]"]
  obtain s3 tr3 where "poll_runs demo_config s3 tr3" "demo_at 855 3 False s3" by auto
  with demo_stages(3) [of s3] runs_step [of demo_config s3 tr3 900 demo_ok "[7]"]
  show ?thesis by auto
qed


end
