(* ===== verification/Ota_Auth.thy ===== *)
theory Ota_Auth
  imports Gw_Prelude
begin

section \<open>Update credentials and the health gate (main/ota_auth.c, main/ota_health.c)\<close>

text \<open>
  Who may talk to the update and configuration endpoints, and when a freshly booted image may be
  confirmed. A C string argument is the \<open>string\<close> before its NUL, \<open>None\<close> for NULL; a buffer with an
  explicit length is a list, and reading past its end is \<open>None\<close> of the result.
\<close>

subsection \<open>Tokens\<close>

definition OTA_BEARER_PREFIX :: string where "OTA_BEARER_PREFIX = ''Bearer ''"
definition OTA_TOKEN_MIN_LENGTH :: nat where "OTA_TOKEN_MIN_LENGTH = 32"
definition OTA_TOKEN_MAX_LENGTH :: nat where "OTA_TOKEN_MAX_LENGTH = 128"

lemmas ota_consts [cdefs] = OTA_BEARER_PREFIX_def OTA_TOKEN_MIN_LENGTH_def OTA_TOKEN_MAX_LENGTH_def

fun bounded_length :: "string option \<Rightarrow> nat \<Rightarrow> nat" where
  "bounded_length None maximum = 0"
| "bounded_length (Some s) maximum = min (length s) maximum"

definition token_char :: "char \<Rightarrow> bool" where
  "token_char c \<longleftrightarrow> 0x21 \<le> (of_char c :: nat) \<and> (of_char c :: nat) \<le> 0x7E"

definition ota_token_configuration_valid :: "string option \<Rightarrow> bool" where
  "ota_token_configuration_valid token =
     (let len = bounded_length token (OTA_TOKEN_MAX_LENGTH + 1) in
      if len < OTA_TOKEN_MIN_LENGTH \<or> len > OTA_TOKEN_MAX_LENGTH then False
      else list_all token_char (take len (the token)))"

definition ota_role_tokens_valid :: "string option \<Rightarrow> string option \<Rightarrow> bool" where
  "ota_role_tokens_valid admin_token viewer_token \<longleftrightarrow>
     ota_token_configuration_valid admin_token \<and> ota_token_configuration_valid viewer_token \<and>
     the admin_token \<noteq> the viewer_token"

subsection \<open>The comparison\<close>

text \<open>The branch-free comparison: every byte is compared, the differences are collected.\<close>

definition byte_diff :: "string \<Rightarrow> nat \<Rightarrow> string \<Rightarrow> u8 \<Rightarrow> nat \<Rightarrow> u8 option" where
  "byte_diff authorization start expected d i = do {
     a \<leftarrow> rd authorization (start + i);
     b \<leftarrow> rd expected i;
     Some (d OR (of_char a XOR of_char b)) }"

fun diff_loop :: "(u8 \<Rightarrow> nat \<Rightarrow> u8 option) \<Rightarrow> nat list \<Rightarrow> u8 \<Rightarrow> u8 option" where
  "diff_loop f [] d = Some d"
| "diff_loop f (i # is) d = do { d \<leftarrow> f d i; diff_loop f is d }"

definition ota_authorization_valid :: "string option \<Rightarrow> nat \<Rightarrow> string option \<Rightarrow> bool option" where
  "ota_authorization_valid authorization authorization_length token =
     (case authorization of
        None \<Rightarrow> Some False
      | Some a \<Rightarrow>
          if \<not> ota_token_configuration_valid token then Some False
          else let prefix_length = length OTA_BEARER_PREFIX; token_length = length (the token) in
               if authorization_length \<noteq> prefix_length + token_length then Some False
               else do {
                 d \<leftarrow> diff_loop (byte_diff a 0 OTA_BEARER_PREFIX) [0..<prefix_length] 0;
                 d \<leftarrow> diff_loop (byte_diff a prefix_length (the token)) [0..<token_length] d;
                 Some (d = 0) })"

subsection \<open>Roles\<close>

datatype ota_role = OTA_ROLE_NONE | OTA_ROLE_VIEWER | OTA_ROLE_ADMIN | OTA_ROLE_ANONYMOUS

definition ota_authorization_role :: "string option \<Rightarrow> nat \<Rightarrow> string option \<Rightarrow> string option \<Rightarrow> ota_role option" where
  "ota_authorization_role authorization authorization_length admin_token viewer_token =
     (if \<not> ota_role_tokens_valid admin_token viewer_token then Some OTA_ROLE_NONE
      else if authorization = None \<and> authorization_length = 0 then Some OTA_ROLE_ANONYMOUS
      else do {
        admin \<leftarrow> ota_authorization_valid authorization authorization_length admin_token;
        viewer \<leftarrow> ota_authorization_valid authorization authorization_length viewer_token;
        Some (if admin then OTA_ROLE_ADMIN else if viewer then OTA_ROLE_VIEWER else OTA_ROLE_NONE) })"

definition ota_role_allows :: "ota_role \<Rightarrow> bool \<Rightarrow> bool" where
  "ota_role_allows role read_only \<longleftrightarrow>
     role = OTA_ROLE_ADMIN \<or> ((role = OTA_ROLE_VIEWER \<or> role = OTA_ROLE_ANONYMOUS) \<and> read_only)"

subsection \<open>The embedded token\<close>

definition blank_byte :: "u8 \<Rightarrow> bool" where
  "blank_byte b \<longleftrightarrow> b = 0 \<or> b = 10 \<or> b = 13 \<or> b = 32 \<or> b = 9"

fun trim_length :: "u8 list \<Rightarrow> nat \<Rightarrow> nat option" where
  "trim_length embedded 0 = Some 0"
| "trim_length embedded (Suc n) = do {
     b \<leftarrow> rd embedded n;
     if blank_byte b then trim_length embedded n else Some (Suc n) }"

text \<open>The returned flag and the token buffer afterwards; the outer \<open>None\<close> is an out-of-range read.\<close>

definition ota_copy_embedded_token ::
    "u8 list option \<Rightarrow> nat \<Rightarrow> string option \<Rightarrow> nat \<Rightarrow> (bool \<times> string option) option" where
  "ota_copy_embedded_token embedded embedded_length token token_capacity =
     (case (embedded, token) of
        (Some e, Some t) \<Rightarrow> do {
          n \<leftarrow> trim_length e embedded_length;
          if n < OTA_TOKEN_MIN_LENGTH \<or> n > OTA_TOKEN_MAX_LENGTH \<or> token_capacity \<le> n then Some (False, token)
          else do {
            bytes \<leftarrow> read_loop (rd e) [0..<n];
            if \<not> list_all (\<lambda>b. 0x21 \<le> b \<and> b \<le> 0x7E) bytes then Some (False, token)
            else let t' = blit t (map (\<lambda>b. char_of (unat b)) bytes @ [NUL])
                 in Some (ota_token_configuration_valid (Some (cstr t')), Some t') } }
      | _ \<Rightarrow> Some (False, token))"

subsection \<open>The health gate\<close>

record ota_health_gate =
  consecutive_healthy_samples :: u32

definition ota_health_gate_reset :: "ota_health_gate option \<Rightarrow> ota_health_gate option" where
  "ota_health_gate_reset gate = map_option (\<lambda>g. g\<lparr>consecutive_healthy_samples := 0\<rparr>) gate"

definition ota_health_gate_sample ::
    "ota_health_gate option \<Rightarrow> bool \<Rightarrow> u32 \<Rightarrow> bool \<times> ota_health_gate option" where
  "ota_health_gate_sample gate healthy required =
     (case gate of
        None \<Rightarrow> (False, gate)
      | Some g \<Rightarrow>
          if required = 0 then (False, gate)
          else if \<not> healthy then (False, Some (g\<lparr>consecutive_healthy_samples := 0\<rparr>))
          else let g' = (if consecutive_healthy_samples g < required
                         then g\<lparr>consecutive_healthy_samples := consecutive_healthy_samples g + 1\<rparr> else g)
               in (consecutive_healthy_samples g' \<ge> required, Some g'))"

lemma ota_token_valid_eq:
  "ota_token_configuration_valid (Some s) \<longleftrightarrow> 32 \<le> length s \<and> length s \<le> 128 \<and> list_all token_char s"
  by (auto simp: ota_token_configuration_valid_def ota_consts Let_def min_def)

lemma ota_token_valid_Some: "ota_token_configuration_valid t \<Longrightarrow> \<exists>s. t = Some s"
  by (cases t) (simp_all add: ota_token_configuration_valid_def ota_consts)

lemma length_bearer: "length OTA_BEARER_PREFIX = 7"
  by (simp add: ota_consts)

lemma diff_loop_append:
  "diff_loop f (is @ js) d = do { d \<leftarrow> diff_loop f is d; diff_loop f js d }"
  by (induction "is" arbitrary: d) (auto split: bind_splits)

lemma diff_loop_eq:
  assumes "start + n \<le> length a" "n \<le> length b"
  shows "\<exists>r. diff_loop (byte_diff a start b) [0..<n] d = Some r \<and>
    (r = 0 \<longleftrightarrow> d = 0 \<and> take n (drop start a) = take n b)"
  using assms
proof (induction n)
  case (Suc n)
  then obtain r where r: "diff_loop (byte_diff a start b) [0..<n] d = Some r"
    "r = 0 \<longleftrightarrow> d = 0 \<and> take n (drop start a) = take n b" by auto
  have "byte_diff a start b r n = Some (r OR (of_char (a ! (start + n)) XOR of_char (b ! n)))"
    using Suc.prems by (simp add: byte_diff_def)
  moreover have "take (Suc n) (drop start a) = take n (drop start a) @ [a ! (start + n)]" "take (Suc n) b = take n b @ [b ! n]"
    using Suc.prems by (simp_all add: take_Suc_conv_app_nth)
  ultimately show ?case
    using r by (auto simp: diff_loop_append word_or_zero word_xor_zero)
qed simp

lemma ota_authorization_valid_eq:
  assumes "ota_token_configuration_valid (Some tok)" "len \<le> length a"
  shows "ota_authorization_valid (Some a) len (Some tok) = Some (take len a = OTA_BEARER_PREFIX @ tok)"
proof (cases "len = length OTA_BEARER_PREFIX + length tok")
  case True
  let ?k = "length OTA_BEARER_PREFIX"
  obtain p where p: "diff_loop (byte_diff a 0 OTA_BEARER_PREFIX) [0..<?k] 0 = Some p" "p = 0 \<longleftrightarrow> take ?k a = OTA_BEARER_PREFIX"
    using diff_loop_eq [of 0 ?k a OTA_BEARER_PREFIX 0] assms(2) True by auto
  obtain r where r: "diff_loop (byte_diff a ?k tok) [0..<length tok] p = Some r"
    "r = 0 \<longleftrightarrow> p = 0 \<and> take (length tok) (drop ?k a) = tok"
    using diff_loop_eq [of ?k "length tok" a tok p] assms(2) True by auto
  have "take len a = take ?k a @ take (length tok) (drop ?k a)" unfolding True by (rule take_add)
  moreover have "take ?k a @ take (length tok) (drop ?k a) = OTA_BEARER_PREFIX @ tok \<longleftrightarrow>
      take ?k a = OTA_BEARER_PREFIX \<and> take (length tok) (drop ?k a) = tok"
    using assms(2) True by (intro append_eq_append_conv) simp
  ultimately have "take len a = OTA_BEARER_PREFIX @ tok \<longleftrightarrow> r = 0" using p r by simp
  then show ?thesis
    using assms(1) p(1) r(1) True by (simp add: ota_authorization_valid_def Let_def)
next
  case False
  then have "take len a \<noteq> OTA_BEARER_PREFIX @ tok"
    using assms(2) by (auto dest: arg_cong [of _ _ length])
  with False assms(1) show ?thesis by (simp add: ota_authorization_valid_def Let_def)
qed

text \<open>C37 (ota_role_exact): with two valid, different tokens configured, a request is given the
  administrator role exactly when its header is the bearer prefix followed by the administrator
  token, the viewer role exactly for the viewer token, the anonymous role without a header, and
  nothing otherwise; the header is never read past its length, and only the exact administrator
  header may write.\<close>
theorem ota_role_exact:
  assumes "ota_role_tokens_valid (Some admin) (Some viewer)" "len \<le> length a"
  shows "ota_authorization_role (Some a) len (Some admin) (Some viewer) =
      Some (if take len a = ''Bearer '' @ admin then OTA_ROLE_ADMIN
            else if take len a = ''Bearer '' @ viewer then OTA_ROLE_VIEWER else OTA_ROLE_NONE)
    \<and> ota_authorization_role None 0 (Some admin) (Some viewer) = Some OTA_ROLE_ANONYMOUS
    \<and> (\<exists>role. ota_authorization_role (Some a) len (Some admin) (Some viewer) = Some role \<and>
         ota_role_allows role False = (take len a = ''Bearer '' @ admin))"
proof -
  have b: "OTA_BEARER_PREFIX = ''Bearer ''" by (simp add: ota_consts)
  have "ota_token_configuration_valid (Some admin)" "ota_token_configuration_valid (Some viewer)" "admin \<noteq> viewer"
    using assms(1) by (simp_all add: ota_role_tokens_valid_def)
  note v = ota_authorization_valid_eq [OF this(1) assms(2)] ota_authorization_valid_eq [OF this(2) assms(2)]
  show ?thesis
    unfolding b [symmetric] using assms(1) by (simp add: ota_authorization_role_def v ota_role_allows_def)
qed

lemma ota_role_exact_witness:
  "ota_authorization_role (Some (''Bearer '' @ replicate 40 CHR ''a'' @ ''junk'')) 47
     (Some (replicate 40 CHR ''a'')) (Some (replicate 40 CHR ''b'')) = Some OTA_ROLE_ADMIN"
proof -
  have v: "ota_role_tokens_valid (Some (replicate 40 CHR ''a'')) (Some (replicate 40 CHR ''b''))"
    by (simp add: ota_role_tokens_valid_def ota_token_valid_eq token_char_def list_all_iff)
  show ?thesis
    using ota_role_exact [OF v, of 47 "''Bearer '' @ replicate 40 CHR ''a'' @ ''junk''"]
    by simp
qed


subsection \<open>The embedded token\<close>

lemma trim_length_blanks:
  assumes "list_all blank_byte ws" "n = length e + length ws"
    and "e = [] \<or> \<not> blank_byte (last e)"
  shows "trim_length (e @ ws @ rest) n = Some (length e)"
  using assms
proof (induction ws arbitrary: n rest rule: rev_induct)
  case Nil
  then show ?case by (cases e rule: rev_cases) (auto simp: nth_append)
next
  case (snoc w ws)
  then show ?case by (simp add: nth_append)
qed

text \<open>An embedded token file, a valid token followed by any run of newlines,
  spaces, tabs and NULs, is copied to a terminated C string equal to the token, and that token is
  accepted as a configuration; the file is not read past its length, the buffer not written past
  its capacity.\<close>
theorem ota_token_roundtrip:
  assumes "ota_token_configuration_valid (Some tok)" "list_all blank_byte ws"
    and "length buf = capacity" "length tok < capacity"
  shows "\<exists>buf'. ota_copy_embedded_token (Some (map of_char tok @ ws)) (length tok + length ws) (Some buf) capacity = Some (True, Some buf')
    \<and> length buf' = capacity \<and> cstr buf' = tok"
proof -
  have t: "32 \<le> length tok" "length tok \<le> 128" "list_all token_char tok"
    using assms(1) by (simp_all add: ota_token_valid_eq)
  have in_range: "0x21 \<le> (of_char c :: u8)" "(of_char c :: u8) \<le> 0x7E" if "token_char c" for c
    using that by (simp_all add: token_char_def word_le_nat_alt)
  have "\<not> blank_byte (of_char (last tok))"
    using t in_range [of "last tok"] by (cases tok rule: rev_cases) (auto simp: blank_byte_def)
  then have trim: "trim_length (map of_char tok @ ws) (length tok + length ws) = Some (length tok)"
    using trim_length_blanks [OF assms(2), of "length tok + length ws" "map of_char tok" "[]"] t(1)
    by (cases "tok = []") (simp_all add: last_map)
  have read: "read_loop (rd (map of_char tok @ ws)) [0..<length tok] = Some (map of_char tok :: u8 list)"
    by (subst read_loop_map [where g = "\<lambda>i. of_char (tok ! i)"]) (auto simp: nth_append intro: nth_equalityI)
  have inv: "map (\<lambda>b. char_of (unat b)) (map of_char tok :: u8 list) = tok"
    by (simp add: map_idI)
  have "NUL \<notin> set tok" using t(3) by (auto simp: list_all_iff token_char_def NUL_def)
  then have c: "cstr (blit buf (tok @ [NUL])) = tok"
    by (simp add: blit_def cstr_append_NUL)
  have "list_all (\<lambda>b. 0x21 \<le> b \<and> b \<le> 0x7E) (map of_char tok :: u8 list)"
    using t(3) in_range by (auto simp: list_all_iff)
  then show ?thesis
    using trim read t c assms(1,3,4)
    by (simp add: ota_copy_embedded_token_def ota_consts Let_def inv [simplified])
qed

lemma ota_token_roundtrip_witness:
  "\<exists>buf'. cstr buf' = replicate 40 CHR ''k'' \<and>
     ota_copy_embedded_token (Some (map of_char (replicate 40 CHR ''k'') @ [13, 10])) 42 (Some (replicate 129 NUL)) 129 = Some (True, Some buf')"
proof -
  have "ota_token_configuration_valid (Some (replicate 40 CHR ''k''))"
    by (simp add: ota_token_valid_eq token_char_def list_all_iff)
  from ota_token_roundtrip [OF this, of "[13, 10]" "replicate 129 NUL" 129] show ?thesis
    by (auto simp: blank_byte_def)
qed

subsection \<open>The health gate\<close>

text \<open>A run of samples with a fixed requirement: the flags returned and the final gate.\<close>

fun gate_run :: "u32 \<Rightarrow> bool list \<Rightarrow> ota_health_gate option \<Rightarrow> bool list \<times> ota_health_gate option" where
  "gate_run required [] g = ([], g)"
| "gate_run required (h # hs) g =
     (case ota_health_gate_sample g h required of (r, g') \<Rightarrow> map_prod ((#) r) id (gate_run required hs g'))"

definition healthy_suffix :: "bool list \<Rightarrow> nat" where
  "healthy_suffix hs = length (takeWhile (\<lambda>h. h) (rev hs))"

lemma gate_run_snoc:
  "gate_run required (hs @ [h]) g =
     (case gate_run required hs g of (rs, g') \<Rightarrow>
        case ota_health_gate_sample g' h required of (r, g'') \<Rightarrow> (rs @ [r], g''))"
  by (induction hs arbitrary: g) (auto simp: case_prod_beta)

lemma gate_run_counter:
  assumes "required \<noteq> 0"
  shows "\<exists>g rs. gate_run required hs (ota_health_gate_reset (Some g0)) = (rs, Some g) \<and>
    unat (consecutive_healthy_samples g) = min (unat required) (healthy_suffix hs) \<and>
    (hs \<noteq> [] \<longrightarrow> rs \<noteq> [] \<and> last rs = (unat required \<le> healthy_suffix hs))"
proof (induction hs rule: rev_induct)
  case Nil
  show ?case by (simp add: ota_health_gate_reset_def healthy_suffix_def)
next
  case (snoc h hs)
  then obtain g rs where g: "gate_run required hs (ota_health_gate_reset (Some g0)) = (rs, Some g)"
    "unat (consecutive_healthy_samples g) = min (unat required) (healthy_suffix hs)" by blast
  have "0 < unat required" using assms by (simp add: unat_gt_0)
  moreover have "unat (consecutive_healthy_samples g + 1) = unat (consecutive_healthy_samples g) + 1"
    if "consecutive_healthy_samples g < required"
    using that unat_lt_u32 [of required] by (subst unat_add_small) (simp_all add: word_less_nat_alt)
  ultimately show ?case
    using g assms
    by (auto simp: gate_run_snoc ota_health_gate_sample_def healthy_suffix_def word_le_nat_alt word_less_nat_alt Let_def)
qed

text \<open>After a reset, the gate opens at a sample exactly when that sample and
  the ones before it make up at least the required number of consecutive healthy samples; a single
  unhealthy sample starts the count over, and the 32-bit counter never wraps.\<close>
theorem ota_health_gate_exact:
  assumes "required \<noteq> 0" "hs \<noteq> []"
  shows "last (fst (gate_run required hs (ota_health_gate_reset (Some g0)))) \<longleftrightarrow>
    unat required \<le> length hs \<and> list_all (\<lambda>h. h) (drop (length hs - unat required) hs)"
proof -
  have suffix: "n \<le> healthy_suffix hs \<longleftrightarrow> n \<le> length hs \<and> list_all (\<lambda>h. h) (drop (length hs - n) hs)" for n
  proof -
    have "n \<le> length (takeWhile P xs) \<longleftrightarrow> n \<le> length xs \<and> list_all P (take n xs)" for P and xs :: "bool list"
      by (induction xs arbitrary: n) (auto simp: take_Cons split: nat.split)
    then show ?thesis
      by (simp add: healthy_suffix_def take_rev)
  qed
  obtain g rs where "gate_run required hs (ota_health_gate_reset (Some g0)) = (rs, Some g)"
    "last rs = (unat required \<le> healthy_suffix hs)"
    using gate_run_counter [OF assms(1), of hs g0] assms(2) by blast
  then show ?thesis by (simp add: suffix)
qed

lemma ota_health_gate_exact_witness:
  "last (fst (gate_run 2 [True, False, True, True] (ota_health_gate_reset (Some \<lparr>consecutive_healthy_samples = 9\<rparr>))))"
  using ota_health_gate_exact [of 2 "[True, False, True, True]" "\<lparr>consecutive_healthy_samples = 9\<rparr>"] by simp

end
