(* ===== verification/Error_History.thy ===== *)
theory Error_History
  imports Modbus_Frame C_Format C_Double Esp_Idf
begin

section \<open>The Modbus error history (main/error_history.c, main/error_history.h)\<close>

text \<open>
  The last 32 errors in a ring, numbered from the first error ever recorded, and their image in
  flash. The image is the memory of the C structure: little-endian fields at the offsets of the
  32-bit target ABI (\<open>uint64_t\<close> aligned to 8), padding zero; a checksum covers every byte but its own
  four. Non-volatile storage and JSON construction are outside: a read of storage is a parameter,
  the JSON object is the sequence of builder calls.
\<close>

subsection \<open>Data\<close>

definition ERROR_HISTORY_CAPACITY :: nat where "ERROR_HISTORY_CAPACITY = 32"
definition ERROR_HISTORY_FLUSH_INTERVAL_MS :: u64 where "ERROR_HISTORY_FLUSH_INTERVAL_MS = 30000"
definition HISTORY_MAGIC :: u32 where "HISTORY_MAGIC = 0x4d424548"
definition HISTORY_VERSION :: u32 where "HISTORY_VERSION = 1"

record history_request =
  hr_host :: string          \<comment> \<open>\<open>char host[16]\<close>\<close>
  hr_port :: u16
  hr_offset :: u16
  hr_quantity :: u16
  hr_transaction_id :: u16
  hr_unit :: u8
  hr_function :: u8
  hr_config_revision :: u32
  hr_profile :: string       \<comment> \<open>\<open>char profile[32]\<close>\<close>
  hr_phase :: string         \<comment> \<open>\<open>char phase[16]\<close>\<close>

text \<open>A stored event keeps the raw error number: flash may hold one that is no \<open>mb_error_t\<close>.\<close>

record history_event =
  he_sequence :: u64
  he_uptime_ms :: u64
  he_utc_ms :: u64           \<comment> \<open>\<open>int64_t\<close>, read with \<open>sint\<close>\<close>
  he_boot_id :: u32
  he_request :: history_request
  he_error :: u32
  he_exception_code :: u8
  he_elapsed_ms :: u32
  he_system_error :: u32     \<comment> \<open>\<open>int\<close>\<close>

record history_blob =
  hb_magic :: u32
  hb_version :: u32
  hb_size :: u32
  hb_checksum :: u32
  hb_boot_id :: u32
  hb_count :: u32
  hb_next :: u32
  hb_reserved :: u32
  hb_total_errors :: u64
  hb_events :: "history_event list"   \<comment> \<open>\<open>events[32]\<close>\<close>

definition mb_error_code :: "mb_error \<Rightarrow> u32" where
  "mb_error_code e = (case e of
     MB_OK \<Rightarrow> 0 | MB_ERR_ARGUMENT \<Rightarrow> 1 | MB_ERR_CONNECT \<Rightarrow> 2 | MB_ERR_IO \<Rightarrow> 3 | MB_ERR_TIMEOUT \<Rightarrow> 4
   | MB_ERR_TRUNCATED \<Rightarrow> 5 | MB_ERR_TRANSACTION \<Rightarrow> 6 | MB_ERR_PROTOCOL \<Rightarrow> 7 | MB_ERR_UNIT \<Rightarrow> 8
   | MB_ERR_LENGTH \<Rightarrow> 9 | MB_ERR_FUNCTION \<Rightarrow> 10 | MB_ERR_BYTE_COUNT \<Rightarrow> 11 | MB_ERR_EXCEPTION \<Rightarrow> 12)"

definition zero_request :: history_request where
  "zero_request = \<lparr>hr_host = replicate 16 NUL, hr_port = 0, hr_offset = 0, hr_quantity = 0,
     hr_transaction_id = 0, hr_unit = 0, hr_function = 0, hr_config_revision = 0,
     hr_profile = replicate 32 NUL, hr_phase = replicate 16 NUL\<rparr>"

definition zero_event :: history_event where
  "zero_event = \<lparr>he_sequence = 0, he_uptime_ms = 0, he_utc_ms = 0, he_boot_id = 0, he_request = zero_request,
     he_error = 0, he_exception_code = 0, he_elapsed_ms = 0, he_system_error = 0\<rparr>"

definition zero_blob :: history_blob where
  "zero_blob = \<lparr>hb_magic = 0, hb_version = 0, hb_size = 0, hb_checksum = 0, hb_boot_id = 0, hb_count = 0,
     hb_next = 0, hb_reserved = 0, hb_total_errors = 0, hb_events = replicate ERROR_HISTORY_CAPACITY zero_event\<rparr>"

subsection \<open>The flash image\<close>

primrec le_enc :: "nat \<Rightarrow> nat \<Rightarrow> u8 list" where
  "le_enc 0 v = []"
| "le_enc (Suc n) v = of_nat v # le_enc n (v div 256)"

primrec le_dec :: "u8 list \<Rightarrow> nat" where
  "le_dec [] = 0"
| "le_dec (b # bs) = unat b + 256 * le_dec bs"

definition enc_le :: "nat \<Rightarrow> 'a::len word \<Rightarrow> u8 list" where
  "enc_le n w = le_enc n (unat w)"

definition dec_le :: "u8 list \<Rightarrow> 'a::len word" where
  "dec_le bs = of_nat (le_dec bs)"

definition enc_chars :: "string \<Rightarrow> u8 list" where
  "enc_chars s = map of_char s"

definition dec_chars :: "u8 list \<Rightarrow> string" where
  "dec_chars bs = map (\<lambda>b. char_of (unat b)) bs"

definition field :: "nat \<Rightarrow> nat \<Rightarrow> u8 list \<Rightarrow> u8 list" where
  "field offset n bs = take n (drop offset bs)"

text \<open>\<open>error_history_request_t\<close>: 80 bytes, two of padding after \<open>function\<close>.\<close>

definition enc_request :: "history_request \<Rightarrow> u8 list" where
  "enc_request r = enc_chars (hr_host r) @ enc_le 2 (hr_port r) @ enc_le 2 (hr_offset r) @
     enc_le 2 (hr_quantity r) @ enc_le 2 (hr_transaction_id r) @ [hr_unit r, hr_function r, 0, 0] @
     enc_le 4 (hr_config_revision r) @ enc_chars (hr_profile r) @ enc_chars (hr_phase r)"

definition dec_request :: "u8 list \<Rightarrow> history_request" where
  "dec_request bs = \<lparr>hr_host = dec_chars (field 0 16 bs), hr_port = dec_le (field 16 2 bs),
     hr_offset = dec_le (field 18 2 bs), hr_quantity = dec_le (field 20 2 bs),
     hr_transaction_id = dec_le (field 22 2 bs), hr_unit = dec_le (field 24 1 bs),
     hr_function = dec_le (field 25 1 bs), hr_config_revision = dec_le (field 28 4 bs),
     hr_profile = dec_chars (field 32 32 bs), hr_phase = dec_chars (field 64 16 bs)\<rparr>"

text \<open>\<open>history_event_t\<close>: 128 bytes; the result starts at 108, four bytes of padding end the event.\<close>

definition enc_event :: "history_event \<Rightarrow> u8 list" where
  "enc_event e = enc_le 8 (he_sequence e) @ enc_le 8 (he_uptime_ms e) @ enc_le 8 (he_utc_ms e) @
     enc_le 4 (he_boot_id e) @ enc_request (he_request e) @ enc_le 4 (he_error e) @
     [he_exception_code e, 0, 0, 0] @ enc_le 4 (he_elapsed_ms e) @ enc_le 4 (he_system_error e) @ [0, 0, 0, 0]"

definition dec_event :: "u8 list \<Rightarrow> history_event" where
  "dec_event bs = \<lparr>he_sequence = dec_le (field 0 8 bs), he_uptime_ms = dec_le (field 8 8 bs),
     he_utc_ms = dec_le (field 16 8 bs), he_boot_id = dec_le (field 24 4 bs),
     he_request = dec_request (field 28 80 bs), he_error = dec_le (field 108 4 bs),
     he_exception_code = dec_le (field 112 1 bs), he_elapsed_ms = dec_le (field 116 4 bs),
     he_system_error = dec_le (field 120 4 bs)\<rparr>"

text \<open>\<open>history_blob_t\<close>: 40 bytes of header, then the events; 4136 bytes.\<close>

definition BLOB_SIZE :: nat where "BLOB_SIZE = 4136"

definition enc_blob :: "history_blob \<Rightarrow> u8 list" where
  "enc_blob b = enc_le 4 (hb_magic b) @ enc_le 4 (hb_version b) @ enc_le 4 (hb_size b) @
     enc_le 4 (hb_checksum b) @ enc_le 4 (hb_boot_id b) @ enc_le 4 (hb_count b) @ enc_le 4 (hb_next b) @
     enc_le 4 (hb_reserved b) @ enc_le 8 (hb_total_errors b) @ concat (map enc_event (hb_events b))"

definition dec_blob :: "u8 list \<Rightarrow> history_blob" where
  "dec_blob bs = \<lparr>hb_magic = dec_le (field 0 4 bs), hb_version = dec_le (field 4 4 bs),
     hb_size = dec_le (field 8 4 bs), hb_checksum = dec_le (field 12 4 bs), hb_boot_id = dec_le (field 16 4 bs),
     hb_count = dec_le (field 20 4 bs), hb_next = dec_le (field 24 4 bs), hb_reserved = dec_le (field 28 4 bs),
     hb_total_errors = dec_le (field 32 8 bs),
     hb_events = map (\<lambda>i. dec_event (take 128 (drop (128 * i) (drop 40 bs)))) [0..<ERROR_HISTORY_CAPACITY]\<rparr>"

subsection \<open>Checksum and validation\<close>

primrec crc_bits :: "nat \<Rightarrow> u32 \<Rightarrow> u32" where
  "crc_bits 0 crc = crc"
| "crc_bits (Suc n) crc = crc_bits n (drop_bit 1 crc XOR (0xedb88320 AND (0 - (crc AND 1))))"

definition crc_byte :: "u32 \<Rightarrow> u8 \<Rightarrow> u32" where
  "crc_byte crc b = crc_bits 8 (crc XOR ucast b)"

definition checksum_field :: "nat \<Rightarrow> bool" where
  "checksum_field i \<longleftrightarrow> 12 \<le> i \<and> i < 12 + 4"

definition masked :: "u8 list \<Rightarrow> u8 list" where
  \<comment> \<open>the bytes the checksum sees\<close>
  "masked bytes = map (\<lambda>i. if checksum_field i then 0 else bytes ! i) [0..<length bytes]"

definition blob_checksum :: "u8 list \<Rightarrow> u32" where
  "blob_checksum bytes = NOT (foldl crc_byte (- 1) (masked bytes))"

definition newest_index :: "u32 \<Rightarrow> nat \<Rightarrow> nat" where
  \<comment> \<open>the slot of the event of the given age\<close>
  "newest_index next age = (unat next + ERROR_HISTORY_CAPACITY - 1 - age) mod ERROR_HISTORY_CAPACITY"

definition valid_event :: "history_blob \<Rightarrow> nat \<Rightarrow> history_event \<Rightarrow> bool" where
  "valid_event blob age e \<longleftrightarrow>
     he_sequence e = hb_total_errors blob - of_nat age \<and> he_boot_id e \<noteq> 0 \<and>
     he_boot_id e \<le> hb_boot_id blob \<and> 0 \<le> sint (he_utc_ms e) \<and>
     hr_host (he_request e) ! 15 = NUL \<and> hr_profile (he_request e) ! 31 = NUL \<and>
     hr_phase (he_request e) ! 15 = NUL \<and> 0 < he_error e \<and> he_error e \<le> 12"

definition valid_blob :: "u8 list \<Rightarrow> bool" where
  "valid_blob bytes =
     (let blob = dec_blob bytes; capacity = of_nat ERROR_HISTORY_CAPACITY in
      hb_magic blob = HISTORY_MAGIC \<and> hb_version blob = HISTORY_VERSION \<and>
      hb_size blob = of_nat BLOB_SIZE \<and> hb_checksum blob = blob_checksum bytes \<and>
      hb_count blob \<le> capacity \<and> hb_next blob < capacity \<and>
      ucast (hb_count blob) \<le> hb_total_errors blob \<and>
      ucast (hb_count blob) = (if hb_total_errors blob < of_nat ERROR_HISTORY_CAPACITY
                               then hb_total_errors blob else of_nat ERROR_HISTORY_CAPACITY) \<and>
      ucast (hb_next blob) = hb_total_errors blob mod of_nat ERROR_HISTORY_CAPACITY \<and>
      list_all (\<lambda>age. valid_event blob age (hb_events blob ! newest_index (hb_next blob) age))
        [0..<unat (hb_count blob)])"

subsection \<open>Recording\<close>

text \<open>\<open>copy_text\<close> into a zeroed array: the source up to its NUL, truncated, terminated.\<close>

definition copy_text :: "string \<Rightarrow> string \<Rightarrow> nat \<Rightarrow> string" where
  "copy_text destination source capacity =
     (let s = take (capacity - 1) (cstr source) in blit destination (s @ [NUL]))"

definition event_of :: "history_blob \<Rightarrow> history_request \<Rightarrow> mb_result \<Rightarrow> u64 \<Rightarrow> u64 \<Rightarrow> history_event" where
  "event_of blob request result uptime_ms utc_ms =
     zero_event\<lparr>he_sequence := hb_total_errors blob + 1, he_uptime_ms := uptime_ms,
       he_utc_ms := (if 0 < sint utc_ms then utc_ms else 0), he_boot_id := hb_boot_id blob,
       he_request := \<lparr>hr_host = copy_text (hr_host zero_request) (hr_host request) 16,
         hr_port = hr_port request, hr_offset = hr_offset request, hr_quantity = hr_quantity request,
         hr_transaction_id = hr_transaction_id request, hr_unit = hr_unit request,
         hr_function = hr_function request, hr_config_revision = hr_config_revision request,
         hr_profile = copy_text (hr_profile zero_request) (hr_profile request) 32,
         hr_phase = copy_text (hr_phase zero_request) (hr_phase request) 16\<rparr>,
       he_error := mb_error_code (error result), he_exception_code := exception_code result,
       he_elapsed_ms := elapsed_ms result, he_system_error := word_of_int (system_error result)\<rparr>"

definition record_event :: "history_blob \<Rightarrow> history_event \<Rightarrow> history_blob" where
  "record_event blob e =
     blob\<lparr>hb_events := (hb_events blob)[unat (hb_next blob) := e], hb_total_errors := hb_total_errors blob + 1,
          hb_next := (hb_next blob + 1) mod of_nat ERROR_HISTORY_CAPACITY,
          hb_count := (if hb_count blob < of_nat ERROR_HISTORY_CAPACITY then hb_count blob + 1 else hb_count blob)\<rparr>"

subsection \<open>The running history\<close>

record history_runtime =
  ht_lock :: bool              \<comment> \<open>the mutex exists\<close>
  ht_blob :: history_blob
  ht_initialized :: bool
  ht_writable :: bool
  ht_attempted :: bool
  ht_generation :: u64
  ht_saved_generation :: u64
  ht_last_attempt_ms :: u64
  ht_persistence_error :: string

definition history_start :: history_runtime where
  \<comment> \<open>the zeroed static\<close>
  "history_start = \<lparr>ht_lock = False, ht_blob = zero_blob, ht_initialized = False, ht_writable = False,
     ht_attempted = False, ht_generation = 0, ht_saved_generation = 0, ht_last_attempt_ms = 0,
     ht_persistence_error = []\<rparr>"

definition error_history_record ::
    "history_request option \<Rightarrow> mb_result option \<Rightarrow> u64 \<Rightarrow> u64 \<Rightarrow> history_runtime \<Rightarrow> history_runtime" where
  "error_history_record request result uptime_ms utc_ms h =
     (case (request, result) of
        (Some rq, Some rs) \<Rightarrow>
          if mb_error_code (error rs) \<le> 0 \<or> mb_error_code (error rs) > 12 \<or> \<not> ht_lock h then h
          else h\<lparr>ht_blob := record_event (ht_blob h) (event_of (ht_blob h) rq rs uptime_ms utc_ms),
                 ht_generation := ht_generation h + 1\<rparr>
      | _ \<Rightarrow> h)"

subsection \<open>Errors of the storage\<close>

definition fmt_x :: "nat \<Rightarrow> string" where
  "fmt_x n = map (\<lambda>c. if c = CHR ''A'' then CHR ''a'' else if c = CHR ''B'' then CHR ''b''
     else if c = CHR ''C'' then CHR ''c'' else if c = CHR ''D'' then CHR ''d''
     else if c = CHR ''E'' then CHR ''e'' else if c = CHR ''F'' then CHR ''f'' else c) (print_base 16 n)"

definition storage_error :: "string \<Rightarrow> u32 \<Rightarrow> history_runtime \<Rightarrow> history_runtime" where
  "storage_error operation err h =
     h\<lparr>ht_persistence_error := take 127 (operation @ '': 0x'' @ fmt_x (unat err))\<rparr>"


subsection \<open>Flushing\<close>

text \<open>
  The worker releases the lock between its parts, so the flush is three atomic parts with any
  number of recordings between them: the decision (\<open>flush_begin\<close>), the snapshot taken under the lock,
  and the outcome of the write of its bytes.
\<close>

definition flush_begin :: "u64 \<Rightarrow> history_runtime \<Rightarrow> history_runtime option" where
  "flush_begin now_ms h =
     (if \<not> ht_writable h \<or> ht_saved_generation h = ht_generation h \<or>
         (ht_attempted h \<and> now_ms - ht_last_attempt_ms h < ERROR_HISTORY_FLUSH_INTERVAL_MS)
      then None
      else Some (h\<lparr>ht_attempted := True, ht_last_attempt_ms := now_ms\<rparr>))"

definition flush_no_memory :: "history_runtime \<Rightarrow> history_runtime" where
  "flush_no_memory h = storage_error ''History snapshot allocation'' ESP_ERR_NO_MEM h"

definition seal :: "history_blob \<Rightarrow> history_blob" where
  "seal b = b\<lparr>hb_checksum := blob_checksum (enc_blob b)\<rparr>"

definition flush_snapshot :: "history_runtime \<Rightarrow> u8 list \<times> u64" where
  "flush_snapshot h = (enc_blob (seal (ht_blob h)), ht_generation h)"

definition flush_done :: "u32 \<Rightarrow> u64 \<Rightarrow> history_runtime \<Rightarrow> history_runtime" where
  "flush_done err generation h =
     (if err = ESP_OK then h\<lparr>ht_saved_generation := generation, ht_persistence_error := []\<rparr>
      else storage_error ''History persistence'' err h)"

subsection \<open>Start-up\<close>

text \<open>What the platform answers during \<open>error_history_init\<close>, in the order of the calls.\<close>

record history_boot =
  hx_mutex :: bool                       \<comment> \<open>\<open>xSemaphoreCreateMutex\<close> succeeded\<close>
  hx_open :: u32                         \<comment> \<open>\<open>nvs_open_from_partition\<close>\<close>
  hx_probe :: "u32 \<times> nat"                \<comment> \<open>\<open>nvs_get_blob\<close> with NULL: error and length\<close>
  hx_malloc :: bool
  hx_load :: "u32 \<times> nat \<times> u8 list"      \<comment> \<open>\<open>nvs_get_blob\<close>: error, length, bytes\<close>
  hx_task :: bool                        \<comment> \<open>\<open>xTaskCreate\<close> succeeded\<close>

definition history_load :: "history_boot \<Rightarrow> history_runtime \<Rightarrow> history_runtime" where
  "history_load x h =
     (if hx_open x \<noteq> ESP_OK then storage_error ''History storage open'' (hx_open x) h
      else case hx_probe x of (err, len) \<Rightarrow>
        if err = ESP_ERR_NVS_NOT_FOUND then h\<lparr>ht_writable := True\<rparr>
        else if err \<noteq> ESP_OK then storage_error ''History storage read'' err h
        else if len \<noteq> BLOB_SIZE then
          h\<lparr>ht_persistence_error := ''Stored history has incompatible size; preserved without writes''\<rparr>
        else if \<not> hx_malloc x then storage_error ''History load allocation'' ESP_ERR_NO_MEM h
        else case hx_load x of (err, len, stored) \<Rightarrow>
          if err \<noteq> ESP_OK then storage_error ''History storage read'' err h
          else if len \<noteq> BLOB_SIZE \<or> \<not> valid_blob stored then
            h\<lparr>ht_persistence_error := ''Stored history is corrupt or incompatible; preserved without writes''\<rparr>
          else h\<lparr>ht_blob := dec_blob stored, ht_writable := True\<rparr>)"

definition error_history_init :: "history_boot \<Rightarrow> history_runtime \<Rightarrow> history_runtime" where
  "error_history_init x h =
     (if ht_initialized h then h
      else let h = h\<lparr>ht_initialized := True,
                     ht_blob := (ht_blob h)\<lparr>hb_magic := HISTORY_MAGIC, hb_version := HISTORY_VERSION,
                                            hb_size := of_nat BLOB_SIZE\<rparr>\<rparr>
           in if \<not> hx_mutex x then storage_error ''History mutex allocation'' ESP_ERR_NO_MEM h
              else let h = history_load x (h\<lparr>ht_lock := True\<rparr>);
                       h = (if hb_boot_id (ht_blob h) = - 1
                            then h\<lparr>ht_writable := False, ht_persistence_error := ''History boot counter exhausted''\<rparr>
                            else h\<lparr>ht_blob := (ht_blob h)\<lparr>hb_boot_id := hb_boot_id (ht_blob h) + 1\<rparr>\<rparr>);
                       h = h\<lparr>ht_generation := ht_generation h + 1\<rparr>
                   in if ht_writable h \<and> \<not> hx_task x
                      then storage_error ''History worker allocation'' ESP_ERR_NO_MEM (h\<lparr>ht_writable := False\<rparr>)
                      else h)"

subsection \<open>The JSON view\<close>

text \<open>The builder calls of \<open>error_history_json\<close>, in order; each may fail for want of memory, and the
  first failure makes the result NULL. \<open>Begin_item\<close> creates an event object and appends it.\<close>

datatype json_call =
    Begin_events
  | Begin_item
  | Add_number string dbl
  | Add_bool string bool
  | Add_string string string
  | Add_null string

fun mb_error_of_code :: "u32 \<Rightarrow> mb_error option" where
  "mb_error_of_code k = (if k = 0 then Some MB_OK else if k = 1 then Some MB_ERR_ARGUMENT
     else if k = 2 then Some MB_ERR_CONNECT else if k = 3 then Some MB_ERR_IO
     else if k = 4 then Some MB_ERR_TIMEOUT else if k = 5 then Some MB_ERR_TRUNCATED
     else if k = 6 then Some MB_ERR_TRANSACTION else if k = 7 then Some MB_ERR_PROTOCOL
     else if k = 8 then Some MB_ERR_UNIT else if k = 9 then Some MB_ERR_LENGTH
     else if k = 10 then Some MB_ERR_FUNCTION else if k = 11 then Some MB_ERR_BYTE_COUNT
     else if k = 12 then Some MB_ERR_EXCEPTION else None)"

definition error_text :: "u32 \<Rightarrow> string" where
  "error_text k = (case mb_error_of_code k of Some e \<Rightarrow> mb_error_string e | None \<Rightarrow> ''unknown'')"

definition num_u :: "'a::len word \<Rightarrow> dbl" where
  \<comment> \<open>conversion of an unsigned integer to double, rounded\<close>
  "num_u w = dbl_of_int (uint w)"

definition event_calls :: "history_event \<Rightarrow> json_call list" where
  "event_calls e =
     [Begin_item,
      Add_number ''sequence'' (num_u (he_sequence e)), Add_number ''boot_id'' (num_u (he_boot_id e)),
      Add_number ''uptime_ms'' (num_u (he_uptime_ms e)),
      (if he_utc_ms e \<noteq> 0 then Add_number ''utc_ms'' (dbl_of_int (sint (he_utc_ms e))) else Add_null ''utc_ms''),
      Add_string ''host'' (cstr (hr_host (he_request e))), Add_number ''port'' (num_u (hr_port (he_request e))),
      Add_number ''unit'' (num_u (hr_unit (he_request e))), Add_number ''function'' (num_u (hr_function (he_request e))),
      Add_number ''offset'' (num_u (hr_offset (he_request e))), Add_number ''quantity'' (num_u (hr_quantity (he_request e))),
      Add_number ''transaction_id'' (num_u (hr_transaction_id (he_request e))),
      Add_number ''config_revision'' (num_u (hr_config_revision (he_request e))),
      Add_string ''profile'' (cstr (hr_profile (he_request e))), Add_string ''phase'' (cstr (hr_phase (he_request e))),
      Add_string ''error'' (error_text (he_error e)), Add_number ''error_code'' (num_u (he_error e)),
      Add_number ''exception_code'' (num_u (he_exception_code e)),
      Add_number ''system_error'' (dbl_of_int (sint (he_system_error e))),
      Add_number ''elapsed_ms'' (num_u (he_elapsed_ms e))]"

definition history_calls :: "history_runtime \<Rightarrow> bool \<Rightarrow> json_call list" where
  "history_calls h clock_synchronized =
     (let b = ht_blob h in
      [Begin_events,
       Add_number ''capacity'' (dbl_of_int (int ERROR_HISTORY_CAPACITY)), Add_number ''count'' (num_u (hb_count b)),
       Add_number ''total_errors'' (num_u (hb_total_errors b)),
       Add_number ''overwritten'' (num_u (hb_total_errors b - ucast (hb_count b))),
       Add_number ''boot_id'' (num_u (hb_boot_id b)), Add_bool ''clock_synchronized'' clock_synchronized,
       Add_bool ''pending_persistence'' (ht_generation h \<noteq> ht_saved_generation h),
       Add_string ''persistence_error'' (ht_persistence_error h)] @
      concat (map (\<lambda>age. event_calls (hb_events b ! newest_index (hb_next b) age)) [0..<unat (hb_count b)]))"

fun all_calls :: "(nat \<Rightarrow> bool) \<Rightarrow> nat \<Rightarrow> json_call list \<Rightarrow> json_call list option" where
  "all_calls ok n [] = Some []"
| "all_calls ok n (c # cs) = (if ok n then map_option ((#) c) (all_calls ok (n + 1) cs) else None)"

definition error_history_json :: "(nat \<Rightarrow> bool) \<Rightarrow> history_runtime \<Rightarrow> bool \<Rightarrow> json_call list option" where
  \<comment> \<open>\<open>ok k\<close>: the \<open>k\<close>-th allocation succeeds; the first two are the snapshot and the object\<close>
  "error_history_json ok h clock_synchronized =
     (if ok 0 \<and> ok 1 then all_calls ok 2 (history_calls h clock_synchronized) else None)"

section \<open>Lemmas\<close>

subsection \<open>The image round trip\<close>

lemma length_le_enc [simp]: "length (le_enc n v) = n"
  by (induction n arbitrary: v) simp_all

lemma le_dec_enc: "le_dec (le_enc n v) = v mod 256 ^ n"
proof (induction n arbitrary: v)
  case (Suc n)
  have "unat (of_nat v :: u8) = v mod 256" by (simp add: unat_of_nat)
  then show ?case using Suc [of "v div 256"] by (simp add: mod_mult2_eq)
qed simp

lemma length_enc_le [simp]: "length (enc_le n w) = n"
  by (simp add: enc_le_def)

lemma dec_enc_le:
  assumes "LENGTH('a) = 8 * n"
  shows "dec_le (enc_le n (w :: 'a::len word)) = w"
proof -
  have "unat w < 256 ^ n"
    using unsigned_less [of w] assms by (simp add: power_mult)
  then show ?thesis by (simp add: dec_le_def enc_le_def le_dec_enc)
qed

interpretation le16: byte_codec "enc_le 2 :: u16 \<Rightarrow> u8 list" dec_le 2
  by unfold_locales (simp_all add: dec_enc_le)
interpretation le32: byte_codec "enc_le 4 :: u32 \<Rightarrow> u8 list" dec_le 4
  by unfold_locales (simp_all add: dec_enc_le)
interpretation le64: byte_codec "enc_le 8 :: u64 \<Rightarrow> u8 list" dec_le 8
  by unfold_locales (simp_all add: dec_enc_le)

lemma dec_le_byte: "(dec_le [b] :: u8) = b"
  by (simp add: dec_le_def)

lemma length_enc_chars [simp]: "length (enc_chars s) = length s"
  by (simp add: enc_chars_def)

lemma dec_enc_chars [simp]: "dec_chars (enc_chars s) = s"
  by (simp add: dec_chars_def enc_chars_def o_def map_idI)

lemma field_here: "length a = n \<Longrightarrow> field 0 n (a @ r) = a"
  by (simp add: field_def)
lemma field_skip: "length a \<le> k \<Longrightarrow> field k n (a @ r) = field (k - length a) n r"
  by (simp add: field_def)
lemma field_all: "length a = n \<Longrightarrow> field 0 n a = a"
  by (simp add: field_def)
lemma field_Cons: "field k n (x # r) = (if k = 0 then take n (x # r) else field (k - 1) n r)"
  by (cases k) (simp_all add: field_def)

definition request_shape :: "history_request \<Rightarrow> bool" where
  "request_shape r \<longleftrightarrow> length (hr_host r) = 16 \<and> length (hr_profile r) = 32 \<and> length (hr_phase r) = 16"

lemma length_enc_request: "request_shape r \<Longrightarrow> length (enc_request r) = 80"
  by (simp add: request_shape_def enc_request_def)

lemma dec_enc_request: "request_shape r \<Longrightarrow> dec_request (enc_request r) = r"
  by (simp add: request_shape_def enc_request_def dec_request_def field_here field_skip field_Cons field_all
      le16.dec_enc le32.dec_enc dec_le_byte)

interpretation request_codec: partial_codec enc_request dec_request 80 request_shape
  by unfold_locales (simp_all add: length_enc_request dec_enc_request)

definition event_shape :: "history_event \<Rightarrow> bool" where
  "event_shape e \<longleftrightarrow> request_shape (he_request e)"

interpretation event_codec: partial_codec enc_event dec_event 128 event_shape
proof unfold_locales
  fix e
  assume "event_shape e"
  then show "length (enc_event e) = 128" "dec_event (enc_event e) = e"
    by (simp_all add: event_shape_def enc_event_def dec_event_def field_here field_skip field_Cons field_all
        request_codec.ok_length request_codec.ok_dec le32.dec_enc le64.dec_enc dec_le_byte)
qed

definition blob_shape :: "history_blob \<Rightarrow> bool" where
  "blob_shape b \<longleftrightarrow> length (hb_events b) = 32 \<and> list_all event_shape (hb_events b)"

interpretation blob_codec: partial_codec enc_blob dec_blob BLOB_SIZE blob_shape
proof unfold_locales
  fix b
  assume b: "blob_shape b"
  then show "length (enc_blob b) = BLOB_SIZE"
    using event_codec.ok_length_concat [of "hb_events b"]
    by (simp add: blob_shape_def enc_blob_def BLOB_SIZE_def)
  have "map (\<lambda>i. dec_event (take 128 (drop (128 * i) (concat (map enc_event (hb_events b)))))) [0..<ERROR_HISTORY_CAPACITY] = hb_events b"
    using event_codec.ok_dec_concat [of "hb_events b"] b by (simp add: blob_shape_def ERROR_HISTORY_CAPACITY_def del: upt_rec_numeral)
  then show "dec_blob (enc_blob b) = b"
    by (simp add: dec_blob_def enc_blob_def field_here field_skip le32.dec_enc le64.dec_enc)
qed

subsection \<open>The checksum\<close>

lemma word_xor_cancel [simp]: "(a XOR b = a XOR c) \<longleftrightarrow> b = (c :: 'a::len word)" "(b XOR a = c XOR a) \<longleftrightarrow> b = c"
  by (auto simp: bit_eq_iff bit_simps)

lemma crc_round_inject:
  fixes a b :: u32
  assumes "drop_bit 1 a XOR (0xedb88320 AND (0 - (a AND 1))) = drop_bit 1 b XOR (0xedb88320 AND (0 - (b AND 1)))"
  shows "a = b"
proof -
  have low: "x AND 1 = (if bit x 0 then 1 else 0)" for x :: u32
    by (rule bit_eqI) (auto simp: bit_simps intro: gr0I)
  have top: "bit (drop_bit 1 x XOR (0xedb88320 AND (0 - (x AND 1)))) 31 = bit x 0" for x :: u32
    by (auto simp: low bit_simps dest: bit_imp_le_length)
  have "bit a 0 = bit b 0" using arg_cong [OF assms, of "\<lambda>w. bit w 31"] unfolding top .
  moreover from this have "drop_bit 1 a = drop_bit 1 b"
    using assms by (simp add: low split: if_splits)
  moreover have "bit w (Suc k) = bit (drop_bit 1 w) k" for w :: u32 and k
    by (simp add: bit_simps)
  ultimately have "bit a n = bit b n" for n
    by (cases n) simp_all
  then show ?thesis by (rule bit_eqI)
qed


lemma crc_bits_inject: "crc_bits n a = crc_bits n b \<Longrightarrow> a = b"
proof (induction n arbitrary: a b)
  case (Suc n)
  show ?case
    by (rule crc_round_inject, rule Suc.IH) (use Suc.prems in \<open>simp only: crc_bits.simps\<close>)
qed simp

lemma crc_byte_inject:
  "crc_byte a x = crc_byte b x \<longleftrightarrow> a = b" "crc_byte a x = crc_byte a y \<longleftrightarrow> x = y"
proof -
  show "crc_byte a x = crc_byte b x \<longleftrightarrow> a = b"
    by (auto simp: crc_byte_def dest: crc_bits_inject)
  have "(ucast x :: u32) = ucast y \<longleftrightarrow> x = y"
    by (metis unat_ucast_up [where 'a = 8 and 'b = 32, simplified] word_unat_eq_iff)
  then show "crc_byte a x = crc_byte a y \<longleftrightarrow> x = y"
    by (auto simp: crc_byte_def dest: crc_bits_inject)
qed

lemma crc_fold_inject: "foldl crc_byte a xs = foldl crc_byte b xs \<Longrightarrow> a = b"
  by (induction xs arbitrary: a b) (simp, metis crc_byte_inject(1) foldl_Cons)

lemma crc_detects:
  assumes "i < length xs" "xs ! i \<noteq> y"
  shows "foldl crc_byte a (xs[i := y]) \<noteq> foldl crc_byte a xs"
proof
  have "xs = take i xs @ xs ! i # drop (Suc i) xs" "xs[i := y] = take i xs @ y # drop (Suc i) xs"
    using assms(1) by (simp_all add: id_take_nth_drop upd_conv_take_nth_drop)
  moreover assume "foldl crc_byte a (xs[i := y]) = foldl crc_byte a xs"
  ultimately have "foldl crc_byte a (take i xs @ y # drop (Suc i) xs) = foldl crc_byte a (take i xs @ xs ! i # drop (Suc i) xs)"
    by metis
  then have "crc_byte (foldl crc_byte a (take i xs)) y = crc_byte (foldl crc_byte a (take i xs)) (xs ! i)"
    by (auto dest: crc_fold_inject)
  with assms(2) show False by (simp add: crc_byte_inject)
qed

lemma length_masked [simp]: "length (masked bs) = length bs"
  by (simp add: masked_def)

lemma masked_update:
  assumes "i < length bs"
  shows "masked (bs[i := y]) = (if checksum_field i then masked bs else (masked bs)[i := y])"
  using assms by (auto simp: masked_def nth_list_update intro!: nth_equalityI)

lemma masked_checksum_irrelevant:
  assumes "length p = 12" "length c = 4" "length c' = 4"
  shows "masked (p @ c @ r) = masked (p @ c' @ r)"
  using assms by (auto simp: masked_def checksum_field_def nth_append intro!: nth_equalityI)

lemma blob_checksum_seal: "blob_checksum (enc_blob (seal b)) = blob_checksum (enc_blob b)"
  using masked_checksum_irrelevant [of "enc_le 4 (hb_magic b) @ enc_le 4 (hb_version b) @ enc_le 4 (hb_size b)"
      "enc_le 4 (blob_checksum (enc_blob b))" "enc_le 4 (hb_checksum b)"]
  by (simp add: blob_checksum_def enc_blob_def seal_def)

subsection \<open>The ring\<close>

definition history_log :: "history_blob \<Rightarrow> history_event list" where
  \<comment> \<open>the events kept, newest first\<close>
  "history_log b = map (\<lambda>age. hb_events b ! newest_index (hb_next b) age) [0..<unat (hb_count b)]"

definition ring_ok :: "history_blob \<Rightarrow> bool" where
  "ring_ok b \<longleftrightarrow> length (hb_events b) = 32 \<and> unat (hb_count b) = min (unat (hb_total_errors b)) 32 \<and>
     unat (hb_next b) = unat (hb_total_errors b) mod 32"

lemma history_log_nth:
  "age < unat (hb_count b) \<Longrightarrow> history_log b ! age = hb_events b ! newest_index (hb_next b) age"
  by (simp add: history_log_def)

lemma record_event_events: "hb_events (record_event b e) = (hb_events b)[unat (hb_next b) := e]"
  by (simp add: record_event_def)

lemma newest_index_eq:
  assumes "unat next < 32" "age < 32"
  shows "newest_index next age = (if unat next \<le> age then unat next + 31 - age else unat next - 1 - age)"
  using assms by (auto simp: newest_index_def ERROR_HISTORY_CAPACITY_def le_mod_geq)

lemma record_next:
  assumes "unat (next :: u32) < 32"
  shows "unat ((next + 1) mod 32) = (if unat next = 31 then 0 else unat next + 1)"
proof -
  have "unat (next + 1) = unat next + 1" using assms by (subst unat_add_small) simp_all
  then show ?thesis using assms by (auto simp: unat_mod)
qed

lemma ring_record:
  assumes "ring_ok b" "unat (hb_total_errors b) + 1 < 2 ^ 64"
  shows "ring_ok (record_event b e)" "history_log (record_event b e) = take 32 (e # history_log b)"
    "unat (hb_total_errors (record_event b e)) = unat (hb_total_errors b) + 1"
proof -
  let ?n = "unat (hb_next b)" and ?c = "unat (hb_count b)" and ?t = "unat (hb_total_errors b)"
  have n: "?n < 32" "?n = ?t mod 32" and c: "?c = min ?t 32" and len: "length (hb_events b) = 32"
    using assms(1) by (simp_all add: ring_ok_def)
  have t: "unat (hb_total_errors b + 1) = ?t + 1"
    using assms(2) by (subst unat_add_small) simp_all
  have n': "unat (hb_next (record_event b e)) = (if ?n = 31 then 0 else ?n + 1)"
    using record_next [OF n(1)] by (simp add: record_event_def ERROR_HISTORY_CAPACITY_def)
  have c': "unat (hb_count (record_event b e)) = min (?c + 1) 32"
  proof -
    have "?c < 32 \<Longrightarrow> unat (hb_count b + 1) = ?c + 1" by (subst unat_add_small) simp_all
    then show ?thesis using c by (auto simp: record_event_def ERROR_HISTORY_CAPACITY_def word_less_nat_alt)
  qed
  show "unat (hb_total_errors (record_event b e)) = ?t + 1"
    using t by (simp add: record_event_def)
  have "(?t + 1) mod 32 = (if ?t mod 32 = 31 then 0 else ?t mod 32 + 1)"
    by (simp add: mod_Suc)
  then show "ring_ok (record_event b e)"
    using n c' n' t c len by (auto simp: ring_ok_def record_event_def ERROR_HISTORY_CAPACITY_def min_def)
  show "history_log (record_event b e) = take 32 (e # history_log b)"
  proof (rule nth_equalityI)
    show "length (history_log (record_event b e)) = length (take 32 (e # history_log b))"
      by (simp add: history_log_def c')
    fix age
    assume "age < length (history_log (record_event b e))"
    then have age: "age < ?c + 1" "age < 32" by (simp_all add: history_log_def c')
    have old: "newest_index (hb_next (record_event b e)) age = (if age = 0 then ?n else newest_index (hb_next b) (age - 1))"
      using n(1) n' age by (cases age) (auto simp: newest_index_eq)
    have "newest_index (hb_next b) (age - 1) \<noteq> ?n" if "age \<noteq> 0"
      using that n(1) age by (auto simp: newest_index_eq)
    then show "history_log (record_event b e) ! age = take 32 (e # history_log b) ! age"
      using age old n(1) len c' history_log_nth [of age "record_event b e"] history_log_nth [of "age - 1" b]
      by (cases age) (auto simp: record_event_events)
  qed
qed


lemma ring_zero: "ring_ok zero_blob"
  by (simp add: ring_ok_def zero_blob_def ERROR_HISTORY_CAPACITY_def)

text \<open>C35 (history_ring_refines): the ring refines the plain list of all events: as long as the event counter
  has not wrapped, recording a sequence of events leaves exactly the last 32 of them, newest
  first, and the counter holds their number.\<close>
theorem history_ring_refines:
  assumes "length es < 2 ^ 64"
  shows "history_log (fold (\<lambda>e b. record_event b e) es zero_blob) = take 32 (rev es)
    \<and> unat (hb_total_errors (fold (\<lambda>e b. record_event b e) es zero_blob)) = length es"
proof -
  have "ring_ok (fold (\<lambda>e b. record_event b e) es zero_blob) \<and>
    history_log (fold (\<lambda>e b. record_event b e) es zero_blob) = take 32 (rev es) \<and>
    unat (hb_total_errors (fold (\<lambda>e b. record_event b e) es zero_blob)) = length es"
    using assms
  proof (induction es rule: rev_induct)
    case Nil
    show ?case by (simp add: ring_zero history_log_def) (simp add: zero_blob_def)
  next
    case (snoc e es)
    then show ?case
      using ring_record [of "fold (\<lambda>e b. record_event b e) es zero_blob" e]
      by simp
  qed
  then show ?thesis by blast
qed

lemma history_ring_refines_witness:
  "history_log (fold (\<lambda>e b. record_event b e) [zero_event, zero_event\<lparr>he_error := 3\<rparr>] zero_blob)
     = [zero_event\<lparr>he_error := 3\<rparr>, zero_event]"
  using history_ring_refines [of "[zero_event, zero_event\<lparr>he_error := 3\<rparr>]"] by simp

subsection \<open>What is written validates\<close>

definition blob_ok :: "history_blob \<Rightarrow> bool" where
  "blob_ok b \<longleftrightarrow> ring_ok b \<and> list_all event_shape (hb_events b) \<and> hb_magic b = HISTORY_MAGIC \<and>
     hb_version b = HISTORY_VERSION \<and> hb_size b = of_nat BLOB_SIZE \<and>
     (\<forall>age < unat (hb_count b). valid_event b age (history_log b ! age))"

lemma blob_ok_shape: "blob_ok b \<Longrightarrow> blob_shape b"
  by (simp add: blob_ok_def blob_shape_def ring_ok_def)

lemma seal_simps [simp]:
  "hb_events (seal b) = hb_events b" "hb_count (seal b) = hb_count b" "hb_next (seal b) = hb_next b"
  "hb_total_errors (seal b) = hb_total_errors b" "hb_boot_id (seal b) = hb_boot_id b"
  "hb_magic (seal b) = hb_magic b" "hb_version (seal b) = hb_version b" "hb_size (seal b) = hb_size b"
  "hb_checksum (seal b) = blob_checksum (enc_blob b)" "valid_event (seal b) = valid_event b"
  "history_log (seal b) = history_log b"
  by (simp_all add: seal_def valid_event_def fun_eq_iff history_log_def)

lemma dec_seal: "blob_ok b \<Longrightarrow> dec_blob (enc_blob (seal b)) = seal b"
  using blob_codec.ok_dec [of "seal b"] blob_ok_shape [of b] by (simp add: blob_shape_def)

lemma sealed_valid:
  assumes "blob_ok b"
  shows "valid_blob (enc_blob (seal b))"
proof -
  have r: "ring_ok b" using assms by (simp add: blob_ok_def)
  let ?t = "unat (hb_total_errors b)"
  have c: "hb_count b \<le> 32" "hb_next b < 32" "ucast (hb_count b) \<le> hb_total_errors b"
    using r by (auto simp: ring_ok_def word_le_nat_alt word_less_nat_alt)
  have "ucast (hb_count b) = (if hb_total_errors b < 32 then hb_total_errors b else (32 :: u64))"
    using r by (auto simp: ring_ok_def word_unat_eq_iff word_less_nat_alt)
  moreover have "ucast (hb_next b) = hb_total_errors b mod (32 :: u64)"
    using r by (simp add: ring_ok_def word_unat_eq_iff unat_mod)
  moreover have "\<forall>age < unat (hb_count b). valid_event b age (hb_events b ! newest_index (hb_next b) age)"
    using assms by (simp add: blob_ok_def history_log_def)
  ultimately show ?thesis
    using assms c dec_seal [OF assms]
    by (simp add: valid_blob_def Let_def blob_ok_def ERROR_HISTORY_CAPACITY_def blob_checksum_seal list_all_iff)
qed

subsection \<open>Recording keeps the blob valid\<close>

lemma copy_text_array:
  assumes "length d = n" "0 < n" "\<forall>i < n. d ! i = NUL"
  shows "length (copy_text d s n) = n" "copy_text d s n ! (n - 1) = NUL" "cstr (copy_text d s n) = take (n - 1) (cstr s)"
proof -
  let ?s = "take (n - 1) (cstr s)"
  have l: "length ?s < n" using assms(2) by simp
  show "length (copy_text d s n) = n" using assms l by (simp add: copy_text_def Let_def)
  show "copy_text d s n ! (n - 1) = NUL"
  proof (cases "length ?s = n - 1")
    case True
    then show ?thesis using assms l by (simp add: copy_text_def Let_def blit_def nth_append)
  next
    case False
    define p where "p = ?s @ [NUL]"
    have "copy_text d s n = p @ drop (length p) d"
      by (simp only: copy_text_def Let_def blit_def p_def)
    moreover have "length p \<le> n - 1" using False l by (simp add: p_def)
    ultimately have "copy_text d s n ! (n - 1) = d ! (n - 1)"
      using assms(1,2) by (simp add: nth_append)
    then show ?thesis using assms(2,3) by simp
  qed
  have "NUL \<notin> set ?s" by (auto dest: in_set_takeD)
  then show "cstr (copy_text d s n) = ?s" by (simp add: copy_text_def Let_def blit_def cstr_append_NUL)
qed

lemma event_of_shape: "event_shape (event_of b rq rs up utc)"
  by (simp add: event_shape_def request_shape_def event_of_def copy_text_array zero_request_def)

lemma event_of_valid:
  assumes "hb_boot_id b \<noteq> 0" "error rs \<noteq> MB_OK"
  shows "he_sequence (event_of b rq rs up utc) = hb_total_errors b + 1" "he_boot_id (event_of b rq rs up utc) = hb_boot_id b"
    "0 \<le> sint (he_utc_ms (event_of b rq rs up utc))"
    "hr_host (he_request (event_of b rq rs up utc)) ! 15 = NUL" "hr_profile (he_request (event_of b rq rs up utc)) ! 31 = NUL"
    "hr_phase (he_request (event_of b rq rs up utc)) ! 15 = NUL"
    "0 < he_error (event_of b rq rs up utc)" "he_error (event_of b rq rs up utc) \<le> 12"
  using assms copy_text_array(2) [of "replicate 16 NUL" 16] copy_text_array(2) [of "replicate 32 NUL" 32]
  by (auto simp: event_of_def zero_event_def zero_request_def mb_error_code_def nth_replicate split: mb_error.split)

lemma record_keeps_ok:
  assumes b: "blob_ok b" "hb_boot_id b \<noteq> 0" "unat (hb_total_errors b) + 1 < 2 ^ 64" and rs: "error rs \<noteq> MB_OK"
  shows "blob_ok (record_event b (event_of b rq rs up utc))"
proof -
  let ?e = "event_of b rq rs up utc" and ?b = "record_event b (event_of b rq rs up utc)"
  have "ring_ok b" using b(1) by (simp add: blob_ok_def)
  note rr = ring_record [OF this b(3), of ?e] and ev = event_of_valid [OF b(2) rs, of rq up utc]
  have fields: "hb_total_errors ?b = hb_total_errors b + 1" "hb_boot_id ?b = hb_boot_id b" "hb_magic ?b = hb_magic b"
      "hb_version ?b = hb_version b" "hb_size ?b = hb_size b"
    by (simp_all add: record_event_def)
  have len: "length (history_log ?b) = unat (hb_count ?b)" "length (history_log b) = unat (hb_count b)"
    by (simp_all add: history_log_def)
  have "valid_event ?b age (history_log ?b ! age)" if age: "age < unat (hb_count ?b)" for age
  proof (cases age)
    case 0
    then have "history_log ?b ! age = ?e" using age len(1) rr(2) by simp
    then show ?thesis using 0 ev b(2) by (simp add: valid_event_def fields)
  next
    case (Suc k)
    then have "k < unat (hb_count b)" "history_log ?b ! age = history_log b ! k"
      using age len rr(2) by auto
    moreover from this have "valid_event b k (history_log b ! k)" using b(1) by (simp add: blob_ok_def)
    ultimately show ?thesis using Suc by (simp add: valid_event_def fields)
  qed
  moreover have "list_all event_shape (hb_events ?b)"
    using b(1) event_of_shape by (auto simp: blob_ok_def record_event_events list_all_iff dest!: set_update_subset_insert [THEN subsetD])
  ultimately show ?thesis
    using rr(1) b(1) by (simp add: blob_ok_def fields)
qed


subsection \<open>The worker and the recorders, interleaved\<close>

text \<open>
  The flash holds one image, replaced atomically by a successful commit; a failed write may have
  replaced it or not. The worker is idle, has decided to flush, or is writing the bytes and the
  generation of its snapshot; errors may be recorded at any moment in between. The 64-bit
  generation and event counters are taken not to wrap.
\<close>

datatype flush_pc = Idle | Begun | Writing "u8 list" u64

record history_system =
  hs_run :: history_runtime
  hs_pc :: flush_pc
  hs_flash :: "u8 list option"

inductive history_step :: "history_system \<Rightarrow> history_system \<Rightarrow> bool" where
  step_record: "unat (ht_generation (hs_run s)) + 1 < 2 ^ 64 \<Longrightarrow> unat (hb_total_errors (ht_blob (hs_run s))) + 1 < 2 ^ 64 \<Longrightarrow>
     history_step s (s\<lparr>hs_run := error_history_record rq rs up utc (hs_run s)\<rparr>)"
| step_begin: "hs_pc s = Idle \<Longrightarrow> flush_begin now (hs_run s) = Some h \<Longrightarrow>
     history_step s (s\<lparr>hs_run := h, hs_pc := Begun\<rparr>)"
| step_no_memory: "hs_pc s = Begun \<Longrightarrow> history_step s (s\<lparr>hs_run := flush_no_memory (hs_run s), hs_pc := Idle\<rparr>)"
| step_snapshot: "hs_pc s = Begun \<Longrightarrow> flush_snapshot (hs_run s) = (bytes, g) \<Longrightarrow>
     history_step s (s\<lparr>hs_pc := Writing bytes g\<rparr>)"
| step_written: "hs_pc s = Writing bytes g \<Longrightarrow>
     history_step s (s\<lparr>hs_run := flush_done ESP_OK g (hs_run s), hs_pc := Idle, hs_flash := Some bytes\<rparr>)"
| step_failed: "hs_pc s = Writing bytes g \<Longrightarrow> err \<noteq> ESP_OK \<Longrightarrow> flash \<in> {hs_flash s, Some bytes} \<Longrightarrow>
     history_step s (s\<lparr>hs_run := flush_done err g (hs_run s), hs_pc := Idle, hs_flash := flash\<rparr>)"

inductive_simps history_step_simps: "history_step s s'"

text \<open>Storage as the platform presents it at start-up: what it loads is what the flash holds.\<close>

definition boot_from :: "u8 list option \<Rightarrow> history_boot \<Rightarrow> bool" where
  "boot_from flash x \<longleftrightarrow>
     (fst (hx_probe x) = ESP_ERR_NVS_NOT_FOUND \<longrightarrow> flash = None) \<and>
     (fst (hx_load x) = ESP_OK \<longrightarrow> flash = Some (snd (snd (hx_load x))) \<and>
        fst (snd (hx_load x)) = length (snd (snd (hx_load x))))"

inductive history_reach :: "u8 list option \<Rightarrow> history_system \<Rightarrow> bool" for flash where
  reach_boot: "boot_from flash x \<Longrightarrow>
     history_reach flash \<lparr>hs_run = error_history_init x history_start, hs_pc = Idle, hs_flash = flash\<rparr>"
| reach_step: "history_reach flash s \<Longrightarrow> history_step s s' \<Longrightarrow> history_reach flash s'"

definition history_inv :: "u8 list option \<Rightarrow> history_system \<Rightarrow> bool" where
  "history_inv flash s \<longleftrightarrow>
     (ht_lock (hs_run s) \<longrightarrow> blob_ok (ht_blob (hs_run s)) \<and> hb_boot_id (ht_blob (hs_run s)) \<noteq> 0) \<and>
     (ht_writable (hs_run s) \<longrightarrow> ht_lock (hs_run s)) \<and>
     (\<not> ht_writable (hs_run s) \<longrightarrow> hs_flash s = flash \<and> hs_pc s = Idle) \<and>
     (ht_writable (hs_run s) \<longrightarrow> (case hs_flash s of None \<Rightarrow> True | Some bytes \<Rightarrow> valid_blob bytes)) \<and>
     unat (ht_saved_generation (hs_run s)) \<le> unat (ht_generation (hs_run s)) \<and>
     (ht_writable (hs_run s) \<longrightarrow> 0 < unat (ht_generation (hs_run s))) \<and>
     (ht_writable (hs_run s) \<and> ht_saved_generation (hs_run s) = ht_generation (hs_run s) \<longrightarrow>
        hs_flash s = Some (enc_blob (seal (ht_blob (hs_run s))))) \<and>
     (hs_pc s \<noteq> Idle \<longrightarrow> ht_saved_generation (hs_run s) \<noteq> ht_generation (hs_run s)) \<and>
     (\<forall>bytes g. hs_pc s = Writing bytes g \<longrightarrow> valid_blob bytes \<and> unat g \<le> unat (ht_generation (hs_run s)) \<and>
        (g = ht_generation (hs_run s) \<longrightarrow> bytes = enc_blob (seal (ht_blob (hs_run s)))))"


lemma length_field: "k + n \<le> length bs \<Longrightarrow> length (field k n bs) = n"
  by (simp add: field_def)

lemma dec_blob_shape:
  assumes "length bs = BLOB_SIZE"
  shows "blob_shape (dec_blob bs)"
proof -
  have "event_shape (dec_event b)" if "length b = 128" for b
    using that by (simp add: event_shape_def request_shape_def dec_event_def dec_request_def dec_chars_def length_field)
  moreover have "length (take 128 (drop (128 * i) (drop 40 bs))) = 128" if "i < 32" for i
    using that assms by (simp add: BLOB_SIZE_def)
  ultimately show ?thesis
    by (simp add: blob_shape_def dec_blob_def ERROR_HISTORY_CAPACITY_def list_all_iff del: upt_rec_numeral)
qed

lemma ucast_eq_unat: "(ucast (c :: u32) :: u64) = t \<Longrightarrow> unat c = unat t"
  by (metis unat_ucast_32_64)

lemma valid_blob_ok:
  assumes "valid_blob bs" "length bs = BLOB_SIZE"
  shows "blob_ok (dec_blob bs)"
proof -
  let ?b = "dec_blob bs"
  have "ucast (hb_count ?b) = (if hb_total_errors ?b < 32 then hb_total_errors ?b else 32)"
      "ucast (hb_next ?b) = hb_total_errors ?b mod 32"
    using assms(1) by (simp_all add: valid_blob_def Let_def ERROR_HISTORY_CAPACITY_def)
  note v = this [THEN ucast_eq_unat]
  have "unat (hb_count ?b) = min (unat (hb_total_errors ?b)) 32" "unat (hb_next ?b) = unat (hb_total_errors ?b) mod 32"
    using v by (auto simp: word_less_nat_alt unat_mod min_def)
  moreover have "length (hb_events ?b) = 32" "list_all event_shape (hb_events ?b)"
    using dec_blob_shape [OF assms(2)] by (simp_all add: blob_shape_def)
  ultimately show ?thesis
    using assms(1)
    by (simp add: blob_ok_def ring_ok_def valid_blob_def Let_def list_all_iff history_log_def)
qed

lemma word_inc_u32:
  assumes "(w :: u32) \<noteq> - 1"
  shows "unat (w + 1) = unat w + 1"
proof -
  have "unat w \<noteq> unat (- 1 :: u32)" using assms by (simp only: word_unat_eq_iff [symmetric] not_False_eq_True)
  moreover have "unat (- 1 :: u32) = 4294967295" by (simp add: unsigned_minus_1_eq_mask mask_eq_exp_minus_1)
  ultimately show ?thesis using unat_lt_u32 [of w] by (subst unat_add_small) simp_all
qed

lemma next_boot_ok:
  "blob_ok b \<Longrightarrow> hb_boot_id b \<le> n \<Longrightarrow> blob_ok (b\<lparr>hb_boot_id := n\<rparr>)"
  by (auto simp: blob_ok_def ring_ok_def history_log_def valid_event_def intro: order_trans)

lemma fresh_blob_ok:
  "blob_ok (zero_blob\<lparr>hb_magic := HISTORY_MAGIC, hb_version := HISTORY_VERSION, hb_size := of_nat BLOB_SIZE\<rparr>)"
  using ring_zero by (simp add: blob_ok_def ring_ok_def zero_blob_def list_all_iff event_shape_def request_shape_def
      zero_event_def zero_request_def)

text \<open>What start-up establishes.\<close>

definition loaded_ok :: "u8 list option \<Rightarrow> history_runtime \<Rightarrow> bool" where
  "loaded_ok flash h \<longleftrightarrow> blob_ok (ht_blob h) \<and> ht_lock h \<and> ht_generation h = 0 \<and> ht_saved_generation h = 0 \<and>
     (ht_writable h \<longrightarrow> (case flash of None \<Rightarrow> True | Some bytes \<Rightarrow> valid_blob bytes))"

lemma storage_error_simps [simp]:
  "ht_blob (storage_error op e h) = ht_blob h" "ht_lock (storage_error op e h) = ht_lock h"
  "ht_writable (storage_error op e h) = ht_writable h" "ht_generation (storage_error op e h) = ht_generation h"
  "ht_saved_generation (storage_error op e h) = ht_saved_generation h"
  by (simp_all add: storage_error_def)

lemma history_load_ok:
  assumes "loaded_ok flash h" "\<not> ht_writable h" "boot_from flash x"
  shows "loaded_ok flash (history_load x h)"
  using assms valid_blob_ok
  by (auto simp: history_load_def loaded_ok_def boot_from_def split: prod.splits)

lemma history_init_inv:
  assumes "boot_from flash x"
  shows "history_inv flash \<lparr>hs_run = error_history_init x history_start, hs_pc = Idle, hs_flash = flash\<rparr>"
proof (cases "hx_mutex x")
  case False
  then show ?thesis
    by (simp add: history_inv_def error_history_init_def history_start_def Let_def)
next
  case True
  define h where "h = history_load x (history_start\<lparr>ht_initialized := True, ht_lock := True,
     ht_blob := zero_blob\<lparr>hb_magic := HISTORY_MAGIC, hb_version := HISTORY_VERSION, hb_size := of_nat BLOB_SIZE\<rparr>\<rparr>)"
  have h: "loaded_ok flash h"
    unfolding h_def by (rule history_load_ok) (use fresh_blob_ok assms in \<open>simp_all add: loaded_ok_def history_start_def\<close>)
  have eq: "error_history_init x history_start =
     (let h' = (if hb_boot_id (ht_blob h) = - 1
                then h\<lparr>ht_writable := False, ht_persistence_error := ''History boot counter exhausted''\<rparr>
                else h\<lparr>ht_blob := (ht_blob h)\<lparr>hb_boot_id := hb_boot_id (ht_blob h) + 1\<rparr>\<rparr>);
          h' = h'\<lparr>ht_generation := ht_generation h' + 1\<rparr>
      in if ht_writable h' \<and> \<not> hx_task x
         then storage_error ''History worker allocation'' ESP_ERR_NO_MEM (h'\<lparr>ht_writable := False\<rparr>) else h')"
    using True by (simp add: error_history_init_def history_start_def h_def Let_def)
  have "blob_ok (ht_blob h\<lparr>hb_boot_id := hb_boot_id (ht_blob h) + 1\<rparr>) \<and> hb_boot_id (ht_blob h) + 1 \<noteq> 0"
    if "hb_boot_id (ht_blob h) \<noteq> - 1"
  proof -
    have "hb_boot_id (ht_blob h) \<le> hb_boot_id (ht_blob h) + 1" "hb_boot_id (ht_blob h) + 1 \<noteq> 0"
      using word_inc_u32 [OF that] by (simp_all add: word_le_nat_alt unat_eq_0 [symmetric])
    with h next_boot_ok show ?thesis by (simp add: loaded_ok_def)
  qed
  then show ?thesis
    using h unfolding eq by (simp add: history_inv_def loaded_ok_def Let_def)
qed


lemma unat_inc_u64: "unat (w :: u64) + 1 < 2 ^ 64 \<Longrightarrow> unat (w + 1) = unat w + 1"
  by (subst unat_add_small) simp_all

lemma mb_error_code_0: "mb_error_code e = 0 \<longleftrightarrow> e = MB_OK"
  by (cases e) (simp_all add: mb_error_code_def)

lemma history_step_inv:
  assumes "history_step s s'" "history_inv flash s"
  shows "history_inv flash s'"
  using assms
proof (induction rule: history_step.induct)
  case (step_record s rq rs up utc)
  show ?case
  proof (cases "error_history_record rq rs up utc (hs_run s) = hs_run s")
    case True
    then show ?thesis using step_record by simp
  next
    case False
    then obtain q r where r: "rq = Some q" "rs = Some r" "error r \<noteq> MB_OK" "ht_lock (hs_run s)"
      by (auto simp: error_history_record_def mb_error_code_0 split: option.splits if_splits)
    then have eq: "error_history_record rq rs up utc (hs_run s) =
        (hs_run s)\<lparr>ht_blob := record_event (ht_blob (hs_run s)) (event_of (ht_blob (hs_run s)) q r up utc),
          ht_generation := ht_generation (hs_run s) + 1\<rparr>"
      using False by (auto simp: error_history_record_def split: if_splits)
    have g: "unat (ht_generation (hs_run s) + 1) = unat (ht_generation (hs_run s)) + 1"
      using step_record.hyps(1) by (rule unat_inc_u64)
    have "hb_boot_id (record_event b e) = hb_boot_id b" for b e by (simp add: record_event_def)
    moreover have "ht_saved_generation (hs_run s) \<noteq> ht_generation (hs_run s) + 1"
      "\<And>bytes k. hs_pc s = Writing bytes k \<Longrightarrow> k \<noteq> ht_generation (hs_run s) + 1"
      using step_record.prems g by (auto simp: history_inv_def)
    ultimately show ?thesis
      using step_record.prems step_record.hyps(2) r(3,4) g
      by (auto simp: eq history_inv_def record_keeps_ok)
  qed
next
  case (step_begin s now h)
  then show ?case by (auto simp: history_inv_def flush_begin_def split: if_splits)
next
  case (step_snapshot s bytes g)
  then show ?case using sealed_valid by (auto simp: history_inv_def flush_snapshot_def)
next
  case (step_written s bytes g)
  then show ?case by (auto simp: history_inv_def flush_done_def)
next
  case (step_failed s bytes g err flash)
  then show ?case by (auto simp: history_inv_def flush_done_def)
qed (auto simp: history_inv_def flush_no_memory_def)


lemma history_reach_inv: "history_reach flash s \<Longrightarrow> history_inv flash s"
  by (induction rule: history_reach.induct) (auto intro: history_init_inv history_step_inv)

definition demo_boot :: history_boot where
  "demo_boot = \<lparr>hx_mutex = True, hx_open = ESP_OK, hx_probe = (ESP_ERR_NVS_NOT_FOUND, 0), hx_malloc = True,
     hx_load = (ESP_ERR_NVS_NOT_FOUND, 0, []), hx_task = True\<rparr>"

lemma demo_flushed:
  "\<exists>s. history_reach None s \<and> ht_writable (hs_run s) \<and>
     ht_saved_generation (hs_run s) = ht_generation (hs_run s) \<and> hb_boot_id (ht_blob (hs_run s)) = 1"
proof -
  define h where "h = error_history_init demo_boot history_start"
  have h: "ht_writable h" "ht_generation h = 1" "ht_saved_generation h = 0" "\<not> ht_attempted h" "hb_boot_id (ht_blob h) = 1"
    by (simp_all add: h_def error_history_init_def history_start_def demo_boot_def history_load_def Let_def
        ESP_OK_def ESP_ERR_NVS_NOT_FOUND_def zero_blob_def)
  define h1 where "h1 = h\<lparr>ht_attempted := True, ht_last_attempt_ms := 5\<rparr>"
  have "history_reach None \<lparr>hs_run = h, hs_pc = Idle, hs_flash = None\<rparr>"
    unfolding h_def by (rule reach_boot)
      (simp add: boot_from_def demo_boot_def ESP_OK_def ESP_ERR_NVS_NOT_FOUND_def)
  then have "history_reach None \<lparr>hs_run = h1, hs_pc = Begun, hs_flash = None\<rparr>"
    by (rule reach_step) (use step_begin [of "\<lparr>hs_run = h, hs_pc = Idle, hs_flash = None\<rparr>" 5 h1] h in
        \<open>simp add: h1_def flush_begin_def\<close>)
  then have "history_reach None \<lparr>hs_run = h1, hs_pc = Writing (enc_blob (seal (ht_blob h1))) 1, hs_flash = None\<rparr>"
    by (rule reach_step) (use step_snapshot [of "\<lparr>hs_run = h1, hs_pc = Begun, hs_flash = None\<rparr>"] h in
        \<open>simp add: h1_def flush_snapshot_def\<close>)
  then have "history_reach None \<lparr>hs_run = flush_done ESP_OK 1 h1, hs_pc = Idle, hs_flash = Some (enc_blob (seal (ht_blob h1)))\<rparr>"
    by (rule reach_step) (use step_written [of "\<lparr>hs_run = h1, hs_pc = Writing (enc_blob (seal (ht_blob h1))) 1, hs_flash = None\<rparr>"] in simp)
  moreover have "ht_writable (flush_done ESP_OK 1 h1)" "hb_boot_id (ht_blob (flush_done ESP_OK 1 h1)) = 1"
    "ht_saved_generation (flush_done ESP_OK 1 h1) = ht_generation (flush_done ESP_OK 1 h1)"
    using h by (simp_all add: flush_done_def h1_def)
  ultimately show ?thesis by fastforce
qed

text \<open>C34 (history_flush_sound): however recordings and the parts of a flush interleave, and whatever
  storage answers: whenever the saved generation equals the current one, the flash holds exactly
  the current history, so no event is lost by being recorded during a write; the flash always
  holds a valid image; and a history that could not be read is never written over.\<close>
theorem history_flush_sound:
  assumes "history_reach flash s"
  shows "(if ht_writable (hs_run s)
      then (case hs_flash s of None \<Rightarrow> True | Some bytes \<Rightarrow> valid_blob bytes) \<and>
        (ht_saved_generation (hs_run s) = ht_generation (hs_run s) \<longrightarrow>
           hs_flash s = Some (enc_blob (seal (ht_blob (hs_run s)))))
      else hs_flash s = flash)"
  using history_reach_inv [OF assms] by (auto simp: history_inv_def)

lemma history_flush_sound_witness:
  "\<exists>s. history_reach None s \<and> ht_saved_generation (hs_run s) = ht_generation (hs_run s) \<and>
     hs_flash s = Some (enc_blob (seal (ht_blob (hs_run s))))"
  using demo_flushed history_flush_sound by fastforce

text \<open>C36 (history_survives_restart): once everything recorded has been flushed, a restart that can read
  the storage comes up with the same events in the same order, the same count of errors, and the
  next boot number.\<close>
theorem history_survives_restart:
  assumes "history_reach flash s" "ht_writable (hs_run s)"
    and "ht_saved_generation (hs_run s) = ht_generation (hs_run s)"
    and "boot_from (hs_flash s) x" "hx_mutex x" "hx_open x = ESP_OK" "hx_probe x = (ESP_OK, BLOB_SIZE)" "hx_malloc x"
    and "fst (hx_load x) = ESP_OK" "hx_task x" "hb_boot_id (ht_blob (hs_run s)) \<noteq> - 1"
  shows "history_log (ht_blob (error_history_init x history_start)) = history_log (ht_blob (hs_run s))
    \<and> hb_total_errors (ht_blob (error_history_init x history_start)) = hb_total_errors (ht_blob (hs_run s))
    \<and> hb_boot_id (ht_blob (error_history_init x history_start)) = hb_boot_id (ht_blob (hs_run s)) + 1
    \<and> ht_writable (error_history_init x history_start)"
proof -
  let ?b = "ht_blob (hs_run s)"
  have ok: "blob_ok ?b" and flash: "hs_flash s = Some (enc_blob (seal ?b))"
    using history_reach_inv [OF assms(1)] assms(2,3) by (auto simp: history_inv_def)
  obtain len where l: "hx_load x = (ESP_OK, len, enc_blob (seal ?b))"
    using assms(4,9) flash by (cases "hx_load x") (auto simp: boot_from_def)
  have "length (enc_blob (seal ?b)) = BLOB_SIZE"
    using blob_codec.ok_length [of "seal ?b"] blob_ok_shape [OF ok] by (simp add: blob_shape_def)
  then have len: "len = BLOB_SIZE" using assms(4) l by (simp add: boot_from_def)
  have load: "history_load x h = h\<lparr>ht_blob := seal ?b, ht_writable := True\<rparr>" for h
    using assms(6-8) l len sealed_valid [OF ok] dec_seal [OF ok]
    by (simp add: history_load_def ESP_OK_def ESP_ERR_NVS_NOT_FOUND_def)
  show ?thesis
    using assms(5,10,11)
    by (simp add: error_history_init_def history_start_def Let_def load) (simp add: history_log_def)
qed

lemma history_survives_restart_witness:
  "\<exists>(s :: history_system) x. ht_writable (hs_run s) \<and>
     history_log (ht_blob (error_history_init x history_start)) = history_log (ht_blob (hs_run s)) \<and>
     hb_boot_id (ht_blob (error_history_init x history_start)) = 2"
proof -
  obtain s where s: "history_reach None s" "ht_writable (hs_run s)"
     "ht_saved_generation (hs_run s) = ht_generation (hs_run s)" "hb_boot_id (ht_blob (hs_run s)) = 1"
    using demo_flushed by blast
  let ?bytes = "enc_blob (seal (ht_blob (hs_run s)))"
  let ?x = "\<lparr>hx_mutex = True, hx_open = ESP_OK, hx_probe = (ESP_OK, BLOB_SIZE), hx_malloc = True,
     hx_load = (ESP_OK, length ?bytes, ?bytes), hx_task = True\<rparr>"
  have "hs_flash s = Some ?bytes" using history_reach_inv [OF s(1)] s(2,3) by (simp add: history_inv_def)
  then have "boot_from (hs_flash s) ?x" by (simp add: boot_from_def ESP_OK_def ESP_ERR_NVS_NOT_FOUND_def)
  from history_survives_restart [OF s(1-3) this] s(4)
  have r: "history_log (ht_blob (error_history_init ?x history_start)) = history_log (ht_blob (hs_run s))"
    "hb_boot_id (ht_blob (error_history_init ?x history_start)) = 2" by simp_all
  show ?thesis using s(2) r by blast
qed

lemma checksum_bytes:
  assumes "length bs = BLOB_SIZE"
  shows "field 12 4 bs = [bs ! 12, bs ! 13, bs ! 14, bs ! 15]"
proof (rule nth_equalityI)
  fix k
  assume "k < length (field 12 4 bs)"
  then have "k = 0 \<or> k = 1 \<or> k = 2 \<or> k = 3" by (auto simp: field_def)
  then show "field 12 4 bs ! k = [bs ! 12, bs ! 13, bs ! 14, bs ! 15] ! k"
    using assms by (auto simp: field_def BLOB_SIZE_def)
qed (use assms in \<open>simp add: field_def BLOB_SIZE_def\<close>)

lemma le_dec_less: "le_dec bs < 256 ^ length bs"
proof (induction bs)
  case (Cons b bs)
  then show ?case using unat_lt_u8 [of b] by simp
qed simp

lemma le_dec_inject: "length xs = length ys \<Longrightarrow> le_dec xs = le_dec ys \<longleftrightarrow> xs = ys"
proof (induction xs ys rule: list_induct2)
  case (Cons x xs y ys)
  have "unat x + 256 * a = unat y + 256 * b \<longleftrightarrow> unat x = unat y \<and> a = b" for a b
  proof
    assume eq: "unat x + 256 * a = unat y + 256 * b"
    have "unat x = (unat x + 256 * a) mod 256" "unat y = (unat y + 256 * b) mod 256"
      using unat_lt_u8 [of x] unat_lt_u8 [of y] by simp_all
    then have "unat x = unat y" unfolding eq by simp
    with eq show "unat x = unat y \<and> a = b" by simp
  qed simp
  with Cons show ?case by (simp add: word_unat_eq_iff)
qed simp

lemma dec_le32_inject:
  assumes "length xs = 4" "length ys = 4"
  shows "(dec_le xs :: u32) = dec_le ys \<longleftrightarrow> xs = ys"
proof -
  have "unat (dec_le bs :: u32) = le_dec bs" if "length bs = 4" for bs
    using le_dec_less [of bs] that unfolding dec_le_def by (subst unat_of_nat_small) simp_all
  then show ?thesis using assms le_dec_inject [of xs ys] by (metis word_unat_eq_iff)
qed

text \<open>An image in flash in which any one byte of a written history has
  changed is never accepted.\<close>
theorem history_detects_corruption:
  assumes "valid_blob bytes" "length bytes = BLOB_SIZE" "i < BLOB_SIZE" "y \<noteq> bytes ! i"
  shows "\<not> valid_blob (bytes[i := y])"
proof
  assume v: "valid_blob (bytes[i := y])"
  have c: "dec_le (field 12 4 bytes) = blob_checksum bytes"
    "dec_le (field 12 4 (bytes[i := y])) = blob_checksum (bytes[i := y])"
    using assms(1) v by (simp_all add: valid_blob_def Let_def dec_blob_def)
  show False
  proof (cases "checksum_field i")
    case True
    then have "blob_checksum (bytes[i := y]) = blob_checksum bytes"
      using assms(2,3) by (simp add: blob_checksum_def masked_update)
    with c have "(dec_le (field 12 4 (bytes[i := y])) :: u32) = dec_le (field 12 4 bytes)" by simp
    moreover have "field 12 4 bs = [bs ! 12, bs ! 13, bs ! 14, bs ! 15]" if "length bs = BLOB_SIZE" for bs
      by (rule checksum_bytes [OF that])
    moreover have "(dec_le [a, b, c, d] :: u32) = dec_le [a', b', c', d'] \<longleftrightarrow> [a, b, c, d] = [a', b', c', d']" for a b c d a' b' c' d'
      by (rule dec_le32_inject) simp_all
    ultimately have "[bytes[i := y] ! 12, bytes[i := y] ! 13, bytes[i := y] ! 14, bytes[i := y] ! 15]
        = [bytes ! 12, bytes ! 13, bytes ! 14, bytes ! 15]"
      using assms(2) by simp
    moreover have "i = 12 \<or> i = 13 \<or> i = 14 \<or> i = 15" using True by (auto simp: checksum_field_def)
    ultimately show False using assms(2-4) by (auto simp: BLOB_SIZE_def)
  next
    case False
    then have "field 12 4 (bytes[i := y]) = field 12 4 bytes"
      by (auto simp: field_def checksum_field_def drop_update_swap)
    with c have "blob_checksum (bytes[i := y]) = blob_checksum bytes" by simp
    then have "foldl crc_byte (- 1) ((masked bytes)[i := y]) = foldl crc_byte (- 1) (masked bytes)"
      using False assms(2,3) by (simp add: blob_checksum_def masked_update bit.compl_eq_compl_iff)
    moreover have "masked bytes ! i = bytes ! i" using False assms(2,3) by (simp add: masked_def)
    ultimately show False using crc_detects [of i "masked bytes" y "- 1"] assms by simp
  qed
qed


lemma history_detects_corruption_witness:
  "\<exists>bytes. valid_blob bytes \<and> \<not> valid_blob (bytes[7 := bytes ! 7 + 1])"
proof -
  let ?b = "zero_blob\<lparr>hb_magic := HISTORY_MAGIC, hb_version := HISTORY_VERSION, hb_size := of_nat BLOB_SIZE\<rparr>"
  let ?bytes = "enc_blob (seal ?b)"
  have "valid_blob ?bytes" using sealed_valid [OF fresh_blob_ok] .
  moreover have "length ?bytes = BLOB_SIZE"
    using blob_codec.ok_length [of "seal ?b"] blob_ok_shape [OF fresh_blob_ok] by (simp add: blob_shape_def)
  ultimately have "\<not> valid_blob (?bytes[7 := ?bytes ! 7 + 1])"
    by (rule history_detects_corruption) (simp_all add: BLOB_SIZE_def)
  with \<open>valid_blob ?bytes\<close> show ?thesis by blast
qed

end
