(* ===== verification/Custom_Apply.thy ===== *)
theory Custom_Apply
  imports Custom_Map Modbus_Frame
begin

section \<open>Applying replies to the custom map\<close>

text \<open>
  What \<open>custom_map_apply\<close> (\<open>main/custom_map.c\<close>) makes of the registers of a point of an accepted map:
  the byte orders, the integers, the text, and what holds of any reply.
\<close>

subsection \<open>Byte order\<close>

text \<open>The bytes of registers on the wire, the order a label names, and the number they spell.\<close>

definition wire_bytes :: "u16 list \<Rightarrow> u8 list" where
  "wire_bytes ws = concat (map write_be16 ws)"

definition ordered :: "u8 \<Rightarrow> u8 list \<Rightarrow> u8 list" where
  \<comment> \<open>AB or ABCD, BA or BADC, CDAB, DCBA\<close>
  "ordered order bs =
     (if order = 0 then bs
      else if order = 1 then concat (map (\<lambda>k. [bs ! (2 * k + 1), bs ! (2 * k)]) [0..<length bs div 2])
      else if order = 2 then drop 2 bs @ take 2 bs
      else rev bs)"

definition be_value :: "u8 list \<Rightarrow> nat" where
  "be_value bs = foldl (\<lambda>n b. 256 * n + unat b) 0 bs"

definition signed_value :: "nat \<Rightarrow> nat \<Rightarrow> int" where
  "signed_value n v = (if v \<ge> 2 ^ (n - 1) then int v - 2 ^ n else int v)"

lemma unat_drop8: "unat (drop_bit 8 (w :: u16)) = unat w div 256"
  by (simp add: drop_bit_eq_div unat_div)

lemma unat_swap16: "unat (swap16 w) = 256 * (unat w mod 256) + unat w div 256"
proof -
  have d: "swap16 w = drop_bit 8 w + push_bit 8 w"
    unfolding swap16_def by (rule disjunctive_add_eq_or [symmetric]) (auto simp: bit_eq_iff bit_simps dest: bit_imp_le_length)
  have lo: "unat (push_bit 8 w) = 256 * (unat w mod 256)"
  proof -
    have "unat (push_bit 8 w) = (unat w * 256) mod 65536"
      by (simp add: push_bit_eq_mult unat_word_ariths)
    also have "\<dots> = 256 * (unat w mod 256)"
      using mult_mod_right [of 256 "unat w" 256] by (simp add: mult.commute)
    finally show ?thesis .
  qed
  have hi: "unat (drop_bit 8 w) = unat w div 256" by (rule unat_drop8)
  have "unat w div 256 < 256" using unat_lt_u16 [of w] by simp
  moreover have "256 * (unat w mod 256) \<le> 256 * 255"
    using mod_less_divisor [of 256 "unat w"] by (intro mult_le_mono2) linarith
  ultimately have "unat (drop_bit 8 w) + unat (push_bit 8 w) < 2 ^ LENGTH(16)"
    unfolding hi lo by simp
  then show ?thesis unfolding d by (subst unat_add_small) (simp_all add: hi lo)
qed

lemma unat_join: "unat (push_bit 16 (ucast (a :: u16)) OR ucast (b :: u16) :: u32) = 65536 * unat a + unat b"
proof -
  have d: "push_bit 16 (ucast a) OR ucast b = (push_bit 16 (ucast a) + ucast b :: u32)"
    by (rule disjunctive_add_eq_or [symmetric]) (auto simp: bit_eq_iff bit_simps dest: bit_imp_le_length)
  have hi: "unat (push_bit 16 (ucast a) :: u32) = 65536 * unat a"
    using unat_lt_u16 [of a] by (simp add: push_bit_eq_mult unat_word_ariths)
  show ?thesis unfolding d using unat_lt_u16 [of a] unat_lt_u16 [of b]
    by (subst unat_add_small) (simp_all add: hi)
qed

lemma be_value_2: "be_value [a, b] = 256 * unat a + unat b"
  by (simp add: be_value_def)

lemma be_value_4: "be_value [a, b, c, d] = 65536 * be_value [a, b] + be_value [c, d]"
  by (simp add: be_value_def)

lemma bytes_value: "be_value [ucast (drop_bit 8 w), ucast w] = unat (w :: u16)"
  using unat_lt_u16 [of w] by (simp add: be_value_2 unat_drop8 unsigned_ucast_eq take_bit_eq_mod)

lemma bytes_swapped: "be_value [ucast w, ucast (drop_bit 8 w)] = unat (swap16 w)"
  using unat_lt_u16 [of w] by (simp add: be_value_2 unat_drop8 unat_swap16 unsigned_ucast_eq take_bit_eq_mod)

lemma order_cases: "unat (n :: u8) \<le> 3 \<Longrightarrow> n = 0 \<or> n = 1 \<or> n = 2 \<or> n = 3"
proof -
  assume "unat n \<le> 3"
  then have "unat n = 0 \<or> unat n = 1 \<or> unat n = 2 \<or> unat n = 3" by linarith
  then show ?thesis by (auto simp: unat_eq_iff)
qed

lemma narrow_order:
  assumes "unat n \<le> 1"
  shows "unat (if n AND 1 \<noteq> 0 then swap16 w else w) = be_value (ordered n (wire_bytes [w]))"
proof -
  have "n = 0 \<or> n = 1" using order_cases [of n] assms by auto
  then show ?thesis
    using bytes_value [of w] bytes_swapped [of w] by (auto simp: ordered_def wire_bytes_def write_be16_def)
qed

lemma wide_order:
  assumes "unat n \<le> 3"
  shows "unat (full_word n (if n AND 1 \<noteq> 0 then swap16 w else w) (if n AND 1 \<noteq> 0 then swap16 v else v)) =
    be_value (ordered n (wire_bytes [w, v]))"
proof -
  have four: "[0..<2] = [0, 1 :: nat]" by (simp add: upt_rec)
  have "n = 0 \<or> n = 1 \<or> n = 2 \<or> n = 3" by (rule order_cases [OF assms])
  then show ?thesis
    by (elim disjE) (simp_all add: full_word_def unat_join ordered_def wire_bytes_def write_be16_def four
        be_value_4 bytes_value bytes_swapped)
qed


subsection \<open>Numbers\<close>

definition integer_type :: "custom_data_type \<Rightarrow> bool" where
  "integer_type kind \<longleftrightarrow> kind \<le> CUSTOM_S32"

definition integer_of :: "custom_data_type \<Rightarrow> nat \<Rightarrow> int" where
  "integer_of kind v =
     (if kind = CUSTOM_S16 then signed_value 16 v else if kind = CUSTOM_S32 then signed_value 32 v else int v)"

lemma uint_unat_eq: "uint w = int (unat w)"
  by simp

lemma be_value_bound: "be_value bs < 256 ^ length bs"
proof (induction bs rule: rev_induct)
  case (snoc b bs)
  have "be_value (bs @ [b]) = 256 * be_value bs + unat b" by (simp add: be_value_def)
  with snoc unat_lt_u8 [of b] show ?case by simp
qed (simp add: be_value_def)

lemma length_ordered [simp]: "even (length bs) \<Longrightarrow> length (ordered n bs) = length bs"
  by (auto simp: ordered_def length_concat comp_def sum_list_triv)

lemma length_wire_bytes [simp]: "length (wire_bytes ws) = 2 * length ws"
  by (simp add: wire_bytes_def length_concat comp_def write_be16_def sum_list_triv)

lemma signed_bound:
  assumes "v < 2 ^ n"
  shows "\<bar>signed_value n v\<bar> \<le> 2 ^ n"
proof -
  have "int v < 2 ^ n" using assms by (metis of_nat_less_iff of_nat_numeral of_nat_power)
  then show ?thesis by (simp add: signed_value_def)
qed

lemma integer_of_small:
  assumes "kind \<le> CUSTOM_S32" "v < (if wide kind then 2 ^ 32 else 2 ^ 16)"
  shows "\<bar>integer_of kind v\<bar> < 2 ^ 53"
proof -
  have v: "v < 2 ^ 32" using assms(2) by (auto split: if_splits)
  have "\<bar>signed_value 32 v\<bar> \<le> 2 ^ 32" by (rule signed_bound [OF v])
  moreover have "\<bar>signed_value 16 v\<bar> \<le> 2 ^ 16" if "kind = CUSTOM_S16"
    using assms(2) that by (intro signed_bound) (simp add: wide_def data_type_order)
  ultimately show ?thesis using v by (auto simp: integer_of_def)
qed

text \<open>What the registers of a numeric point say before scaling.\<close>

lemma raw_number_integer:
  assumes ok: "point_ok d p" and len: "length ws = unat (cd_word_count d)" and kind: "cp_data_type p \<le> CUSTOM_S32"
  shows "raw_number p d ws = Some (Some (Fin (of_int (integer_of (cp_data_type p) (be_value (ordered (cp_order p) (wire_bytes ws)))))))"
proof -
  let ?k = "cp_data_type p" and ?v = "be_value (ordered (cp_order p) (wire_bytes ws))"
  have na: "?k \<noteq> CUSTOM_ASCII" "?k \<noteq> CUSTOM_BOOL" using kind by (auto simp: data_type_order)
  have wc: "unat (cd_word_count d) = (if wide ?k then 2 else 1)" using ok na by (simp add: point_ok_def)
  have ord: "unat (cp_order p) \<le> (if wide ?k then 3 else 1)" using ok na unfolding point_ok_def by simp
  have b: "?v < (if wide ?k then 2 ^ 32 else 2 ^ 16)"
    using be_value_bound [of "ordered (cp_order p) (wire_bytes ws)"] len wc by (simp split: if_splits)
  note exact = dbl_of_int_exact [OF integer_of_small [OF kind b]]
  show ?thesis
  proof (cases "wide ?k")
    case True
    then obtain w v where ws: "ws = [w, v]"
      using len wc by (auto simp: length_Suc_conv numeral_2_eq_2)
    define full where "full = full_word (cp_order p) (if cp_order p AND 1 \<noteq> 0 then swap16 w else w)
        (if cp_order p AND 1 \<noteq> 0 then swap16 v else v)"
    have c: "cd_word_count d = 2" using wc True by (simp add: unat_eq_iff)
    have u: "unat full = ?v" using wide_order [of "cp_order p" w v] ord True ws by (simp add: full_def)
    have r: "raw_number p d ws = Some (case ?k of CUSTOM_U32 \<Rightarrow> Some (dbl_of_int (uint full))
      | CUSTOM_S32 \<Rightarrow> Some (dbl_of_int (if full \<ge> 0x80000000 then uint full - 4294967296 else uint full)) | _ \<Rightarrow> None)"
      if "?k = CUSTOM_U32 \<or> ?k = CUSTOM_S32"
      using that c by (elim disjE) (simp_all add: raw_number_def ws full_def)
    have "?k = CUSTOM_U32 \<or> ?k = CUSTOM_S32" using True kind by (cases ?k) (auto simp: wide_def data_type_order)
    then show ?thesis
    proof (elim disjE)
      assume k: "?k = CUSTOM_U32"
      then show ?thesis using r exact u [symmetric] by (simp add: integer_of_def)
    next
      assume k: "?k = CUSTOM_S32"
      have "(if full \<ge> 0x80000000 then uint full - 4294967296 else uint full) = integer_of ?k ?v"
        using k u [symmetric] by (simp add: integer_of_def signed_value_def word_le_nat_alt)
      then show ?thesis using r k exact by simp
    qed
  next
    case False
    then obtain w where ws: "ws = [w]" using len wc by (auto simp: length_Suc_conv)
    define a where "a = (if cp_order p AND 1 \<noteq> 0 then swap16 w else w)"
    have c: "cd_word_count d \<noteq> 2" using wc False by auto
    have u: "unat a = ?v" using narrow_order [of "cp_order p" w] ord False ws by (simp add: a_def)
    have r: "raw_number p d ws = Some (case ?k of CUSTOM_U16 \<Rightarrow> Some (dbl_of_int (uint a))
      | CUSTOM_S16 \<Rightarrow> Some (dbl_of_int (if a \<ge> 0x8000 then uint a - 65536 else uint a)) | _ \<Rightarrow> None)"
      if "?k = CUSTOM_U16 \<or> ?k = CUSTOM_S16"
      using that c by (elim disjE) (simp_all add: raw_number_def ws a_def)
    have "?k = CUSTOM_U16 \<or> ?k = CUSTOM_S16" using False kind by (cases ?k) (auto simp: wide_def data_type_order)
    then show ?thesis
    proof (elim disjE)
      assume k: "?k = CUSTOM_U16"
      then show ?thesis using r exact u [symmetric] by (simp add: integer_of_def)
    next
      assume k: "?k = CUSTOM_S16"
      have "(if a \<ge> 0x8000 then uint a - 65536 else uint a) = integer_of ?k ?v"
        using k u [symmetric] by (simp add: integer_of_def signed_value_def word_le_nat_alt)
      then show ?thesis using r k exact by simp
    qed
  qed
qed

subsection \<open>Text\<close>

definition register_byte :: "u8 \<Rightarrow> u16 list \<Rightarrow> nat \<Rightarrow> nat" where
  \<comment> \<open>character \<open>i\<close>: two to a register, the high byte first unless the order is BA\<close>
  "register_byte order ws i =
     (let w = unat (ws ! (i div 2)) in if even i = (order = 0) then w div 256 else w mod 256)"

definition ascii_ok :: "nat list \<Rightarrow> bool" where
  \<comment> \<open>printable characters, then only NULs\<close>
  "ascii_ok bs \<longleftrightarrow> list_all (\<lambda>b. 32 \<le> b \<and> b \<le> 126) (takeWhile (\<lambda>b. b \<noteq> 0) bs) \<and> list_all (\<lambda>b. b = 0) (dropWhile (\<lambda>b. b \<noteq> 0) bs)"

lemma ascii_byte:
  "unat (ucast (if i mod 2 = 1 then (if order \<noteq> 0 then swap16 (ws ! (i div 2)) else ws ! (i div 2))
     else drop_bit 8 (if order \<noteq> 0 then swap16 (ws ! (i div 2)) else ws ! (i div 2))) :: u8) = register_byte order ws i"
proof -
  let ?w = "ws ! (i div 2)"
  have b: "unat ?w div 256 < 256" using unat_lt_u16 [of ?w] by simp
  have "unat (swap16 ?w) mod 256 = unat ?w div 256" "unat (swap16 ?w) div 256 = unat ?w mod 256"
    using b by (simp_all add: unat_swap16)
  then show ?thesis
    using b by (cases "even i")
      (simp_all add: register_byte_def Let_def unsigned_ucast_eq take_bit_eq_mod unat_drop8 mod_2_eq_odd)
qed

lemma ascii_ok_simps [simp]:
  "ascii_ok []" "ascii_ok (b # bs) \<longleftrightarrow> (if b = 0 then list_all (\<lambda>b. b = 0) bs else 32 \<le> b \<and> b \<le> 126 \<and> ascii_ok bs)"
  by (auto simp: ascii_ok_def)

lemma ascii_chars_eq:
  "(\<And>i. i \<in> set is \<Longrightarrow> i div 2 < length ws) \<Longrightarrow>
   ascii_chars order ws ended is =
     Some (if (if ended then list_all (\<lambda>b. b = 0) (map (register_byte order ws) is) else ascii_ok (map (register_byte order ws) is))
           then Some (map (\<lambda>i. char_of (register_byte order ws i)) is) else None)"
proof (induction "is" arbitrary: ended)
  case (Cons i "is")
  define b where "b = register_byte order ws i"
  have rd: "rd ws (i div 2) = Some (ws ! (i div 2))" using Cons.prems by simp
  have "ascii_chars order ws ended (i # is) =
    (if b \<noteq> 0 \<and> (b < 32 \<or> b > 126) \<or> (ended \<or> b = 0) \<and> b \<noteq> 0 then Some None
     else case ascii_chars order ws (ended \<or> b = 0) is of None \<Rightarrow> None | Some None \<Rightarrow> Some None
          | Some (Some cs) \<Rightarrow> Some (Some (char_of b # cs)))"
    unfolding ascii_chars.simps rd option.case Let_def ascii_byte b_def ..
  then show ?case using Cons.IH [of "ended \<or> b = 0"] Cons.prems
    by (cases "b = 0"; cases ended) (auto simp: b_def [symmetric])
qed simp

lemma char_of_NUL: "b < 256 \<Longrightarrow> char_of b = NUL \<longleftrightarrow> b = (0 :: nat)"
proof -
  assume b: "b < 256"
  have "char_of b = NUL \<longleftrightarrow> of_char (char_of b) = (of_char NUL :: nat)" by (simp only: of_char_eq_iff)
  also have "\<dots> \<longleftrightarrow> b = 0" using b by (simp add: NUL_def)
  finally show ?thesis .
qed

lemma register_byte_less: "register_byte order ws i < 256"
proof -
  have "unat (ws ! (i div 2)) div 256 < 256" using unat_lt_u16 [of "ws ! (i div 2)"] by simp
  then show ?thesis by (simp add: register_byte_def Let_def)
qed

subsection \<open>Replies to well-formed maps\<close>

text \<open>A point of an accepted map, with a value whose arrays have their sizes.\<close>

definition value_shape :: "ats_value \<Rightarrow> bool" where
  "value_shape v \<longleftrightarrow> length (v_text v) = ATS_TEXT_CAPACITY \<and> length (v_raw_words v) = ATS_MAX_POINT_WORDS"

definition rejected :: "ats_value \<Rightarrow> ats_value" where
  "rejected v = v\<lparr>v_quality := ATS_QUALITY_UNVERIFIED,
     v_reason := ''Invalid/nonfinite decoded value or out-of-range state''\<rparr>"

definition accepted :: "u16 list \<Rightarrow> u64 \<Rightarrow> ats_value \<Rightarrow> ats_value" where
  "accepted ws now w = w\<lparr>v_raw_count := length ws, v_raw_words := blit (v_raw_words w) ws,
     v_quality := ATS_QUALITY_GOOD, v_reason := ''Validated custom-map value'', v_last_good := now\<rparr>"

lemma apply_cases:
  assumes "i < length (cm_defs m)" "length ws = unat (cd_word_count (cm_defs m ! i))"
  shows "custom_map_apply (Some m) i (Some ws) (length ws) now (Some v) =
    (case next_value (cm_points m ! i) (cm_defs m ! i) ws v of
       None \<Rightarrow> None
     | Some None \<Rightarrow> Some (False, Some (rejected v))
     | Some (Some w) \<Rightarrow> Some (True, Some (accepted ws now w)))"
  using assms by (simp add: custom_map_apply_def rejected_def accepted_def Let_def split: option.split)

lemma map_point_ok: "custom_map_ok m \<Longrightarrow> i < length (cm_defs m) \<Longrightarrow> point_ok (cm_defs m ! i) (cm_points m ! i)"
  unfolding custom_map_ok_def using list_all2_nthD by blast

text \<open>A text point accepts exactly the replies whose characters, in the byte order
  of the point and up to its length, are printable and then only NULs; the value then holds exactly
  those characters, terminated, and its number is untouched. A refused reply changes nothing but the
  quality.\<close>
theorem custom_ascii_exact:
  assumes "custom_map_ok m" "i < length (cm_defs m)" "cp_data_type (cm_points m ! i) = CUSTOM_ASCII"
    and "length ws = unat (cd_word_count (cm_defs m ! i))" "value_shape v"
  shows "let p = cm_points m ! i; n = unat (cp_length p); bs = map (register_byte (cp_order p) ws) [0..<n] in
    if ascii_ok bs
    then \<exists>v'. custom_map_apply (Some m) i (Some ws) (length ws) now (Some v) = Some (True, Some v') \<and>
      cstr (v_text v') = map char_of (takeWhile (\<lambda>b. b \<noteq> 0) bs) \<and> v_numeric v' = v_numeric v \<and>
      length (v_text v') = length (v_text v) \<and> v_quality v' = ATS_QUALITY_GOOD \<and> v_last_good v' = now
    else custom_map_apply (Some m) i (Some ws) (length ws) now (Some v) = Some (False, Some (rejected v))"
proof -
  let ?p = "cm_points m ! i" and ?d = "cm_defs m ! i"
  let ?n = "unat (cp_length ?p)"
  let ?bs = "map (register_byte (cp_order ?p) ws) [0..<?n]"
  have ok: "unat (cp_length ?p) \<le> 2 * ATS_MAX_POINT_WORDS" "unat (cd_word_count ?d) = (?n + 1) div 2"
    using map_point_ok [OF assms(1,2)] assms(3) unfolding point_ok_def by simp_all
  have rd: "j div 2 < length ws" if "j \<in> set [0..<?n]" for j using that ok(2) assms(4) by auto
  have eq: "ascii_chars (cp_order ?p) ws False [0..<?n] =
     Some (if ascii_ok ?bs then Some (map (\<lambda>i. char_of (register_byte (cp_order ?p) ws i)) [0..<?n]) else None)"
    using ascii_chars_eq [of "[0..<?n]" ws "cp_order ?p" False, OF rd] by simp
  show ?thesis
  proof (cases "ascii_ok ?bs")
    case True
    define cs where "cs = map (\<lambda>i. char_of (register_byte (cp_order ?p) ws i)) [0..<?n]"
    have a: "custom_map_apply (Some m) i (Some ws) (length ws) now (Some v) =
        Some (True, Some (accepted ws now (v\<lparr>v_text := blit (v_text v) (cs @ [NUL])\<rparr>)))"
      using True assms(3) by (simp add: apply_cases [OF assms(2,4)] next_value_def eq cs_def del: upt_rec_numeral)
    have tw: "takeWhile (\<lambda>c. c \<noteq> NUL) (map (\<lambda>i. char_of (register_byte (cp_order ?p) ws i)) js) =
        map char_of (takeWhile (\<lambda>b. b \<noteq> 0) (map (register_byte (cp_order ?p) ws) js))" for js
      by (induction js) (simp_all add: char_of_NUL register_byte_less)
    have "cstr (cs @ NUL # r) = cstr cs" for r by (induction cs) (simp_all add: cstr_def)
    then have "cstr (blit (v_text v) (cs @ [NUL])) = map char_of (takeWhile (\<lambda>b. b \<noteq> 0) ?bs)"
      unfolding blit_def using tw [of "[0..<?n]"] by (simp add: cstr_def cs_def)
    moreover have "length (blit (v_text v) (cs @ [NUL])) = length (v_text v)"
      using assms(5) ok(1) by (intro length_blit) (simp add: cs_def value_shape_def cdefs)
    ultimately show ?thesis using True a by (simp add: Let_def accepted_def)
  next
    case False
    then show ?thesis
      using assms(3) by (simp add: Let_def apply_cases [OF assms(2,4)] next_value_def eq)
  qed
qed

subsection \<open>Numbers\<close>

lemma scale_identity: "\<bar>k\<bar> < 2 ^ 53 \<Longrightarrow> dadd (dmul (Fin (of_int k)) (Fin 1)) (Fin 0) = Fin (of_int k)"
  by (simp add: round64_int)

lemma scaled_number_eq:
  "scaled_number p d ws =
     map_option (\<lambda>r. case r of
         None \<Rightarrow> None
       | Some raw \<Rightarrow> let n = dadd (dmul raw (cp_scale p)) (cp_offset p) in
           if is_finite n \<and> \<not> dlt FLT_MAX (dfabs n) \<and>
              (cd_object_type d = 13 \<longrightarrow> \<not> dlt n (Fin 1) \<and> \<not> dlt (dbl_of_int (int (cd_state_count d))) n \<and> deq (dfloor n) n)
           then Some n else None) (raw_number p d ws)"
  by (auto simp: scaled_number_def Let_def split: option.split)

lemma fin_not_above: "\<bar>k\<bar> < 2 ^ 53 \<Longrightarrow> \<not> dlt FLT_MAX (dfabs (Fin (of_int k)))"
proof -
  assume "\<bar>k\<bar> < 2 ^ 53"
  then have "(of_int \<bar>k\<bar> :: rat) < of_int (2 ^ 53)" by (simp only: of_int_less_iff)
  then have "\<bar>of_int k :: rat\<bar> < 2 ^ 53" by simp
  then show ?thesis by (simp add: FLT_MAX_def)
qed

lemma states_small:
  assumes "custom_map_ok m" "i < length (cm_defs m)"
  shows "cd_state_count (cm_defs m ! i) \<le> CUSTOM_MAX_STATES"
proof -
  have "def_ok m (cm_defs m ! i)" using assms by (simp add: custom_map_ok_def list_all_length)
  then show ?thesis by (auto simp: def_ok_def states_ok_def split: option.splits)
qed

text \<open>C38 (custom_integer_points): an unscaled integer point shows exactly the signed or unsigned integer
  its registers spell in the point's byte order (AB, BA, ABCD, BADC, CDAB or DCBA); a multi-state point
  refuses a number outside its states, and a refused reply changes nothing but the quality.\<close>
theorem custom_integer_points:
  assumes "custom_map_ok m" "i < length (cm_defs m)" "cp_data_type (cm_points m ! i) \<le> CUSTOM_S32"
    and "cp_scale (cm_points m ! i) = Fin 1" "cp_offset (cm_points m ! i) = Fin 0"
    and "length ws = unat (cd_word_count (cm_defs m ! i))"
  shows "let p = cm_points m ! i; d = cm_defs m ! i;
             k = integer_of (cp_data_type p) (be_value (ordered (cp_order p) (wire_bytes ws)))
    in custom_map_apply (Some m) i (Some ws) (length ws) now (Some v) =
       (if cd_object_type d = 13 \<and> \<not> (1 \<le> k \<and> k \<le> int (cd_state_count d)) then Some (False, Some (rejected v))
        else Some (True, Some (accepted ws now (v\<lparr>v_numeric := Fin (of_int k)\<rparr>))))"
proof -
  let ?p = "cm_points m ! i" and ?d = "cm_defs m ! i"
  let ?v = "be_value (ordered (cp_order ?p) (wire_bytes ws))"
  define k where "k = integer_of (cp_data_type ?p) ?v"
  note ok = map_point_ok [OF assms(1,2)]
  have na: "cp_data_type ?p \<noteq> CUSTOM_ASCII" using assms(3) by (auto simp: data_type_order)
  have b: "\<bar>k\<bar> < 2 ^ 53"
    unfolding k_def
  proof (rule integer_of_small [OF assms(3)])
    have "unat (cd_word_count ?d) = (if wide (cp_data_type ?p) then 2 else 1)" using ok na by (simp add: point_ok_def)
    then show "?v < (if wide (cp_data_type ?p) then 2 ^ 32 else 2 ^ 16)"
      using be_value_bound [of "ordered (cp_order ?p) (wire_bytes ws)"] assms(6) by (simp split: if_splits)
  qed
  have cnt: "dbl_of_int (int (cd_state_count ?d)) = Fin (of_int (int (cd_state_count ?d)))"
    using states_small [OF assms(1,2)] by (intro dbl_of_int_exact) (simp add: CUSTOM_MAX_STATES_def)
  have cmp: "\<not> dlt (Fin (of_int k)) (Fin 1) \<longleftrightarrow> 1 \<le> k"
    "\<not> dlt (Fin (of_int (int (cd_state_count ?d)))) (Fin (of_int k)) \<longleftrightarrow> k \<le> int (cd_state_count ?d)"
    "deq (dfloor (Fin (of_int k))) (Fin (of_int k))"
    by (simp_all only: dlt.simps not_less of_int_le_iff of_int_1_le_iff dfloor.simps floor_of_int deq.simps)
  have raw: "raw_number ?p ?d ws = Some (Some (Fin (of_int k)))"
    unfolding k_def by (rule raw_number_integer [OF ok assms(6,3)])
  have s: "scaled_number ?p ?d ws =
    Some (if cd_object_type ?d = 13 \<and> \<not> (1 \<le> k \<and> k \<le> int (cd_state_count ?d)) then None else Some (Fin (of_int k)))"
    unfolding scaled_number_eq raw option.map option.case Let_def assms(4,5) scale_identity [OF b] cnt
    using cmp fin_not_above [OF b] by (simp del: dlt.simps deq.simps dfloor.simps dfabs.simps)
  show ?thesis
    unfolding Let_def k_def [symmetric] apply_cases [OF assms(2,6)]
    using na by (simp add: next_value_def s)
qed

lemma next_value_contract:
  assumes "custom_map_ok m" "i < length (cm_defs m)" "length ws = unat (cd_word_count (cm_defs m ! i))" "value_shape v"
  shows "\<exists>r. next_value (cm_points m ! i) (cm_defs m ! i) ws v = Some r \<and>
    (\<forall>w. r = Some w \<longrightarrow> value_shape w \<and>
       (cp_data_type (cm_points m ! i) = CUSTOM_ASCII \<and> v_numeric w = v_numeric v \<or>
        (\<exists>q. v_numeric w = Fin q \<and> \<not> dlt FLT_MAX (Fin \<bar>q\<bar>) \<and> v_text w = v_text v \<and>
          (cd_object_type (cm_defs m ! i) = 13 \<longrightarrow> (\<exists>k. q = of_nat k \<and> 1 \<le> k \<and> k \<le> cd_state_count (cm_defs m ! i))))))"
proof (cases "cp_data_type (cm_points m ! i) = CUSTOM_ASCII")
  let ?p = "cm_points m ! i" and ?d = "cm_defs m ! i"
  note ok = map_point_ok [OF assms(1,2)]
  case True
  then have n: "unat (cd_word_count ?d) = (unat (cp_length ?p) + 1) div 2" "unat (cp_length ?p) \<le> 2 * ATS_MAX_POINT_WORDS"
    using ok unfolding point_ok_def by simp_all
  have rd: "j div 2 < length ws" if "j \<in> set [0..<unat (cp_length ?p)]" for j using that n assms(3) by auto
  have "length (map (\<lambda>i. char_of (register_byte (cp_order ?p) ws i) :: char) [0..<unat (cp_length ?p)] @ [NUL]) \<le> ATS_TEXT_CAPACITY"
    using n(2) by (simp add: cdefs)
  then show ?thesis
    using True assms(4) ascii_chars_eq [of "[0..<unat (cp_length ?p)]" ws "cp_order ?p" False, OF rd]
    by (simp add: next_value_def value_shape_def)
next
  let ?p = "cm_points m ! i" and ?d = "cm_defs m ! i"
  note ok = map_point_ok [OF assms(1,2)]
  case False
  have lens: "0 < length ws" "cd_word_count ?d = 2 \<longrightarrow> 1 < length ws"
    using ok False assms(3) by (auto simp: point_ok_def split: if_splits)
  then have "\<exists>r. raw_number ?p ?d ws = Some r"
    by (cases "cd_word_count ?d = 2") (simp_all add: raw_number_def Let_def)
  then obtain o1 where o1: "scaled_number ?p ?d ws = Some o1" by (auto simp: scaled_number_eq)
  have cnt: "dbl_of_int (int (cd_state_count ?d)) = Fin (of_int (int (cd_state_count ?d)))"
    using states_small [OF assms(1,2)] by (intro dbl_of_int_exact) (simp add: CUSTOM_MAX_STATES_def)
  have num: "\<exists>q. n = Fin q \<and> \<not> dlt FLT_MAX (Fin \<bar>q\<bar>) \<and>
      (cd_object_type ?d = 13 \<longrightarrow> (\<exists>k. q = of_nat k \<and> 1 \<le> k \<and> k \<le> cd_state_count ?d))" if n: "o1 = Some n" for n
  proof -
    have c: "is_finite n" "\<not> dlt FLT_MAX (dfabs n)"
      "cd_object_type ?d = 13 \<longrightarrow> \<not> dlt n (Fin 1) \<and> \<not> dlt (dbl_of_int (int (cd_state_count ?d))) n \<and> deq (dfloor n) n"
      using o1 n by (auto simp: scaled_number_eq Let_def split: option.splits if_splits)
    then obtain q where q: "n = Fin q" by (cases n) simp_all
    have "\<exists>k. q = of_nat k \<and> 1 \<le> k \<and> k \<le> cd_state_count ?d" if "cd_object_type ?d = 13"
    proof -
      have b: "1 \<le> q" "q \<le> of_nat (cd_state_count ?d)" "of_int \<lfloor>q\<rfloor> = q"
        using c(3) that unfolding q cnt by (simp_all add: not_less)
      then have "0 \<le> \<lfloor>q\<rfloor>" by (simp add: zero_le_floor)
      then have e: "q = of_nat (nat \<lfloor>q\<rfloor>)" using b(3) by (metis of_int_of_nat_eq nat_0_le)
      with b(1,2) have "1 \<le> nat \<lfloor>q\<rfloor>" "nat \<lfloor>q\<rfloor> \<le> cd_state_count ?d"
        by (metis of_nat_1 of_nat_le_iff)+
      with e show ?thesis by blast
    qed
    then show ?thesis using q c(2) by simp
  qed
  show ?thesis
  proof (cases o1)
    case (Some n)
    then show ?thesis using num [OF Some] False o1 assms(4) by (simp add: next_value_def value_shape_def)
  qed (use False o1 in \<open>simp add: next_value_def\<close>)
qed

lemma point_words_bound:
  "custom_map_ok m \<Longrightarrow> i < length (cm_defs m) \<Longrightarrow> unat (cd_word_count (cm_defs m ! i)) \<le> ATS_MAX_POINT_WORDS"
  using map_point_ok [of m i] unfolding point_ok_def by (auto simp: cdefs split: if_splits)

lemma accepted_shape: "value_shape w \<Longrightarrow> length ws \<le> ATS_MAX_POINT_WORDS \<Longrightarrow> value_shape (accepted ws now w)"
  by (simp add: value_shape_def accepted_def)

lemma rejected_shape: "value_shape v \<Longrightarrow> value_shape (rejected v)"
  by (simp add: value_shape_def rejected_def)

text \<open>C39 (custom_apply_sound): whatever a device answers, applying a reply of the right length to a point
  of an accepted map reads no register that is not there and keeps the arrays of the value at their
  sizes. A refused reply changes nothing but the quality; an accepted one is good, dated and keeps the
  raw registers, and its number is finite, at most \<open>FLT_MAX\<close> in size, and for a multi-state point the
  number of one of its states.\<close>
theorem custom_apply_sound:
  assumes "custom_map_ok m" "i < length (cm_defs m)" "length ws = unat (cd_word_count (cm_defs m ! i))" "value_shape v"
  shows "\<exists>ok v'. custom_map_apply (Some m) i (Some ws) (length ws) now (Some v) = Some (ok, Some v') \<and> value_shape v' \<and>
    (if ok then v_quality v' = ATS_QUALITY_GOOD \<and> v_last_good v' = now \<and> take (length ws) (v_raw_words v') = ws \<and>
       (cp_data_type (cm_points m ! i) = CUSTOM_ASCII \<and> v_numeric v' = v_numeric v \<or>
        (\<exists>q. v_numeric v' = Fin q \<and> \<not> dlt FLT_MAX (Fin \<bar>q\<bar>) \<and> v_text v' = v_text v \<and>
          (cd_object_type (cm_defs m ! i) = 13 \<longrightarrow> (\<exists>k. q = of_nat k \<and> 1 \<le> k \<and> k \<le> cd_state_count (cm_defs m ! i)))))
     else v' = rejected v)"
proof -
  obtain r where r: "next_value (cm_points m ! i) (cm_defs m ! i) ws v = Some r"
    and c: "\<And>w. r = Some w \<Longrightarrow> value_shape w \<and>
       (cp_data_type (cm_points m ! i) = CUSTOM_ASCII \<and> v_numeric w = v_numeric v \<or>
        (\<exists>q. v_numeric w = Fin q \<and> \<not> dlt FLT_MAX (Fin \<bar>q\<bar>) \<and> v_text w = v_text v \<and>
          (cd_object_type (cm_defs m ! i) = 13 \<longrightarrow> (\<exists>k. q = of_nat k \<and> 1 \<le> k \<and> k \<le> cd_state_count (cm_defs m ! i)))))"
    using next_value_contract [OF assms] by blast
  note eq = apply_cases [OF assms(2,3), of now v, unfolded r option.case]
  show ?thesis
  proof (cases r)
    case None
    then show ?thesis using rejected_shape [OF assms(4)]
      by (intro exI [of _ False] exI [of _ "rejected v"]) (simp add: eq)
  next
    case (Some w)
    have "value_shape (accepted ws now w)"
      using accepted_shape [of w ws now] c [OF Some] point_words_bound [OF assms(1,2)] assms(3) by simp
    then show ?thesis using Some c [OF Some]
      by (intro exI [of _ True] exI [of _ "accepted ws now w"]) (simp add: eq, simp add: accepted_def)
  qed
qed

subsection \<open>Two points applied\<close>

definition sample_map :: custom_map where
  \<comment> \<open>a signed 32-bit analog in byte order DCBA and a three-character text in byte order BA\<close>
  "sample_map = \<lparr>cm_self = 1,
     cm_defs = [\<lparr>cd_object_type = 0, cd_instance = 5, cd_name = (1, 0), cd_description = (1, 2), cd_units = 95,
         cd_state_count = 0, cd_state_text = None, cd_offset = 10, cd_word_count = 2, cd_bit_lsb = 0, cd_bit_width = 0\<rparr>,
       \<lparr>cd_object_type = 40, cd_instance = 5, cd_name = (1, 3), cd_description = (1, 2), cd_units = 95,
         cd_state_count = 0, cd_state_text = None, cd_offset = 20, cd_word_count = 2, cd_bit_lsb = 0, cd_bit_width = 0\<rparr>],
     cm_points = [\<lparr>cp_data_type = CUSTOM_S32, cp_function = 3, cp_order = 3, cp_length = 0, cp_poll_ms = 1000,
         cp_scale = Fin 1, cp_offset = Fin 0\<rparr>,
       \<lparr>cp_data_type = CUSTOM_ASCII, cp_function = 4, cp_order = 1, cp_length = 3, cp_poll_ms = 60000,
         cp_scale = Fin 1, cp_offset = Fin 0\<rparr>],
     cm_strings = [CHR ''P'', NUL, NUL, CHR ''T'', NUL], cm_states = []\<rparr>"

lemma sample_strings:
  "str_at sample_map (1, 0) = ''P''" "str_at sample_map (1, 2) = []" "str_at sample_map (1, 3) = ''T''"
  "ptr_ok sample_map (1, 0)" "ptr_ok sample_map (1, 2)" "ptr_ok sample_map (1, 3)" "arena_ok sample_map"
  by (simp_all add: str_at_def ptr_ok_def arena_ok_def sample_map_def cstr_def NUL_def CUSTOM_MAX_CSV_BYTES_def)

lemma sample_map_ok: "custom_map_ok sample_map"
proof -
  have p: "point_ok (cm_defs sample_map ! 0) (cm_points sample_map ! 0)" "point_ok (cm_defs sample_map ! 1) (cm_points sample_map ! 1)"
    by (simp_all add: point_ok_def sample_map_def wide_def data_type_order cdefs word_le_nat_alt)
  then have p: "list_all2 point_ok (cm_defs sample_map) (cm_points sample_map)" by (simp add: sample_map_def)
  have "def_ok sample_map (cm_defs sample_map ! 0)" "def_ok sample_map (cm_defs sample_map ! 1)"
    using sample_strings unfolding def_ok_def
    by (simp_all add: sample_map_def [THEN arg_cong [where f = cm_defs]] name_ok_def)
  then have d: "list_all (def_ok sample_map) (cm_defs sample_map)"
    by (simp add: sample_map_def [THEN arg_cong [where f = cm_defs]])
  have "length (cm_points sample_map) = length (cm_defs sample_map)" "length (cm_defs sample_map) \<le> CUSTOM_MAX_POINTS"
    "distinct (map (\<lambda>d. (cd_object_type d, cd_instance d)) (cm_defs sample_map))"
    by (simp_all add: sample_map_def CUSTOM_MAX_POINTS_def)
  moreover have "distinct (map (\<lambda>d. str_at sample_map (cd_name d)) (cm_defs sample_map))"
    using sample_strings by (simp add: sample_map_def [THEN arg_cong [where f = cm_defs]])
  ultimately show ?thesis using p d sample_strings(7) unfolding custom_map_ok_def by blast
qed

lemma sample_simps:
  "length (cm_defs sample_map) = 2" "cp_data_type (cm_points sample_map ! 0) = CUSTOM_S32"
  "cp_scale (cm_points sample_map ! 0) = Fin 1" "cp_offset (cm_points sample_map ! 0) = Fin 0"
  "cd_word_count (cm_defs sample_map ! 0) = 2" "cp_order (cm_points sample_map ! 0) = 3"
  "cd_object_type (cm_defs sample_map ! 0) = 0" "cp_data_type (cm_points sample_map ! Suc 0) = CUSTOM_ASCII"
  "cd_word_count (cm_defs sample_map ! Suc 0) = 2" "cp_length (cm_points sample_map ! Suc 0) = 3"
  "cp_order (cm_points sample_map ! Suc 0) = 1" "value_shape ats_value_zero"
  by (simp_all add: sample_map_def value_shape_def ats_value_zero_def)

lemma custom_integer_points_witness:
  "custom_map_apply (Some sample_map) 0 (Some [0xFEFF, 0xFFFF]) 2 9 (Some ats_value_zero) =
     Some (True, Some (accepted [0xFEFF, 0xFFFF] 9 (ats_value_zero\<lparr>v_numeric := Fin (- 2)\<rparr>)))"
  using custom_integer_points [OF sample_map_ok, of 0 "[0xFEFF, 0xFFFF]" 9 ats_value_zero]
  by (simp add: sample_simps Let_def wire_bytes_def write_be16_def ordered_def be_value_def integer_of_def signed_value_def
      numeral_2_eq_2 [symmetric])

lemma custom_ascii_exact_witness:
  "\<exists>v'. custom_map_apply (Some sample_map) (Suc 0) (Some [0x4241, 0x0043]) 2 9 (Some ats_value_zero) = Some (True, Some v') \<and>
     cstr (v_text v') = ''ABC''"
  using custom_ascii_exact [OF sample_map_ok, of "Suc 0" "[0x4241, 0x0043]" ats_value_zero 9]
  by (auto simp: sample_simps Let_def register_byte_def upt_rec numeral_2_eq_2 [symmetric] char_of_def bit_0)

lemma custom_apply_sound_witness:
  "\<exists>ok v'. custom_map_apply (Some sample_map) 0 (Some [1, 2]) 2 9 (Some ats_value_zero) = Some (ok, Some v') \<and> value_shape v'"
  using custom_apply_sound [OF sample_map_ok, of 0 "[1, 2]" ats_value_zero 9]
  by (auto simp: sample_simps numeral_2_eq_2 [symmetric])

end
