(* ===== verification/Custom_Poll.thy ===== *)
theory Custom_Poll
  imports Custom_Apply Poll_Schedule
begin

section \<open>The custom map poller (main/custom_map.c)\<close>

text \<open>
  The poller of an uploaded map: one read at a time, the point that has been due longest first, a gap
  after each, and a backoff after failures. The read itself (\<open>mb_read_points\<close>) is a parameter that
  returns the result record and the buffer of registers. A snapshot marks stale points.
\<close>

subsection \<open>State\<close>

record custom_poll =
  cs_values :: "ats_value list"   \<comment> \<open>the array \<open>values[128]\<close>\<close>
  cs_next_due :: "u64 list"
  cs_acquired :: "bool list"
  cs_next_request :: u64
  cs_last_success :: u64
  cs_requests :: u32
  cs_successes :: u32
  cs_failures :: u32
  cs_consecutive_failures :: u32
  cs_transaction_id :: u16
  cs_last_offset :: u16
  cs_last_quantity :: u16
  cs_last_function :: u8
  cs_last_result :: mb_result

text \<open>A read: host, port, unit, function, offset, quantity, transaction, deadline.\<close>

type_synonym point_reader =
  "string \<Rightarrow> u16 \<Rightarrow> u8 \<Rightarrow> u8 \<Rightarrow> u16 \<Rightarrow> u16 \<Rightarrow> u16 \<Rightarrow> nat \<Rightarrow> mb_result \<times> u16 list"

definition custom_count :: "custom_map \<Rightarrow> nat" where
  "custom_count m = length (cm_defs m)"

definition custom_poll_init :: "custom_map \<Rightarrow> custom_poll" where
  "custom_poll_init m = \<lparr>cs_values = map (\<lambda>i. if i < custom_count m
         then ats_value_zero\<lparr>v_numeric := NaN, v_quality := ATS_QUALITY_COMM, v_reason := ''Not acquired''\<rparr>
         else ats_value_zero) [0..<CUSTOM_MAX_POINTS],
     cs_next_due = replicate CUSTOM_MAX_POINTS 0, cs_acquired = replicate CUSTOM_MAX_POINTS False,
     cs_next_request = 0, cs_last_success = 0, cs_requests = 0, cs_successes = 0, cs_failures = 0,
     cs_consecutive_failures = 0, cs_transaction_id = 0, cs_last_offset = 0, cs_last_quantity = 0,
     cs_last_function = 0, cs_last_result = reset_result\<rparr>"

definition mark :: "string \<Rightarrow> nat \<Rightarrow> custom_poll \<Rightarrow> custom_poll" where
  \<comment> \<open>a point becomes a communication failure\<close>
  "mark why i s = s\<lparr>cs_values := (cs_values s)[i := (cs_values s ! i)\<lparr>v_quality := ATS_QUALITY_COMM, v_reason := why\<rparr>]\<rparr>"

definition custom_poll_offline :: "custom_poll \<Rightarrow> custom_map \<Rightarrow> u64 \<Rightarrow> custom_poll" where
  "custom_poll_offline s m now = fold (mark ''Network unavailable or transport failed'') [0..<custom_count m] s"

subsection \<open>Freshness\<close>

definition custom_map_stale_ms :: "custom_map option \<Rightarrow> nat \<Rightarrow> u64" where
  "custom_map_stale_ms target index =
     (case target of
        None \<Rightarrow> 0
      | Some m \<Rightarrow>
          if index \<ge> custom_count m then 0
          else let stale = ucast (cp_poll_ms (cm_points m ! index)) * 3;
                   sweep = of_nat (custom_count m) * 3 * 250 + 1200;
                   stale = (if stale < sweep then sweep else stale)
               in if stale < 5000 then 5000 else stale)"

definition custom_poll_snapshot :: "custom_poll \<Rightarrow> custom_map \<Rightarrow> u64 \<Rightarrow> ats_value list" where
  "custom_poll_snapshot s m now =
     map (\<lambda>i. let v = cs_values s ! i; stale = custom_map_stale_ms (Some m) i in
            if cs_acquired s ! i \<and> now \<ge> v_last_good v \<and> now - v_last_good v > stale
            then v\<lparr>v_quality := ATS_QUALITY_COMM, v_reason := ''Custom point is stale''\<rparr> else v) [0..<custom_count m]"

subsection \<open>One step\<close>

text \<open>The value of the point after a reply; \<open>custom_apply_sound\<close> shows that the third branch is never
  taken for an accepted map and a buffer of \<open>MB_MAX_REGISTERS\<close> words.\<close>

definition apply_reply :: "custom_map \<Rightarrow> nat \<Rightarrow> u16 list \<Rightarrow> u64 \<Rightarrow> ats_value \<Rightarrow> bool \<times> ats_value" where
  "apply_reply m i words completed v =
     (case custom_map_apply (Some m) i (Some words) (unat (cd_word_count (cm_defs m ! i))) completed (Some v) of
        Some (ok, Some v') \<Rightarrow> (ok, v')
      | Some (ok, None) \<Rightarrow> (ok, v)
      | None \<Rightarrow> (False, v))"

definition custom_success :: "custom_map \<Rightarrow> nat \<Rightarrow> u16 list \<Rightarrow> u64 \<Rightarrow> custom_poll \<Rightarrow> custom_poll" where
  "custom_success m i words completed s =
     (let (ok, v) = apply_reply m i words completed (cs_values s ! i) in
      s\<lparr>cs_consecutive_failures := 0, cs_successes := cs_successes s + 1, cs_last_success := completed,
        cs_values := (cs_values s)[i := v],
        cs_acquired := (if ok then (cs_acquired s)[i := True] else cs_acquired s),
        cs_next_due := (cs_next_due s)[i := completed + ucast (cp_poll_ms (cm_points m ! i))]\<rparr>)"

definition count_miss :: "custom_poll \<Rightarrow> custom_poll" where
  "count_miss s = s\<lparr>cs_failures := cs_failures s + 1,
     cs_consecutive_failures := (if cs_consecutive_failures s < - 1 then cs_consecutive_failures s + 1
                                 else cs_consecutive_failures s)\<rparr>"

definition custom_failure :: "custom_map \<Rightarrow> nat \<Rightarrow> u64 \<Rightarrow> custom_poll \<Rightarrow> custom_poll" where
  "custom_failure m i completed s =
     (let s = mark ''Modbus read failed'' i (count_miss s);
          poll = cp_poll_ms (cm_points m ! i);
          s = s\<lparr>cs_next_due := (cs_next_due s)[i := completed + ucast (if poll > 5000 then poll else 5000)]\<rparr>;
          s = (if exception_code (cs_last_result s) = 0 then custom_poll_offline s m completed else s);
          wait = (if cs_consecutive_failures s < 6 then cs_consecutive_failures s * 5000 else 30000)
      in s\<lparr>cs_next_request := completed + ucast wait\<rparr>)"

definition custom_issue :: "custom_map \<Rightarrow> nat \<Rightarrow> custom_poll \<Rightarrow> custom_poll" where
  "custom_issue m i s = s\<lparr>cs_last_offset := cd_offset (cm_defs m ! i), cs_last_quantity := ucast (cd_word_count (cm_defs m ! i)),
     cs_last_function := cp_function (cm_points m ! i), cs_requests := cs_requests s + 1,
     cs_transaction_id := cs_transaction_id s + 1\<rparr>"

definition custom_reply :: "custom_map \<Rightarrow> nat \<Rightarrow> mb_result \<Rightarrow> u16 list \<Rightarrow> u64 \<Rightarrow> custom_poll \<Rightarrow> custom_poll" where
  "custom_reply m i result words now s =
     (let completed = now + ucast (elapsed_ms result);
          s = s\<lparr>cs_last_result := result, cs_next_request := completed + 250\<rparr>
      in if error result = MB_OK then custom_success m i words completed s
         else custom_failure m i completed s)"

definition custom_step ::
    "point_reader \<Rightarrow> string \<Rightarrow> u16 \<Rightarrow> u8 \<Rightarrow> custom_map \<Rightarrow> u64 \<Rightarrow> custom_poll \<Rightarrow> bool \<times> custom_poll" where
  "custom_step read host port unit m now s =
     (if now < cs_next_request s then (False, s)
      else case earliest_due (cs_next_due s) (custom_count m) now of
        None \<Rightarrow> (False, s)
      | Some i \<Rightarrow>
          (let s = custom_issue m i s;
               (result, words) = read host port unit (cs_last_function s) (cs_last_offset s) (cs_last_quantity s)
                                   (cs_transaction_id s) 1200
           in (True, custom_reply m i result words now s)))"

text \<open>The exported function rejects NULL pointers.\<close>

definition custom_poll_step ::
    "point_reader \<Rightarrow> custom_poll option \<Rightarrow> custom_map option \<Rightarrow> string \<Rightarrow> u16 \<Rightarrow> u8 \<Rightarrow> u64 \<Rightarrow> bool \<times> custom_poll option" where
  "custom_poll_step read s target host port unit now =
     (case (s, target) of
        (Some s, Some m) \<Rightarrow> map_prod id Some (custom_step read host port unit m now s)
      | _ \<Rightarrow> (False, s))"

section \<open>Lemmas\<close>

subsection \<open>Frames\<close>

lemma mark_simps [simp]:
  "cs_next_due (mark w i s) = cs_next_due s" "cs_acquired (mark w i s) = cs_acquired s"
  "cs_next_request (mark w i s) = cs_next_request s" "cs_last_result (mark w i s) = cs_last_result s"
  "cs_consecutive_failures (mark w i s) = cs_consecutive_failures s" "length (cs_values (mark w i s)) = length (cs_values s)"
  "cs_last_function (mark w i s) = cs_last_function s" "cs_last_offset (mark w i s) = cs_last_offset s"
  "cs_last_quantity (mark w i s) = cs_last_quantity s"
  by (simp_all add: mark_def)

definition poll_frame :: "custom_poll \<Rightarrow> u64 list \<times> bool list \<times> u64 \<times> mb_result \<times> u32 \<times> u8 \<times> u16 \<times> u16 \<times> (dbl \<times> string \<times> u64 \<times> u16 list) list" where
  \<comment> \<open>what faulting a point leaves alone, the last samples included\<close>
  "poll_frame s = (cs_next_due s, cs_acquired s, cs_next_request s, cs_last_result s, cs_consecutive_failures s,
     cs_last_function s, cs_last_offset s, cs_last_quantity s,
     map (\<lambda>v. (v_numeric v, v_text v, v_last_good v, v_raw_words v)) (cs_values s))"

definition comm :: "custom_poll \<Rightarrow> nat \<Rightarrow> bool" where
  "comm s i \<longleftrightarrow> v_quality (cs_values s ! i) = ATS_QUALITY_COMM"

text \<open>The loop of \<open>custom_poll_offline\<close> is a fault loop over the points of the map.\<close>

interpretation custom_faults: fault_loop_keeps "mark w" comm "\<lambda>s i. i < length (cs_values s)" n poll_frame for w n
proof unfold_locales
  fix i :: nat and s
  show "poll_frame (mark w i s) = poll_frame s"
    by (cases "i < length (cs_values s)")
      (auto simp: poll_frame_def mark_def map_update list_update_beyond intro: list_update_same_conv [THEN iffD2])
next
  fix i j :: nat and s
  assume "comm s j"
  then show "comm (mark w i s) j"
    by (cases "i < length (cs_values s)") (auto simp: comm_def mark_def nth_list_update list_update_beyond)
qed (simp_all add: comm_def mark_def)

lemma custom_offline_frame [simp]: "poll_frame (custom_poll_offline s m now) = poll_frame s"
  unfolding custom_poll_offline_def by (rule custom_faults.kept_all)

lemma custom_offline_simps [simp]:
  "cs_next_due (custom_poll_offline s m now) = cs_next_due s" "cs_acquired (custom_poll_offline s m now) = cs_acquired s"
  "cs_next_request (custom_poll_offline s m now) = cs_next_request s"
  "cs_last_result (custom_poll_offline s m now) = cs_last_result s"
  "cs_consecutive_failures (custom_poll_offline s m now) = cs_consecutive_failures s"
  "cs_last_function (custom_poll_offline s m now) = cs_last_function s"
  "cs_last_offset (custom_poll_offline s m now) = cs_last_offset s"
  "cs_last_quantity (custom_poll_offline s m now) = cs_last_quantity s"
  using custom_offline_frame [of s m now] unfolding poll_frame_def by blast+

lemma custom_offline_values: "length (cs_values (custom_poll_offline s m now)) = length (cs_values s)"
  using custom_offline_frame [of s m now] map_eq_imp_length_eq unfolding poll_frame_def by blast

subsection \<open>Idle and busy steps\<close>

definition point_reply :: "mb_result \<Rightarrow> u16 list \<Rightarrow> point_reader" where
  "point_reply r ws = (\<lambda>_ _ _ _ _ _ _ _. (r, ws))"

lemma custom_step_idle: "\<not> fst (custom_step read host port unit m now s) \<Longrightarrow> snd (custom_step read host port unit m now s) = s"
  by (auto simp: custom_step_def Let_def split: option.splits if_splits prod.splits)

lemma custom_step_waits: "fst (custom_step read host port unit m now s) \<Longrightarrow> cs_next_request s \<le> now"
  by (auto simp: custom_step_def not_less split: if_splits)

lemma issue_frame [simp]:
  "cs_next_due (custom_issue m i s) = cs_next_due s" "cs_acquired (custom_issue m i s) = cs_acquired s"
  "cs_last_function (custom_issue m i s) = cp_function (cm_points m ! i)"
  "cs_last_offset (custom_issue m i s) = cd_offset (cm_defs m ! i)"
  "cs_last_quantity (custom_issue m i s) = ucast (cd_word_count (cm_defs m ! i))"
  "cs_transaction_id (custom_issue m i s) = cs_transaction_id s + 1"
  "cs_values (custom_issue m i s) = cs_values s" "cs_consecutive_failures (custom_issue m i s) = cs_consecutive_failures s"
  by (simp_all add: custom_issue_def)

lemma custom_step_busy:
  assumes "custom_step read host port unit m now s = (True, s')"
  obtains i r ws where "cs_next_request s \<le> now" "earliest_due (cs_next_due s) (custom_count m) now = Some i"
    "i < custom_count m" "s' = custom_reply m i r ws now (custom_issue m i s)"
    "(r, ws) = read host port unit (cp_function (cm_points m ! i)) (cd_offset (cm_defs m ! i))
       (ucast (cd_word_count (cm_defs m ! i))) (cs_transaction_id s + 1) 1200"
proof -
  from assms obtain i where i: "cs_next_request s \<le> now" "earliest_due (cs_next_due s) (custom_count m) now = Some i"
    by (auto simp: custom_step_def not_less Let_def split: if_splits option.splits)
  obtain r ws where rw: "read host port unit (cp_function (cm_points m ! i)) (cd_offset (cm_defs m ! i))
       (ucast (cd_word_count (cm_defs m ! i))) (cs_transaction_id s + 1) 1200 = (r, ws)"
    by fastforce
  have "s' = custom_reply m i r ws now (custom_issue m i s)"
    using assms i(2) rw by (simp add: custom_step_def Let_def leD [OF i(1)])
  then show thesis using that [of i r ws] i rw earliest_due_Some(1) by metis
qed

lemma miss_frame [simp]:
  "cs_next_due (count_miss s) = cs_next_due s" "cs_acquired (count_miss s) = cs_acquired s"
  "cs_values (count_miss s) = cs_values s" "cs_last_result (count_miss s) = cs_last_result s"
  "cs_last_function (count_miss s) = cs_last_function s" "cs_last_offset (count_miss s) = cs_last_offset s"
  "cs_last_quantity (count_miss s) = cs_last_quantity s"
  by (simp_all add: count_miss_def)

lemma miss_count: "cs_consecutive_failures (count_miss s) \<noteq> 0"
proof (cases "cs_consecutive_failures s < - 1")
  case True
  then have "unat (cs_consecutive_failures s) + 1 < 2 ^ 32"
    by (simp add: word_less_nat_alt unsigned_minus_1_eq_mask mask_eq_exp_minus_1)
  then have "unat (cs_consecutive_failures s + 1) = unat (cs_consecutive_failures s) + 1"
    by (simp add: unat_add_small)
  then show ?thesis using True by (auto simp: count_miss_def)
next
  case False
  then have "cs_consecutive_failures s = - 1" by (metis word_order.not_eq_extremum)
  then show ?thesis by (simp add: count_miss_def)
qed

lemma failure_next_request:
  "cs_next_request (custom_failure m i t s) =
     t + ucast (if cs_consecutive_failures (count_miss s) < 6 then cs_consecutive_failures (count_miss s) * 5000 else 30000)"
  by (simp add: custom_failure_def Let_def)

lemma custom_reply_gap:
  assumes "unat now < 2 ^ 63"
  shows "unat now + 250 \<le> unat (cs_next_request (custom_reply m i r ws now s))"
proof -
  let ?t = "now + ucast (elapsed_ms r)"
  note t = completed_unat [OF assms, of "elapsed_ms r"]
  show ?thesis
  proof (cases "error r = MB_OK")
    case True
    have "unat (?t + of_nat 250) = unat ?t + 250" by (rule add_small [OF t(2)]) simp
    then show ?thesis using True t(1)
      by (simp add: custom_reply_def custom_success_def Let_def split: prod.split)
  next
    case False
    obtain s1 where s1: "custom_reply m i r ws now s = custom_failure m i ?t s1"
      using False by (auto simp: custom_reply_def Let_def)
    show ?thesis
      using backoff_min [OF miss_count [of s1]] t(1)
      unfolding s1 failure_next_request add_backoff [OF t(2)] by simp
  qed
qed

interpretation custom_poller: poll_machine "\<lambda>(read, host, port, unit, m) now s. custom_step read host port unit m now s"
  cs_next_request 250
proof unfold_locales
  fix e :: "point_reader \<times> string \<times> u16 \<times> u8 \<times> custom_map" and now s
  assume *: "fst ((\<lambda>(read, host, port, unit, m) now s. custom_step read host port unit m now s) e now s)" "unat now < 2 ^ 63"
  obtain read host port unit m where e: "e = (read, host, port, unit, m)" by (rule prod_cases5)
  then obtain s' where s': "custom_step read host port unit m now s = (True, s')"
    using *(1) by (cases "custom_step read host port unit m now s") simp
  show "unat now + 250 \<le> unat (cs_next_request (snd ((\<lambda>(read, host, port, unit, m) now s. custom_step read host port unit m now s) e now s)))"
    unfolding e case_prod_conv s' snd_conv by (rule custom_step_busy [OF s']) (simp add: custom_reply_gap [OF *(2)])
qed (auto simp: custom_step_idle dest: custom_step_waits)

text \<open>Whatever the devices answer and whenever the step is called, even with
  another map or another device each time, the requests of any run of the custom poller are at least
  250 ms apart.\<close>
theorem custom_request_spacing:
  assumes "\<forall>x \<in> set run. unat (snd x) < 2 ^ 63"
    "request_times (\<lambda>(read, host, port, unit, m) now s. custom_step read host port unit m now s) run s = t # ts"
  shows "sorted_wrt (\<lambda>t u. unat t + 250 \<le> unat u) (t # ts) \<and> unat t + 250 * length ts \<le> unat (last (t # ts))"
  using custom_poller.requests_spaced [OF assms(1), of s] custom_poller.request_rate [OF assms] assms(2) by simp

text \<open>Every request the poller of an accepted map issues is a read of
  function 1 to 4, of one to ten registers or bits that end at or before address 65535, within the
  limit of 50 of the Modbus layer, at the address and unit of the point that has been due longest.\<close>
theorem custom_requests_read_only:
  assumes "custom_map_ok m" "custom_step read host port unit m now s = (True, s')"
  shows "cs_last_function s' \<in> {1, 2, 3, 4} \<and> 1 \<le> unat (cs_last_quantity s') \<and> unat (cs_last_quantity s') \<le> ATS_MAX_POINT_WORDS \<and>
    unat (cs_last_offset s') + unat (cs_last_quantity s') \<le> 65536 \<and> valid_quantity (cs_last_quantity s')"
proof -
  from custom_step_busy [OF assms(2)] obtain i r ws where
    i: "i < custom_count m" "s' = custom_reply m i r ws now (custom_issue m i s)" by metis
  have f: "cs_last_function s' = cp_function (cm_points m ! i)" "cs_last_offset s' = cd_offset (cm_defs m ! i)"
    "cs_last_quantity s' = ucast (cd_word_count (cm_defs m ! i))"
    unfolding i(2) by (simp_all add: custom_reply_def custom_success_def custom_failure_def Let_def custom_issue_def split: prod.split)
  have q: "unat (ucast (cd_word_count (cm_defs m ! i)) :: u16) = unat (cd_word_count (cm_defs m ! i))"
    by (rule unat_ucast_up) simp
  have p: "point_ok (cm_defs m ! i) (cm_points m ! i)" using map_point_ok [OF assms(1)] i(1) by (simp add: custom_count_def)
  then have fn: "cp_function (cm_points m ! i) \<in> {1, 2, 3, 4}"
    and off: "unat (cd_offset (cm_defs m ! i)) + unat (cd_word_count (cm_defs m ! i)) \<le> 65536"
    unfolding point_ok_def by blast+
  have wc: "1 \<le> unat (cd_word_count (cm_defs m ! i))" "unat (cd_word_count (cm_defs m ! i)) \<le> ATS_MAX_POINT_WORDS"
    using p by (auto simp: point_ok_def cdefs split: if_splits)
  show ?thesis
    using fn off wc unfolding f q by (simp add: valid_quantity_def word_le_nat_alt q cdefs)
qed


subsection \<open>Runs\<close>

text \<open>
  What happened in a run, newest first: a request for a point, when it completed, what came back and
  the registers; \<open>Lost\<close> is a call of \<open>custom_poll_offline\<close>.
\<close>

datatype custom_event = Request (ce_point: nat) (ce_done: u64) (ce_result: mb_result) (ce_words: "u16 list") | Lost

inductive custom_runs :: "custom_map \<Rightarrow> custom_poll \<Rightarrow> custom_event list \<Rightarrow> bool" for m where
  cr_init: "custom_runs m (custom_poll_init m) []"
| cr_idle: "custom_runs m s tr \<Longrightarrow> custom_step read host port unit m now s = (False, s') \<Longrightarrow> custom_runs m s' tr"
| cr_step: "custom_runs m s tr \<Longrightarrow> unat now < 2 ^ 63 \<Longrightarrow> length ws = MB_MAX_REGISTERS \<Longrightarrow>
    earliest_due (cs_next_due s) (custom_count m) now = Some i \<Longrightarrow>
    custom_step (point_reply r ws) host port unit m now s = (True, s') \<Longrightarrow>
    custom_runs m s' (Request i (now + ucast (elapsed_ms r)) r ws # tr)"
| cr_lost: "custom_runs m s tr \<Longrightarrow> custom_runs m (custom_poll_offline s m now) (Lost # tr)"

inductive_cases custom_runs_nonempty: "custom_runs m s (e # tr)"

definition custom_shape :: "custom_poll \<Rightarrow> bool" where
  "custom_shape s \<longleftrightarrow> length (cs_values s) = CUSTOM_MAX_POINTS \<and> length (cs_next_due s) = CUSTOM_MAX_POINTS \<and>
     length (cs_acquired s) = CUSTOM_MAX_POINTS \<and> list_all value_shape (cs_values s)"

lemma step_reply_eq:
  assumes "custom_step (point_reply r ws) host port unit m now s = (True, s')"
    and "earliest_due (cs_next_due s) (custom_count m) now = Some i"
  shows "s' = custom_reply m i r ws now (custom_issue m i s)"
proof -
  obtain j r' ws' where "earliest_due (cs_next_due s) (custom_count m) now = Some j"
    "s' = custom_reply m j r' ws' now (custom_issue m j s)" "(r', ws') = (r, ws)"
    by (rule custom_step_busy [OF assms(1)]) (auto simp: point_reply_def)
  then show ?thesis using assms(2) by simp
qed

text \<open>The buffer is longer than the reply: only the front counts.\<close>

lemma register_byte_take: "i div 2 < n \<Longrightarrow> register_byte order (take n ws) i = register_byte order ws i"
  by (simp add: register_byte_def)

lemma next_value_take:
  assumes "point_ok d p" "unat (cd_word_count d) \<le> length ws"
  shows "next_value p d ws v = next_value p d (take (unat (cd_word_count d)) ws) v"
proof (cases "cp_data_type p = CUSTOM_ASCII")
  case True
  then have n: "unat (cd_word_count d) = (unat (cp_length p) + 1) div 2" using assms(1) by (simp add: point_ok_def)
  let ?is = "[0..<unat (cp_length p)]" and ?n = "unat (cd_word_count d)"
  have rd: "j div 2 < ?n" if "j \<in> set ?is" for j using that n by auto
  then have a: "j div 2 < length ws" "j div 2 < length (take ?n ws)" if "j \<in> set ?is" for j
    using assms(2) that by (meson less_le_trans, simp)
  have m: "map (register_byte (cp_order p) (take ?n ws)) ?is = map (register_byte (cp_order p) ws) ?is"
    "map (\<lambda>i. char_of (register_byte (cp_order p) (take ?n ws) i) :: char) ?is = map (\<lambda>i. char_of (register_byte (cp_order p) ws i)) ?is"
    using rd by (simp_all add: register_byte_take)
  have "ascii_chars (cp_order p) (take ?n ws) False ?is = ascii_chars (cp_order p) ws False ?is"
    using ascii_chars_eq [of ?is ws "cp_order p" False, OF a(1)] ascii_chars_eq [of ?is "take ?n ws" "cp_order p" False, OF a(2)]
    by (simp only: m)
  then show ?thesis using True by (simp add: next_value_def)
next
  case False
  then have wc: "unat (cd_word_count d) = (if wide (cp_data_type p) then 2 else 1)"
    using assms(1) by (simp add: point_ok_def)
  have r0: "rd (take (unat (cd_word_count d)) ws) 0 = rd ws 0" using wc assms(2) by (cases ws) (simp_all add: rd_def split: if_splits)
  have r1: "rd (take (unat (cd_word_count d)) ws) 1 = rd ws 1" if "cd_word_count d = 2"
    using that assms(2) by (simp add: rd_def)
  have "raw_number p d ws = raw_number p d (take (unat (cd_word_count d)) ws)"
    unfolding raw_number_def r0 using r1 by (cases "cd_word_count d = 2") simp_all
  then show ?thesis using False by (simp add: next_value_def scaled_number_eq)
qed

lemma apply_take:
  assumes "custom_map_ok m" "i < custom_count m" "unat (cd_word_count (cm_defs m ! i)) \<le> length ws"
  shows "custom_map_apply (Some m) i (Some ws) (unat (cd_word_count (cm_defs m ! i))) now (Some v) =
    custom_map_apply (Some m) i (Some (take (unat (cd_word_count (cm_defs m ! i))) ws)) (unat (cd_word_count (cm_defs m ! i))) now (Some v)"
  using next_value_take [OF map_point_ok [OF assms(1)] assms(3)] assms(2,3)
  by (simp add: custom_map_apply_def Let_def custom_count_def split: option.split)

lemma words_fit:
  assumes "custom_map_ok m" "i < custom_count m" "length ws = MB_MAX_REGISTERS"
  shows "unat (cd_word_count (cm_defs m ! i)) \<le> length ws"
  using point_words_bound [OF assms(1), of i] assms(2,3) by (simp add: custom_count_def cdefs)

lemma apply_reply_cases:
  assumes "custom_map_ok m" "i < custom_count m" "length ws = MB_MAX_REGISTERS" "value_shape v"
  obtains (good) v' where "apply_reply m i ws t v = (True, v')" "value_shape v'" "v_quality v' = ATS_QUALITY_GOOD"
      "v_last_good v' = t"
      "custom_map_apply (Some m) i (Some ws) (unat (cd_word_count (cm_defs m ! i))) t (Some v) = Some (True, Some v')"
  | (bad) "apply_reply m i ws t v = (False, rejected v)"
proof -
  let ?n = "unat (cd_word_count (cm_defs m ! i))"
  let ?ws = "take ?n ws"
  note fit = words_fit [OF assms(1-3)]
  have len: "length ?ws = ?n" using fit by simp
  have i: "i < length (cm_defs m)" using assms(2) by (simp add: custom_count_def)
  obtain r where r: "next_value (cm_points m ! i) (cm_defs m ! i) ?ws v = Some r" "\<And>w. r = Some w \<Longrightarrow> value_shape w"
    using next_value_contract [OF assms(1) i len assms(4)] by blast
  have eq: "custom_map_apply (Some m) i (Some ws) ?n t (Some v) =
      (case r of None \<Rightarrow> Some (False, Some (rejected v)) | Some w \<Rightarrow> Some (True, Some (accepted ?ws t w)))"
    using apply_take [OF assms(1,2) fit, of t v] apply_cases [OF i len, of t v] len r(1) by simp
  show thesis
  proof (cases r)
    case None
    then show thesis using bad eq by (simp add: apply_reply_def)
  next
    case (Some w)
    have "value_shape (accepted ?ws t w)"
      using accepted_shape [OF r(2) [OF Some]] point_words_bound [OF assms(1) i] len by simp
    then show thesis using good [of "accepted ?ws t w"] Some eq by (simp add: apply_reply_def) (simp add: accepted_def)
  qed
qed

subsection \<open>Shapes\<close>

lemma custom_shape_init: "custom_shape (custom_poll_init m)"
  by (auto simp: custom_shape_def custom_poll_init_def list_all_iff value_shape_def ats_value_zero_def)

lemma value_shape_mark: "value_shape v \<Longrightarrow> value_shape (v\<lparr>v_quality := q, v_reason := w\<rparr>)"
  by (simp add: value_shape_def)

lemma custom_shape_mark: "custom_shape s \<Longrightarrow> custom_shape (mark w i s)"
  by (cases "i < length (cs_values s)")
    (auto simp: custom_shape_def mark_def list_all_length nth_list_update value_shape_mark list_update_beyond)

lemma custom_shape_fold: "custom_shape s \<Longrightarrow> custom_shape (fold (mark w) js s)"
  by (induction js arbitrary: s) (simp_all add: custom_shape_mark)

lemma custom_shape_offline: "custom_shape s \<Longrightarrow> custom_shape (custom_poll_offline s m now)"
  by (simp add: custom_poll_offline_def custom_shape_fold)

lemma custom_shape_frame [simp]:
  "custom_shape (s\<lparr>cs_next_request := a\<rparr>) = custom_shape s" "custom_shape (s\<lparr>cs_last_result := b\<rparr>) = custom_shape s"
  "custom_shape (s\<lparr>cs_consecutive_failures := c, cs_successes := d, cs_last_success := e\<rparr>) = custom_shape s"
  "custom_shape (count_miss s) = custom_shape s" "custom_shape (custom_issue m i s) = custom_shape s"
  by (simp_all add: custom_shape_def count_miss_def custom_issue_def)

lemma custom_shape_due: "custom_shape s \<Longrightarrow> length ds = length (cs_next_due s) \<Longrightarrow> custom_shape (s\<lparr>cs_next_due := ds\<rparr>)"
  by (simp add: custom_shape_def)

lemma custom_shape_failure: "custom_shape s \<Longrightarrow> custom_shape (custom_failure m i t s)"
  by (simp add: custom_failure_def Let_def custom_shape_mark custom_shape_offline custom_shape_due)

lemma map_count: "custom_map_ok m \<Longrightarrow> custom_count m \<le> CUSTOM_MAX_POINTS"
  by (simp add: custom_map_ok_def custom_count_def)

lemma custom_shape_success:
  assumes "custom_map_ok m" "i < custom_count m" "length ws = MB_MAX_REGISTERS" "custom_shape s"
  shows "custom_shape (custom_success m i ws t s)"
proof -
  have i: "i < length (cs_values s)" using assms(2,4) map_count [OF assms(1)] by (simp add: custom_shape_def)
  then have "value_shape (cs_values s ! i)" using assms(4) by (simp add: custom_shape_def list_all_length)
  then have "value_shape (snd (apply_reply m i ws t (cs_values s ! i)))"
    by (rule apply_reply_cases [OF assms(1-3), where t = t]) (simp_all add: rejected_shape \<open>value_shape (cs_values s ! i)\<close>)
  then show ?thesis
    using assms(4) i by (auto simp: custom_success_def custom_shape_def list_all_length nth_list_update split: prod.split)
qed

lemma custom_shape_reply:
  assumes "custom_map_ok m" "i < custom_count m" "length ws = MB_MAX_REGISTERS" "custom_shape s"
  shows "custom_shape (custom_reply m i r ws now s)"
  using custom_shape_success [OF assms(1-3)] custom_shape_failure assms(4) by (simp add: custom_reply_def Let_def)

lemma custom_runs_shape: "custom_runs m s tr \<Longrightarrow> custom_map_ok m \<Longrightarrow> custom_shape s"
proof (induction rule: custom_runs.induct)
  case (cr_idle s tr read host port unit now s')
  then show ?case using custom_step_idle [of read host port unit m now s] by simp
next
  case (cr_step s tr now ws i r host port unit s')
  then show ?case
    using step_reply_eq [OF cr_step.hyps(5,4)] earliest_due_Some(1) [OF cr_step.hyps(4)] custom_shape_reply by simp
qed (simp_all add: custom_shape_init custom_shape_offline)

subsection \<open>Losing the device\<close>

text \<open>C40 (custom_transport_failure_faults_all): a read that fails without an exception reply faults every
  point of the map and retains every last sample; a read refused by an exception faults its own point
  only. Either way the failed point waits at least five seconds and the next request waits for the
  backoff: five seconds per consecutive failure, at most thirty.\<close>
theorem custom_transport_failure_faults_all:
  assumes "custom_map_ok m" "custom_runs m s tr" "unat now < 2 ^ 63"
    and "earliest_due (cs_next_due s) (custom_count m) now = Some i"
    and "custom_step (point_reply r ws) host port unit m now s = (True, s')" "error r \<noteq> MB_OK"
  shows "comm s' i \<and> (exception_code r = 0 \<longrightarrow> (\<forall>j < custom_count m. comm s' j)) \<and>
    (exception_code r \<noteq> 0 \<longrightarrow> (\<forall>j. j \<noteq> i \<longrightarrow> cs_values s' ! j = cs_values s ! j)) \<and>
    map (\<lambda>v. (v_numeric v, v_text v, v_last_good v, v_raw_words v)) (cs_values s') =
      map (\<lambda>v. (v_numeric v, v_text v, v_last_good v, v_raw_words v)) (cs_values s) \<and>
    unat (cs_next_due s' ! i) = unat now + unat (elapsed_ms r) + max 5000 (unat (cp_poll_ms (cm_points m ! i))) \<and>
    unat (cs_next_request s') = unat now + unat (elapsed_ms r) +
      backoff (if cs_consecutive_failures s < - 1 then cs_consecutive_failures s + 1 else cs_consecutive_failures s)"
proof -
  let ?t = "now + ucast (elapsed_ms r)"
  have shape: "custom_shape s" using custom_runs_shape assms(1,2) by blast
  have i: "i < custom_count m" "i < CUSTOM_MAX_POINTS"
    using earliest_due_Some(1) [OF assms(4)] map_count [OF assms(1)] by simp_all
  define s0 where "s0 = (custom_issue m i s)\<lparr>cs_last_result := r, cs_next_request := ?t + 250\<rparr>"
  define poll where "poll = cp_poll_ms (cm_points m ! i)"
  define s1 where "s1 = (mark ''Modbus read failed'' i (count_miss s0))
    \<lparr>cs_next_due := (cs_next_due s0)[i := ?t + ucast (if poll > 5000 then poll else 5000)]\<rparr>"
  have s': "s' = custom_failure m i ?t s0"
    using step_reply_eq [OF assms(5,4)] assms(6) by (simp add: custom_reply_def s0_def Let_def)
  have s1': "custom_failure m i ?t s0 =
    (if exception_code r = 0 then custom_poll_offline s1 m ?t else s1)\<lparr>cs_next_request := ?t + ucast
       (if cs_consecutive_failures (count_miss s0) < 6 then cs_consecutive_failures (count_miss s0) * 5000 else 30000)\<rparr>"
    by (simp add: custom_failure_def Let_def s1_def poll_def) (simp add: s0_def)
  have v0: "cs_values s0 = cs_values s" "cs_next_due s0 = cs_next_due s" "cs_consecutive_failures s0 = cs_consecutive_failures s"
    by (simp_all add: s0_def)
  have v1: "cs_values s1 = (cs_values s)[i := (cs_values s ! i)\<lparr>v_quality := ATS_QUALITY_COMM, v_reason := ''Modbus read failed''\<rparr>]"
    by (simp add: s1_def mark_def v0)
  have len: "length (cs_values s1) = CUSTOM_MAX_POINTS" "length (cs_next_due s) = CUSTOM_MAX_POINTS"
    using shape by (simp_all add: v1 custom_shape_def)
  have c1: "comm s1 i" using i(2) len(1) by (simp add: comm_def v1)
  have all: "comm (custom_poll_offline s1 m ?t) j" if "j < custom_count m" for j
    unfolding custom_poll_offline_def
    using that len(1) map_count [OF assms(1)] by (intro custom_faults.all_faulted) simp_all
  have vs: "cs_values s' = (if exception_code r = 0 then cs_values (custom_poll_offline s1 m ?t) else cs_values s1)"
    by (simp add: s' s1')
  let ?f = "\<lambda>v. (v_numeric v, v_text v, v_last_good v, v_raw_words v)"
  have "map ?f (cs_values (custom_poll_offline s1 m ?t)) = map ?f (cs_values s1)"
    using custom_offline_frame [of s1 m ?t] by (simp add: poll_frame_def)
  moreover have "map ?f (cs_values s1) = map ?f (cs_values s)"
    using i(2) len(1) by (simp add: v1 map_update) (rule list_update_same_conv [THEN iffD2], simp_all)
  ultimately have "map ?f (cs_values s') = map ?f (cs_values s)" by (simp add: vs)
  moreover have "comm s' i \<and> (exception_code r = 0 \<longrightarrow> (\<forall>j < custom_count m. comm s' j))"
    using all i(1) c1 vs by (simp add: comm_def)
  moreover have "exception_code r \<noteq> 0 \<longrightarrow> (\<forall>j. j \<noteq> i \<longrightarrow> cs_values s' ! j = cs_values s ! j)"
    by (simp add: vs v1)
  moreover have "unat (cs_next_due s' ! i) = unat now + unat (elapsed_ms r) + max 5000 (unat poll)"
  proof -
    have "cs_next_due s' ! i = ?t + ucast (if poll > 5000 then poll else 5000)"
      using i(2) len(2) by (simp add: s' s1' s1_def v0)
    also have "(ucast (if poll > 5000 then poll else 5000) :: u64) = of_nat (max 5000 (unat poll))"
    proof (cases "poll > 5000")
      case False
      then have "max 5000 (unat poll) = 5000" by (simp add: word_less_nat_alt)
      with False show ?thesis by simp
    qed (simp add: word_less_nat_alt)
    finally have "cs_next_due s' ! i = ?t + of_nat (max 5000 (unat poll))" .
    moreover have "max 5000 (unat poll) < 2 ^ 32" using unat_lt_u32 [of poll] by simp
    ultimately show ?thesis
      using add_small [OF completed_unat(2) [OF assms(3)]] completed_unat(1) [OF assms(3)] by simp
  qed
  moreover have "unat (cs_next_request s') = unat now + unat (elapsed_ms r) +
      backoff (if cs_consecutive_failures s < - 1 then cs_consecutive_failures s + 1 else cs_consecutive_failures s)"
    unfolding s' failure_next_request add_backoff [OF completed_unat(2) [OF assms(3)]] completed_unat(1) [OF assms(3)]
    by (simp add: count_miss_def v0)
  ultimately show ?thesis unfolding poll_def by blast
qed

subsection \<open>What a good point stands for\<close>

text \<open>An event that changes or faults point \<open>i\<close>.\<close>

fun touches :: "nat \<Rightarrow> custom_event \<Rightarrow> bool" where
  "touches i (Request j t r ws) \<longleftrightarrow> j = i \<or> error r \<noteq> MB_OK \<and> exception_code r = 0"
| "touches i Lost \<longleftrightarrow> True"

text \<open>The last event that touched point \<open>i\<close> is a read that succeeded, and the value is what that read
  was decoded to.\<close>

definition backed :: "custom_map \<Rightarrow> custom_event list \<Rightarrow> nat \<Rightarrow> ats_value \<Rightarrow> bool" where
  "backed m tr i v \<longleftrightarrow> (\<exists>newer t r ws older v0. tr = newer @ Request i t r ws # older \<and> list_all (\<lambda>e. \<not> touches i e) newer \<and>
     error r = MB_OK \<and> v_last_good v = t \<and>
     custom_map_apply (Some m) i (Some ws) (unat (cd_word_count (cm_defs m ! i))) t (Some v0) = Some (True, Some v))"

definition backed_inv :: "custom_map \<Rightarrow> custom_poll \<Rightarrow> custom_event list \<Rightarrow> bool" where
  "backed_inv m s tr \<longleftrightarrow> (\<forall>i < custom_count m. v_quality (cs_values s ! i) = ATS_QUALITY_GOOD \<longrightarrow>
     cs_acquired s ! i \<and> backed m tr i (cs_values s ! i))"

lemma backed_keep: "backed m tr i v \<Longrightarrow> \<not> touches i e \<Longrightarrow> backed m (e # tr) i v"
proof -
  assume "backed m tr i v" "\<not> touches i e"
  then obtain newer t r ws older v0 where "tr = newer @ Request i t r ws # older" "list_all (\<lambda>e. \<not> touches i e) (e # newer)"
    "error r = MB_OK" "v_last_good v = t"
    "custom_map_apply (Some m) i (Some ws) (unat (cd_word_count (cm_defs m ! i))) t (Some v0) = Some (True, Some v)"
    by (auto simp: backed_def)
  then show "backed m (e # tr) i v"
    unfolding backed_def by (intro exI [of _ "e # newer"] exI [of _ t] exI [of _ r] exI [of _ ws] exI [of _ older] exI [of _ v0]) simp
qed

lemma backed_new:
  "error r = MB_OK \<Longrightarrow> v_last_good v = t \<Longrightarrow>
   custom_map_apply (Some m) i (Some ws) (unat (cd_word_count (cm_defs m ! i))) t (Some v0) = Some (True, Some v) \<Longrightarrow>
   backed m (Request i t r ws # tr) i v"
  unfolding backed_def by (intro exI [of _ "[]"] exI [of _ t] exI [of _ r] exI [of _ ws] exI [of _ tr] exI [of _ v0]) simp

lemma comm_not_good: "comm s i \<Longrightarrow> v_quality (cs_values s ! i) \<noteq> ATS_QUALITY_GOOD"
  by (simp add: comm_def)

lemma offline_comm:
  assumes "custom_shape s" "custom_map_ok m" "i < custom_count m"
  shows "comm (custom_poll_offline s m now) i"
  unfolding custom_poll_offline_def
  using assms map_count [OF assms(2)] by (intro custom_faults.all_faulted) (simp_all add: custom_shape_def)

lemma backed_success:
  assumes "custom_map_ok m" "custom_shape s" "backed_inv m s tr" "i < custom_count m" "length ws = MB_MAX_REGISTERS" "error r = MB_OK"
  shows "backed_inv m (custom_success m i ws t s) (Request i t r ws # tr)"
proof -
  have len: "i < length (cs_values s)" "i < length (cs_acquired s)"
    using assms(2,4) map_count [OF assms(1)] by (simp_all add: custom_shape_def)
  have vs: "value_shape (cs_values s ! i)" using assms(2) len(1) by (simp add: custom_shape_def list_all_length)
  obtain ok v where a: "apply_reply m i ws t (cs_values s ! i) = (ok, v)" by fastforce
  have new: "ok \<and> backed m (Request i t r ws # tr) i v" if "v_quality v = ATS_QUALITY_GOOD"
    by (rule apply_reply_cases [OF assms(1,4,5) vs, where t = t])
      (use a that assms(6) in \<open>auto simp: rejected_def intro: backed_new\<close>)
  have old: "cs_acquired s ! j \<and> backed m (Request i t r ws # tr) j (cs_values s ! j)"
    if "j < custom_count m" "v_quality (cs_values s ! j) = ATS_QUALITY_GOOD" "j \<noteq> i" for j
    using that assms(3,6) by (auto simp: backed_inv_def intro!: backed_keep)
  show ?thesis
    using a new old len by (auto simp: backed_inv_def custom_success_def nth_list_update)
qed

lemma backed_failure:
  assumes "custom_map_ok m" "custom_shape s" "backed_inv m s tr" "i < custom_count m" "error r \<noteq> MB_OK" "cs_last_result s = r"
  shows "backed_inv m (custom_failure m i t s) (Request i t r ws # tr)"
proof -
  have i: "i < length (cs_values s)" using assms(2,4) map_count [OF assms(1)] by (simp add: custom_shape_def)
  define s1 where "s1 = (mark ''Modbus read failed'' i (count_miss s))
    \<lparr>cs_next_due := (cs_next_due s)[i := t + ucast (if cp_poll_ms (cm_points m ! i) > 5000 then cp_poll_ms (cm_points m ! i) else 5000)]\<rparr>"
  have sh: "custom_shape s1" using assms(2) by (simp add: s1_def custom_shape_mark custom_shape_due)
  have v: "cs_values (custom_failure m i t s) = cs_values (if exception_code r = 0 then custom_poll_offline s1 m t else s1)"
    "cs_acquired (custom_failure m i t s) = cs_acquired s"
    by (simp_all add: custom_failure_def Let_def s1_def assms(6))
  have v1: "cs_values s1 = (cs_values s)[i := (cs_values s ! i)\<lparr>v_quality := ATS_QUALITY_COMM, v_reason := ''Modbus read failed''\<rparr>]"
    by (simp add: s1_def mark_def)
  show ?thesis
  proof (cases "exception_code r = 0")
    case True
    then have "v_quality (cs_values (custom_failure m i t s) ! j) \<noteq> ATS_QUALITY_GOOD" if "j < custom_count m" for j
      using offline_comm [OF sh assms(1) that, of t] comm_not_good v(1) by simp
    then show ?thesis by (simp add: backed_inv_def)
  next
    case False
    have "cs_acquired s ! j \<and> backed m (Request i t r ws # tr) j (cs_values s ! j)"
      if "j < custom_count m" "v_quality (cs_values s1 ! j) = ATS_QUALITY_GOOD" for j
    proof -
      have "j \<noteq> i" using that(2) i by (auto simp: v1)
      then show ?thesis using that assms(3) False by (auto simp: backed_inv_def v1 intro!: backed_keep)
    qed
    then show ?thesis using False v i by (auto simp: backed_inv_def v1 nth_list_update split: if_splits)
  qed
qed

lemma custom_runs_backed: "custom_runs m s tr \<Longrightarrow> custom_map_ok m \<Longrightarrow> backed_inv m s tr"
proof (induction rule: custom_runs.induct)
  case cr_init
  then show ?case using map_count [of m] by (simp add: backed_inv_def custom_poll_init_def)
next
  case (cr_idle s tr read host port unit now s')
  then show ?case using custom_step_idle [of read host port unit m now s] by simp
next
  case (cr_step s tr now ws i r host port unit s')
  let ?t = "now + ucast (elapsed_ms r)"
  let ?s = "(custom_issue m i s)\<lparr>cs_last_result := r, cs_next_request := ?t + 250\<rparr>"
  note i = earliest_due_Some(1) [OF cr_step.hyps(4)]
  have "custom_shape s" using custom_runs_shape cr_step.hyps(1) cr_step.prems by blast
  then have sh: "custom_shape ?s" by simp
  have inv: "backed_inv m ?s tr" using cr_step.IH [OF cr_step.prems] by (simp add: backed_inv_def)
  have s': "s' = (if error r = MB_OK then custom_success m i ws ?t ?s else custom_failure m i ?t ?s)"
    using step_reply_eq [OF cr_step.hyps(5,4)] by (simp add: custom_reply_def Let_def)
  show ?case
    unfolding s' using backed_success [OF cr_step.prems sh inv i cr_step.hyps(3)] backed_failure [OF cr_step.prems sh inv i] by simp
next
  case (cr_lost s tr now)
  then show ?case
    using offline_comm [OF custom_runs_shape [OF cr_lost.hyps(1)]] comm_not_good by (auto simp: backed_inv_def)
qed

text \<open>C26 (custom_snapshot_sound): in every run against any device, a point that a snapshot calls good was
  acquired by a read that succeeded: nothing has touched the point since (no request of its own, no
  transport failure, no loss of the network), its number, text and registers are what that reply
  decoded to, and the read is no older than the point's freshness limit (unless the clock went back).\<close>
theorem custom_snapshot_sound:
  assumes "custom_map_ok m" "custom_runs m s tr" "i < custom_count m"
    and "v_quality (custom_poll_snapshot s m now ! i) = ATS_QUALITY_GOOD"
  shows "backed m tr i (custom_poll_snapshot s m now ! i) \<and>
    (v_last_good (custom_poll_snapshot s m now ! i) \<le> now \<longrightarrow>
     now - v_last_good (custom_poll_snapshot s m now ! i) \<le> custom_map_stale_ms (Some m) i)"
proof -
  let ?v = "cs_values s ! i"
  let ?stale = "cs_acquired s ! i \<and> now \<ge> v_last_good ?v \<and> now - v_last_good ?v > custom_map_stale_ms (Some m) i"
  have snap: "custom_poll_snapshot s m now ! i =
    (if ?stale then ?v\<lparr>v_quality := ATS_QUALITY_COMM, v_reason := ''Custom point is stale''\<rparr> else ?v)"
    using assms(3) by (simp add: custom_poll_snapshot_def Let_def)
  then have n: "\<not> ?stale" "custom_poll_snapshot s m now ! i = ?v" "v_quality ?v = ATS_QUALITY_GOOD"
    using assms(4) by (auto split: if_splits)
  moreover have "cs_acquired s ! i" "backed m tr i ?v"
    using custom_runs_backed [OF assms(2,1)] assms(3) n(3) by (auto simp: backed_inv_def)
  ultimately show ?thesis by (auto simp: not_less)
qed

subsection \<open>No point starves\<close>

lemma earliest_due_take:
  assumes "n \<le> length due"
  shows "earliest_due due n now = earliest_due (take n due) (length (take n due)) now"
proof -
  have "foldl (due_step due now) a js = foldl (due_step (take n due) now) a js" if "set js \<subseteq> {..<n}" for a js
    using that by (induction js arbitrary: a) (auto simp: due_step_def)
  from this [of "[0..<n]"] show ?thesis using assms by (simp add: earliest_due_def min_absorb2 lessThan_atLeast0)
qed

text \<open>A run of requests in which point \<open>i\<close> is due all the time and is not the point that is read.\<close>

inductive custom_waits :: "custom_map \<Rightarrow> nat \<Rightarrow> custom_poll \<Rightarrow> nat \<Rightarrow> custom_poll \<Rightarrow> bool" for m i s where
  cw_none: "custom_waits m i s 0 s"
| cw_more: "custom_waits m i s n s1 \<Longrightarrow> unat now < 2 ^ 63 \<Longrightarrow> cs_next_due s1 ! i \<le> now \<Longrightarrow>
    custom_step (point_reply r ws) host port unit m now s1 = (True, s2) \<Longrightarrow>
    earliest_due (cs_next_due s1) (custom_count m) now \<noteq> Some i \<Longrightarrow> custom_waits m i s (Suc n) s2"

lemma custom_reply_due:
  assumes "custom_map_ok m" "j < custom_count m"
  shows "\<exists>d. 0 < d \<and> d < 2 ^ 32 \<and> cs_next_due (custom_reply m j r ws now s) = (cs_next_due s)[j := now + ucast (elapsed_ms r) + of_nat d]"
proof -
  let ?p = "unat (cp_poll_ms (cm_points m ! j))"
  have p: "1000 \<le> ?p" "?p \<le> 3600000"
    using map_point_ok [OF assms(1), of j] assms(2) by (simp_all add: point_ok_def custom_count_def)
  show ?thesis
  proof (cases "error r = MB_OK")
    case True
    then show ?thesis using p
      by (intro exI [of _ ?p]) (simp add: custom_reply_def custom_success_def Let_def split: prod.split)
  next
    case False
    let ?q = "unat (if cp_poll_ms (cm_points m ! j) > 5000 then cp_poll_ms (cm_points m ! j) else 5000)"
    have "0 < ?q" "?q < 2 ^ 32" using p by auto
    then show ?thesis using False
      by (intro exI [of _ ?q]) (simp add: custom_reply_def custom_failure_def Let_def)
  qed
qed

lemma custom_waits_shape:
  "custom_waits m i s n s' \<Longrightarrow> length (cs_next_due s) = CUSTOM_MAX_POINTS \<Longrightarrow> custom_map_ok m \<Longrightarrow> length (cs_next_due s') = CUSTOM_MAX_POINTS"
proof (induction rule: custom_waits.induct)
  case (cw_more n s1 now r ws host port unit s2)
  obtain j r' ws' where "s2 = custom_reply m j r' ws' now (custom_issue m j s1)" "j < custom_count m"
    by (rule custom_step_busy [OF cw_more.hyps(4)]) auto
  then show ?case using custom_reply_due [OF cw_more.prems(2), of j r' ws' now "custom_issue m j s1"] cw_more by auto
qed

lemma custom_waits_bound:
  assumes "custom_waits m i s n s'" "custom_map_ok m" "i < custom_count m" "length (cs_next_due s) = CUSTOM_MAX_POINTS"
  shows "card (rivals (take (custom_count m) (cs_next_due s')) i) + n \<le> card (rivals (take (custom_count m) (cs_next_due s)) i)"
  using assms
proof (induction rule: custom_waits.induct)
  case (cw_more n s1 now r ws host port unit s2)
  let ?c = "custom_count m"
  let ?d = "take ?c (cs_next_due s1)"
  have len: "length (cs_next_due s1) = CUSTOM_MAX_POINTS" using custom_waits_shape [OF cw_more.hyps(1)] cw_more.prems by blast
  have c: "length ?d = ?c" using len map_count [OF cw_more.prems(1)] by simp
  obtain j r' ws' where j: "earliest_due (cs_next_due s1) ?c now = Some j" "j < ?c"
    "s2 = custom_reply m j r' ws' now (custom_issue m j s1)"
    by (rule custom_step_busy [OF cw_more.hyps(4)]) auto
  then obtain d where d: "0 < d" "d < 2 ^ 32" "cs_next_due s2 = (cs_next_due s1)[j := now + ucast (elapsed_ms r') + of_nat d]"
    using custom_reply_due [OF cw_more.prems(1) j(2), of r' ws' now "custom_issue m j s1"] by auto
  have "unat (now + ucast (elapsed_ms r') + of_nat d) = unat now + unat (elapsed_ms r') + d"
    using add_small [OF completed_unat(2) [OF cw_more.hyps(2)] d(2)] completed_unat(1) [OF cw_more.hyps(2)] by simp
  then have later: "?d ! i < now + ucast (elapsed_ms r') + of_nat d"
    using cw_more.hyps(3) cw_more.prems(2) d(1) by (simp add: word_less_nat_alt word_le_nat_alt)
  have "earliest_due ?d (length ?d) now = Some j"
    using j(1) earliest_due_take [of ?c "cs_next_due s1" now] len map_count [OF cw_more.prems(1)] by simp
  then have "card (rivals (?d[j := now + ucast (elapsed_ms r') + of_nat d]) i) < card (rivals ?d i)"
    using rivals_decrease [of ?d now j i] later cw_more.hyps(3,5) cw_more.prems(2) j(1) c by auto
  then show ?case using cw_more.IH [OF cw_more.prems] by (simp add: d(3) take_update_swap)
qed simp

text \<open>The poller starves no point: a point that is due waits for fewer other
  requests than the map has points, whatever the devices answer.\<close>
theorem custom_no_starvation:
  assumes "custom_map_ok m" "custom_runs m s tr" "custom_waits m i s n s'" "i < custom_count m"
  shows "n < custom_count m"
proof -
  have len: "length (cs_next_due s) = CUSTOM_MAX_POINTS"
    using custom_runs_shape [OF assms(2,1)] by (simp add: custom_shape_def)
  have "card (rivals (take (custom_count m) (cs_next_due s)) i) < custom_count m"
    using card_rivals [of i "take (custom_count m) (cs_next_due s)"] len map_count [OF assms(1)] assms(4) by simp
  then show ?thesis using custom_waits_bound [OF assms(3,1,4) len] by simp
qed


subsection \<open>A short run\<close>

definition sample_ok :: mb_result where
  "sample_ok = \<lparr>error = MB_OK, exception_code = 0, elapsed_ms = 5, system_error = 0\<rparr>"

definition sample_timeout :: mb_result where
  "sample_timeout = \<lparr>error = MB_ERR_TIMEOUT, exception_code = 0, elapsed_ms = 1200, system_error = 0\<rparr>"

definition sample_words :: "u16 list" where
  "sample_words = 0xFEFF # 0xFFFF # replicate 48 0"

definition sample_step :: "mb_result \<Rightarrow> u64 \<Rightarrow> custom_poll \<Rightarrow> bool \<times> custom_poll" where
  "sample_step r now s = custom_step (point_reply r sample_words) ''10.0.0.2'' 502 1 sample_map now s"

lemma sample_count: "custom_count sample_map = Suc 1"
  by (simp add: custom_count_def sample_simps)

lemma sample_due: "earliest_due (cs_next_due (custom_poll_init sample_map)) (custom_count sample_map) now = Some 0"
  unfolding sample_count by (rule earliest_due_zero) (simp add: custom_poll_init_def CUSTOM_MAX_POINTS_def nth_Cons')

lemma sample_first: "sample_step r 0 (custom_poll_init sample_map) =
    (True, custom_reply sample_map 0 r sample_words 0 (custom_issue sample_map 0 (custom_poll_init sample_map)))"
proof -
  have "\<not> 0 < cs_next_request (custom_poll_init sample_map)" by (simp add: custom_poll_init_def)
  then show ?thesis by (simp add: sample_step_def custom_step_def sample_due point_reply_def Let_def)
qed

lemma sample_run: "custom_runs sample_map (snd (sample_step r 0 (custom_poll_init sample_map)))
    [Request 0 (ucast (elapsed_ms r)) r sample_words]"
  using cr_step [OF cr_init, of 0 sample_words sample_map 0 r "''10.0.0.2''" 502 1] sample_due sample_first [of r]
  by (simp add: sample_step_def sample_words_def cdefs)

lemma custom_transport_failure_faults_all_witness:
  "let s' = snd (sample_step sample_timeout 0 (custom_poll_init sample_map)) in
     comm s' 0 \<and> comm s' 1 \<and> unat (cs_next_request s') = 6200"
proof -
  let ?s = "custom_poll_init sample_map"
  let ?s' = "snd (sample_step sample_timeout 0 ?s)"
  have st: "custom_step (point_reply sample_timeout sample_words) ''10.0.0.2'' 502 1 sample_map 0 ?s = (True, ?s')"
    using sample_first [of sample_timeout] by (simp add: sample_step_def)
  have e: "error sample_timeout \<noteq> MB_OK" "exception_code sample_timeout = 0" "unat (elapsed_ms sample_timeout) = 1200"
    by (simp_all add: sample_timeout_def)
  have z: "unat (0 :: u64) < 2 ^ 63" "backoff (if cs_consecutive_failures ?s < - 1 then cs_consecutive_failures ?s + 1
      else cs_consecutive_failures ?s) = 5000"
    by (simp_all add: custom_poll_init_def backoff_def word_less_nat_alt unsigned_minus_1_eq_mask)
  have "comm ?s' 0" "\<forall>j < custom_count sample_map. comm ?s' j" "unat (cs_next_request ?s') = unat (0 :: u64) + 1200 + 5000"
    using custom_transport_failure_faults_all [OF sample_map_ok cr_init z(1) sample_due st e(1)] e(2) unfolding e(3) z(2) by blast+
  then show ?thesis using sample_count by (simp add: Let_def)
qed

lemma custom_request_spacing_witness:
  "request_times (\<lambda>(read, host, port, unit, m) now s. custom_step read host port unit m now s)
     [((point_reply sample_ok sample_words, ''10.0.0.2'', 502, 1, sample_map), 0)] (custom_poll_init sample_map) = [0] \<and>
   sorted_wrt (\<lambda>t u. unat t + 250 \<le> unat u) [0 :: u64]"
proof -
  have r: "request_times (\<lambda>(read, host, port, unit, m) now s. custom_step read host port unit m now s)
     [((point_reply sample_ok sample_words, ''10.0.0.2'', 502, 1, sample_map), 0)] (custom_poll_init sample_map) = [0]"
    using sample_first [of sample_ok] by (simp add: sample_step_def)
  with custom_request_spacing [OF _ r] show ?thesis by simp
qed

lemma custom_requests_read_only_witness:
  "\<exists>s'. sample_step sample_ok 0 (custom_poll_init sample_map) = (True, s') \<and> unat (cs_last_offset s') + unat (cs_last_quantity s') \<le> 65536"
proof -
  obtain s' where s': "sample_step sample_ok 0 (custom_poll_init sample_map) = (True, s')" using sample_first by blast
  from custom_requests_read_only [OF sample_map_ok s' [unfolded sample_step_def]] s' show ?thesis by blast
qed

lemma sample_good:
  "v_quality (cs_values (snd (sample_step sample_ok 0 (custom_poll_init sample_map))) ! 0) = ATS_QUALITY_GOOD"
proof -
  let ?v = "cs_values (custom_poll_init sample_map) ! 0"
  let ?d = "cm_defs sample_map ! 0" and ?p = "cm_points sample_map ! 0"
  have k: "take 2 sample_words = [0xFEFF, 0xFFFF]" "length sample_words = MB_MAX_REGISTERS"
    by (simp_all add: sample_words_def cdefs)
  have p: "point_ok ?d ?p" using map_point_ok [OF sample_map_ok, of 0] by (simp add: sample_simps)
  have "raw_number ?p ?d [0xFEFF, 0xFFFF] = Some (Some (Fin (of_int (- 2))))"
    using raw_number_integer [OF p, of "[0xFEFF, 0xFFFF]"]
    by (simp add: sample_simps data_type_order wire_bytes_def write_be16_def ordered_def be_value_def integer_of_def signed_value_def)
  then have "next_value ?p ?d [0xFEFF, 0xFFFF] ?v = Some (Some (?v\<lparr>v_numeric := Fin (of_int (- 2))\<rparr>))"
    using scale_identity [of "- 2"] fin_not_above [of "- 2"]
    by (simp add: next_value_def scaled_number_eq sample_simps Let_def del: dadd.simps dmul.simps dlt.simps dfabs.simps)
  then have "next_value ?p ?d sample_words ?v = Some (Some (?v\<lparr>v_numeric := Fin (of_int (- 2))\<rparr>))"
    using next_value_take [OF p, of sample_words ?v] k by (simp add: sample_simps cdefs)
  then have "fst (apply_reply sample_map 0 sample_words 5 ?v)" "v_quality (snd (apply_reply sample_map 0 sample_words 5 ?v)) = ATS_QUALITY_GOOD"
    using k(2) by (simp_all add: apply_reply_def custom_map_apply_def sample_simps cdefs)
  moreover have "0 < length (cs_values (custom_poll_init sample_map))" by (simp add: custom_poll_init_def CUSTOM_MAX_POINTS_def)
  ultimately show ?thesis
    by (auto simp: sample_first custom_reply_def custom_success_def sample_ok_def Let_def split: prod.splits)
qed

lemma custom_snapshot_sound_witness:
  "\<exists>s. custom_runs sample_map s [Request 0 5 sample_ok sample_words] \<and>
     backed sample_map [Request 0 5 sample_ok sample_words] 0 (custom_poll_snapshot s sample_map 0 ! 0)"
proof -
  let ?s = "snd (sample_step sample_ok 0 (custom_poll_init sample_map))"
  have r: "custom_runs sample_map ?s [Request 0 5 sample_ok sample_words]"
    using sample_run [of sample_ok] by (simp add: sample_ok_def)
  have "0 < v_last_good (cs_values ?s ! 0)"
  proof -
    have "backed sample_map [Request 0 5 sample_ok sample_words] 0 (cs_values ?s ! 0)"
      using custom_runs_backed [OF r sample_map_ok] sample_good sample_count by (simp add: backed_inv_def)
    then have "v_last_good (cs_values ?s ! 0) = 5" by (auto simp: backed_def Cons_eq_append_conv)
    then show ?thesis by simp
  qed
  then have "v_quality (custom_poll_snapshot ?s sample_map 0 ! 0) = ATS_QUALITY_GOOD"
    using sample_good sample_count by (simp add: custom_poll_snapshot_def Let_def upt_rec)
  then show ?thesis using custom_snapshot_sound [OF sample_map_ok r] r sample_count by auto
qed

lemma custom_no_starvation_witness:
  "\<exists>s'. custom_waits sample_map 1 (custom_poll_init sample_map) 1 s' \<and> (1 :: nat) < custom_count sample_map"
proof -
  have "custom_waits sample_map 1 (custom_poll_init sample_map) (Suc 0) (snd (sample_step sample_ok 0 (custom_poll_init sample_map)))"
    by (rule cw_more [OF cw_none, of 0 _ _ sample_ok sample_words "''10.0.0.2''" 502 1])
      (use sample_first [of sample_ok] sample_due in \<open>auto simp: sample_step_def, simp add: custom_poll_init_def CUSTOM_MAX_POINTS_def\<close>)
  then show ?thesis
    using custom_no_starvation [OF sample_map_ok cr_init, of 1 "Suc 0"] sample_count by auto
qed

end
