(* ===== verification/Bip_Port.thy ===== *)
theory Bip_Port
  imports Modbus_Frame
begin

section \<open>The BACnet/IP port (main/bip_port.c, main/bip_port.h)\<close>

text \<open>
  The datalink of the BACnet side: addresses and masks, sending, receiving and the decoding of one
  datagram. The virtual-link codec and the 16-bit integer codec of the BACnet stack and the socket
  calls are parameters; this is the build for the device (no send hook). Addresses in network order
  are words whose least significant byte is the first octet, as on the 32-bit target.
\<close>

subsection \<open>Types\<close>

record bip_address =
  ba_address :: "u8 list"                  \<comment> \<open>four octets\<close>
  ba_port :: u16

text \<open>A BACnet address; of the array \<open>mac\<close> the six octets the port uses.\<close>

record bacnet_address =
  ad_mac_len :: u8
  ad_mac :: "u8 list"
  ad_net :: u16
  ad_len :: u8

record bip_state =
  bp_socket :: int
  bp_port :: u16
  bp_broadcast_port :: u16
  bp_address :: bip_address
  bp_broadcast :: bip_address
  bp_gateway :: bip_address
  bp_prefix :: u8
  bp_debug :: bool
  bp_last_receive_was_broadcast :: bool
  bp_interface :: string

record bvlc_lib =
  bl_max_pdu :: nat
  bl_mpdu_max :: nat
  bl_decode_header :: "u8 list \<Rightarrow> int \<times> u8 \<times> u16"
  bl_unicast :: "nat \<Rightarrow> u8 list \<Rightarrow> int \<times> u8 list"     \<comment> \<open>room, NPDU; length and frame\<close>
  bl_broadcast :: "nat \<Rightarrow> u8 list \<Rightarrow> int \<times> u8 list"
  bl_encode16 :: "u16 \<Rightarrow> u8 list"
  bl_decode16 :: "u8 list \<Rightarrow> u16"

definition BVLL_TYPE_BACNET_IP :: u8 where "BVLL_TYPE_BACNET_IP = 0x81"
definition BVLC_FORWARDED_NPDU :: u8 where "BVLC_FORWARDED_NPDU = 4"
definition BVLC_ORIGINAL_UNICAST_NPDU :: u8 where "BVLC_ORIGINAL_UNICAST_NPDU = 10"
definition BVLC_ORIGINAL_BROADCAST_NPDU :: u8 where "BVLC_ORIGINAL_BROADCAST_NPDU = 11"
definition BACNET_BROADCAST_NETWORK :: u16 where "BACNET_BROADCAST_NETWORK = 0xFFFF"

lemmas bvlc_codes [cdefs] = BVLL_TYPE_BACNET_IP_def BVLC_FORWARDED_NPDU_def BVLC_ORIGINAL_UNICAST_NPDU_def
  BVLC_ORIGINAL_BROADCAST_NPDU_def BACNET_BROADCAST_NETWORK_def

definition address_zero :: bip_address where
  "address_zero = \<lparr>ba_address = [0, 0, 0, 0], ba_port = 0\<rparr>"

definition bip_state_init :: bip_state where
  "bip_state_init = \<lparr>bp_socket = - 1, bp_port = 47808, bp_broadcast_port = 0, bp_address = address_zero,
     bp_broadcast = address_zero, bp_gateway = address_zero, bp_prefix = 0, bp_debug = False,
     bp_last_receive_was_broadcast = False, bp_interface = ''eth0''\<rparr>"

subsection \<open>Addresses and masks\<close>

text \<open>\<open>memcpy\<close> of a word in memory, and its inverse.\<close>

definition octets :: "u32 \<Rightarrow> u8 list" where
  "octets w = [ucast w, ucast (drop_bit 8 w), ucast (drop_bit 16 w), ucast (drop_bit 24 w)]"

definition of_octets :: "u8 list \<Rightarrow> u32" where
  "of_octets b = ucast (b ! 0) OR push_bit 8 (ucast (b ! 1)) OR push_bit 16 (ucast (b ! 2)) OR push_bit 24 (ucast (b ! 3))"

definition ntohl :: "u32 \<Rightarrow> u32" where
  "ntohl w = of_octets (rev (octets w))"

text \<open>Shifting out a set top bit makes the word smaller: the loop ends.\<close>

lemma top_bit_shift:
  assumes "(m :: u32) AND 0x80000000 \<noteq> 0"
  shows "unat (m * 2) < unat m"
proof -
  have "bit m 31" using assms and_exp_eq_0_iff_not_bit [of m 31] by simp
  then have "bit (unat m) 31" by (simp add: bit_unsigned_iff)
  then have "unat m div 2 ^ 31 \<noteq> 0" by (metis bit_iff_odd even_zero)
  then have "2 ^ 31 \<le> unat m" by (metis div_less leI)
  moreover have "unat m < 2 ^ 32" using unsigned_less [of m] by simp
  moreover have "unat (m * 2) = (unat m * 2) mod 2 ^ 32"
    by (simp add: unat_word_ariths)
  ultimately show ?thesis by (auto simp: mod_if split: if_splits)
qed

function prefix_loop :: "u32 \<Rightarrow> u8 \<Rightarrow> u32 \<times> u8" where
  "prefix_loop m prefix =
     (if m AND 0x80000000 \<noteq> 0 then prefix_loop (push_bit 1 m) (prefix + 1) else (m, prefix))"
  by pat_completeness auto
termination
  by (relation "measure (\<lambda>(m, prefix). unat m)") (auto simp: top_bit_shift)

declare prefix_loop.simps [simp del]

definition contiguous_prefix :: "u32 \<Rightarrow> u8" where
  "contiguous_prefix network_mask =
     (let (m, prefix) = prefix_loop (ntohl network_mask) 0 in if m = 0 then prefix else 0)"

definition bip_port_configure :: "u32 \<Rightarrow> u32 \<Rightarrow> u32 \<Rightarrow> u16 \<Rightarrow> bip_state \<Rightarrow> bip_state" where
  "bip_port_configure ip netmask gateway port s =
     s\<lparr>bp_address := \<lparr>ba_address = octets ip, ba_port = port\<rparr>, bp_port := port,
       bp_broadcast := \<lparr>ba_address = octets ((ip AND netmask) OR (NOT netmask)), ba_port = port\<rparr>,
       bp_gateway := \<lparr>ba_address = octets gateway, ba_port = 0\<rparr>,
       bp_prefix := contiguous_prefix netmask\<rparr>"

definition bip_set_subnet_prefix :: "u8 \<Rightarrow> bip_state \<Rightarrow> bool \<times> bip_state" where
  "bip_set_subnet_prefix prefix s =
     (if prefix = 0 \<or> prefix > 32 then (False, s)
      else let m = ntohl (if prefix = 32 then - 1 else push_bit (32 - unat prefix) (- 1));
               address = of_octets (ba_address (bp_address s));
               broadcast = (address AND m) OR (NOT m)
           in (True, s\<lparr>bp_prefix := prefix, bp_broadcast := (bp_broadcast s)\<lparr>ba_address := octets broadcast\<rparr>\<rparr>))"

definition bip_get_subnet_prefix :: "bip_state \<Rightarrow> u8" where
  "bip_get_subnet_prefix s = bp_prefix s"

definition bip_get_broadcast_port :: "bip_state \<Rightarrow> u16" where
  "bip_get_broadcast_port s = (if bp_broadcast_port s \<noteq> 0 then bp_broadcast_port s else bp_port s)"

definition bip_set_port :: "u16 \<Rightarrow> bip_state \<Rightarrow> bip_state" where
  "bip_set_port port s = s\<lparr>bp_port := port, bp_address := (bp_address s)\<lparr>ba_port := port\<rparr>\<rparr>"

definition bip_set_broadcast_port :: "u16 \<Rightarrow> bip_state \<Rightarrow> bip_state" where
  "bip_set_broadcast_port port s = s\<lparr>bp_broadcast_port := port, bp_broadcast := (bp_broadcast s)\<lparr>ba_port := port\<rparr>\<rparr>"

definition bip_get_port :: "bip_state \<Rightarrow> u16" where "bip_get_port s = bp_port s"

definition bip_port_changed :: bool where "bip_port_changed = False"

definition bip_set_addr :: "bip_address option \<Rightarrow> bip_state \<Rightarrow> bool \<times> bip_state" where
  "bip_set_addr address s = (case address of None \<Rightarrow> (False, s)
     | Some a \<Rightarrow> (True, s\<lparr>bp_address := a, bp_port := ba_port a\<rparr>))"

definition bip_set_broadcast_addr :: "bip_address option \<Rightarrow> bip_state \<Rightarrow> bool \<times> bip_state" where
  "bip_set_broadcast_addr address s = (case address of None \<Rightarrow> (False, s) | Some a \<Rightarrow> (True, s\<lparr>bp_broadcast := a\<rparr>))"

text \<open>The getters write to a caller's record; \<open>None\<close> is a null pointer.\<close>

definition bip_get_addr :: "bip_address option \<Rightarrow> bip_state \<Rightarrow> bool \<times> bip_address option" where
  "bip_get_addr address s = (case address of None \<Rightarrow> (False, None) | Some _ \<Rightarrow> (True, Some (bp_address s)))"

definition bip_get_broadcast_addr :: "bip_address option \<Rightarrow> bip_state \<Rightarrow> bool \<times> bip_address option" where
  "bip_get_broadcast_addr address s = (case address of None \<Rightarrow> (False, None)
     | Some _ \<Rightarrow> (True, Some ((bp_broadcast s)\<lparr>ba_port := bip_get_broadcast_port s\<rparr>)))"

definition bip_get_gateway_addr :: "bip_address option \<Rightarrow> bip_state \<Rightarrow> bool \<times> bip_address option" where
  "bip_get_gateway_addr address s = (case address of None \<Rightarrow> (False, None) | Some _ \<Rightarrow> (True, Some (bp_gateway s)))"

definition bip_set_broadcast_binding :: "(string \<Rightarrow> u32 option) \<Rightarrow> string option \<Rightarrow> bip_state \<Rightarrow> int \<times> bip_state" where
  "bip_set_broadcast_binding inet_aton ip4 s =
     (case ip4 of None \<Rightarrow> (- 1, s) | Some a \<Rightarrow>
        (case inet_aton a of None \<Rightarrow> (- 1, s)
         | Some w \<Rightarrow> (0, s\<lparr>bp_broadcast := (bp_broadcast s)\<lparr>ba_address := octets w\<rparr>\<rparr>)))"

definition bip_get_addr_by_name :: "(string \<Rightarrow> u32 option) \<Rightarrow> string option \<Rightarrow> bip_address option \<Rightarrow> bool \<times> bip_address option" where
  "bip_get_addr_by_name getaddrinfo host address =
     (case (host, address) of
        (Some h, Some a) \<Rightarrow> (case getaddrinfo h of None \<Rightarrow> (False, address) | Some w \<Rightarrow> (True, Some (a\<lparr>ba_address := octets w\<rparr>)))
      | _ \<Rightarrow> (False, address))"

definition bip_debug_enable :: "bip_state \<Rightarrow> bip_state" where "bip_debug_enable s = s\<lparr>bp_debug := True\<rparr>"
definition bip_debug_disable :: "bip_state \<Rightarrow> bip_state" where "bip_debug_disable s = s\<lparr>bp_debug := False\<rparr>"
definition bip_get_socket :: "bip_state \<Rightarrow> int" where "bip_get_socket s = bp_socket s"
definition bip_get_broadcast_socket :: "bip_state \<Rightarrow> int" where "bip_get_broadcast_socket s = bp_socket s"

text \<open>\<open>snprintf\<close> into the sixteen bytes of the interface name.\<close>

definition bip_set_interface :: "string option \<Rightarrow> bip_state \<Rightarrow> bip_state" where
  "bip_set_interface ifname s = (case ifname of None \<Rightarrow> s | Some n \<Rightarrow> s\<lparr>bp_interface := take 15 n\<rparr>)"

definition bip_get_interface :: "bip_state \<Rightarrow> string" where "bip_get_interface s = bp_interface s"

subsection \<open>The socket\<close>

definition bip_valid :: "bip_state \<Rightarrow> bool" where "bip_valid s \<longleftrightarrow> bp_socket s \<ge> 0"

definition bip_cleanup :: "bip_state \<Rightarrow> bip_state \<times> int list" where
  \<comment> \<open>with the descriptors it closes\<close>
  "bip_cleanup s = (if bp_socket s \<ge> 0 then (s\<lparr>bp_socket := - 1\<rparr>, [bp_socket s]) else (s, []))"

record bip_open =
  bo_socket :: int
  bo_broadcast :: int                      \<comment> \<open>\<open>setsockopt\<close> of \<open>SO_BROADCAST\<close>\<close>
  bo_bind :: int

definition bip_init :: "bip_open \<Rightarrow> string option \<Rightarrow> bip_state \<Rightarrow> bool \<times> bip_state \<times> int list" where
  "bip_init opn ifname s =
     (let s = (case ifname of Some (c # n) \<Rightarrow> bip_set_interface (Some (c # n)) s | _ \<Rightarrow> s);
          (s, closed) = bip_cleanup s;
          s = s\<lparr>bp_socket := bo_socket opn\<rparr>
      in if bp_socket s < 0 then (False, s, closed)
         else if bo_broadcast opn < 0 then let (s, c) = bip_cleanup s in (False, s, closed @ c)
         else if bo_bind opn < 0 then let (s, c) = bip_cleanup s in (False, s, closed @ c)
         else (True, s, closed))"

subsection \<open>Sending\<close>

definition bip_get_broadcast_address :: "bvlc_lib \<Rightarrow> bip_state \<Rightarrow> bacnet_address option \<Rightarrow> bacnet_address option" where
  "bip_get_broadcast_address lib s dest = (case dest of None \<Rightarrow> None
     | Some _ \<Rightarrow> Some \<lparr>ad_mac_len = 6, ad_mac = ba_address (bp_broadcast s) @ bl_encode16 lib (bip_get_broadcast_port s),
         ad_net = BACNET_BROADCAST_NETWORK, ad_len = 0\<rparr>)"

definition bip_get_my_address :: "bvlc_lib \<Rightarrow> bip_state \<Rightarrow> bacnet_address option \<Rightarrow> bacnet_address option" where
  "bip_get_my_address lib s address = (case address of None \<Rightarrow> None
     | Some _ \<Rightarrow> Some \<lparr>ad_mac_len = 6, ad_mac = ba_address (bp_address s) @ bl_encode16 lib (bp_port s),
         ad_net = 0, ad_len = 0\<rparr>)"

text \<open>The result, and the datagram handed to the socket, if any. \<open>sendto\<close> is the platform's answer.\<close>

definition bip_send_mpdu :: "(bip_address \<Rightarrow> u8 list \<Rightarrow> int) \<Rightarrow> bip_state \<Rightarrow> bip_address option \<Rightarrow> u8 list option \<Rightarrow>
    int \<times> (bip_address \<times> u8 list) option" where
  "bip_send_mpdu sendto s dest mtu =
     (case (dest, mtu) of
        (Some d, Some m) \<Rightarrow> if bp_socket s < 0 \<or> m = [] then (- 1, None) else (sendto d m, Some (d, m))
      | _ \<Rightarrow> (- 1, None))"

definition bip_send_pdu :: "bvlc_lib \<Rightarrow> (bip_address \<Rightarrow> u8 list \<Rightarrow> int) \<Rightarrow> bip_state \<Rightarrow> bacnet_address option \<Rightarrow>
    u8 list option \<Rightarrow> int \<times> (bip_address \<times> u8 list) option" where
  "bip_send_pdu lib sendto s dest pdu =
     (case (dest, pdu) of
        (Some d, Some p) \<Rightarrow>
          if length p > bl_max_pdu lib then (- 1, None)
          else if ad_net d = BACNET_BROADCAST_NETWORK \<or> ad_mac_len d = 0 \<or>
                  (ad_net d > 0 \<and> ad_len d = 0 \<and> ad_mac_len d \<noteq> 6)
          then let target = (bp_broadcast s)\<lparr>ba_port := bip_get_broadcast_port s\<rparr>;
                   (n, frame) = bl_broadcast lib (bl_mpdu_max lib) (take (unat (of_nat (length p) :: u16)) p)
               in if n > 0 then bip_send_mpdu sendto s (Some target) (Some (take (unat (word_of_int n :: u16)) frame)) else (- 1, None)
          else if ad_mac_len d = 6
          then let target = \<lparr>ba_address = take 4 (ad_mac d), ba_port = bl_decode16 lib (drop 4 (ad_mac d))\<rparr>;
                   (n, frame) = bl_unicast lib (bl_mpdu_max lib) (take (unat (of_nat (length p) :: u16)) p)
               in if n > 0 then bip_send_mpdu sendto s (Some target) (Some (take (unat (word_of_int n :: u16)) frame)) else (- 1, None)
          else (- 1, None)
      | _ \<Rightarrow> (- 1, None))"

subsection \<open>Receiving\<close>

definition slice :: "'a list \<Rightarrow> nat \<Rightarrow> nat \<Rightarrow> 'a list option" where
  \<comment> \<open>a copy of \<open>n\<close> elements, faulting outside the memory\<close>
  "slice f i n = (if i + n \<le> length f then Some (take n (drop i f)) else None)"

text \<open>The origin of a datagram: its source, the offset of the NPDU, and the state with the
  broadcast flag; the inner \<open>None\<close> is an unsupported function.\<close>

definition bvlc_origin :: "bvlc_lib \<Rightarrow> bip_state \<Rightarrow> u8 list \<Rightarrow> nat \<Rightarrow> u8 \<Rightarrow> bip_address \<Rightarrow>
    (bip_address \<times> nat \<times> bip_state) option option" where
  "bvlc_origin lib s f received fn source =
     (if fn = BVLC_ORIGINAL_UNICAST_NPDU
      then Some (Some (source, 4, s\<lparr>bp_last_receive_was_broadcast := False\<rparr>))
      else if fn = BVLC_ORIGINAL_BROADCAST_NPDU
      then Some (Some (source, 4, s\<lparr>bp_last_receive_was_broadcast := True\<rparr>))
      else if fn = BVLC_FORWARDED_NPDU \<and> received \<ge> 10
      then do { a \<leftarrow> slice f 4 4; p \<leftarrow> slice f 8 2;
                Some (Some (\<lparr>ba_address = a, ba_port = bl_decode16 lib p\<rparr>, 10, s\<lparr>bp_last_receive_was_broadcast := True\<rparr>)) }
      else Some None)"

definition global_broadcast :: "u8 list \<Rightarrow> nat \<Rightarrow> nat \<Rightarrow> bool option" where
  "global_broadcast f offset n =
     (if n < 6 then Some False
      else do { b1 \<leftarrow> rd f (offset + 1);
                if b1 AND 0x20 = 0 then Some False
                else do { b2 \<leftarrow> rd f (offset + 2);
                  if b2 \<noteq> 0xff then Some False
                  else do { b3 \<leftarrow> rd f (offset + 3);
                    if b3 \<noteq> 0xff then Some False
                    else do { b4 \<leftarrow> rd f (offset + 4); Some (b4 = 0) } } } })"

text \<open>The caller's records and the state afterwards; \<open>None\<close> outside is a read past the
  datagram or a write past the caller's buffer.\<close>

definition bip_port_decode_datagram ::
    "bvlc_lib \<Rightarrow> bip_state \<Rightarrow> u8 list option \<Rightarrow> nat \<Rightarrow> u32 \<Rightarrow> u16 \<Rightarrow> bacnet_address option \<Rightarrow> u8 list option \<Rightarrow> u16 \<Rightarrow>
     (u16 \<times> bacnet_address option \<times> u8 list option \<times> bip_state) option" where
  "bip_port_decode_datagram lib s frame received source_ip source_port src pdu max_pdu =
     (case (frame, src, pdu) of
        (Some f, Some a, Some p) \<Rightarrow>
          if received < 6 \<or> received > 65535 then Some (0, src, pdu, s)
          else do {
            b0 \<leftarrow> rd f 0;
            if b0 \<noteq> BVLL_TYPE_BACNET_IP then Some (0, src, pdu, s)
            else do {
              header \<leftarrow> slice f 0 received;
              let (n, fn, declared) = bl_decode_header lib header;
              if n \<noteq> 4 \<or> declared \<noteq> of_nat received then Some (0, src, pdu, s)
              else do {
                orig \<leftarrow> bvlc_origin lib s f received fn \<lparr>ba_address = octets source_ip, ba_port = source_port\<rparr>;
                case orig of
                  None \<Rightarrow> Some (0, src, pdu, s)
                | Some (source, offset, s) \<Rightarrow>
                    let npdu_len = (of_nat received - of_nat offset :: u16) in
                    if ba_address source = ba_address (bp_address s) \<and> ba_port source = bp_port s
                    then Some (0, src, pdu, s)
                    else if npdu_len > max_pdu then Some (0, src, pdu, s)
                    else let src = Some \<lparr>ad_mac_len = 6, ad_mac = ba_address source @ bl_encode16 lib (ba_port source),
                                         ad_net = 0, ad_len = 0\<rparr> in
                      if npdu_len < 2 then Some (0, src, pdu, s)
                      else do {
                        g \<leftarrow> global_broadcast f offset (unat npdu_len);
                        let s = (if g then s\<lparr>bp_last_receive_was_broadcast := True\<rparr> else s);
                        data \<leftarrow> slice f offset (unat npdu_len);
                        if length p < length data then None
                        else Some (npdu_len, src, Some (blit p data), s) } } } }
      | _ \<Rightarrow> Some (0, src, pdu, s))"

definition bip_port_last_receive_was_broadcast :: "bip_state \<Rightarrow> bool" where
  "bip_port_last_receive_was_broadcast s = bp_last_receive_was_broadcast s"

record bip_wait =
  bw_ready :: int                          \<comment> \<open>\<open>select\<close>\<close>
  bw_received :: int                       \<comment> \<open>\<open>recvfrom\<close>\<close>
  bw_frame :: "u8 list"                    \<comment> \<open>the frame buffer afterwards\<close>
  bw_ip :: u32
  bw_port :: u16                           \<comment> \<open>in host order\<close>

definition bip_receive :: "bvlc_lib \<Rightarrow> bip_wait \<Rightarrow> bip_state \<Rightarrow> bacnet_address option \<Rightarrow> u8 list option \<Rightarrow> u16 \<Rightarrow>
    (u16 \<times> bacnet_address option \<times> u8 list option \<times> bip_state) option" where
  "bip_receive lib w s src pdu max_pdu =
     (if bp_socket s < 0 \<or> src = None \<or> pdu = None \<or> max_pdu < 4 then Some (0, src, pdu, s)
      else if bw_ready w \<le> 0 then Some (0, src, pdu, s)
      else if bw_received w \<le> 0 then Some (0, src, pdu, s)
      else bip_port_decode_datagram lib s (Some (bw_frame w)) (nat (bw_received w)) (bw_ip w) (bw_port w) src pdu max_pdu)"

definition bvlc_maintenance_timer :: "u16 \<Rightarrow> bip_state \<Rightarrow> bip_state" where
  "bvlc_maintenance_timer seconds s = s"

section \<open>Correctness of the BACnet/IP port\<close>

subsection \<open>The codec of the BACnet stack\<close>

text \<open>What the code relies on of the codec: the header of Annex J and 16-bit integers in network order.\<close>

definition bvlc_frame :: "u8 \<Rightarrow> u8 list \<Rightarrow> u8 list" where
  "bvlc_frame fn npdu = [BVLL_TYPE_BACNET_IP, fn] @ write_be16 (of_nat (length npdu + 4)) @ npdu"

definition bvlc_ok :: "bvlc_lib \<Rightarrow> bool" where
  "bvlc_ok lib \<longleftrightarrow>
     bl_max_pdu lib + 4 \<le> bl_mpdu_max lib \<and> bl_mpdu_max lib < 65536 \<and>
     bl_encode16 lib = write_be16 \<and> (\<forall>hi lo. bl_decode16 lib [hi, lo] = be16 hi lo) \<and>
     (\<forall>fn hi lo rest. bl_decode_header lib (BVLL_TYPE_BACNET_IP # fn # hi # lo # rest) = (4, fn, be16 hi lo)) \<and>
     (\<forall>room npdu. length npdu + 4 \<le> room \<longrightarrow>
        fst (bl_unicast lib room npdu) = int (length npdu + 4) \<and>
        take (length npdu + 4) (snd (bl_unicast lib room npdu)) = bvlc_frame BVLC_ORIGINAL_UNICAST_NPDU npdu \<and>
        fst (bl_broadcast lib room npdu) = int (length npdu + 4) \<and>
        take (length npdu + 4) (snd (bl_broadcast lib room npdu)) = bvlc_frame BVLC_ORIGINAL_BROADCAST_NPDU npdu)"

definition bvlc_reference :: bvlc_lib where
  "bvlc_reference = \<lparr>bl_max_pdu = 1476, bl_mpdu_max = 1506,
     bl_decode_header = (\<lambda>f. case f of t # fn # hi # lo # rest \<Rightarrow>
        if t = BVLL_TYPE_BACNET_IP then (4, fn, be16 hi lo) else (0, 0, 0) | _ \<Rightarrow> (0, 0, 0)),
     bl_unicast = (\<lambda>room npdu. if length npdu + 4 \<le> room
        then (int (length npdu + 4), bvlc_frame BVLC_ORIGINAL_UNICAST_NPDU npdu) else (0, [])),
     bl_broadcast = (\<lambda>room npdu. if length npdu + 4 \<le> room
        then (int (length npdu + 4), bvlc_frame BVLC_ORIGINAL_BROADCAST_NPDU npdu) else (0, [])),
     bl_encode16 = write_be16, bl_decode16 = (\<lambda>b. be16 (b ! 0) (b ! 1))\<rparr>"

lemma length_bvlc_frame [simp]: "length (bvlc_frame fn npdu) = length npdu + 4"
  by (simp add: bvlc_frame_def write_be16_def)

lemma bvlc_reference_ok: "bvlc_ok bvlc_reference"
  by (simp add: bvlc_ok_def bvlc_reference_def take_all)

lemma be16_write_be16: "write_be16 w = [hi, lo] \<Longrightarrow> be16 hi lo = w"
  by (auto simp: write_be16_def be16_def intro!: bit_word_eqI simp: bit_simps)

subsection \<open>A reference parser of datagrams\<close>

text \<open>Whether it was broadcast, the origin it names, and the NPDU.\<close>

fun bvlc_datagram :: "u8 list \<Rightarrow> (bool \<times> bip_address option \<times> u8 list) option" where
  "bvlc_datagram (t # fn # hi # lo # rest) =
     (if t \<noteq> BVLL_TYPE_BACNET_IP \<or> unat (be16 hi lo) \<noteq> length rest + 4 \<or> length rest < 2 then None
      else if fn = BVLC_ORIGINAL_UNICAST_NPDU then Some (False, None, rest)
      else if fn = BVLC_ORIGINAL_BROADCAST_NPDU then Some (True, None, rest)
      else if fn = BVLC_FORWARDED_NPDU then
        (case rest of a # b # c # d # phi # plo # npdu \<Rightarrow>
            Some (True, Some \<lparr>ba_address = [a, b, c, d], ba_port = be16 phi plo\<rparr>, npdu)
         | _ \<Rightarrow> None)
      else None)"
| "bvlc_datagram _ = None"

fun npdu_global :: "u8 list \<Rightarrow> bool" where
  "npdu_global (version # control # n1 # n2 # len # hops # rest) \<longleftrightarrow>
     control AND 0x20 \<noteq> 0 \<and> n1 = 0xff \<and> n2 = 0xff \<and> len = 0"
| "npdu_global _ \<longleftrightarrow> False"

definition mac_of :: "bip_address \<Rightarrow> bacnet_address" where
  "mac_of a = \<lparr>ad_mac_len = 6, ad_mac = ba_address a @ write_be16 (ba_port a), ad_net = 0, ad_len = 0\<rparr>"

text \<open>What the port makes of a parsed datagram.\<close>

definition bip_accept :: "bip_state \<Rightarrow> bip_address \<Rightarrow> bacnet_address \<Rightarrow> u8 list \<Rightarrow> u16 \<Rightarrow> bool \<times> bip_address option \<times> u8 list \<Rightarrow>
    u16 \<times> bacnet_address option \<times> u8 list option \<times> bip_state" where
  "bip_accept s sender a p max_pdu d =
     (let (broadcast, origin, npdu) = d;
          source = (case origin of Some source \<Rightarrow> source | None \<Rightarrow> sender);
          s' = s\<lparr>bp_last_receive_was_broadcast := broadcast\<rparr>
      in if (ba_address source = ba_address (bp_address s) \<and> ba_port source = bp_port s) \<or> length npdu > unat max_pdu
         then (0, Some a, Some p, s')
         else if length npdu < 2 then (0, Some (mac_of source), Some p, s')
         else (of_nat (length npdu), Some (mac_of source), Some (blit p npdu),
               s'\<lparr>bp_last_receive_was_broadcast := broadcast \<or> npdu_global npdu\<rparr>))"

lemma slice_all: "slice f 0 (length f) = Some f"
  by (simp add: slice_def)

lemma slice_tail: "offset \<le> length f \<Longrightarrow> slice f offset (length f - offset) = Some (drop offset f)"
  by (simp add: slice_def)

lemma global_broadcast_npdu:
  assumes "offset \<le> length f"
  shows "global_broadcast f offset (length f - offset) = Some (npdu_global (drop offset f))"
proof -
  have r: "\<And>i. offset + i < length f \<Longrightarrow> rd f (offset + i) = Some (drop offset f ! i)"
    by (simp add: rd_def)
  show ?thesis
    using assms r [of 1] r [of 2] r [of 3] r [of 4]
    by (cases "drop offset f" rule: npdu_global.cases)
      (auto simp: global_broadcast_def dest!: arg_cong [of _ _ length])
qed

text \<open>Reads inside the received part of the buffer.\<close>

lemma slice_eq: "i + n \<le> received \<Longrightarrow> received \<le> length f \<Longrightarrow> slice f i n = slice (take received f) i n"
  by (simp add: slice_def drop_take min_def)

lemma global_broadcast_eq:
  assumes "offset + n \<le> received" "received \<le> length f"
  shows "global_broadcast f offset n = global_broadcast (take received f) offset n"
proof (cases "n < 6")
  case False
  then have "\<And>i. i < 6 \<Longrightarrow> rd f (offset + i) = rd (take received f) (offset + i)"
    using assms by (simp add: rd_def)
  from this [of 1] this [of 2] this [of 3] this [of 4] show ?thesis
    unfolding global_broadcast_def by (simp only: numeral_less_iff semiring_norm one_less_numeral_iff)
qed (simp add: global_broadcast_def)

lemma npdu_reads:
  assumes "offset \<le> received" "received \<le> length f" "received \<le> 65535"
    and w: "w = (of_nat received - of_nat offset :: u16)" and npdu: "npdu = drop offset (take received f)"
  shows "unat w = length npdu" "w = of_nat (length npdu)"
    "slice f offset (length npdu) = Some npdu" "global_broadcast f offset (length npdu) = Some (npdu_global npdu)"
proof -
  have l: "length npdu = received - offset" using assms(2) by (simp add: npdu min_absorb2)
  show w': "w = of_nat (length npdu)" using assms(1) by (simp add: w l)
  show "unat w = length npdu" unfolding w' using assms(3) l by (simp only: unat_of_nat) simp
  have t: "length (take received f) = received" using assms(2) by simp
  have g: "offset + length npdu \<le> received" using assms(1) l by simp
  show "slice f offset (length npdu) = Some npdu"
    unfolding slice_eq [OF g assms(2)] using slice_tail [of offset "take received f"] assms(1) unfolding t l unfolding npdu by simp
  show "global_broadcast f offset (length npdu) = Some (npdu_global npdu)"
    unfolding global_broadcast_eq [OF g assms(2)]
    using global_broadcast_npdu [of offset "take received f"] assms(1) unfolding t l unfolding npdu by simp
qed

text \<open>From the origin on.\<close>

lemma decode_from_origin:
  assumes lib: "bl_encode16 lib = write_be16" and r: "6 \<le> received" "received \<le> length f" "received \<le> 65535"
    and b0: "f ! 0 = BVLL_TYPE_BACNET_IP"
    and header: "bl_decode_header lib (take received f) = (4, fn, of_nat received)"
    and origin: "bvlc_origin lib s f received fn \<lparr>ba_address = octets ip, ba_port = port\<rparr> =
        Some (Some (source, offset, s\<lparr>bp_last_receive_was_broadcast := broadcast\<rparr>))"
    and offset: "offset \<le> received" and room: "unat max_pdu \<le> length p"
  shows "bip_port_decode_datagram lib s (Some f) received ip port (Some a) (Some p) max_pdu =
    Some (bip_accept s source a p max_pdu (broadcast, None, drop offset (take received f)))"
proof -
  define w where "w = (of_nat received - of_nat offset :: u16)"
  define npdu where "npdu = drop offset (take received f)"
  note reads = npdu_reads [OF offset r(2,3) w_def npdu_def]
  have cmp: "max_pdu < w \<longleftrightarrow> unat max_pdu < length npdu" "w < 2 \<longleftrightarrow> length npdu < 2"
    by (simp_all add: word_less_nat_alt reads(1))
  have b: "\<not> (received < 6 \<or> received > 65535)" using r by simp
  have f0: "rd f 0 = Some (f ! 0)" using r by (intro rd_in) linarith
  have h: "slice f 0 received = Some (take received f)" using r by (simp add: slice_def)
  note eval = bip_port_decode_datagram_def b f0 b0 h header origin w_def [symmetric] npdu_def [symmetric]
    Let_def bip_accept_def cmp
  consider (own) "ba_address source = ba_address (bp_address s) \<and> ba_port source = bp_port s"
    | (long) "\<not> (ba_address source = ba_address (bp_address s) \<and> ba_port source = bp_port s)" "unat max_pdu < length npdu"
    | (short) "\<not> (ba_address source = ba_address (bp_address s) \<and> ba_port source = bp_port s)"
        "\<not> unat max_pdu < length npdu" "length npdu < 2"
    | (ok) "\<not> (ba_address source = ba_address (bp_address s) \<and> ba_port source = bp_port s)"
        "\<not> unat max_pdu < length npdu" "\<not> length npdu < 2"
    by blast
  then show ?thesis
  proof cases
    case ok
    then have space: "\<not> length p < length npdu" using room by simp
    have own: "(ba_address source = ba_address (bp_address s) \<and> ba_port source = bp_port s) = False" using ok(1) by blast
    show ?thesis
      by (simp add: ok(2,3) own space eval lib mac_of_def reads(1,3,4) reads(2) [symmetric] del: drop_take)
  next
    case short
    have own: "(ba_address source = ba_address (bp_address s) \<and> ba_port source = bp_port s) = False" using short(1) by blast
    show ?thesis by (simp add: short(2,3) own eval lib mac_of_def del: drop_take)
  qed (simp_all add: eval lib mac_of_def del: drop_take)
qed

lemma bip_accept_origin: "bip_accept s sender a p m (broadcast, Some b, npdu) = bip_accept s b a p m (broadcast, None, npdu)"
  by (simp add: bip_accept_def)

lemma decode_exact:
  assumes lib: "bvlc_ok lib" and r: "received \<le> length f" and room: "unat max_pdu \<le> length p"
  shows "bip_port_decode_datagram lib s (Some f) received ip port (Some a) (Some p) max_pdu =
    Some (case bvlc_datagram (take received f) of
            None \<Rightarrow> (0, Some a, Some p, s)
          | Some d \<Rightarrow> bip_accept s \<lparr>ba_address = octets ip, ba_port = port\<rparr> a p max_pdu d)"
proof (cases "received < 6 \<or> received > 65535")
  case True
  have "bvlc_datagram (take received f) = None"
  proof (cases "take received f" rule: bvlc_datagram.cases)
    case (1 t fn hi lo rest)
    have l: "length rest + 4 = received" using arg_cong [OF 1, of length] r by simp
    have "unat (be16 hi lo) < 65536" using unsigned_less [of "be16 hi lo"] by simp
    with l True have "unat (be16 hi lo) \<noteq> length rest + 4 \<or> length rest < 2" by auto
    then show ?thesis by (auto simp: 1)
  qed auto
  with True show ?thesis by (auto simp: bip_port_decode_datagram_def)
next
  case False
  then obtain t fn hi lo rest where f: "take received f = t # fn # hi # lo # rest"
    using r by (cases "take received f" rule: bvlc_datagram.cases) (auto dest!: arg_cong [of _ _ length])
  have l: "length rest + 4 = received" using arg_cong [OF f, of length] r by simp
  have t: "f ! 0 = t" using arg_cong [OF f, of "\<lambda>x. x ! 0"] False by simp
  have f0: "rd f 0 = Some t" using t r False unfolding rd_eq_Some by linarith
  have h: "slice f 0 received = Some (take received f)" using r by (simp add: slice_def)
  have declared: "be16 hi lo = of_nat received \<longleftrightarrow> unat (be16 hi lo) = length rest + 4"
  proof -
    have "unat (of_nat received :: u16) = received" using False by (subst unat_of_nat_small) simp_all
    then show ?thesis using l by (metis word_unat_eq_iff)
  qed
  show ?thesis
  proof (cases "t = BVLL_TYPE_BACNET_IP \<and> be16 hi lo = of_nat received")
    case False
    with f f0 h lib declared \<open>\<not> (received < 6 \<or> received > 65535)\<close> show ?thesis
      by (auto simp: bip_port_decode_datagram_def bvlc_ok_def)
  next
    case True
    then have t81: "f ! 0 = BVLL_TYPE_BACNET_IP" and len: "unat (be16 hi lo) = length rest + 4"
      using t declared by simp_all
    have header: "bl_decode_header lib (take received f) = (4, fn, of_nat received)"
      using lib True by (simp add: f bvlc_ok_def)
    have bounds: "6 \<le> received" "received \<le> 65535" "2 \<le> length rest" using False l by simp_all
    note from_origin = decode_from_origin [OF _ bounds(1) r bounds(2) t81 header, unfolded f]
    consider (uni) "fn = BVLC_ORIGINAL_UNICAST_NPDU" | (bro) "fn = BVLC_ORIGINAL_BROADCAST_NPDU"
      | (fwd) "fn = BVLC_FORWARDED_NPDU" "10 \<le> received" | (no) "fn = BVLC_FORWARDED_NPDU" "received < 10"
      | (other) "fn \<notin> {BVLC_ORIGINAL_UNICAST_NPDU, BVLC_ORIGINAL_BROADCAST_NPDU, BVLC_FORWARDED_NPDU}"
      by fastforce
    then show ?thesis
    proof cases
      case uni
      show ?thesis
        using from_origin [of s ip port "\<lparr>ba_address = octets ip, ba_port = port\<rparr>" 4 False max_pdu p a] lib room bounds len True
        by (simp add: uni f bvlc_origin_def cdefs bvlc_ok_def)
    next
      case bro
      show ?thesis
        using from_origin [of s ip port "\<lparr>ba_address = octets ip, ba_port = port\<rparr>" 4 True max_pdu p a] lib room bounds len True
        by (simp add: bro f bvlc_origin_def cdefs bvlc_ok_def)
    next
      case fwd
      obtain b1 b2 b3 b4 p1 p2 npdu where rest: "rest = b1 # b2 # b3 # b4 # p1 # p2 # npdu"
        using fwd l by (auto simp: numeral_eq_Suc length_Suc_conv dest!: le_Suc_ex)
      have "slice f 4 4 = Some [b1, b2, b3, b4]" "slice f 8 2 = Some [p1, p2]"
        using slice_eq [of 4 4 received f] slice_eq [of 8 2 received f] fwd r by (simp_all add: f rest slice_def)
      then show ?thesis
        using from_origin [of s ip port "\<lparr>ba_address = [b1, b2, b3, b4], ba_port = be16 p1 p2\<rparr>" 10 True max_pdu p a]
          lib room bounds len True fwd
        by (simp add: f rest bvlc_origin_def cdefs bvlc_ok_def bip_accept_origin)
    qed (use f f0 t h header len bounds True l in \<open>auto simp: bip_port_decode_datagram_def bvlc_origin_def cdefs split: list.splits\<close>)
  qed
qed

text \<open>C21 (bip_decode_exact): a datagram is decoded exactly as the reference parser reads the received
  octets: whatever the parser refuses changes nothing, the station's own datagrams and those too long are
  refused, and for the others the caller gets the NPDU, its length and the origin's address, with the
  broadcast flag telling whether it was broadcast on the link or addressed to all networks. It never reads
  outside the received octets nor writes outside the caller's buffer.\<close>

theorem bip_decode_exact:
  assumes lib: "bvlc_ok lib" and r: "received \<le> length f" and room: "unat max_pdu \<le> length p"
  shows "bip_port_decode_datagram lib s (Some f) received ip port (Some a) (Some p) max_pdu =
    Some (case bvlc_datagram (take received f) of
            None \<Rightarrow> (0, Some a, Some p, s)
          | Some d \<Rightarrow> bip_accept s \<lparr>ba_address = octets ip, ba_port = port\<rparr> a p max_pdu d)"
  by (rule decode_exact [OF assms])

definition demo_forwarded :: "u8 list" where
  "demo_forwarded = [0x81, 4, 0, 14, 10, 0, 0, 7, 0xba, 0xc0, 1, 0, 0x10, 8]"

theorem bip_decode_exact_witness:
  "bip_port_decode_datagram bvlc_reference bip_state_init (Some (demo_forwarded @ [0, 0])) 14 0 0
      (Some (mac_of address_zero)) (Some [0, 0, 0, 0, 0, 0]) 6 =
    Some (4, Some (mac_of \<lparr>ba_address = [10, 0, 0, 7], ba_port = 47808\<rparr>), Some [1, 0, 0x10, 8, 0, 0],
      bip_state_init\<lparr>bp_last_receive_was_broadcast := True\<rparr>)"
proof -
  have "bvlc_datagram (take 14 (demo_forwarded @ [0, 0])) =
      Some (True, Some \<lparr>ba_address = [10, 0, 0, 7], ba_port = 47808\<rparr>, [1, 0, 0x10, 8])"
    by (simp add: demo_forwarded_def cdefs be16_def)
  then show ?thesis
    using bip_decode_exact [of bvlc_reference 14 "demo_forwarded @ [0, 0]" 6 "[0, 0, 0, 0, 0, 0]" bip_state_init 0 0 "mac_of address_zero"]
    by (simp add: bvlc_reference_ok demo_forwarded_def bip_accept_def blit_def bip_state_init_def address_zero_def)
qed

subsection \<open>Sending and receiving\<close>

lemma octets_of_octets: "length b = 4 \<Longrightarrow> octets (of_octets b) = b"
proof -
  have four: "octets (of_octets [b0, b1, b2, b3]) = [b0, b1, b2, b3]" for b0 b1 b2 b3
    by (simp add: octets_def of_octets_def) (intro conjI bit_word_eqI; auto simp: bit_simps dest: bit_imp_le_length)
  show "length b = 4 \<Longrightarrow> octets (of_octets b) = b"
    using four by (auto simp: numeral_eq_Suc length_Suc_conv)
qed

lemma of_octets_octets: "of_octets (octets w) = w"
proof (rule bit_word_eqI)
  fix n assume "n < LENGTH(32)"
  then consider "n < 8" | "8 \<le> n" "n < 16" | "16 \<le> n" "n < 24" | "24 \<le> n" "n < 32" by fastforce
  then show "bit (of_octets (octets w)) n = bit w n"
    by cases (auto simp: octets_def of_octets_def bit_simps)
qed

lemma length_octets [simp]: "length (octets w) = 4"
  by (simp add: octets_def)

lemma bvlc_datagram_frame:
  assumes "2 \<le> length npdu" "length npdu + 4 < 65536"
  shows "bvlc_datagram (bvlc_frame BVLC_ORIGINAL_UNICAST_NPDU npdu) = Some (False, None, npdu)"
    "bvlc_datagram (bvlc_frame BVLC_ORIGINAL_BROADCAST_NPDU npdu) = Some (True, None, npdu)"
proof -
  obtain hi lo where w: "write_be16 (of_nat (length npdu + 4)) = [hi, lo]" by (simp add: write_be16_def)
  have "unat (be16 hi lo) = length npdu + 4"
    unfolding be16_write_be16 [OF w] using assms(2) by (subst unat_of_nat_small) simp_all
  with assms(1) w show "bvlc_datagram (bvlc_frame BVLC_ORIGINAL_UNICAST_NPDU npdu) = Some (False, None, npdu)"
    "bvlc_datagram (bvlc_frame BVLC_ORIGINAL_BROADCAST_NPDU npdu) = Some (True, None, npdu)"
    by (simp_all add: bvlc_frame_def cdefs)
qed

text \<open>The link-level meaning of a destination.\<close>

definition dest_broadcast :: "bacnet_address \<Rightarrow> bool" where
  "dest_broadcast d \<longleftrightarrow> ad_net d = BACNET_BROADCAST_NETWORK \<or> ad_mac_len d = 0 \<or>
     (ad_net d > 0 \<and> ad_len d = 0 \<and> ad_mac_len d \<noteq> 6)"

definition dest_target :: "bip_state \<Rightarrow> bacnet_address \<Rightarrow> bip_address" where
  "dest_target s d =
     (if dest_broadcast d then \<lparr>ba_address = ba_address (bp_broadcast s), ba_port = bip_get_broadcast_port s\<rparr>
      else \<lparr>ba_address = take 4 (ad_mac d), ba_port = be16 (ad_mac d ! 4) (ad_mac d ! 5)\<rparr>)"

definition dest_frame :: "bacnet_address \<Rightarrow> u8 list \<Rightarrow> u8 list" where
  "dest_frame d npdu =
     bvlc_frame (if dest_broadcast d then BVLC_ORIGINAL_BROADCAST_NPDU else BVLC_ORIGINAL_UNICAST_NPDU) npdu"

lemma send_pdu_sends:
  assumes lib: "bvlc_ok lib" and sock: "0 \<le> bp_socket s" and len: "length npdu \<le> bl_max_pdu lib"
    and d: "dest_broadcast d \<or> ad_mac_len d = 6" "length (ad_mac d) = 6"
  shows "bip_send_pdu lib sendto s (Some d) (Some npdu) =
    (sendto (dest_target s d) (dest_frame d npdu), Some (dest_target s d, dest_frame d npdu))"
proof -
  have fits: "length npdu + 4 \<le> bl_mpdu_max lib" "length npdu + 4 < 65536" using lib len by (auto simp: bvlc_ok_def)
  obtain fu where u: "bl_unicast lib (bl_mpdu_max lib) npdu = (int (length npdu + 4), fu)"
      "take (length npdu + 4) fu = bvlc_frame BVLC_ORIGINAL_UNICAST_NPDU npdu"
    using lib fits by (cases "bl_unicast lib (bl_mpdu_max lib) npdu") (force simp: bvlc_ok_def)
  obtain fb where b: "bl_broadcast lib (bl_mpdu_max lib) npdu = (int (length npdu + 4), fb)"
      "take (length npdu + 4) fb = bvlc_frame BVLC_ORIGINAL_BROADCAST_NPDU npdu"
    using lib fits by (cases "bl_broadcast lib (bl_mpdu_max lib) npdu") (force simp: bvlc_ok_def)
  have len16: "take (unat (of_nat (length npdu) :: u16)) npdu = npdu"
    using fits(2) by (subst unat_of_nat_small) simp_all
  have size16: "unat (word_of_int (int (length npdu + 4)) :: u16) = length npdu + 4"
    using fits(2) unat_of_nat_small [of "length npdu + 4", where 'a = 16] by simp
  have ne: "\<And>fn. bvlc_frame fn npdu \<noteq> []" by (simp add: bvlc_frame_def)
  have ne2: "fu \<noteq> []" "fb \<noteq> []" using u(2) b(2) ne by (metis take_Nil)+
  obtain m1 m2 m3 m4 m5 m6 where mac: "ad_mac d = [m1, m2, m3, m4, m5, m6]"
    using d(2) by (auto simp: numeral_eq_Suc length_Suc_conv)
  have decode16: "bl_decode16 lib (drop 4 (ad_mac d)) = be16 (ad_mac d ! 4) (ad_mac d ! 5)"
    using lib by (simp add: bvlc_ok_def mac)
  have "\<not> bl_max_pdu lib < length npdu" "\<not> bp_socket s < 0" using len sock by simp_all
  then show ?thesis
    using d(1) u b size16 ne2 unfolding bip_send_pdu_def dest_target_def dest_frame_def dest_broadcast_def [symmetric]
    by (cases "bp_broadcast s"; cases "dest_broadcast d") (simp_all add: bip_send_mpdu_def len16 decode16 Let_def split: option.splits)
qed

text \<open>C22 (bip_send_receive): an NPDU of at least two octets that a station sends to another address reaches
  the link as one frame, to that address or for a broadcast destination to the broadcast address, and a station
  that receives it decodes the same NPDU with the sender's own address as the source, marked as broadcast
  exactly for a broadcast destination or a global network number; the sender itself ignores it.\<close>

theorem bip_send_receive:
  assumes lib: "bvlc_ok lib" and sock: "0 \<le> bp_socket s" and addr: "length (ba_address (bp_address s)) = 4"
    and d: "dest_broadcast d \<or> ad_mac_len d = 6" "length (ad_mac d) = 6"
    and npdu: "2 \<le> length npdu" "length npdu \<le> bl_max_pdu lib" "length npdu \<le> unat max_pdu"
    and room: "unat max_pdu \<le> length p"
  shows "bip_send_pdu lib sendto s (Some d) (Some npdu) =
      (sendto (dest_target s d) (dest_frame d npdu), Some (dest_target s d, dest_frame d npdu)) \<and>
    bip_port_decode_datagram lib r (Some (dest_frame d npdu)) (length (dest_frame d npdu))
        (of_octets (ba_address (bp_address s))) (bp_port s) (Some a) (Some p) max_pdu =
      Some (if ba_address (bp_address s) = ba_address (bp_address r) \<and> bp_port s = bp_port r
            then (0, Some a, Some p, r\<lparr>bp_last_receive_was_broadcast := dest_broadcast d\<rparr>)
            else (of_nat (length npdu), bip_get_my_address lib s (Some a), Some (blit p npdu),
                  r\<lparr>bp_last_receive_was_broadcast := dest_broadcast d \<or> npdu_global npdu\<rparr>))"
proof
  have "length npdu + 4 < 65536" using lib npdu(2) by (auto simp: bvlc_ok_def)
  then have frame: "bvlc_datagram (dest_frame d npdu) = Some (dest_broadcast d, None, npdu)"
    using npdu(1) by (simp add: dest_frame_def bvlc_datagram_frame)
  have enc: "bl_encode16 lib = write_be16" using lib by (simp add: bvlc_ok_def)
  have sizes: "\<not> unat max_pdu < length npdu" "\<not> length npdu < 2" using npdu by simp_all
  show "bip_port_decode_datagram lib r (Some (dest_frame d npdu)) (length (dest_frame d npdu))
        (of_octets (ba_address (bp_address s))) (bp_port s) (Some a) (Some p) max_pdu =
      Some (if ba_address (bp_address s) = ba_address (bp_address r) \<and> bp_port s = bp_port r
            then (0, Some a, Some p, r\<lparr>bp_last_receive_was_broadcast := dest_broadcast d\<rparr>)
            else (of_nat (length npdu), bip_get_my_address lib s (Some a), Some (blit p npdu),
                  r\<lparr>bp_last_receive_was_broadcast := dest_broadcast d \<or> npdu_global npdu\<rparr>))"
    unfolding decode_exact [OF lib order_refl room] take_all [OF order_refl] frame
    by (simp add: bip_accept_def Let_def octets_of_octets [OF addr] sizes bip_get_my_address_def mac_of_def enc)
qed (rule send_pdu_sends [OF lib sock npdu(2) d])

definition demo_station :: "u8 \<Rightarrow> bip_state" where
  "demo_station h = bip_port_configure (of_octets [192, 168, 1, h]) (of_octets [255, 255, 255, 0])
     (of_octets [192, 168, 1, 1]) 47808 (bip_state_init\<lparr>bp_socket := 3\<rparr>)"

definition demo_npdu :: "u8 list" where "demo_npdu = [1, 0x20, 0xff, 0xff, 0, 0xff, 0x10, 8]"

lemma demo_station_facts:
  "bp_socket (demo_station h) = 3" "ba_address (bp_address (demo_station h)) = [192, 168, 1, h]"
  "bp_port (demo_station h) = 47808"
  by (simp_all add: demo_station_def bip_port_configure_def bip_state_init_def octets_of_octets)

definition demo_dest :: bacnet_address where
  "demo_dest = \<lparr>ad_mac_len = 6, ad_mac = [192, 168, 1, 20, 0xba, 0xc0], ad_net = 0, ad_len = 0\<rparr>"

theorem bip_send_receive_witness:
  "bip_port_decode_datagram bvlc_reference (demo_station 20) (Some (dest_frame demo_dest demo_npdu))
      (length (dest_frame demo_dest demo_npdu)) (of_octets (ba_address (bp_address (demo_station 10))))
      (bp_port (demo_station 10)) (Some demo_dest) (Some (replicate 1476 0)) 1476 =
    Some (8, bip_get_my_address bvlc_reference (demo_station 10) (Some demo_dest),
      Some (blit (replicate 1476 0) demo_npdu), (demo_station 20)\<lparr>bp_last_receive_was_broadcast := True\<rparr>)"
proof -
  have g: "npdu_global demo_npdu" "length demo_npdu = 8" by (simp_all add: demo_npdu_def)
  have m: "bl_max_pdu bvlc_reference = 1476" "dest_broadcast demo_dest = False" "ad_mac_len demo_dest = 6"
    "length (ad_mac demo_dest) = 6"
    by (simp_all add: bvlc_reference_def dest_broadcast_def demo_dest_def cdefs)
  show ?thesis
    using bip_send_receive [of bvlc_reference "demo_station 10" demo_dest demo_npdu 1476 "replicate 1476 0" _ "demo_station 20" demo_dest]
    by (simp add: bvlc_reference_ok demo_station_facts g m)
qed

subsection \<open>Subnet prefixes\<close>

text \<open>The mask with \<open>p\<close> leading ones, in network order.\<close>

definition subnet_mask :: "u8 \<Rightarrow> u32" where
  "subnet_mask p = ntohl (push_bit (32 - unat p) (- 1))"

lemma ntohl_ntohl [simp]: "ntohl (ntohl w) = w"
  by (simp add: ntohl_def octets_of_octets of_octets_octets)

lemma ntohl_inject [simp]: "ntohl v = ntohl w \<longleftrightarrow> v = w"
  by (metis ntohl_ntohl)

text \<open>The loop shifts out the leading ones and counts them.\<close>

lemma prefix_loop_counts:
  "\<exists>k \<le> 32. prefix_loop m c = (push_bit k m, c + of_nat k) \<and> (\<forall>i<k. bit m (31 - i)) \<and> \<not> bit (push_bit k m) 31"
proof (induction m c rule: prefix_loop.induct)
  case (1 m c)
  have top: "m AND 0x80000000 \<noteq> 0 \<longleftrightarrow> bit m 31" using and_exp_eq_0_iff_not_bit [of m 31] by simp
  show ?case
  proof (cases "bit m 31")
    case True
    then obtain k where k: "prefix_loop (push_bit 1 m) (c + 1) = (push_bit k (push_bit 1 m), c + 1 + of_nat k)"
        "\<forall>i<k. bit (push_bit 1 m) (31 - i)" "\<not> bit (push_bit k (push_bit 1 m)) 31"
      using 1 top by blast
    have shifted: "bit (push_bit 1 m) j \<longleftrightarrow> 1 \<le> j \<and> j < 32 \<and> bit m (j - 1)" for j
      by (simp only: bit_push_bit_iff) auto
    have ones: "bit m (31 - i)" if "i < Suc k" for i
      using that True k(2) [rule_format, of "i - 1"] unfolding shifted by (cases i) auto
    have "k < 32" using k(2) [rule_format, of 31] unfolding shifted by (intro ccontr [of "k < 32"]) simp
    with k ones True show ?thesis
      by (intro exI [of _ "Suc k"]) (auto simp: prefix_loop.simps [of m c] top push_bit_push_bit)
  qed (intro exI [of _ 0], simp add: prefix_loop.simps [of m c] top)
qed

lemma bit_ones: "k \<le> 32 \<Longrightarrow> bit (push_bit (32 - k) (- 1) :: u32) j \<longleftrightarrow> 32 - k \<le> j \<and> j < 32"
  by (auto simp: bit_simps)

lemma leading_ones_unique:
  assumes "k \<le> 32" "\<forall>i<k. bit (m :: u32) (31 - i)" "\<not> bit (push_bit k m) 31"
  shows "push_bit k m = 0 \<longleftrightarrow> m = push_bit (32 - k) (- 1)" and "p \<le> 32 \<Longrightarrow> m = push_bit (32 - p) (- 1) \<Longrightarrow> k = p"
proof -
  have low: "push_bit k m = 0 \<longleftrightarrow> (\<forall>j < 32 - k. \<not> bit m j)"
    using assms(1) by (auto simp: bit_eq_iff bit_simps) (metis add_diff_cancel_left' le_add1 less_diff_conv add.commute)
  have high: "bit m j" if "32 - k \<le> j" "j < 32" for j
    using assms(2) [rule_format, of "31 - j"] that assms(1) by (cases "31 - (31 - j) = j") auto
  show "push_bit k m = 0 \<longleftrightarrow> m = push_bit (32 - k) (- 1)"
    unfolding low using high bit_ones [OF assms(1)] by (auto simp: bit_eq_iff) (metis bit_imp_le_length linorder_not_less size_word.rep_eq)+
  show "k = p" if p: "p \<le> 32" and m: "m = push_bit (32 - p) (- 1)"
  proof (rule antisym)
    show "k \<le> p"
      using assms(1) assms(2) [rule_format, of "k - 1"] bit_ones [OF p, of "31 - (k - 1)"] by (cases "k = 0") (auto simp: m)
    show "p \<le> k"
      using assms(1,3) bit_ones [OF p, of "31 - k"] p by (cases "k = 32") (auto simp: m bit_simps)
  qed
qed

lemma contiguous_prefix_iff:
  assumes "1 \<le> p" "p \<le> 32"
  shows "contiguous_prefix m = of_nat p \<longleftrightarrow> m = ntohl (push_bit (32 - p) (- 1))"
proof -
  obtain k where k: "k \<le> 32" "prefix_loop (ntohl m) 0 = (push_bit k (ntohl m), of_nat k)"
      "\<forall>i<k. bit (ntohl m) (31 - i)" "\<not> bit (push_bit k (ntohl m)) 31"
    using prefix_loop_counts [of "ntohl m" 0] by auto
  note uniq = leading_ones_unique [OF k(1,3,4)]
  have small: "n \<le> 32 \<Longrightarrow> unat (of_nat n :: u8) = n" for n
    by (rule unat_of_nat_small) simp
  have eq: "(of_nat k :: u8) = of_nat p \<longleftrightarrow> k = p" using small [OF k(1)] small [OF assms(2)] by metis
  have ne: "(0 :: u8) \<noteq> of_nat p" using small [OF assms(2)] assms(1) by (metis not_one_le_zero unsigned_0)
  have c: "contiguous_prefix m = (if push_bit k (ntohl m) = 0 then of_nat k else 0)"
    by (simp add: contiguous_prefix_def k(2))
  have mask: "m = ntohl w \<longleftrightarrow> ntohl m = w" for w by (metis ntohl_ntohl)
  show ?thesis
  proof (cases "push_bit k (ntohl m) = 0")
    case True
    then show ?thesis unfolding c mask using uniq(1) uniq(2) [OF assms(2)] eq by metis
  next
    case False
    then show ?thesis unfolding c mask using uniq(1) uniq(2) [OF assms(2)] ne by metis
  qed
qed

text \<open>The prefix read off a netmask is \<open>p\<close> exactly for the mask of \<open>p\<close> leading ones,
  and setting the prefix of a configured port gives the same broadcast address and prefix as configuring it
  with that mask, whatever mask it had.\<close>

theorem bip_subnet_prefix:
  assumes "1 \<le> p" "p \<le> 32"
  shows "(contiguous_prefix m = p \<longleftrightarrow> m = subnet_mask p) \<and>
    bip_set_subnet_prefix p (bip_port_configure ip netmask gateway port s) =
      (True, bip_port_configure ip (subnet_mask p) gateway port s)"
proof -
  have p: "1 \<le> unat p" "unat p \<le> 32" "of_nat (unat p) = p"
    using assms by (simp_all add: word_le_nat_alt)
  have prefix: "contiguous_prefix m = p \<longleftrightarrow> m = subnet_mask p" for m
    using contiguous_prefix_iff [OF p(1,2), of m] by (simp only: p(3) subnet_mask_def)
  have "p \<noteq> 0" "\<not> 32 < p" using assms by auto
  moreover have "(if p = 32 then - 1 else push_bit (32 - unat p) (- 1)) = (push_bit (32 - unat p) (- 1) :: u32)"
    by simp
  moreover have "contiguous_prefix (ntohl (NOT (Bit_Operations.mask (32 - unat p)))) = p"
    using prefix [of "subnet_mask p"] by (simp add: subnet_mask_def)
  ultimately have "bip_set_subnet_prefix p (bip_port_configure ip netmask gateway port s) =
      (True, bip_port_configure ip (subnet_mask p) gateway port s)"
    by (cases s) (simp add: bip_set_subnet_prefix_def bip_port_configure_def of_octets_octets subnet_mask_def Let_def)
  then show ?thesis using prefix by blast
qed

theorem bip_subnet_prefix_witness:
  "bip_set_subnet_prefix 24 (bip_port_configure 5 0 0 47808 bip_state_init) =
    (True, bip_port_configure 5 (subnet_mask 24) 0 47808 bip_state_init)"
  using bip_subnet_prefix [of 24 0 5 0 0 47808 bip_state_init] by simp

end
