(* ===== verification/Gateway_Bacnet.thy ===== *)
theory Gateway_Bacnet
  imports Bip_Port Gateway_Config
begin

section \<open>The BACnet server (main/gateway_bacnet.c, main/gateway_bacnet.h)\<close>

text \<open>
  The catalog check, the start, the publication of values, the timers, the reception and the recovery
  of lost change-of-value notifications. The BACnet stack is a parameter: every call that changes its
  objects, services or timers is appended to a log (newest first), its answers are functions of the
  log, and a stack function that may call back into this file (the notification machine, the transaction
  timer, the packet handler) answers with the callbacks it makes, which are then run. Constants of the
  BACnet standard (object types, property identifiers, service numbers) are written as their numbers.
\<close>

definition GATEWAY_BACNET_MAX_PEERS :: nat where "GATEWAY_BACNET_MAX_PEERS = 4"
definition GATEWAY_BACNET_MAX_POINTS :: nat where "GATEWAY_BACNET_MAX_POINTS = 256"
definition GATEWAY_BACNET_POINT_NAME_MAX :: nat where "GATEWAY_BACNET_POINT_NAME_MAX = 95"
definition GATEWAY_BACNET_POINT_DESCRIPTION_MAX :: nat where "GATEWAY_BACNET_POINT_DESCRIPTION_MAX = 511"
definition GATEWAY_BACNET_STATE_NAME_MAX :: nat where "GATEWAY_BACNET_STATE_NAME_MAX = 63"
definition GATEWAY_BACNET_MAX_STATES :: nat where "GATEWAY_BACNET_MAX_STATES = 64"
definition NETWORK_INSTANCE :: u32 where "NETWORK_INSTANCE = 1"
definition DIAGNOSTIC_BASE :: u32 where "DIAGNOSTIC_BASE = 9001"
definition RECOVERY_CAPACITY :: nat where "RECOVERY_CAPACITY = GATEWAY_BACNET_MAX_POINTS + 8"
definition STATE_TEXT_BYTES :: nat where "STATE_TEXT_BYTES = 1024"

definition OBJECT_ANALOG_INPUT :: u16 where "OBJECT_ANALOG_INPUT = 0"
definition OBJECT_BINARY_INPUT :: u16 where "OBJECT_BINARY_INPUT = 3"
definition OBJECT_DEVICE :: u16 where "OBJECT_DEVICE = 8"
definition OBJECT_MULTI_STATE_INPUT :: u16 where "OBJECT_MULTI_STATE_INPUT = 13"
definition OBJECT_CHARACTERSTRING_VALUE :: u16 where "OBJECT_CHARACTERSTRING_VALUE = 40"
definition OBJECT_NETWORK_PORT :: u16 where "OBJECT_NETWORK_PORT = 56"
definition BACNET_MAX_INSTANCE :: u32 where "BACNET_MAX_INSTANCE = 0x3FFFFF"
definition PROP_DESCRIPTION :: int where "PROP_DESCRIPTION = 28"
definition PROP_EVENT_STATE :: int where "PROP_EVENT_STATE = 36"
definition PROP_OUT_OF_SERVICE :: int where "PROP_OUT_OF_SERVICE = 81"
definition PROP_RELIABILITY :: int where "PROP_RELIABILITY = 103"
definition PROP_STATUS_FLAGS :: int where "PROP_STATUS_FLAGS = 111"
definition BACNET_ARRAY_ALL :: u32 where "BACNET_ARRAY_ALL = 0xFFFFFFFF"
definition UNITS_HERTZ :: u16 where "UNITS_HERTZ = 27"
definition UNITS_SECONDS :: u16 where "UNITS_SECONDS = 73"
definition UNITS_NO_UNITS :: u16 where "UNITS_NO_UNITS = 95"

lemmas bacnet_objects = OBJECT_ANALOG_INPUT_def OBJECT_BINARY_INPUT_def OBJECT_DEVICE_def
  OBJECT_MULTI_STATE_INPUT_def OBJECT_CHARACTERSTRING_VALUE_def OBJECT_NETWORK_PORT_def

lemmas bacnet_limits = GATEWAY_BACNET_MAX_PEERS_def GATEWAY_BACNET_MAX_POINTS_def GATEWAY_BACNET_POINT_NAME_MAX_def
  GATEWAY_BACNET_POINT_DESCRIPTION_MAX_def GATEWAY_BACNET_STATE_NAME_MAX_def GATEWAY_BACNET_MAX_STATES_def
  STATE_TEXT_BYTES_def DIAGNOSTIC_BASE_def BACNET_MAX_INSTANCE_def

subsection \<open>Data\<close>

datatype reliability = RELIABILITY_NO_FAULT_DETECTED | RELIABILITY_COMMUNICATION_FAILURE | RELIABILITY_UNRELIABLE_OTHER

text \<open>A point of the catalog; a C string is the list of its characters, a null pointer \<open>None\<close>.\<close>

record catalog_point =
  ct_object_type :: u16
  ct_instance :: u32
  ct_name :: "string option"
  ct_description :: "string option"
  ct_units :: u16
  ct_state_count :: u16
  ct_state_text :: "string option list option"

text \<open>The pointer to the catalog: the built-in table or another array.\<close>

datatype catalog = Builtin | Catalog "catalog_point list"

record bacnet_config =
  bc_device_instance :: u32
  bc_device_name :: "string option"
  bc_firmware_version :: "string option"
  bc_location :: "string option"
  bc_vendor_id :: u16
  bc_local_ip :: u32
  bc_netmask :: u32
  bc_gateway :: u32
  bc_udp_port :: u16
  bc_dhcp_enabled :: bool
  bc_peers :: "(u32 \<times> u16) list"
  bc_peer_count :: nat
  bc_points :: "catalog option"
  bc_point_count :: nat
  bc_model_name :: "string option"
  bc_description :: "string option"
  bc_database_revision :: u32

definition bacnet_config_zero :: bacnet_config where
  "bacnet_config_zero = \<lparr>bc_device_instance = 0, bc_device_name = None, bc_firmware_version = None, bc_location = None,
     bc_vendor_id = 0, bc_local_ip = 0, bc_netmask = 0, bc_gateway = 0, bc_udp_port = 0, bc_dhcp_enabled = False,
     bc_peers = replicate GATEWAY_BACNET_MAX_PEERS (0, 0), bc_peer_count = 0, bc_points = None, bc_point_count = 0,
     bc_model_name = None, bc_description = None, bc_database_revision = 0\<rparr>"

record bacnet_stats =
  bs_initialized :: bool
  bs_link_up :: bool
  bs_received_packets :: u32
  bs_good_points :: u32
  bs_fault_points :: u32
  bs_cov_timeouts :: u32
  bs_cov_refreshes :: u32
  bs_cov_pending :: u32

definition bacnet_stats_zero :: bacnet_stats where
  "bacnet_stats_zero = \<lparr>bs_initialized = False, bs_link_up = False, bs_received_packets = 0, bs_good_points = 0,
     bs_fault_points = 0, bs_cov_timeouts = 0, bs_cov_refreshes = 0, bs_cov_pending = 0\<rparr>"

record recovery =
  rc_used :: bool
  rc_type :: u16
  rc_instance :: u32
  rc_due :: u64

definition recovery_zero :: recovery where
  "recovery_zero = \<lparr>rc_used = False, rc_type = 0, rc_instance = 0, rc_due = 0\<rparr>"

subsection \<open>The BACnet stack\<close>

text \<open>What is called, with the arguments that matter.\<close>

datatype stack_call =
    Device_init u32 string u16 string string string string
  | Create u16 u32
  | Name_set u16 u32 string
  | Description_set u16 u32 string
  | Units_set u32 u16
  | Cov_increment_set u32 dbl
  | Binary_text_set u32 string string
  | State_text_set u32 string
  | Reliability_set u16 u32 reliability
  | Present_analog u32 dbl
  | Present_binary u32 bool
  | Present_multistate u32 u32
  | Present_string u32 string
  | Network_port_init u16 bool
  | Network_port_set "u8 list" u8 "u8 list" "u8 list" reliability
  | Services_init
  | Database_revision u32
  | Cov_init
  | Cov_fsm
  | Tsm_timer u16
  | Cov_timer u32
  | Tsm_free u8
  | Objects_cleanup
  | Cov_clear u16 u32
  | Npdu_handler bacnet_address "u8 list"
  | Who_is_broadcast
  | Who_is_unicast
  | Send_I_am_broadcast
  | Send_I_am_unicast bacnet_address
  | Send_I_have bacnet_address bacnet_address "u16 \<times> u32" "u16 \<times> u32" string
  | Open_socket

record who_has_query =
  wh_low :: int
  wh_high :: int
  wh_object :: "string + u16 \<times> u32"     \<comment> \<open>by name or by identifier\<close>

datatype stack_callback =
    CB_clear u16 u32                     \<comment> \<open>\<open>Object_COV_Clear\<close> of an object\<close>
  | CB_timeout u8                        \<comment> \<open>a confirmed request was not acknowledged\<close>
  | CB_who_is
  | CB_who_has "who_has_query option" bacnet_address

record bacnet_env =
  be_bvlc :: bvlc_lib
  be_max_version :: nat
  be_max_location :: nat
  be_max_model :: nat
  be_max_description :: nat
  be_max_subscriptions :: nat
  be_create :: "stack_call list \<Rightarrow> u16 \<Rightarrow> u32 \<Rightarrow> bool"
  be_state_text :: "stack_call list \<Rightarrow> bool"
  be_open :: "stack_call list \<Rightarrow> bip_open"
  be_cov_fsm :: "stack_call list \<Rightarrow> bool \<times> stack_callback list"
  be_tsm_timer :: "stack_call list \<Rightarrow> stack_callback list"
  be_npdu :: "stack_call list \<Rightarrow> stack_callback list"
  be_tsm_pdu :: "stack_call list \<Rightarrow> u8 \<Rightarrow> u8 list option"
  be_npdu_decode :: "u8 list \<Rightarrow> int \<times> bool"           \<comment> \<open>offset, network layer message\<close>
  be_cov_decode :: "u8 list \<Rightarrow> int \<times> u16 \<times> u32"       \<comment> \<open>length, monitored object\<close>
  be_valid_name :: "stack_call list \<Rightarrow> string \<Rightarrow> (u16 \<times> u32) option"
  be_object_name :: "stack_call list \<Rightarrow> u16 \<Rightarrow> u32 \<Rightarrow> string option"

record gw_bacnet =
  gb_config :: bacnet_config
  gb_catalog :: "catalog_point list"     \<comment> \<open>what \<open>config.points\<close> points to\<close>
  gb_stats :: bacnet_stats
  gb_legacy :: bool
  gb_now :: u64
  gb_started :: u64
  gb_last_timer :: u64
  gb_last_second :: u64
  gb_next_announce :: u64
  gb_reliability :: "reliability list"
  gb_quality_changed :: "bool list"
  gb_recovery :: "recovery list"
  gb_receive_buffer :: "u8 list"
  gb_bip :: bip_state
  gb_log :: "stack_call list"

definition stack :: "stack_call list \<Rightarrow> gw_bacnet \<Rightarrow> gw_bacnet" where
  \<comment> \<open>calls in the order given\<close>
  "stack cs s = s\<lparr>gb_log := rev cs @ gb_log s\<rparr>"

definition upd_stats :: "(bacnet_stats \<Rightarrow> bacnet_stats) \<Rightarrow> gw_bacnet \<Rightarrow> gw_bacnet" where
  "upd_stats f s = s\<lparr>gb_stats := f (gb_stats s)\<rparr>"

definition link_up :: "gw_bacnet \<Rightarrow> bool" where "link_up s = bs_link_up (gb_stats s)"

definition initialized :: "gw_bacnet \<Rightarrow> bool" where "initialized s = bs_initialized (gb_stats s)"

subsection \<open>Read-only objects\<close>

definition mstimer_now :: "gw_bacnet \<Rightarrow> u32" where
  "mstimer_now s = ucast (gb_now s)"

definition catalog_index :: "u32 \<Rightarrow> gw_bacnet \<Rightarrow> nat option" where
  "catalog_index inst s =
     first_index (\<lambda>p. ct_object_type p = OBJECT_CHARACTERSTRING_VALUE \<and> ct_instance p = inst)
       (take (bc_point_count (gb_config s)) (gb_catalog s))"

text \<open>The error class and code of a refused write; the flag is whether it was done.\<close>

datatype write_error = ERROR_CLASS_PROPERTY_WRITE_ACCESS_DENIED

definition read_only :: "bool \<times> write_error" where
  "read_only = (False, ERROR_CLASS_PROPERTY_WRITE_ACCESS_DENIED)"

definition no_writable_properties :: "int list" where
  "no_writable_properties = [- 1]"

definition csv_property_lists :: "int list" where
  \<comment> \<open>the optional properties; the required ones are the stack's\<close>
  "csv_property_lists = [PROP_EVENT_STATE, PROP_OUT_OF_SERVICE, PROP_DESCRIPTION, PROP_RELIABILITY, - 1]"

datatype property_answer =
    Delegated                            \<comment> \<open>the stack's own handler answers\<close>
  | Not_an_array
  | Segmentation_abort
  | Encoded "u8 list"

definition fault_flag :: "nat \<Rightarrow> gw_bacnet \<Rightarrow> bool option" where
  "fault_flag index s = map_option (\<lambda>r. r \<noteq> RELIABILITY_NO_FAULT_DETECTED) (rd (gb_reliability s) index)"

text \<open>The bits are in alarm, fault, overridden and out of service.\<close>

definition csv_read_property :: "(reliability \<Rightarrow> u8 list) \<Rightarrow> (bool list \<Rightarrow> u8 list) \<Rightarrow> u32 \<Rightarrow> int \<Rightarrow> u32 \<Rightarrow> nat \<Rightarrow>
    gw_bacnet \<Rightarrow> property_answer option" where
  "csv_read_property encode_enumerated encode_bitstring inst property array_index room s =
     (case catalog_index inst s of
        None \<Rightarrow> Some Delegated
      | Some index \<Rightarrow>
          if property \<noteq> PROP_RELIABILITY \<and> property \<noteq> PROP_STATUS_FLAGS then Some Delegated
          else if array_index \<noteq> BACNET_ARRAY_ALL then Some Not_an_array
          else do {
            encoded \<leftarrow> (if property = PROP_RELIABILITY then map_option encode_enumerated (rd (gb_reliability s) index)
                        else map_option (\<lambda>fault. encode_bitstring [False, fault, False, False]) (fault_flag index s));
            Some (if length encoded > room then Segmentation_abort else Encoded encoded) })"

text \<open>The value and the fault flag of a notification; the inner \<open>None\<close> is a refusal.\<close>

definition csv_value_list :: "(u32 \<Rightarrow> string option) \<Rightarrow> u32 \<Rightarrow> gw_bacnet \<Rightarrow> (string \<times> bool) option option" where
  "csv_value_list present_value inst s =
     (case (catalog_index inst s, present_value inst) of
        (Some index, Some v) \<Rightarrow> do { fault \<leftarrow> fault_flag index s; Some (Some (v, fault)) }
      | _ \<Rightarrow> Some None)"

subsection \<open>Lost notifications\<close>

definition recovery_of :: "u16 \<Rightarrow> u32 \<Rightarrow> recovery \<Rightarrow> bool" where
  "recovery_of t i r \<longleftrightarrow> rc_used r \<and> rc_type r = t \<and> rc_instance r = i"

definition retry_pending :: "u16 \<Rightarrow> u32 \<Rightarrow> gw_bacnet \<Rightarrow> bool" where
  "retry_pending t i s \<longleftrightarrow> list_ex (\<lambda>r. recovery_of t i r \<and> gb_now s \<ge> rc_due r) (gb_recovery s)"

fun clear_loop :: "u64 \<Rightarrow> u16 \<Rightarrow> u32 \<Rightarrow> recovery list \<Rightarrow> bacnet_stats \<Rightarrow> recovery list \<times> bacnet_stats" where
  "clear_loop now t i [] stats = ([], stats)"
| "clear_loop now t i (r # rs) stats =
     (if recovery_of t i r
      then let stats = (if now \<ge> rc_due r then stats\<lparr>bs_cov_refreshes := bs_cov_refreshes stats + 1\<rparr> else stats);
               stats = stats\<lparr>bs_cov_pending := bs_cov_pending stats - 1\<rparr>;
               (rs', stats') = clear_loop now t i rs stats
           in (r\<lparr>rc_used := False\<rparr> # rs', stats')
      else let (rs', stats') = clear_loop now t i rs stats in (r # rs', stats'))"

definition retry_clear :: "u16 \<Rightarrow> u32 \<Rightarrow> gw_bacnet \<Rightarrow> gw_bacnet" where
  "retry_clear t i s = (let (rs, stats) = clear_loop (gb_now s) t i (gb_recovery s) (gb_stats s)
                        in s\<lparr>gb_recovery := rs, gb_stats := stats\<rparr>)"

text \<open>\<open>COV_WRAPPERS\<close>: the stack's own flag is an argument.\<close>

definition cov_changed :: "u16 \<Rightarrow> bool \<Rightarrow> u32 \<Rightarrow> gw_bacnet \<Rightarrow> bool" where
  "cov_changed t change_of_value i s \<longleftrightarrow> change_of_value \<or> retry_pending t i s"

definition cov_clear :: "u16 \<Rightarrow> u32 \<Rightarrow> gw_bacnet \<Rightarrow> gw_bacnet" where
  "cov_clear t i s = retry_clear t i (stack [Cov_clear t i] s)"

definition csv_changed :: "bool \<Rightarrow> u32 \<Rightarrow> gw_bacnet \<Rightarrow> bool" where
  "csv_changed change_of_value i s \<longleftrightarrow> change_of_value \<or>
     (case catalog_index i s of None \<Rightarrow> False | Some index \<Rightarrow> gb_quality_changed s ! index) \<or>
     retry_pending OBJECT_CHARACTERSTRING_VALUE i s"

definition csv_clear :: "u32 \<Rightarrow> gw_bacnet \<Rightarrow> gw_bacnet" where
  "csv_clear i s =
     (let index = catalog_index i s;
          s = stack [Cov_clear OBJECT_CHARACTERSTRING_VALUE i] s;
          s = (case index of None \<Rightarrow> s | Some index \<Rightarrow> s\<lparr>gb_quality_changed := (gb_quality_changed s)[index := False]\<rparr>)
      in retry_clear OBJECT_CHARACTERSTRING_VALUE i s)"

text \<open>The function table handed to the stack: for each type who answers a read, what a write is
  answered, the writable properties, and the change-of-value functions.\<close>

datatype read_handler = Stack_read | Csv_read

record object_functions =
  of_type :: u16
  of_read :: read_handler
  of_write :: "bool \<times> write_error"
  of_writable :: "int list"
  of_cov :: "(bool \<Rightarrow> u32 \<Rightarrow> gw_bacnet \<Rightarrow> bool) option"
  of_cov_clear :: "(u32 \<Rightarrow> gw_bacnet \<Rightarrow> gw_bacnet) option"

definition object_table :: "object_functions list" where
  "object_table =
    [\<lparr>of_type = OBJECT_DEVICE, of_read = Stack_read, of_write = read_only, of_writable = no_writable_properties,
      of_cov = None, of_cov_clear = None\<rparr>,
     \<lparr>of_type = OBJECT_ANALOG_INPUT, of_read = Stack_read, of_write = read_only, of_writable = no_writable_properties,
      of_cov = Some (cov_changed OBJECT_ANALOG_INPUT), of_cov_clear = Some (cov_clear OBJECT_ANALOG_INPUT)\<rparr>,
     \<lparr>of_type = OBJECT_BINARY_INPUT, of_read = Stack_read, of_write = read_only, of_writable = no_writable_properties,
      of_cov = Some (cov_changed OBJECT_BINARY_INPUT), of_cov_clear = Some (cov_clear OBJECT_BINARY_INPUT)\<rparr>,
     \<lparr>of_type = OBJECT_MULTI_STATE_INPUT, of_read = Stack_read, of_write = read_only, of_writable = no_writable_properties,
      of_cov = Some (cov_changed OBJECT_MULTI_STATE_INPUT), of_cov_clear = Some (cov_clear OBJECT_MULTI_STATE_INPUT)\<rparr>,
     \<lparr>of_type = OBJECT_CHARACTERSTRING_VALUE, of_read = Csv_read, of_write = read_only, of_writable = no_writable_properties,
      of_cov = Some csv_changed, of_cov_clear = Some csv_clear\<rparr>,
     \<lparr>of_type = OBJECT_NETWORK_PORT, of_read = Stack_read, of_write = read_only, of_writable = no_writable_properties,
      of_cov = None, of_cov_clear = None\<rparr>]"

definition table_entry :: "u16 \<Rightarrow> object_functions option" where
  "table_entry t = find (\<lambda>f. of_type f = t) object_table"

text \<open>A notification that timed out: the object it was about is remembered, once.\<close>

definition record_loss :: "u16 \<Rightarrow> u32 \<Rightarrow> gw_bacnet \<Rightarrow> gw_bacnet" where
  "record_loss t i s =
     (let s = upd_stats (\<lambda>x. x\<lparr>bs_cov_timeouts := bs_cov_timeouts x + 1\<rparr>) s in
      if list_ex (recovery_of t i) (gb_recovery s) then s
      else case first_index (\<lambda>r. \<not> rc_used r) (gb_recovery s) of
             None \<Rightarrow> s
           | Some k \<Rightarrow> upd_stats (\<lambda>x. x\<lparr>bs_cov_pending := bs_cov_pending x + 1\<rparr>)
               (s\<lparr>gb_recovery := (gb_recovery s)[k := \<lparr>rc_used = True, rc_type = t, rc_instance = i, rc_due = gb_now s + 1000\<rparr>]\<rparr>))"

text \<open>\<open>None\<close> is a read outside the transaction's data.\<close>

definition cov_timeout :: "bacnet_env \<Rightarrow> u8 \<Rightarrow> gw_bacnet \<Rightarrow> gw_bacnet option" where
  "cov_timeout env invoke s =
     (case be_tsm_pdu env (gb_log s) invoke of
        None \<Rightarrow> Some s
      | Some pdu \<Rightarrow>
          (let (n, network_layer_message) = be_npdu_decode env pdu; offset = nat n in
           if n \<le> 0 \<or> offset + 4 > length pdu \<or> network_layer_message then Some s
           else do {
             b0 \<leftarrow> rd pdu offset; b2 \<leftarrow> rd pdu (offset + 2); b3 \<leftarrow> rd pdu (offset + 3);
             if b0 \<noteq> 0 \<or> b2 \<noteq> invoke \<or> b3 \<noteq> 1 then Some s
             else do {
               body \<leftarrow> slice pdu (offset + 4) (length pdu - offset - 4);
               let (used, t, i) = be_cov_decode env body;
               Some (if used \<noteq> int (length body) then s else record_loss t i s) } }))"

subsection \<open>Discovery\<close>

definition who_is :: "gw_bacnet \<Rightarrow> gw_bacnet" where
  "who_is s =
     (if \<not> link_up s then s
      else if bip_port_last_receive_was_broadcast (gb_bip s) then stack [Who_is_broadcast] s
      else stack [Who_is_unicast] s)"

definition who_has :: "bacnet_env \<Rightarrow> who_has_query option \<Rightarrow> bacnet_address \<Rightarrow> gw_bacnet \<Rightarrow> gw_bacnet" where
  "who_has env query source s =
     (if \<not> link_up s then s
      else case query of None \<Rightarrow> s | Some q \<Rightarrow>
        let device = bc_device_instance (gb_config s) in
        if wh_low q \<ge> 0 \<and> wh_high q \<ge> 0 \<and>
           (device < word_of_int (wh_low q) \<or> device > word_of_int (wh_high q)) then s
        else case (case wh_object q of
               Inl name \<Rightarrow> map_option (\<lambda>oid. (oid, name)) (be_valid_name env (gb_log s) name)
             | Inr (t, i) \<Rightarrow> map_option (\<lambda>name. ((t, i), name)) (be_object_name env (gb_log s) t i)) of
          None \<Rightarrow> s
        | Some (oid, name) \<Rightarrow>
            let destination = (if bip_port_last_receive_was_broadcast (gb_bip s)
                               then bip_get_broadcast_address (be_bvlc env) (gb_bip s) (Some source) else Some source);
                local = bip_get_my_address (be_bvlc env) (gb_bip s) (Some source)
            in stack [Send_I_have (the destination) (the local) (OBJECT_DEVICE, device) oid name] s)"

definition run_callback :: "bacnet_env \<Rightarrow> stack_callback \<Rightarrow> gw_bacnet \<Rightarrow> gw_bacnet option" where
  "run_callback env cb s =
     (case cb of
        CB_clear t i \<Rightarrow> Some (case table_entry t of
            Some f \<Rightarrow> (case of_cov_clear f of Some clear \<Rightarrow> clear i s | None \<Rightarrow> s) | None \<Rightarrow> s)
      | CB_timeout invoke \<Rightarrow> cov_timeout env invoke s
      | CB_who_is \<Rightarrow> Some (who_is s)
      | CB_who_has query source \<Rightarrow> Some (who_has env query source s))"

fun run_callbacks :: "bacnet_env \<Rightarrow> stack_callback list \<Rightarrow> gw_bacnet \<Rightarrow> gw_bacnet option" where
  "run_callbacks env [] s = Some s"
| "run_callbacks env (cb # cbs) s = (case run_callback env cb s of None \<Rightarrow> None | Some s' \<Rightarrow> run_callbacks env cbs s')"

subsection \<open>Objects\<close>

text \<open>The list of state names with their terminators: \<open>None\<close> outside is a read past the array, inside a
  refusal.\<close>

fun state_list :: "string option list \<Rightarrow> nat list \<Rightarrow> string \<Rightarrow> string option option" where
  "state_list texts [] states = Some (Some states)"
| "state_list texts (n # ns) states =
     (case rd texts n of
        None \<Rightarrow> None
      | Some None \<Rightarrow> Some None
      | Some (Some t) \<Rightarrow> if length states + (length t + 1) \<ge> STATE_TEXT_BYTES then Some None
                         else state_list texts ns (states @ t @ [NUL]))"

definition create_point :: "bacnet_env \<Rightarrow> catalog_point \<Rightarrow> gw_bacnet \<Rightarrow> (bool \<times> gw_bacnet) option" where
  "create_point env p s =
     (let i = ct_instance p; t = ct_object_type p; name = the (ct_name p);
          description = (case ct_description p of None \<Rightarrow> [] | Some d \<Rightarrow> d);
          created = be_create env (gb_log s) t i;
          s' = stack [Create t i] s
      in if t = OBJECT_ANALOG_INPUT then
           (if \<not> created then Some (False, s')
            else Some (True, stack [Name_set t i name, Description_set t i description, Units_set i (ct_units p),
               Cov_increment_set i (f32_of_bits (if ct_units p = UNITS_HERTZ then 0x3C23D70A else 0x3DCCCCCD)),
               Reliability_set t i RELIABILITY_COMMUNICATION_FAILURE] s'))
         else if t = OBJECT_BINARY_INPUT then
           (if \<not> created then Some (False, s')
            else Some (True, stack [Name_set t i name, Description_set t i description, Binary_text_set i ''Active'' ''Inactive'',
               Reliability_set t i RELIABILITY_COMMUNICATION_FAILURE] s'))
         else if t = OBJECT_MULTI_STATE_INPUT then
           (if \<not> created then Some (False, s')
            else let s' = stack [Name_set t i name, Description_set t i description] s' in
              case ct_state_text p of
                None \<Rightarrow> Some (False, s')
              | Some texts \<Rightarrow>
                  if ct_state_count p = 0 then Some (False, s')
                  else case state_list texts [0..<unat (ct_state_count p)] [] of
                    None \<Rightarrow> None
                  | Some None \<Rightarrow> Some (False, s')
                  | Some (Some states) \<Rightarrow>
                      let ok = be_state_text env (gb_log s'); s' = stack [State_text_set i states] s' in
                      if \<not> ok then Some (False, s')
                      else Some (True, stack [Reliability_set t i RELIABILITY_COMMUNICATION_FAILURE] s'))
         else if t = OBJECT_CHARACTERSTRING_VALUE then
           (if \<not> created then Some (False, s')
            else Some (True, stack [Name_set t i name, Description_set t i description] s'))
         else Some (False, s))"

definition network_properties :: "bacnet_env \<Rightarrow> gw_bacnet \<Rightarrow> gw_bacnet" where
  "network_properties env s =
     (let ip = octets (bc_local_ip (gb_config s)); gateway = octets (bc_gateway (gb_config s));
          mac = ip @ bl_encode16 (be_bvlc env) (bc_udp_port (gb_config s))
      in stack [Network_port_set ip (bip_get_subnet_prefix (gb_bip s)) gateway mac
           (if link_up s then RELIABILITY_NO_FAULT_DETECTED else RELIABILITY_COMMUNICATION_FAILURE)] s)"

definition peer_address :: "bacnet_env \<Rightarrow> u16 \<Rightarrow> u32 \<times> u16 \<Rightarrow> bacnet_address" where
  "peer_address env udp_port peer =
     \<lparr>ad_mac_len = 6, ad_mac = octets (fst peer) @ bl_encode16 (be_bvlc env) (if snd peer \<noteq> 0 then snd peer else udp_port),
      ad_net = 0, ad_len = 0\<rparr>"

definition announce :: "bacnet_env \<Rightarrow> gw_bacnet \<Rightarrow> gw_bacnet" where
  "announce env s =
     (if \<not> link_up s \<or> \<not> bip_valid (gb_bip s) then s
      else (stack (Send_I_am_broadcast # map (\<lambda>peer. Send_I_am_unicast (peer_address env (bc_udp_port (gb_config s)) peer))
              (take (bc_peer_count (gb_config s)) (bc_peers (gb_config s)))) s)\<lparr>gb_next_announce := gb_now s + 60000\<rparr>)"

subsection \<open>The catalog\<close>

definition valid_string :: "string option \<Rightarrow> nat \<Rightarrow> bool \<Rightarrow> bool" where
  "valid_string v maximum nonempty =
     (case v of None \<Rightarrow> False | Some s \<Rightarrow> (\<not> nonempty \<or> s \<noteq> []) \<and> length (take (maximum + 1) s) \<le> maximum)"

fun state_names :: "string option list \<Rightarrow> nat list \<Rightarrow> nat \<Rightarrow> bool option" where
  "state_names texts [] bytes = Some True"
| "state_names texts (n # ns) bytes =
     (case rd texts n of
        None \<Rightarrow> None
      | Some t \<Rightarrow>
          if \<not> valid_string t GATEWAY_BACNET_STATE_NAME_MAX True then Some False
          else let bytes = bytes + (length (the t) + 1) in
            if bytes > STATE_TEXT_BYTES then Some False
            else if list_ex (\<lambda>previous. texts ! previous = t) [0..<n] then Some False
            else state_names texts ns bytes)"

definition valid_point :: "catalog_point list \<Rightarrow> nat \<Rightarrow> catalog_point \<Rightarrow> string \<Rightarrow> bool option" where
  \<comment> \<open>the body of the loop over the points\<close>
  "valid_point points i point name =
     (if (ct_object_type point \<noteq> OBJECT_ANALOG_INPUT \<and> ct_object_type point \<noteq> OBJECT_BINARY_INPUT \<and>
          ct_object_type point \<noteq> OBJECT_MULTI_STATE_INPUT \<and> ct_object_type point \<noteq> OBJECT_CHARACTERSTRING_VALUE) \<or>
         ct_instance point \<ge> BACNET_MAX_INSTANCE \<or>
         (ct_instance point \<ge> DIAGNOSTIC_BASE \<and> ct_instance point < DIAGNOSTIC_BASE + 4) \<or>
         \<not> valid_string (ct_name point) GATEWAY_BACNET_POINT_NAME_MAX True \<or>
         (ct_description point \<noteq> None \<and> \<not> valid_string (ct_description point) GATEWAY_BACNET_POINT_DESCRIPTION_MAX False) \<or>
         take 8 (the (ct_name point)) = ''Gateway-'' \<or> the (ct_name point) = name
      then Some False
      else if list_ex (\<lambda>n. ct_name point = ct_name (points ! n) \<or>
                ct_object_type point = ct_object_type (points ! n) \<and> ct_instance point = ct_instance (points ! n)) [0..<i]
      then Some False
      else if ct_object_type point = OBJECT_MULTI_STATE_INPUT then
        (case ct_state_text point of
           None \<Rightarrow> Some False
         | Some texts \<Rightarrow>
             if ct_state_count point = 0 \<or> unat (ct_state_count point) > GATEWAY_BACNET_MAX_STATES then Some False
             else state_names texts [0..<unat (ct_state_count point)] 1)
      else Some (\<not> (ct_state_count point \<noteq> 0 \<or> ct_state_text point \<noteq> None)))"

fun catalog_loop :: "catalog_point list \<Rightarrow> string \<Rightarrow> nat list \<Rightarrow> bool option" where
  "catalog_loop points name [] = Some True"
| "catalog_loop points name (i # is) =
     (case rd points i of
        None \<Rightarrow> None
      | Some point \<Rightarrow>
          (case valid_point points i point name of
             None \<Rightarrow> None
           | Some False \<Rightarrow> Some False
           | Some True \<Rightarrow> catalog_loop points name is))"

text \<open>\<open>None\<close> is a read past an array the caller gave.\<close>

definition valid_catalog :: "catalog_point list option \<Rightarrow> nat \<Rightarrow> string \<Rightarrow> bool option" where
  "valid_catalog points count name =
     (case points of
        None \<Rightarrow> Some False
      | Some ps \<Rightarrow> if count = 0 \<or> count > GATEWAY_BACNET_MAX_POINTS then Some False
                   else catalog_loop ps name [0..<count])"

definition builtin_point :: "ats_point_def \<Rightarrow> catalog_point" where
  "builtin_point d = \<lparr>ct_object_type = of_nat (pd_object_type d), ct_instance = of_nat (pd_instance d),
     ct_name = Some (pd_name d), ct_description = Some (pd_description d), ct_units = of_nat (pd_units d),
     ct_state_count = of_nat (pd_state_count d), ct_state_text = map_option (map Some) (pd_state_text d)\<rparr>"

definition catalog_points :: "catalog \<Rightarrow> catalog_point list" where
  "catalog_points c = (case c of Builtin \<Rightarrow> map builtin_point ats_points | Catalog ps \<Rightarrow> ps)"

subsection \<open>Shutdown and start\<close>

fun fsm_loop :: "bacnet_env \<Rightarrow> nat \<Rightarrow> gw_bacnet \<Rightarrow> gw_bacnet option" where
  "fsm_loop env 0 s = Some s"
| "fsm_loop env (Suc n) s =
     (let (idle, callbacks) = be_cov_fsm env (gb_log s) in
      case run_callbacks env callbacks (stack [Cov_fsm] s) of
        None \<Rightarrow> None
      | Some s' \<Rightarrow> if idle then Some s' else fsm_loop env n s')"

definition gateway_bacnet_shutdown :: "bacnet_env \<Rightarrow> gw_bacnet \<Rightarrow> gw_bacnet option" where
  "gateway_bacnet_shutdown env s =
     (let s = s\<lparr>gb_bip := fst (bip_cleanup (gb_bip s))\<rparr>; s = stack [Cov_init] s in
      map_option (\<lambda>s.
        (stack (map (\<lambda>invoke. Tsm_free (of_nat invoke)) [1..<256] @ [Objects_cleanup]) s)
          \<lparr>gb_recovery := replicate RECOVERY_CAPACITY recovery_zero,
           gb_reliability := replicate GATEWAY_BACNET_MAX_POINTS RELIABILITY_NO_FAULT_DETECTED,
           gb_quality_changed := replicate GATEWAY_BACNET_MAX_POINTS False,
           gb_config := bacnet_config_zero, gb_catalog := [], gb_stats := bacnet_stats_zero, gb_legacy := False,
           gb_now := 0, gb_started := 0, gb_last_timer := 0, gb_last_second := 0, gb_next_announce := 0\<rparr>)
        (fsm_loop env 8 s))"

definition init_arguments :: "bacnet_env \<Rightarrow> bacnet_config \<Rightarrow> bool" where
  \<comment> \<open>what \<open>gateway_bacnet_init\<close> asks of its argument before it looks at the catalog\<close>
  "init_arguments env c \<longleftrightarrow>
     \<not> (bc_device_instance c \<ge> BACNET_MAX_INSTANCE \<or> \<not> valid_string (bc_device_name c) 95 True \<or>
        take 8 (the (bc_device_name c)) = ''Gateway-'' \<or> bc_udp_port c = 0 \<or> bc_local_ip c = 0 \<or>
        bc_peer_count c > GATEWAY_BACNET_MAX_PEERS \<or>
        (bc_firmware_version c \<noteq> None \<and> \<not> valid_string (bc_firmware_version c) (be_max_version env) False) \<or>
        (bc_location c \<noteq> None \<and> \<not> valid_string (bc_location c) (be_max_location env) False) \<or>
        (bc_model_name c \<noteq> None \<and> \<not> valid_string (bc_model_name c) (be_max_model env) True) \<or>
        (bc_description c \<noteq> None \<and> \<not> valid_string (bc_description c) (be_max_description env) False) \<or>
        (bc_points c = None) \<noteq> (bc_point_count c = 0))"

definition or_default :: "string option \<Rightarrow> string \<Rightarrow> string" where
  "or_default v d = (case v of Some s \<Rightarrow> s | None \<Rightarrow> d)"

definition input_catalog :: "bacnet_config \<Rightarrow> catalog" where
  "input_catalog c = (case bc_points c of None \<Rightarrow> Builtin | Some k \<Rightarrow> k)"

definition input_count :: "bacnet_config \<Rightarrow> nat" where
  "input_count c = (if bc_points c = None then ATS_POINT_COUNT else bc_point_count c)"

text \<open>The configuration and the state it starts from.\<close>

definition init_state :: "bacnet_env \<Rightarrow> bacnet_config \<Rightarrow> u64 \<Rightarrow> gw_bacnet \<Rightarrow> gw_bacnet" where
  "init_state env c timestamp s =
     (let catalog = input_catalog c; count = input_count c
      in s\<lparr>gb_config := c\<lparr>bc_points := Some catalog, bc_point_count := count,
             bc_firmware_version := Some (or_default (bc_firmware_version c) ''development''),
             bc_location := Some (or_default (bc_location c) [])\<rparr>,
           gb_catalog := catalog_points catalog, gb_legacy := (catalog = Builtin),
           gb_now := timestamp, gb_started := timestamp, gb_last_timer := timestamp, gb_last_second := timestamp,
           gb_stats := bacnet_stats_zero\<lparr>bs_link_up := True, bs_fault_points := of_nat count\<rparr>,
           gb_recovery := replicate RECOVERY_CAPACITY recovery_zero,
           gb_reliability := replicate count RELIABILITY_COMMUNICATION_FAILURE @ drop count (gb_reliability s),
           gb_quality_changed := replicate count True @ drop count (gb_quality_changed s),
           gb_bip := bip_port_configure (bc_local_ip c) (bc_netmask c) (bc_gateway c) (bc_udp_port c) (gb_bip s)\<rparr>)"

fun create_points :: "bacnet_env \<Rightarrow> catalog_point list \<Rightarrow> nat list \<Rightarrow> gw_bacnet \<Rightarrow> (bool \<times> gw_bacnet) option" where
  "create_points env points [] s = Some (True, s)"
| "create_points env points (i # is) s =
     (case rd points i of
        None \<Rightarrow> None
      | Some p \<Rightarrow>
          (case create_point env p s of
             None \<Rightarrow> None
           | Some (False, s') \<Rightarrow> Some (False, s')
           | Some (True, s') \<Rightarrow> create_points env points is s'))"

fun create_diagnostics :: "bacnet_env \<Rightarrow> (u32 \<times> string) list \<Rightarrow> gw_bacnet \<Rightarrow> bool \<times> gw_bacnet" where
  "create_diagnostics env [] s = (True, s)"
| "create_diagnostics env ((i, name) # rest) s =
     (let inst = DIAGNOSTIC_BASE + i; ok = be_create env (gb_log s) OBJECT_ANALOG_INPUT inst;
          s = stack [Create OBJECT_ANALOG_INPUT inst] s
      in if \<not> ok then (False, s)
         else create_diagnostics env rest
           (stack [Name_set OBJECT_ANALOG_INPUT inst name, Units_set inst (if i = 0 then UNITS_SECONDS else UNITS_NO_UNITS),
              Cov_increment_set inst (Fin 1)] s))"

definition diagnostic_names :: "(u32 \<times> string) list" where
  "diagnostic_names = [(0, ''Gateway-Uptime''), (1, ''Gateway-Packets''), (2, ''Gateway-Good-Points''), (3, ''Gateway-Fault-Points'')]"

text \<open>\<open>(float)x\<close>.\<close>

fun dbl_to_float :: "dbl \<Rightarrow> dbl" where
  "dbl_to_float (Fin q) = round_to 24 (- 149) 128 q"
| "dbl_to_float x = x"

definition float_of_nat :: "nat \<Rightarrow> dbl" where
  "float_of_nat n = dbl_to_float (Fin (of_nat n))"

definition create_health :: "bacnet_env \<Rightarrow> gw_bacnet \<Rightarrow> bool \<times> gw_bacnet" where
  "create_health env s =
     (let s = stack [Present_analog (DIAGNOSTIC_BASE + 3) (float_of_nat (bc_point_count (gb_config s)))] s;
          ok = be_create env (gb_log s) OBJECT_BINARY_INPUT DIAGNOSTIC_BASE;
          s = stack [Create OBJECT_BINARY_INPUT DIAGNOSTIC_BASE] s
      in if \<not> ok then (False, s)
         else let ok = be_create env (gb_log s) OBJECT_BINARY_INPUT (DIAGNOSTIC_BASE + 1);
                  s = stack [Create OBJECT_BINARY_INPUT (DIAGNOSTIC_BASE + 1)] s
              in if \<not> ok then (False, s)
                 else (True, stack
                   [Name_set OBJECT_BINARY_INPUT DIAGNOSTIC_BASE ''Gateway-Modbus-Healthy'',
                    Description_set OBJECT_BINARY_INPUT DIAGNOSTIC_BASE
                      (if gb_legacy s
                       then ''Active when the core system-overview point is freshly acquired and qualified; optional points may be unavailable''
                       else ''Active when every configured Modbus point is freshly acquired and qualified''),
                    Name_set OBJECT_BINARY_INPUT (DIAGNOSTIC_BASE + 1) ''Gateway-Ethernet-Link'',
                    Name_set OBJECT_NETWORK_PORT NETWORK_INSTANCE ''Gateway-Ethernet'',
                    Description_set OBJECT_NETWORK_PORT NETWORK_INSTANCE
                      ''BACnet/IP Ethernet port; configuration is read-only over BACnet'',
                    Network_port_init (bc_udp_port (gb_config s)) (bc_dhcp_enabled (gb_config s))] s))"

definition bip_restart :: "bacnet_env \<Rightarrow> gw_bacnet \<Rightarrow> bool \<times> gw_bacnet" where
  \<comment> \<open>\<open>bip_init(NULL)\<close>\<close>
  "bip_restart env s =
     (let (ok, b, closed) = bip_init (be_open env (gb_log s)) None (gb_bip s)
      in (ok, stack [Open_socket] (s\<lparr>gb_bip := b\<rparr>)))"

definition give_up :: "bacnet_env \<Rightarrow> gw_bacnet \<Rightarrow> (bool \<times> gw_bacnet) option" where
  "give_up env s = map_option (\<lambda>s. (False, s)) (gateway_bacnet_shutdown env s)"

definition device_init :: "bacnet_config \<Rightarrow> gw_bacnet \<Rightarrow> gw_bacnet" where
  "device_init c s = stack [Device_init (bc_device_instance c) (the (bc_device_name c)) (bc_vendor_id c)
     (or_default (bc_model_name c) ''ESP32 Modbus-to-BACnet'')
     (or_default (bc_description c) ''Read-only Modbus TCP to BACnet/IP converter'')
     (the (bc_location (gb_config s))) (the (bc_firmware_version (gb_config s)))] s"

definition start_services :: "bacnet_env \<Rightarrow> bacnet_config \<Rightarrow> gw_bacnet \<Rightarrow> (bool \<times> gw_bacnet) option" where
  \<comment> \<open>from the network properties on\<close>
  "start_services env c s =
     (case bip_restart env (stack [Services_init, Cov_init] (network_properties env s)) of
        (False, s) \<Rightarrow> give_up env s
      | (True, s) \<Rightarrow>
          let s = stack [Database_revision (if bc_database_revision c \<noteq> 0 then bc_database_revision c else 1)] s;
              s = upd_stats (\<lambda>x. x\<lparr>bs_initialized := True\<rparr>) s;
              s = stack [Present_binary (DIAGNOSTIC_BASE + 1) True] s
          in Some (True, announce env s))"

definition start_objects :: "bacnet_env \<Rightarrow> bacnet_config \<Rightarrow> gw_bacnet \<Rightarrow> (bool \<times> gw_bacnet) option" where
  "start_objects env c s =
     (case create_points env (gb_catalog s) [0..<bc_point_count (gb_config s)] s of
        None \<Rightarrow> None
      | Some (False, s) \<Rightarrow> give_up env s
      | Some (True, s) \<Rightarrow>
          (case create_diagnostics env diagnostic_names s of
             (False, s) \<Rightarrow> give_up env s
           | (True, s) \<Rightarrow>
               (case create_health env s of
                  (False, s) \<Rightarrow> give_up env s
                | (True, s) \<Rightarrow> start_services env c s)))"

definition gateway_bacnet_init :: "bacnet_env \<Rightarrow> bacnet_config option \<Rightarrow> u64 \<Rightarrow> gw_bacnet \<Rightarrow> (bool \<times> gw_bacnet) option" where
  "gateway_bacnet_init env input timestamp s =
     (case input of
        None \<Rightarrow> Some (False, s)
      | Some c \<Rightarrow>
          if initialized s \<or> \<not> init_arguments env c then Some (False, s)
          else (case valid_catalog (Some (catalog_points (input_catalog c))) (input_count c) (the (bc_device_name c)) of
                  None \<Rightarrow> None
                | Some False \<Rightarrow> Some (False, s)
                | Some True \<Rightarrow> start_objects env c (device_init c (init_state env c timestamp s))))"

subsection \<open>Publishing values\<close>

definition dle :: "dbl \<Rightarrow> dbl \<Rightarrow> bool" where
  "dle x y \<longleftrightarrow> dlt x y \<or> deq x y"

text \<open>\<open>strnlen(text, sizeof text) < sizeof text\<close> and the text up to there.\<close>

definition terminated :: "ats_value \<Rightarrow> bool" where
  "terminated v \<longleftrightarrow> length (takeWhile (\<lambda>c. c \<noteq> NUL) (v_text v)) < length (v_text v)"

definition representable :: "catalog_point \<Rightarrow> ats_value \<Rightarrow> bool" where
  "representable p v =
     (let r = True;
          r = (if ct_object_type p \<noteq> OBJECT_CHARACTERSTRING_VALUE
               then is_finite (v_numeric v) \<and> dle (dfabs (v_numeric v)) FLT_MAX else r);
          r = (if ct_object_type p = OBJECT_BINARY_INPUT
               then r \<and> (deq (v_numeric v) (Fin 0) \<or> deq (v_numeric v) (Fin 1)) else r);
          r = (if ct_object_type p = OBJECT_MULTI_STATE_INPUT
               then r \<and> dle (Fin 1) (v_numeric v) \<and> dle (v_numeric v) (Fin (of_nat (unat (ct_state_count p)))) \<and>
                    deq (dfloor (v_numeric v)) (v_numeric v) else r)
      in if ct_object_type p = OBJECT_CHARACTERSTRING_VALUE then terminated v else r)"

definition good :: "catalog_point \<Rightarrow> ats_value \<Rightarrow> bool" where
  "good p v \<longleftrightarrow> v_quality v = ATS_QUALITY_GOOD \<and> representable p v"

definition publish :: "catalog_point \<Rightarrow> ats_value \<Rightarrow> bool" where
  "publish p v \<longleftrightarrow> representable p v \<and> (good p v \<or> (v_quality v = ATS_QUALITY_UNVERIFIED \<and> v_raw_count v > 0))"

definition published_quality :: "catalog_point \<Rightarrow> ats_value \<Rightarrow> reliability" where
  "published_quality p v =
     (if good p v then RELIABILITY_NO_FAULT_DETECTED
      else if v_quality v = ATS_QUALITY_COMM then RELIABILITY_COMMUNICATION_FAILURE
      else RELIABILITY_UNRELIABLE_OTHER)"

fun dbl_to_u32 :: "dbl \<Rightarrow> u32" where
  \<comment> \<open>\<open>(uint32_t)x\<close> of a value in range\<close>
  "dbl_to_u32 (Fin q) = of_nat (nat \<lfloor>q\<rfloor>)"
| "dbl_to_u32 _ = 0"

definition publish_point :: "nat \<Rightarrow> catalog_point \<Rightarrow> ats_value \<Rightarrow> gw_bacnet \<Rightarrow> gw_bacnet" where
  \<comment> \<open>the body of the loop of \<open>gateway_bacnet_update\<close>\<close>
  "publish_point i p v s =
     (let inst = ct_instance p; t = ct_object_type p; quality = published_quality p v;
          s = (if good p v then upd_stats (\<lambda>x. x\<lparr>bs_good_points := bs_good_points x + 1\<rparr>) s else s)
      in if t = OBJECT_ANALOG_INPUT then
           stack ((if publish p v then [Present_analog inst (dbl_to_float (v_numeric v))] else []) @ [Reliability_set t inst quality]) s
         else if t = OBJECT_BINARY_INPUT then
           stack ((if publish p v then [Present_binary inst (\<not> deq (v_numeric v) (Fin 0))] else []) @ [Reliability_set t inst quality]) s
         else if t = OBJECT_MULTI_STATE_INPUT then
           stack ((if publish p v then [Present_multistate inst (dbl_to_u32 (v_numeric v))] else []) @ [Reliability_set t inst quality]) s
         else if t = OBJECT_CHARACTERSTRING_VALUE then
           (let s = (if publish p v then stack [Present_string inst (takeWhile (\<lambda>c. c \<noteq> NUL) (v_text v))] s else s);
                s = (if gb_reliability s ! i \<noteq> quality then s\<lparr>gb_quality_changed := (gb_quality_changed s)[i := True]\<rparr> else s)
            in s\<lparr>gb_reliability := (gb_reliability s)[i := quality]\<rparr>)
         else s)"

fun publish_loop :: "ats_value list \<Rightarrow> nat list \<Rightarrow> gw_bacnet \<Rightarrow> gw_bacnet option" where
  "publish_loop values [] s = Some s"
| "publish_loop values (i # is) s =
     (case (rd (gb_catalog s) i, rd values i) of
        (Some p, Some v) \<Rightarrow> publish_loop values is (publish_point i p v s)
      | _ \<Rightarrow> None)"

definition publish_diagnostics :: "ats_value list \<Rightarrow> gw_bacnet \<Rightarrow> gw_bacnet option" where
  "publish_diagnostics values s =
     (let s = upd_stats (\<lambda>x. x\<lparr>bs_fault_points := of_nat (bc_point_count (gb_config s)) - bs_good_points x\<rparr>) s;
          s = stack [Present_analog (DIAGNOSTIC_BASE + 2) (float_of_nat (unat (bs_good_points (gb_stats s)))),
                     Present_analog (DIAGNOSTIC_BASE + 3) (float_of_nat (unat (bs_fault_points (gb_stats s))))] s
      in do { healthy \<leftarrow> (if gb_legacy s
                then map_option (\<lambda>v. v_quality v = ATS_QUALITY_GOOD \<and> is_finite (v_numeric v)) (rd values 0)
                else Some (bs_fault_points (gb_stats s) = 0));
              Some (stack [Present_binary DIAGNOSTIC_BASE healthy] s) })"

definition gateway_bacnet_update :: "ats_value list option \<Rightarrow> gw_bacnet \<Rightarrow> gw_bacnet option" where
  "gateway_bacnet_update values s =
     (case values of
        None \<Rightarrow> Some s
      | Some vs \<Rightarrow>
          if \<not> initialized s then Some s
          else case publish_loop vs [0..<bc_point_count (gb_config s)] (upd_stats (\<lambda>x. x\<lparr>bs_good_points := 0\<rparr>) s) of
                 None \<Rightarrow> None
               | Some s' \<Rightarrow> publish_diagnostics vs s')"

subsection \<open>Time\<close>

definition tick_timer :: "bacnet_env \<Rightarrow> gw_bacnet \<Rightarrow> gw_bacnet option" where
  "tick_timer env s =
     (let delta = gb_now s - gb_last_timer s in
      if delta \<noteq> 0
      then map_option (\<lambda>s. s\<lparr>gb_last_timer := gb_now s\<rparr>)
             (run_callbacks env (be_tsm_timer env (gb_log s))
               (stack [Tsm_timer (if delta > 65535 then 65535 else ucast delta)] s))
      else Some s)"

definition tick_seconds :: "gw_bacnet \<Rightarrow> gw_bacnet" where
  "tick_seconds s =
     (let delta = (gb_now s - gb_last_second s) div 1000 in
      if delta \<noteq> 0
      then (stack [Cov_timer (if delta > 0xFFFFFFFF then 0xFFFFFFFF else ucast delta)] s)
             \<lparr>gb_last_second := gb_last_second s + delta * 1000\<rparr>
      else s)"

fun fdiv :: "dbl \<Rightarrow> dbl \<Rightarrow> dbl" where
  \<comment> \<open>division of floats, the divisor not zero\<close>
  "fdiv (Fin a) (Fin b) = round_to 24 (- 149) 128 (a / b)"
| "fdiv x _ = x"

definition gateway_bacnet_tick :: "bacnet_env \<Rightarrow> u64 \<Rightarrow> gw_bacnet \<Rightarrow> gw_bacnet option" where
  "gateway_bacnet_tick env timestamp s =
     (if \<not> initialized s then Some s
      else if timestamp < gb_now s then Some s
      else case tick_timer env (s\<lparr>gb_now := timestamp\<rparr>) of
        None \<Rightarrow> None
      | Some s \<Rightarrow>
          let s = tick_seconds s;
              s = stack [Present_analog DIAGNOSTIC_BASE (fdiv (float_of_nat (unat (gb_now s - gb_started s))) (Fin 1000)),
                         Present_analog (DIAGNOSTIC_BASE + 1) (float_of_nat (unat (bs_received_packets (gb_stats s))))] s
          in if link_up s
             then (case fsm_loop env (4 * be_max_subscriptions env + 8) s of
                     None \<Rightarrow> None
                   | Some s \<Rightarrow> Some (if gb_now s \<ge> gb_next_announce s then announce env s else s))
             else Some s)"

subsection \<open>Reception\<close>

definition nowhere :: bacnet_address where
  \<comment> \<open>the caller's address record before it is filled\<close>
  "nowhere = \<lparr>ad_mac_len = 0, ad_mac = replicate 6 0, ad_net = 0, ad_len = 0\<rparr>"

definition received :: "bacnet_env \<Rightarrow> u16 \<times> bacnet_address option \<times> u8 list option \<times> bip_state \<Rightarrow> gw_bacnet \<Rightarrow> (bool \<times> gw_bacnet) option" where
  \<comment> \<open>counting and handling a datagram that was decoded; the flag is whether there was one\<close>
  "received env d s =
     (let (n, source, buffer, b) = d;
          s = s\<lparr>gb_bip := b, gb_receive_buffer := (case buffer of Some x \<Rightarrow> x | None \<Rightarrow> gb_receive_buffer s)\<rparr>
      in if n = 0 then Some (False, s)
         else let s = upd_stats (\<lambda>x. x\<lparr>bs_received_packets := bs_received_packets x + 1\<rparr>) s;
                  s' = stack [Npdu_handler (the source) (take (unat n) (gb_receive_buffer s))] s
              in map_option (\<lambda>s. (True, s)) (run_callbacks env (be_npdu env (gb_log s')) s'))"

definition gateway_bacnet_process_datagram :: "bacnet_env \<Rightarrow> u8 list option \<Rightarrow> nat \<Rightarrow> u32 \<Rightarrow> u16 \<Rightarrow> gw_bacnet \<Rightarrow>
    (bool \<times> gw_bacnet) option" where
  "gateway_bacnet_process_datagram env data n source_ip source_port s =
     (if \<not> initialized s \<or> \<not> link_up s then Some (False, s)
      else case bip_port_decode_datagram (be_bvlc env) (gb_bip s) data n source_ip source_port (Some nowhere)
                  (Some (gb_receive_buffer s)) (of_nat (length (gb_receive_buffer s))) of
             None \<Rightarrow> None
           | Some d \<Rightarrow> received env d s)"

text \<open>One \<open>bip_receive\<close> per wait; the loop ends at the first that brings nothing, or after sixteen.\<close>

fun poll_loop :: "bacnet_env \<Rightarrow> bip_wait list \<Rightarrow> nat \<Rightarrow> gw_bacnet \<Rightarrow> (nat \<times> gw_bacnet) option" where
  "poll_loop env [] count s = Some (count, s)"
| "poll_loop env (w # ws) count s =
     (if count < 16
      then (case bip_receive (be_bvlc env) w (gb_bip s) (Some nowhere) (Some (gb_receive_buffer s)) (of_nat (length (gb_receive_buffer s))) of
              None \<Rightarrow> None
            | Some d \<Rightarrow>
                (case received env d s of
                   None \<Rightarrow> None
                 | Some (False, s') \<Rightarrow> Some (count, s')
                 | Some (True, s') \<Rightarrow> poll_loop env ws (count + 1) s'))
      else Some (count, s))"

definition gateway_bacnet_poll :: "bacnet_env \<Rightarrow> bip_wait list \<Rightarrow> gw_bacnet \<Rightarrow> (nat \<times> gw_bacnet) option" where
  \<comment> \<open>the platform's answers, at least sixteen\<close>
  "gateway_bacnet_poll env waits s =
     (if \<not> initialized s \<or> \<not> link_up s then Some (0, s) else poll_loop env waits 0 s)"

subsection \<open>The network\<close>

definition network_changed :: "u32 \<Rightarrow> u32 \<Rightarrow> u32 \<Rightarrow> gw_bacnet \<Rightarrow> bool" where
  "network_changed ip netmask gateway s \<longleftrightarrow>
     bc_local_ip (gb_config s) \<noteq> ip \<or> bc_netmask (gb_config s) \<noteq> netmask \<or> bc_gateway (gb_config s) \<noteq> gateway"

text \<open>The branch where the link is up; \<open>relink\<close> is \<open>!was_up || changed\<close>.\<close>

definition rebind :: "bacnet_env \<Rightarrow> u32 \<Rightarrow> u32 \<Rightarrow> u32 \<Rightarrow> bool \<Rightarrow> gw_bacnet \<Rightarrow> gw_bacnet" where
  "rebind env ip netmask gateway relink s =
     (let s = s\<lparr>gb_config := (gb_config s)\<lparr>bc_local_ip := ip, bc_netmask := netmask, bc_gateway := gateway\<rparr>,
                gb_bip := bip_port_configure ip netmask gateway (bc_udp_port (gb_config s)) (gb_bip s)\<rparr>
      in if relink \<or> \<not> bip_valid (gb_bip s)
         then let (ok, s) = bip_restart env s in if \<not> ok then upd_stats (\<lambda>x. x\<lparr>bs_link_up := False\<rparr>) s else s
         else s)"

definition gateway_bacnet_network_update :: "bacnet_env \<Rightarrow> u32 \<Rightarrow> u32 \<Rightarrow> u32 \<Rightarrow> bool \<Rightarrow> u64 \<Rightarrow> gw_bacnet \<Rightarrow> bool \<times> gw_bacnet" where
  "gateway_bacnet_network_update env ip netmask gateway up timestamp s =
     (if \<not> initialized s then (False, s)
      else let relink = (\<not> link_up s \<or> network_changed ip netmask gateway s);
               s = upd_stats (\<lambda>x. x\<lparr>bs_link_up := (up \<and> ip \<noteq> 0)\<rparr>)
                     (s\<lparr>gb_now := (if timestamp \<ge> gb_now s then timestamp else gb_now s)\<rparr>);
               s = (if link_up s then rebind env ip netmask gateway relink s else s\<lparr>gb_bip := fst (bip_cleanup (gb_bip s))\<rparr>);
               s = network_properties env s;
               s = stack [Present_binary (DIAGNOSTIC_BASE + 1) (link_up s)] s;
               s = (if link_up s \<and> relink then announce env s else s)
           in (link_up s = up, s))"

definition gateway_bacnet_stats :: "gw_bacnet \<Rightarrow> bacnet_stats" where
  "gateway_bacnet_stats s = gb_stats s"

end
