(* ===== verification/Bacnet_Invariant.thy ===== *)
theory Bacnet_Invariant
  imports Gateway_Bacnet
begin

section \<open>Correctness of the BACnet server\<close>

subsection \<open>Frames\<close>

lemma stack_simps [simp]:
  "gb_config (stack cs s) = gb_config s" "gb_catalog (stack cs s) = gb_catalog s" "gb_stats (stack cs s) = gb_stats s"
  "gb_legacy (stack cs s) = gb_legacy s" "gb_now (stack cs s) = gb_now s" "gb_started (stack cs s) = gb_started s"
  "gb_last_timer (stack cs s) = gb_last_timer s" "gb_last_second (stack cs s) = gb_last_second s"
  "gb_next_announce (stack cs s) = gb_next_announce s" "gb_reliability (stack cs s) = gb_reliability s"
  "gb_quality_changed (stack cs s) = gb_quality_changed s" "gb_recovery (stack cs s) = gb_recovery s"
  "gb_receive_buffer (stack cs s) = gb_receive_buffer s" "gb_bip (stack cs s) = gb_bip s"
  "gb_log (stack cs s) = rev cs @ gb_log s"
  by (simp_all add: stack_def)

lemma upd_stats_simps [simp]:
  "gb_config (upd_stats f s) = gb_config s" "gb_catalog (upd_stats f s) = gb_catalog s" "gb_stats (upd_stats f s) = f (gb_stats s)"
  "gb_legacy (upd_stats f s) = gb_legacy s" "gb_now (upd_stats f s) = gb_now s" "gb_started (upd_stats f s) = gb_started s"
  "gb_last_timer (upd_stats f s) = gb_last_timer s" "gb_last_second (upd_stats f s) = gb_last_second s"
  "gb_next_announce (upd_stats f s) = gb_next_announce s" "gb_reliability (upd_stats f s) = gb_reliability s"
  "gb_quality_changed (upd_stats f s) = gb_quality_changed s" "gb_recovery (upd_stats f s) = gb_recovery s"
  "gb_receive_buffer (upd_stats f s) = gb_receive_buffer s" "gb_bip (upd_stats f s) = gb_bip s"
  "gb_log (upd_stats f s) = gb_log s"
  by (simp_all add: upd_stats_def)

subsection \<open>The table of lost notifications\<close>

definition recovery_key :: "recovery \<Rightarrow> u16 \<times> u32" where
  "recovery_key r = (rc_type r, rc_instance r)"

definition pending_keys :: "recovery list \<Rightarrow> (u16 \<times> u32) list" where
  \<comment> \<open>the objects whose notification was lost\<close>
  "pending_keys rs = map recovery_key (filter rc_used rs)"

definition recovery_inv :: "recovery list \<Rightarrow> u32 \<Rightarrow> bool" where
  "recovery_inv rs n \<longleftrightarrow> length rs = RECOVERY_CAPACITY \<and> distinct (pending_keys rs) \<and> n = of_nat (length (pending_keys rs))"

lemma recovery_of_key: "recovery_of t i r \<longleftrightarrow> rc_used r \<and> recovery_key r = (t, i)"
  by (auto simp: recovery_of_def recovery_key_def)

lemma pending_iff: "list_ex (recovery_of t i) rs \<longleftrightarrow> (t, i) \<in> set (pending_keys rs)"
  by (force simp: list_ex_iff pending_keys_def recovery_of_key)

lemma clear_loop_effect:
  "clear_loop now t i rs st = (rs', st') \<Longrightarrow>
    length rs' = length rs \<and> pending_keys rs' = filter (\<lambda>k. k \<noteq> (t, i)) (pending_keys rs) \<and>
    (\<exists>refreshed. st' = st\<lparr>bs_cov_refreshes := refreshed,
       bs_cov_pending := bs_cov_pending st - of_nat (length (filter (\<lambda>k. k = (t, i)) (pending_keys rs)))\<rparr>) \<and>
    filter (\<lambda>r. rc_used r \<and> recovery_key r \<noteq> (t, i)) rs = filter rc_used rs'"
proof (induction rs arbitrary: st rs' st')
  case Nil
  then show ?case by (auto simp: pending_keys_def intro!: exI [of _ "bs_cov_refreshes st"])
next
  case (Cons r rs)
  define st1 where "st1 = (if recovery_of t i r
     then (if now \<ge> rc_due r then st\<lparr>bs_cov_refreshes := bs_cov_refreshes st + 1\<rparr> else st)\<lparr>bs_cov_pending := bs_cov_pending st - 1\<rparr>
     else st)"
  obtain rs1 st2 where rec: "clear_loop now t i rs st1 = (rs1, st2)" by fastforce
  have out: "rs' = (if recovery_of t i r then r\<lparr>rc_used := False\<rparr> else r) # rs1" "st' = st2"
    using Cons.prems rec by (auto simp: st1_def Let_def split: if_splits)
  from Cons.IH [OF rec] obtain refreshed where
    ih: "length rs1 = length rs" "pending_keys rs1 = filter (\<lambda>k. k \<noteq> (t, i)) (pending_keys rs)"
      "st2 = st1\<lparr>bs_cov_refreshes := refreshed,
         bs_cov_pending := bs_cov_pending st1 - of_nat (length (filter (\<lambda>k. k = (t, i)) (pending_keys rs)))\<rparr>"
      "filter (\<lambda>r. rc_used r \<and> recovery_key r \<noteq> (t, i)) rs = filter rc_used rs1"
    by blast
  have "\<exists>refreshed. st' = st\<lparr>bs_cov_refreshes := refreshed,
       bs_cov_pending := bs_cov_pending st - of_nat (length (filter (\<lambda>k. k = (t, i)) (pending_keys (r # rs))))\<rparr>"
    by (rule exI [of _ refreshed])
      (auto simp: out(2) ih(3) st1_def recovery_of_key pending_keys_def)
  then show ?case using ih(1,2,4) by (auto simp: out(1) pending_keys_def recovery_of_key)
qed

lemma filter_key_once: "distinct ks \<Longrightarrow> length (filter (\<lambda>k. k = x) ks) = (if x \<in> set ks then 1 else 0)"
  by (induction ks) auto

lemma length_filter_split: "length (filter P xs) + length (filter (\<lambda>x. \<not> P x) xs) = length xs"
  by (induction xs) auto

lemma retry_clear_effect:
  "\<exists>rs refreshed. retry_clear t i s = s\<lparr>gb_recovery := rs,
      gb_stats := (gb_stats s)\<lparr>bs_cov_refreshes := refreshed, bs_cov_pending := bs_cov_pending (gb_stats (retry_clear t i s))\<rparr>\<rparr> \<and>
     pending_keys rs = filter (\<lambda>k. k \<noteq> (t, i)) (pending_keys (gb_recovery s)) \<and>
     filter rc_used rs = filter (\<lambda>r. rc_used r \<and> recovery_key r \<noteq> (t, i)) (gb_recovery s) \<and>
     (recovery_inv (gb_recovery s) (bs_cov_pending (gb_stats s)) \<longrightarrow>
      recovery_inv rs (bs_cov_pending (gb_stats (retry_clear t i s))))"
proof -
  obtain rs st where c: "clear_loop (gb_now s) t i (gb_recovery s) (gb_stats s) = (rs, st)" by fastforce
  from clear_loop_effect [OF c] obtain refreshed where
    e: "length rs = length (gb_recovery s)" "pending_keys rs = filter (\<lambda>k. k \<noteq> (t, i)) (pending_keys (gb_recovery s))"
      "st = (gb_stats s)\<lparr>bs_cov_refreshes := refreshed, bs_cov_pending := bs_cov_pending (gb_stats s) -
          of_nat (length (filter (\<lambda>k. k = (t, i)) (pending_keys (gb_recovery s))))\<rparr>"
      "filter (\<lambda>r. rc_used r \<and> recovery_key r \<noteq> (t, i)) (gb_recovery s) = filter rc_used rs"
    by blast
  have r: "retry_clear t i s = s\<lparr>gb_recovery := rs, gb_stats := st\<rparr>" by (simp add: retry_clear_def c)
  have "recovery_inv rs (bs_cov_pending st)" if "recovery_inv (gb_recovery s) (bs_cov_pending (gb_stats s))"
  proof -
    have "length (filter (\<lambda>k. k = (t, i)) (pending_keys (gb_recovery s))) + length (pending_keys rs) = length (pending_keys (gb_recovery s))"
      unfolding e(2) by (rule length_filter_split)
    then have "(of_nat (length (pending_keys (gb_recovery s))) :: u32) =
        of_nat (length (filter (\<lambda>k. k = (t, i)) (pending_keys (gb_recovery s)))) + of_nat (length (pending_keys rs))"
      by (metis of_nat_add)
    with that show ?thesis using e(1,2) by (simp add: recovery_inv_def e(3))
  qed
  then show ?thesis unfolding r using e by (intro exI [of _ rs] exI [of _ refreshed]) simp
qed

lemma pending_update:
  assumes "k < length rs" "\<not> rc_used (rs ! k)" "rc_used r"
  shows "\<exists>xs ys. pending_keys rs = xs @ ys \<and> pending_keys (rs[k := r]) = xs @ recovery_key r # ys"
proof -
  have app: "pending_keys (xs @ x # ys) = pending_keys xs @ (if rc_used x then [recovery_key x] else []) @ pending_keys ys" for xs x ys
    by (simp add: pending_keys_def)
  have old: "pending_keys rs = pending_keys (take k rs) @ pending_keys (drop (Suc k) rs)"
    using app [of "take k rs" "rs ! k" "drop (Suc k) rs"] assms(2) by (simp add: id_take_nth_drop [OF assms(1), symmetric])
  have new: "pending_keys (rs[k := r]) = pending_keys (take k rs) @ recovery_key r # pending_keys (drop (Suc k) rs)"
    using app [of "take k rs" r "drop (Suc k) rs"] assms(3) by (simp add: upd_conv_take_nth_drop [OF assms(1)])
  show ?thesis using old new by blast
qed

lemma record_loss_effect:
  "\<exists>timeouts rs. record_loss t i s = s\<lparr>gb_recovery := rs,
      gb_stats := (gb_stats s)\<lparr>bs_cov_timeouts := timeouts, bs_cov_pending := bs_cov_pending (gb_stats (record_loss t i s))\<rparr>\<rparr> \<and>
     (set (pending_keys rs) = insert (t, i) (set (pending_keys (gb_recovery s))) \<or>
      rs = gb_recovery s \<and> (\<forall>r \<in> set rs. rc_used r)) \<and>
     (recovery_inv (gb_recovery s) (bs_cov_pending (gb_stats s)) \<longrightarrow>
      recovery_inv rs (bs_cov_pending (gb_stats (record_loss t i s))))"
proof -
  let ?to = "bs_cov_timeouts (gb_stats s) + 1"
  consider (known) "(t, i) \<in> set (pending_keys (gb_recovery s))"
    | (full) "(t, i) \<notin> set (pending_keys (gb_recovery s))" "first_index (\<lambda>r. \<not> rc_used r) (gb_recovery s) = None"
    | (slot) k where "(t, i) \<notin> set (pending_keys (gb_recovery s))" "first_index (\<lambda>r. \<not> rc_used r) (gb_recovery s) = Some k"
    by fastforce
  then show ?thesis
  proof cases
    case known
    then show ?thesis
      by (intro exI [of _ ?to] exI [of _ "gb_recovery s"]) (auto simp: record_loss_def pending_iff upd_stats_def)
  next
    case full
    have used: "\<forall>r \<in> set (gb_recovery s). rc_used r" using full(2) by (auto simp: first_index_None)
    have eq: "record_loss t i s = s\<lparr>gb_recovery := gb_recovery s,
        gb_stats := (gb_stats s)\<lparr>bs_cov_timeouts := ?to, bs_cov_pending := bs_cov_pending (gb_stats s)\<rparr>\<rparr>"
      using full by (simp add: record_loss_def pending_iff upd_stats_def)
    show ?thesis unfolding eq using used by (intro exI [of _ ?to] exI [of _ "gb_recovery s"]) simp
  next
    case slot
    define r where "r = \<lparr>rc_used = True, rc_type = t, rc_instance = i, rc_due = gb_now s + 1000\<rparr>"
    have k: "k < length (gb_recovery s)" "\<not> rc_used (gb_recovery s ! k)" using slot(2) by (simp_all add: first_index_Some)
    have eq: "record_loss t i s = s\<lparr>gb_recovery := (gb_recovery s)[k := r], gb_stats := (gb_stats s)
        \<lparr>bs_cov_timeouts := ?to, bs_cov_pending := bs_cov_pending (gb_stats s) + 1\<rparr>\<rparr>"
      using slot by (simp add: record_loss_def pending_iff upd_stats_def r_def)
    obtain xs ys where p: "pending_keys (gb_recovery s) = xs @ ys" "pending_keys ((gb_recovery s)[k := r]) = xs @ recovery_key r # ys"
      using pending_update [OF k, of r] by (auto simp: r_def)
    have key: "recovery_key r = (t, i)" by (simp add: recovery_key_def r_def)
    show ?thesis
      unfolding eq using p slot(1) key
      by (intro exI [of _ ?to] exI [of _ "(gb_recovery s)[k := r]"]) (auto simp: recovery_inv_def)
  qed
qed

subsection \<open>What callbacks leave alone\<close>

definition frame :: "gw_bacnet \<Rightarrow> gw_bacnet" where
  \<comment> \<open>the state with what callbacks may change erased\<close>
  "frame s = s\<lparr>gb_recovery := [], gb_quality_changed := [], gb_log := [],
     gb_stats := (gb_stats s)\<lparr>bs_cov_timeouts := 0, bs_cov_refreshes := 0, bs_cov_pending := 0\<rparr>\<rparr>"

definition callback_frame :: "gw_bacnet \<Rightarrow> gw_bacnet \<Rightarrow> bool" where
  "callback_frame s s' \<longleftrightarrow> frame s' = frame s \<and> length (gb_quality_changed s') = length (gb_quality_changed s) \<and>
     (\<exists>new. gb_log s' = new @ gb_log s) \<and>
     (recovery_inv (gb_recovery s) (bs_cov_pending (gb_stats s)) \<longrightarrow> recovery_inv (gb_recovery s') (bs_cov_pending (gb_stats s')))"

lemma callback_frame_refl: "callback_frame s s"
  by (simp add: callback_frame_def)

lemma callback_frame_trans: "callback_frame a b \<Longrightarrow> callback_frame b c \<Longrightarrow> callback_frame a c"
  unfolding callback_frame_def by (metis append_assoc)

lemma callback_frame_stack: "callback_frame s (stack cs s)"
  by (simp add: callback_frame_def frame_def stack_def)

lemma callback_frame_quality: "callback_frame s (s\<lparr>gb_quality_changed := (gb_quality_changed s)[k := b]\<rparr>)"
  by (simp add: callback_frame_def frame_def)

lemma callback_frame_clear: "callback_frame s (retry_clear t i s)"
proof -
  obtain rs refreshed where r: "retry_clear t i s = s\<lparr>gb_recovery := rs, gb_stats := (gb_stats s)
        \<lparr>bs_cov_refreshes := refreshed, bs_cov_pending := bs_cov_pending (gb_stats (retry_clear t i s))\<rparr>\<rparr>"
    "recovery_inv (gb_recovery s) (bs_cov_pending (gb_stats s)) \<longrightarrow> recovery_inv rs (bs_cov_pending (gb_stats (retry_clear t i s)))"
    using retry_clear_effect [of t i s] by blast
  define n where "n = bs_cov_pending (gb_stats (retry_clear t i s))"
  show ?thesis using r(2) unfolding callback_frame_def n_def [symmetric] r(1) [folded n_def] by (simp add: frame_def)
qed

lemma callback_frame_loss: "callback_frame s (record_loss t i s)"
proof -
  obtain timeouts rs where r: "record_loss t i s = s\<lparr>gb_recovery := rs, gb_stats := (gb_stats s)
        \<lparr>bs_cov_timeouts := timeouts, bs_cov_pending := bs_cov_pending (gb_stats (record_loss t i s))\<rparr>\<rparr>"
    "recovery_inv (gb_recovery s) (bs_cov_pending (gb_stats s)) \<longrightarrow> recovery_inv rs (bs_cov_pending (gb_stats (record_loss t i s)))"
    using record_loss_effect [of t i s] by blast
  define n where "n = bs_cov_pending (gb_stats (record_loss t i s))"
  show ?thesis using r(2) unfolding callback_frame_def n_def [symmetric] r(1) [folded n_def] by (simp add: frame_def)
qed

lemma callback_frame_csv_clear: "callback_frame s (csv_clear i s)"
proof -
  define s1 where "s1 = stack [Cov_clear OBJECT_CHARACTERSTRING_VALUE i] s"
  define s2 where "s2 = (case catalog_index i s of None \<Rightarrow> s1
    | Some index \<Rightarrow> s1\<lparr>gb_quality_changed := (gb_quality_changed s1)[index := False]\<rparr>)"
  have "callback_frame s s1" unfolding s1_def by (rule callback_frame_stack)
  moreover have "callback_frame s1 s2"
    by (cases "catalog_index i s") (simp_all add: s2_def callback_frame_refl callback_frame_quality)
  moreover have "csv_clear i s = retry_clear OBJECT_CHARACTERSTRING_VALUE i s2"
    by (simp only: csv_clear_def Let_def s1_def s2_def)
  ultimately show ?thesis using callback_frame_trans callback_frame_clear by metis
qed

lemma table_clears:
  "table_entry t = Some f \<Longrightarrow> of_cov_clear f = Some clear \<Longrightarrow> clear = csv_clear \<or> (\<exists>t. clear = cov_clear t)"
  by (auto simp: table_entry_def object_table_def split: if_splits)

text \<open>A timeout callback reads only inside the transaction.\<close>

lemma cov_timeout_effect:
  "\<exists>s'. cov_timeout env invoke s = Some s' \<and> (s' = s \<or> (\<exists>t i. s' = record_loss t i s))"
proof (cases "be_tsm_pdu env (gb_log s) invoke")
  case (Some pdu)
  obtain n layer where d: "be_npdu_decode env pdu = (n, layer)" by fastforce
  show ?thesis
  proof (cases "n \<le> 0 \<or> nat n + 4 > length pdu \<or> layer")
    case False
    let ?body = "take (length pdu - nat n - 4) (drop (nat n + 4) pdu)"
    have reads: "rd pdu (nat n) = Some (pdu ! nat n)" "rd pdu (nat n + 2) = Some (pdu ! (nat n + 2))"
      "rd pdu (nat n + 3) = Some (pdu ! (nat n + 3))" "slice pdu (nat n + 4) (length pdu - nat n - 4) = Some ?body"
      using False by (simp_all add: slice_def)
    obtain used t i where c: "be_cov_decode env ?body = (used, t, i)" by (cases "be_cov_decode env ?body")
    have n: "\<not> n \<le> 0" "\<not> nat n + 4 > length pdu" "\<not> layer" using False by auto
    show ?thesis
      unfolding cov_timeout_def Some option.case d Let_def case_prod_conv n simp_thms if_False reads Option.bind.bind_lunit c
      by auto
  qed (simp add: cov_timeout_def Some d)
qed (simp add: cov_timeout_def)

lemma run_callback_frame: "\<exists>s'. run_callback env cb s = Some s' \<and> callback_frame s s'"
proof (cases cb)
  case (CB_clear t i)
  have "callback_frame s (clear i s)" if "table_entry t = Some f" "of_cov_clear f = Some clear" for f clear
    using table_clears [OF that] callback_frame_csv_clear
    by (auto simp: cov_clear_def intro: callback_frame_trans [OF callback_frame_stack callback_frame_clear])
  then show ?thesis by (auto simp: run_callback_def CB_clear callback_frame_refl split: option.split)
next
  case (CB_timeout invoke)
  then show ?thesis
    using cov_timeout_effect [of env invoke s] callback_frame_refl callback_frame_loss by (auto simp: run_callback_def)
next
  case CB_who_is
  then show ?thesis by (auto simp: run_callback_def who_is_def callback_frame_refl callback_frame_stack)
next
  case (CB_who_has q source)
  then show ?thesis
    by (auto simp: run_callback_def who_has_def Let_def callback_frame_refl callback_frame_stack split: option.split)
qed

lemma run_callbacks_frame: "\<exists>s'. run_callbacks env cbs s = Some s' \<and> callback_frame s s'"
proof (induction cbs arbitrary: s)
  case (Cons cb cbs)
  obtain s1 where 1: "run_callback env cb s = Some s1" "callback_frame s s1" using run_callback_frame by blast
  obtain s2 where 2: "run_callbacks env cbs s1 = Some s2" "callback_frame s1 s2" using Cons.IH by blast
  show ?case using 1 2 callback_frame_trans by auto
qed (simp add: callback_frame_refl)

lemma fsm_loop_frame: "\<exists>s'. fsm_loop env n s = Some s' \<and> callback_frame s s'"
proof (induction n arbitrary: s)
  case (Suc n)
  obtain idle cbs where f: "be_cov_fsm env (gb_log s) = (idle, cbs)" by fastforce
  obtain s1 where 1: "run_callbacks env cbs (stack [Cov_fsm] s) = Some s1" "callback_frame (stack [Cov_fsm] s) s1"
    using run_callbacks_frame by blast
  note s1 = callback_frame_trans [OF callback_frame_stack 1(2)]
  obtain s2 where 2: "fsm_loop env n s1 = Some s2" "callback_frame s1 s2" using Suc.IH by blast
  show ?case using s1 2 callback_frame_trans by (auto simp: f 1(1))
qed (simp add: callback_frame_refl)

subsection \<open>The invariant of the server\<close>

definition catalog_of_config :: "gw_bacnet \<Rightarrow> bool" where
  "catalog_of_config s \<longleftrightarrow>
     valid_catalog (Some (gb_catalog s)) (bc_point_count (gb_config s)) (the (bc_device_name (gb_config s))) = Some True"

definition times_ok :: "gw_bacnet \<Rightarrow> bool" where
  "times_ok s \<longleftrightarrow> gb_last_timer s \<le> gb_now s \<and> gb_started s \<le> gb_last_second s \<and> gb_last_second s \<le> gb_now s \<and>
     1000 dvd unat (gb_last_second s) - unat (gb_started s)"

definition sizes_ok :: "gw_bacnet \<Rightarrow> bool" where
  "sizes_ok s \<longleftrightarrow> length (gb_reliability s) = GATEWAY_BACNET_MAX_POINTS \<and>
     length (gb_quality_changed s) = GATEWAY_BACNET_MAX_POINTS \<and> length (gb_receive_buffer s) < 65536"

definition bacnet_inv :: "gw_bacnet \<Rightarrow> bool" where
  "bacnet_inv s \<longleftrightarrow> recovery_inv (gb_recovery s) (bs_cov_pending (gb_stats s)) \<and> sizes_ok s \<and> times_ok s \<and>
     (initialized s \<longrightarrow> catalog_of_config s)"

lemma stack_stack [simp]: "stack cs (stack ds s) = stack (ds @ cs) s"
  by (simp add: stack_def)

lemma stack_Nil [simp]: "stack [] s = s"
  by (simp add: stack_def)

lemma inv_stack [simp]: "bacnet_inv (stack cs s) = bacnet_inv s"
  by (simp add: bacnet_inv_def sizes_ok_def times_ok_def catalog_of_config_def initialized_def)

lemma frameD:
  assumes "frame s' = frame s"
  shows "gb_config s' = gb_config s" "gb_catalog s' = gb_catalog s" "gb_now s' = gb_now s" "gb_started s' = gb_started s"
    "gb_last_timer s' = gb_last_timer s" "gb_last_second s' = gb_last_second s" "gb_reliability s' = gb_reliability s"
    "gb_receive_buffer s' = gb_receive_buffer s" "gb_bip s' = gb_bip s" "gb_legacy s' = gb_legacy s"
    "initialized s' = initialized s" "link_up s' = link_up s" "gb_next_announce s' = gb_next_announce s"
    "bs_received_packets (gb_stats s') = bs_received_packets (gb_stats s)"
    "bs_good_points (gb_stats s') = bs_good_points (gb_stats s)" "bs_fault_points (gb_stats s') = bs_fault_points (gb_stats s)"
proof -
  have f: "\<And>g. g (frame s') = g (frame s)" using assms by simp
  show "gb_config s' = gb_config s" using f [of gb_config] by (simp add: frame_def)
  show "gb_catalog s' = gb_catalog s" using f [of gb_catalog] by (simp add: frame_def)
  show "gb_now s' = gb_now s" using f [of gb_now] by (simp add: frame_def)
  show "gb_started s' = gb_started s" using f [of gb_started] by (simp add: frame_def)
  show "gb_last_timer s' = gb_last_timer s" using f [of gb_last_timer] by (simp add: frame_def)
  show "gb_last_second s' = gb_last_second s" using f [of gb_last_second] by (simp add: frame_def)
  show "gb_reliability s' = gb_reliability s" using f [of gb_reliability] by (simp add: frame_def)
  show "gb_receive_buffer s' = gb_receive_buffer s" using f [of gb_receive_buffer] by (simp add: frame_def)
  show "gb_bip s' = gb_bip s" using f [of gb_bip] by (simp add: frame_def)
  show "gb_legacy s' = gb_legacy s" using f [of gb_legacy] by (simp add: frame_def)
  show "gb_next_announce s' = gb_next_announce s" using f [of gb_next_announce] by (simp add: frame_def)
  show "initialized s' = initialized s" using f [of "\<lambda>s. bs_initialized (gb_stats s)"] by (simp add: frame_def initialized_def)
  show "link_up s' = link_up s" using f [of "\<lambda>s. bs_link_up (gb_stats s)"] by (simp add: frame_def link_up_def)
  show "bs_received_packets (gb_stats s') = bs_received_packets (gb_stats s)"
    using f [of "\<lambda>s. bs_received_packets (gb_stats s)"] by (simp add: frame_def)
  show "bs_good_points (gb_stats s') = bs_good_points (gb_stats s)"
    using f [of "\<lambda>s. bs_good_points (gb_stats s)"] by (simp add: frame_def)
  show "bs_fault_points (gb_stats s') = bs_fault_points (gb_stats s)"
    using f [of "\<lambda>s. bs_fault_points (gb_stats s)"] by (simp add: frame_def)
qed

lemma inv_callback: "callback_frame s s' \<Longrightarrow> bacnet_inv s \<Longrightarrow> bacnet_inv s'"
  using frameD [of s' s]
  by (simp add: callback_frame_def bacnet_inv_def sizes_ok_def times_ok_def catalog_of_config_def)

definition state_before :: "bvlc_lib \<Rightarrow> gw_bacnet" where
  \<comment> \<open>the static objects of the program at its start\<close>
  "state_before lib = \<lparr>gb_config = bacnet_config_zero, gb_catalog = [], gb_stats = bacnet_stats_zero, gb_legacy = False,
     gb_now = 0, gb_started = 0, gb_last_timer = 0, gb_last_second = 0, gb_next_announce = 0,
     gb_reliability = replicate GATEWAY_BACNET_MAX_POINTS RELIABILITY_NO_FAULT_DETECTED,
     gb_quality_changed = replicate GATEWAY_BACNET_MAX_POINTS False,
     gb_recovery = replicate RECOVERY_CAPACITY recovery_zero, gb_receive_buffer = replicate (bl_max_pdu lib) 0,
     gb_bip = bip_state_init, gb_log = []\<rparr>"

lemma recovery_inv_zero: "recovery_inv (replicate RECOVERY_CAPACITY recovery_zero) 0"
  by (simp add: recovery_inv_def pending_keys_def recovery_zero_def)

lemma inv_before: "bl_max_pdu lib < 65536 \<Longrightarrow> bacnet_inv (state_before lib)"
  by (simp add: bacnet_inv_def state_before_def recovery_inv_zero bacnet_stats_zero_def sizes_ok_def times_ok_def
      initialized_def)

subsection \<open>Shutdown and start\<close>

lemma shutdown_inv:
  assumes "length (gb_receive_buffer s) < 65536"
  shows "\<exists>s'. gateway_bacnet_shutdown env s = Some s' \<and> bacnet_inv s' \<and> \<not> initialized s' \<and>
    gb_receive_buffer s' = gb_receive_buffer s \<and> \<not> bip_valid (gb_bip s')"
proof -
  define s1 where "s1 = stack [Cov_init] (s\<lparr>gb_bip := fst (bip_cleanup (gb_bip s))\<rparr>)"
  obtain s2 where f: "fsm_loop env 8 s1 = Some s2" "callback_frame s1 s2" using fsm_loop_frame by blast
  have b: "gb_receive_buffer s2 = gb_receive_buffer s" "gb_bip s2 = fst (bip_cleanup (gb_bip s))"
    using f(2) frameD [of s2 s1] by (simp_all add: callback_frame_def s1_def)
  define s3 where "s3 = (stack (map (\<lambda>invoke. Tsm_free (of_nat invoke)) [1..<256] @ [Objects_cleanup]) s2)
      \<lparr>gb_recovery := replicate RECOVERY_CAPACITY recovery_zero,
       gb_reliability := replicate GATEWAY_BACNET_MAX_POINTS RELIABILITY_NO_FAULT_DETECTED,
       gb_quality_changed := replicate GATEWAY_BACNET_MAX_POINTS False,
       gb_config := bacnet_config_zero, gb_catalog := [], gb_stats := bacnet_stats_zero, gb_legacy := False,
       gb_now := 0, gb_started := 0, gb_last_timer := 0, gb_last_second := 0, gb_next_announce := 0\<rparr>"
  have "gateway_bacnet_shutdown env s = Some s3"
    by (simp only: gateway_bacnet_shutdown_def Let_def s1_def [symmetric] f(1) option.map s3_def)
  moreover have "bacnet_inv s3 \<and> \<not> initialized s3 \<and> gb_receive_buffer s3 = gb_receive_buffer s \<and> \<not> bip_valid (gb_bip s3)"
    using assms b by (simp add: s3_def bacnet_inv_def recovery_inv_zero bacnet_stats_zero_def sizes_ok_def times_ok_def
        initialized_def bip_valid_def bip_cleanup_def)
  ultimately show ?thesis by blast
qed

lemma create_point_stack: "create_point env p s = Some (ok, s') \<Longrightarrow> \<exists>cs. s' = stack cs s"
  by (auto simp: create_point_def Let_def split: if_splits option.splits intro: exI [of _ "[]"])

lemma create_points_stack: "create_points env ps is s = Some (ok, s') \<Longrightarrow> \<exists>cs. s' = stack cs s"
proof (induction "is" arbitrary: s)
  case (Cons i "is")
  then obtain p ok1 s1 where 1: "create_point env p s = Some (ok1, s1)" "if ok1 then create_points env ps is s1 = Some (ok, s') else s' = s1"
    by (auto split: option.splits bool.splits)
  then show ?case using create_point_stack [OF 1(1)] Cons.IH [of s1] by (auto split: if_splits)
qed (auto intro: exI [of _ "[]"])

lemma create_diagnostics_stack: "create_diagnostics env ds s = (ok, s') \<Longrightarrow> \<exists>cs. s' = stack cs s"
proof (induction env ds s arbitrary: s' rule: create_diagnostics.induct)
  case (2 env i name rest s)
  show ?case
  proof (cases "be_create env (gb_log s) OBJECT_ANALOG_INPUT (DIAGNOSTIC_BASE + i)")
    case True
    then have "\<exists>cs. s' = stack cs (stack [Name_set OBJECT_ANALOG_INPUT (DIAGNOSTIC_BASE + i) name,
        Units_set (DIAGNOSTIC_BASE + i) (if i = 0 then UNITS_SECONDS else UNITS_NO_UNITS), Cov_increment_set (DIAGNOSTIC_BASE + i) (Fin 1)]
          (stack [Create OBJECT_ANALOG_INPUT (DIAGNOSTIC_BASE + i)] s))"
      using 2 by (simp add: Let_def)
    then show ?thesis by auto
  qed (use 2 in \<open>auto simp: Let_def\<close>)
qed (auto intro: exI [of _ "[]"])

lemma create_health_stack: "create_health env s = (ok, s') \<Longrightarrow> \<exists>cs. s' = stack cs s"
  by (auto simp: create_health_def Let_def split: if_splits)

lemma catalog_loop_range: "catalog_loop ps name is = Some True \<Longrightarrow> i \<in> set is \<Longrightarrow> i < length ps"
  by (induction "is") (auto split: if_splits option.splits bool.splits)

lemma valid_catalog_bounds:
  assumes "valid_catalog (Some ps) count name = Some True"
  shows "0 < count" "count \<le> GATEWAY_BACNET_MAX_POINTS" "count \<le> length ps"
proof -
  show c: "0 < count" "count \<le> GATEWAY_BACNET_MAX_POINTS"
    using assms by (simp_all add: valid_catalog_def split: if_splits)
  have "catalog_loop ps name [0..<count] = Some True" using assms c by (simp add: valid_catalog_def split: if_splits)
  from catalog_loop_range [OF this, of "count - 1"] c show "count \<le> length ps" by simp
qed

lemma give_up_inv:
  assumes "length (gb_receive_buffer s) < 65536"
  shows "\<exists>s'. give_up env s = Some (False, s') \<and> bacnet_inv s' \<and> \<not> initialized s' \<and> gb_receive_buffer s' = gb_receive_buffer s"
  using shutdown_inv [OF assms, of env] by (auto simp: give_up_def)

lemma bip_restart_simps [simp]:
  "gb_config (snd (bip_restart env s)) = gb_config s" "gb_catalog (snd (bip_restart env s)) = gb_catalog s"
  "gb_stats (snd (bip_restart env s)) = gb_stats s" "gb_legacy (snd (bip_restart env s)) = gb_legacy s"
  "gb_now (snd (bip_restart env s)) = gb_now s" "gb_started (snd (bip_restart env s)) = gb_started s"
  "gb_last_timer (snd (bip_restart env s)) = gb_last_timer s" "gb_last_second (snd (bip_restart env s)) = gb_last_second s"
  "gb_next_announce (snd (bip_restart env s)) = gb_next_announce s" "gb_reliability (snd (bip_restart env s)) = gb_reliability s"
  "gb_quality_changed (snd (bip_restart env s)) = gb_quality_changed s" "gb_recovery (snd (bip_restart env s)) = gb_recovery s"
  "gb_receive_buffer (snd (bip_restart env s)) = gb_receive_buffer s"
  by (simp_all add: bip_restart_def split: prod.split)

lemma inv_bip_restart [simp]: "bacnet_inv (snd (bip_restart env s)) = bacnet_inv s"
  by (simp add: bacnet_inv_def sizes_ok_def times_ok_def catalog_of_config_def initialized_def)

lemma bip_restart_valid: "fst (bip_restart env s) \<longleftrightarrow> bip_valid (gb_bip (snd (bip_restart env s)))"
  by (auto simp: bip_restart_def bip_init_def bip_cleanup_def bip_valid_def Let_def split: if_splits prod.split option.split list.split)

lemma network_properties_stack: "\<exists>cs. network_properties env s = stack cs s"
  by (auto simp: network_properties_def Let_def)

lemma announce_stack: "\<exists>cs t. announce env s = (stack cs s)\<lparr>gb_next_announce := t\<rparr>"
proof (cases "\<not> link_up s \<or> \<not> bip_valid (gb_bip s)")
  case True
  then have "announce env s = (stack [] s)\<lparr>gb_next_announce := gb_next_announce s\<rparr>" by (auto simp: announce_def)
  then show ?thesis by blast
qed (auto simp: announce_def)

lemma inv_announce [simp]: "bacnet_inv (announce env s) = bacnet_inv s"
proof -
  obtain cs t where "announce env s = (stack cs s)\<lparr>gb_next_announce := t\<rparr>" using announce_stack by blast
  then show ?thesis by (simp add: bacnet_inv_def sizes_ok_def times_ok_def catalog_of_config_def initialized_def)
qed

lemma gb_stats_announce [simp]: "gb_stats (announce env s) = gb_stats s"
  using announce_stack [of env s] by auto

lemma inv_network_properties [simp]: "bacnet_inv (network_properties env s) = bacnet_inv s"
  using network_properties_stack [of env s] by auto

lemma gb_stats_network_properties [simp]: "gb_stats (network_properties env s) = gb_stats s"
  using network_properties_stack [of env s] by auto

text \<open>A start with valid arguments: the state the objects are created in satisfies the invariant but for
  being initialized.\<close>

lemma init_state_ready:
  assumes "sizes_ok s" "valid_catalog (Some (catalog_points (input_catalog c))) (input_count c) (the (bc_device_name c)) = Some True"
  shows "bacnet_inv (init_state env c t s)" "catalog_of_config (init_state env c t s)" "\<not> initialized (init_state env c t s)"
    "gb_receive_buffer (init_state env c t s) = gb_receive_buffer s"
  using assms valid_catalog_bounds [OF assms(2)]
  by (auto simp: init_state_def Let_def bacnet_inv_def sizes_ok_def times_ok_def catalog_of_config_def initialized_def
      recovery_inv_zero bacnet_stats_zero_def input_catalog_def input_count_def)

definition ready :: "gw_bacnet \<Rightarrow> bool" where
  "ready s \<longleftrightarrow> bacnet_inv s \<and> catalog_of_config s"

lemma ready_stack [simp]: "ready (stack cs s) = ready s"
  by (simp add: ready_def catalog_of_config_def)

definition started :: "gw_bacnet \<Rightarrow> bool" where
  "started s \<longleftrightarrow> initialized s \<and> link_up s \<and> bip_valid (gb_bip s)"

text \<open>The outcome of a start from the state \<open>s\<close>: the invariant, and if it succeeds a running server.\<close>

definition outcome :: "(bool \<times> gw_bacnet) option \<Rightarrow> bool" where
  "outcome x \<longleftrightarrow> (\<forall>ok s'. x = Some (ok, s') \<longrightarrow> bacnet_inv s' \<and> (ok \<longrightarrow> started s'))"

definition startable :: "gw_bacnet \<Rightarrow> bool" where
  "startable s \<longleftrightarrow> ready s \<and> link_up s"

lemma startable_stack [simp]: "startable (stack cs s) = startable s"
  by (simp add: startable_def link_up_def)

lemma outcome_give_up: "bacnet_inv s \<Longrightarrow> outcome (give_up env s)"
  using give_up_inv [of s env] by (auto simp: outcome_def bacnet_inv_def sizes_ok_def)

lemma startable_inv: "startable s \<Longrightarrow> bacnet_inv s"
  by (simp add: startable_def ready_def)

lemma outcome_services:
  assumes "startable s"
  shows "outcome (start_services env c s)"
proof -
  define s4 where "s4 = stack [Services_init, Cov_init] (network_properties env s)"
  obtain ok s5 where 5: "bip_restart env s4 = (ok, s5)" by fastforce
  have "startable s4" using assms network_properties_stack [of env s] by (auto simp: s4_def)
  then have s5: "startable s5" "ok \<longleftrightarrow> bip_valid (gb_bip s5)"
    using bip_restart_simps [of env s4] inv_bip_restart [of env s4] bip_restart_valid [of env s4]
    by (auto simp: 5 ready_def catalog_of_config_def link_up_def startable_def)
  show ?thesis
  proof (cases ok)
    case False
    then show ?thesis using outcome_give_up [OF startable_inv [OF s5(1)]]
      by (simp add: start_services_def s4_def [symmetric] 5)
  next
    case True
    define s6 where "s6 = stack [Present_binary (DIAGNOSTIC_BASE + 1) True] (upd_stats (\<lambda>x. x\<lparr>bs_initialized := True\<rparr>)
        (stack [Database_revision (if bc_database_revision c \<noteq> 0 then bc_database_revision c else 1)] s5))"
    have s6: "bacnet_inv s6" "initialized s6" "link_up s6" "bip_valid (gb_bip s6)"
      using s5 True by (simp_all add: s6_def startable_def ready_def bacnet_inv_def sizes_ok_def times_ok_def
          catalog_of_config_def initialized_def link_up_def)
    have "start_services env c s = Some (True, announce env s6)"
      using True by (simp add: start_services_def s4_def [symmetric] 5 s6_def Let_def)
    moreover have "gb_bip (announce env s6) = gb_bip s6" using announce_stack [of env s6] by auto
    ultimately show ?thesis using s6 by (simp add: outcome_def started_def initialized_def link_up_def)
  qed
qed

lemma outcome_objects:
  assumes "startable s"
  shows "outcome (start_objects env c s)"
proof -
  have created: "outcome (case create_health env s3 of (False, s) \<Rightarrow> give_up env s | (True, s) \<Rightarrow> start_services env c s)"
    if s3: "startable s3" for s3
  proof -
    obtain ok s4 where h: "create_health env s3 = (ok, s4)" by fastforce
    then have "startable s4" using create_health_stack [OF h] s3 by auto
    then show ?thesis using outcome_services [of s4 env c] outcome_give_up [OF startable_inv] by (cases ok) (simp_all add: h)
  qed
  have points: "outcome (case create_diagnostics env diagnostic_names s2 of (False, s) \<Rightarrow> give_up env s
      | (True, s) \<Rightarrow> (case create_health env s of (False, s) \<Rightarrow> give_up env s | (True, s) \<Rightarrow> start_services env c s))"
    if s2: "startable s2" for s2
  proof -
    obtain ok s3 where d: "create_diagnostics env diagnostic_names s2 = (ok, s3)" by fastforce
    then have "startable s3" using create_diagnostics_stack [OF d] s2 by auto
    then show ?thesis using created [of s3] outcome_give_up [OF startable_inv] by (cases ok) (simp_all add: d)
  qed
  show ?thesis
  proof (cases "create_points env (gb_catalog s) [0..<bc_point_count (gb_config s)] s")
    case None
    then show ?thesis by (simp add: start_objects_def outcome_def)
  next
    case (Some r)
    then obtain ok s2 where r: "r = (ok, s2)" "startable s2"
      using create_points_stack assms by (cases r) (metis startable_stack)
    then show ?thesis using points [OF r(2)] outcome_give_up [OF startable_inv] by (cases ok) (simp_all add: start_objects_def Some)
  qed
qed

lemma init_inv:
  assumes "bacnet_inv s"
  shows "outcome (gateway_bacnet_init env input t s) \<or> gateway_bacnet_init env input t s = Some (False, s)"
proof (cases "\<exists>c. input = Some c \<and> \<not> (initialized s \<or> \<not> init_arguments env c) \<and>
    valid_catalog (Some (catalog_points (input_catalog c))) (input_count c) (the (bc_device_name c)) = Some True")
  case True
  then obtain c where c: "input = Some c" "\<not> (initialized s \<or> \<not> init_arguments env c)"
    "valid_catalog (Some (catalog_points (input_catalog c))) (input_count c) (the (bc_device_name c)) = Some True" by blast
  have "sizes_ok s" using assms by (simp add: bacnet_inv_def)
  moreover have "link_up (init_state env c t s)" by (simp add: link_up_def init_state_def Let_def)
  ultimately have "startable (init_state env c t s)"
    using init_state_ready [OF _ c(3), of s env t] unfolding startable_def ready_def by blast
  then have "startable (device_init c (init_state env c t s))" by (simp add: device_init_def)
  then have "outcome (start_objects env c (device_init c (init_state env c t s)))" by (rule outcome_objects)
  then show ?thesis using c by (simp add: gateway_bacnet_init_def)
next
  case False
  then have "gateway_bacnet_init env input t s = Some (False, s) \<or> gateway_bacnet_init env input t s = None"
    by (cases input) (auto simp: gateway_bacnet_init_def split: option.splits bool.splits)
  then show ?thesis by (auto simp: outcome_def)
qed

subsection \<open>The operations keep the invariant\<close>

lemma unat_lt_u64: "unat (w::u64) < 18446744073709551616"
  using unsigned_less [of w] by simp

lemma publish_point_frame [simp]:
  "gb_config (publish_point i p v s) = gb_config s" "gb_catalog (publish_point i p v s) = gb_catalog s"
  "gb_legacy (publish_point i p v s) = gb_legacy s" "gb_now (publish_point i p v s) = gb_now s"
  "gb_recovery (publish_point i p v s) = gb_recovery s" "gb_started (publish_point i p v s) = gb_started s"
  "gb_last_timer (publish_point i p v s) = gb_last_timer s" "gb_last_second (publish_point i p v s) = gb_last_second s"
  "gb_receive_buffer (publish_point i p v s) = gb_receive_buffer s" "gb_bip (publish_point i p v s) = gb_bip s"
  "length (gb_reliability (publish_point i p v s)) = length (gb_reliability s)"
  "length (gb_quality_changed (publish_point i p v s)) = length (gb_quality_changed s)"
  "gb_stats (publish_point i p v s) =
    (if good p v then (gb_stats s)\<lparr>bs_good_points := bs_good_points (gb_stats s) + 1\<rparr> else gb_stats s)"
  by (simp_all add: publish_point_def Let_def)

lemma publish_point_inv [simp]: "bacnet_inv (publish_point i p v s) = bacnet_inv s"
  by (simp add: bacnet_inv_def sizes_ok_def times_ok_def catalog_of_config_def initialized_def)

lemma publish_loop_total:
  assumes "\<forall>i \<in> set is. i < length (gb_catalog s) \<and> i < length values"
  shows "\<exists>s'. publish_loop values is s = Some s' \<and> gb_config s' = gb_config s \<and> gb_catalog s' = gb_catalog s \<and>
    gb_legacy s' = gb_legacy s \<and> initialized s' = initialized s \<and> link_up s' = link_up s \<and> bacnet_inv s' = bacnet_inv s"
  using assms
proof (induction "is" arbitrary: s)
  case (Cons i "is")
  have i: "i < length (gb_catalog s)" "i < length values" using Cons.prems by simp_all
  let ?s = "publish_point i (gb_catalog s ! i) (values ! i) s"
  obtain s' where "publish_loop values is ?s = Some s'" "gb_config s' = gb_config ?s" "gb_catalog s' = gb_catalog ?s"
    "gb_legacy s' = gb_legacy ?s" "initialized s' = initialized ?s" "link_up s' = link_up ?s" "bacnet_inv s' = bacnet_inv ?s"
    using Cons.IH [of ?s] Cons.prems by auto
  then show ?case using i by (simp add: initialized_def link_up_def)
qed simp

lemma inv_stats:
  assumes "bs_cov_pending (f (gb_stats s)) = bs_cov_pending (gb_stats s)" "bs_initialized (f (gb_stats s)) = bs_initialized (gb_stats s)"
  shows "bacnet_inv (upd_stats f s) = bacnet_inv s"
  using assms by (simp add: bacnet_inv_def sizes_ok_def times_ok_def catalog_of_config_def initialized_def)

lemma update_inv:
  assumes "bacnet_inv s" "case values of None \<Rightarrow> True | Some vs \<Rightarrow> bc_point_count (gb_config s) \<le> length vs"
  shows "\<exists>s'. gateway_bacnet_update values s = Some s' \<and> bacnet_inv s'"
proof (cases "values \<noteq> None \<and> initialized s")
  case True
  then obtain vs where vs: "values = Some vs" "initialized s" by auto
  then have c: "0 < bc_point_count (gb_config s)" "bc_point_count (gb_config s) \<le> length (gb_catalog s)"
    "bc_point_count (gb_config s) \<le> length vs"
    using assms valid_catalog_bounds by (auto simp: bacnet_inv_def catalog_of_config_def)
  let ?s = "upd_stats (\<lambda>x. x\<lparr>bs_good_points := 0\<rparr>) s"
  obtain s1 where s1: "publish_loop vs [0..<bc_point_count (gb_config s)] ?s = Some s1" "gb_legacy s1 = gb_legacy s"
    "gb_config s1 = gb_config s" "bacnet_inv s1"
    using publish_loop_total [of "[0..<bc_point_count (gb_config s)]" ?s vs] c assms(1) by (auto simp: inv_stats)
  have "0 < length vs" using c by linarith
  then show ?thesis
    using s1 vs by (simp add: gateway_bacnet_update_def publish_diagnostics_def Let_def inv_stats)
next
  case False
  then show ?thesis using assms(1) by (auto simp: gateway_bacnet_update_def split: option.split)
qed

lemma tick_timer_inv:
  assumes "bacnet_inv s"
  shows "\<exists>s'. tick_timer env s = Some s' \<and> bacnet_inv s' \<and> gb_now s' = gb_now s \<and> gb_last_second s' = gb_last_second s \<and>
    gb_started s' = gb_started s \<and> initialized s' = initialized s \<and> link_up s' = link_up s"
proof (cases "gb_now s - gb_last_timer s \<noteq> 0")
  case True
  define cs where "cs = [Tsm_timer (if gb_now s - gb_last_timer s > 65535 then 65535 else ucast (gb_now s - gb_last_timer s))]"
  obtain s1 where r: "run_callbacks env (be_tsm_timer env (gb_log s)) (stack cs s) = Some s1"
    "callback_frame (stack cs s) s1"
    using run_callbacks_frame by blast
  have "frame s1 = frame (stack cs s)" using r(2) by (simp add: callback_frame_def)
  note f = frameD [OF this]
  have "tick_timer env s = Some (s1\<lparr>gb_last_timer := gb_now s\<rparr>)"
    using True r(1) f(3) by (simp add: tick_timer_def Let_def cs_def)
  moreover have "bacnet_inv s1" using inv_callback [OF r(2)] assms by simp
  ultimately show ?thesis using f
    by (simp add: bacnet_inv_def sizes_ok_def times_ok_def catalog_of_config_def initialized_def link_up_def)
next
  case False
  then show ?thesis using assms by (simp add: tick_timer_def Let_def)
qed

text \<open>Whole seconds are handed on, and the remainder is kept.\<close>

lemma tick_seconds_time:
  assumes "gb_last_second s \<le> gb_now s"
  defines "n \<equiv> unat (gb_now s) - unat (gb_last_second s)"
  shows "unat (gb_last_second (tick_seconds s)) = unat (gb_last_second s) + n div 1000 * 1000"
    "gb_now (tick_seconds s) = gb_now s" "gb_started (tick_seconds s) = gb_started s"
    "gb_last_timer (tick_seconds s) = gb_last_timer s"
    "unat ((gb_now s - gb_last_second s) div 1000) = n div 1000"
proof -
  have le: "unat (gb_last_second s) \<le> unat (gb_now s)" using assms(1) by (simp add: word_le_nat_alt)
  have d: "unat ((gb_now s - gb_last_second s) div 1000) = n div 1000"
    using assms(1) by (simp add: n_def unat_div unat_sub)
  then show "unat ((gb_now s - gb_last_second s) div 1000) = n div 1000" .
  have lt: "unat (gb_last_second s) + n div 1000 * 1000 < 2 ^ 64"
    using le unat_lt_u64 [of "gb_now s"] div_times_less_eq_dividend [of n 1000] by (simp add: n_def)
  have "unat (gb_last_second s + (gb_now s - gb_last_second s) div 1000 * 1000) = unat (gb_last_second s) + n div 1000 * 1000"
    using lt d by (simp add: unat_word_ariths)
  then show "unat (gb_last_second (tick_seconds s)) = unat (gb_last_second s) + n div 1000 * 1000"
    using d by (auto simp: tick_seconds_def Let_def)
  show "gb_now (tick_seconds s) = gb_now s" "gb_started (tick_seconds s) = gb_started s"
    "gb_last_timer (tick_seconds s) = gb_last_timer s"
    by (simp_all add: tick_seconds_def Let_def)
qed

lemma tick_seconds_inv:
  assumes "bacnet_inv s"
  shows "bacnet_inv (tick_seconds s)" "initialized (tick_seconds s) = initialized s" "link_up (tick_seconds s) = link_up s"
proof -
  have t: "gb_last_second s \<le> gb_now s" "unat (gb_started s) \<le> unat (gb_last_second s)" "unat (gb_last_second s) \<le> unat (gb_now s)"
    "1000 dvd unat (gb_last_second s) - unat (gb_started s)" "gb_last_timer s \<le> gb_now s"
    using assms by (simp_all add: bacnet_inv_def times_ok_def word_le_nat_alt)
  let ?n = "unat (gb_now s) - unat (gb_last_second s)"
  note e = tick_seconds_time [OF t(1)]
  have "times_ok (tick_seconds s)"
  proof -
    have "?n div 1000 * 1000 \<le> ?n" by simp
    then have "unat (gb_last_second (tick_seconds s)) \<le> unat (gb_now s)" using e(1) t(3) by linarith
    moreover have "unat (gb_last_second (tick_seconds s)) - unat (gb_started s) =
        (unat (gb_last_second s) - unat (gb_started s)) + ?n div 1000 * 1000"
      using e(1) t(2) by simp
    then have "1000 dvd unat (gb_last_second (tick_seconds s)) - unat (gb_started s)"
      using t(4) by (metis dvd_add dvd_triv_right)
    moreover have "unat (gb_started s) \<le> unat (gb_last_second (tick_seconds s))" using e(1) t(2) by linarith
    ultimately show ?thesis using e(2-4) t(5) by (simp add: times_ok_def word_le_nat_alt)
  qed
  moreover have "gb_config (tick_seconds s) = gb_config s" "gb_catalog (tick_seconds s) = gb_catalog s"
    "gb_stats (tick_seconds s) = gb_stats s" "gb_recovery (tick_seconds s) = gb_recovery s"
    "gb_reliability (tick_seconds s) = gb_reliability s" "gb_quality_changed (tick_seconds s) = gb_quality_changed s"
    "gb_receive_buffer (tick_seconds s) = gb_receive_buffer s"
    by (simp_all add: tick_seconds_def Let_def)
  ultimately show "bacnet_inv (tick_seconds s)" "initialized (tick_seconds s) = initialized s" "link_up (tick_seconds s) = link_up s"
    using assms by (simp_all add: bacnet_inv_def sizes_ok_def catalog_of_config_def initialized_def link_up_def)
qed

lemma now_inv:
  assumes "bacnet_inv s" "gb_now s \<le> t"
  shows "bacnet_inv (s\<lparr>gb_now := t\<rparr>)"
  using assms by (auto simp: bacnet_inv_def sizes_ok_def times_ok_def catalog_of_config_def initialized_def)

lemma tick_inv:
  assumes "bacnet_inv s"
  shows "\<exists>s'. gateway_bacnet_tick env t s = Some s' \<and> bacnet_inv s'"
proof (cases "initialized s \<and> \<not> t < gb_now s")
  case True
  then have n: "bacnet_inv (s\<lparr>gb_now := t\<rparr>)" by (intro now_inv assms) auto
  obtain s1 where 1: "tick_timer env (s\<lparr>gb_now := t\<rparr>) = Some s1" "bacnet_inv s1" using tick_timer_inv [OF n] by blast
  define s2 where "s2 = stack [Present_analog DIAGNOSTIC_BASE (fdiv (float_of_nat (unat (gb_now (tick_seconds s1) - gb_started (tick_seconds s1)))) (Fin 1000)),
      Present_analog (DIAGNOSTIC_BASE + 1) (float_of_nat (unat (bs_received_packets (gb_stats (tick_seconds s1)))))] (tick_seconds s1)"
  have 2: "bacnet_inv s2" using tick_seconds_inv(1) [OF 1(2)] by (simp add: s2_def)
  obtain s3 where 3: "fsm_loop env (4 * be_max_subscriptions env + 8) s2 = Some s3" "callback_frame s2 s3"
    using fsm_loop_frame by blast
  have "bacnet_inv s3" using inv_callback [OF 3(2)] 2 .
  then show ?thesis
    using True 1(1) 2 3(1) by (simp add: gateway_bacnet_tick_def Let_def s2_def [symmetric])
next
  case False
  then show ?thesis using assms by (auto simp: gateway_bacnet_tick_def)
qed

lemma decode_total:
  assumes "bvlc_ok lib" "\<And>f. data = Some f \<Longrightarrow> n \<le> length f" "unat m \<le> length p"
  shows "\<exists>k a' p' b'. bip_port_decode_datagram lib b data n ip port (Some a) (Some p) m = Some (k, Some a', Some p', b') \<and>
    length p' = length p \<and> bp_socket b' = bp_socket b"
proof (cases data)
  case None
  then show ?thesis by (simp add: bip_port_decode_datagram_def)
next
  case (Some f)
  then show ?thesis
    using assms(2) [OF Some] assms(3)
    by (auto simp: decode_exact [OF assms(1) _ assms(3)] bip_accept_def Let_def split: option.splits prod.splits if_splits)
qed

lemma received_inv:
  assumes "bacnet_inv s" "length p = length (gb_receive_buffer s)"
  shows "\<exists>r s'. received env (n, Some a, Some p, b) s = Some (r, s') \<and> bacnet_inv s' \<and> (r \<longleftrightarrow> n \<noteq> 0)"
proof -
  define s1 where "s1 = s\<lparr>gb_bip := b, gb_receive_buffer := p\<rparr>"
  have 1: "bacnet_inv s1"
    using assms by (simp add: s1_def bacnet_inv_def sizes_ok_def times_ok_def catalog_of_config_def initialized_def)
  define s2 where "s2 = stack [Npdu_handler a (take (unat n) p)] (upd_stats (\<lambda>x. x\<lparr>bs_received_packets := bs_received_packets x + 1\<rparr>) s1)"
  have 2: "bacnet_inv s2" using 1 by (simp add: s2_def inv_stats)
  obtain s3 where 3: "run_callbacks env (be_npdu env (gb_log s2)) s2 = Some s3" "callback_frame s2 s3"
    using run_callbacks_frame by blast
  show ?thesis
  proof (cases "n = 0")
    case True
    then have "received env (n, Some a, Some p, b) s = Some (False, s1)" by (simp add: received_def s1_def)
    then show ?thesis using 1 True by blast
  next
    case False
    have "received env (n, Some a, Some p, b) s = Some (True, s3)"
      using False 3(1) by (simp add: received_def Let_def s2_def s1_def)
    then show ?thesis using inv_callback [OF 3(2) 2] False by blast
  qed
qed

definition wait_ok :: "bip_wait \<Rightarrow> bool" where
  \<comment> \<open>\<open>recvfrom\<close> returns at most what it stored\<close>
  "wait_ok w \<longleftrightarrow> nat (bw_received w) \<le> length (bw_frame w)"

lemma buffer_u16: "bacnet_inv s \<Longrightarrow> unat (of_nat (length (gb_receive_buffer s)) :: u16) = length (gb_receive_buffer s)"
  by (intro unat_of_nat_small) (simp add: bacnet_inv_def sizes_ok_def)

lemma receive_total:
  assumes "bvlc_ok lib" "wait_ok w" "unat m \<le> length p"
  shows "\<exists>k a' p' b'. bip_receive lib w b (Some a) (Some p) m = Some (k, Some a', Some p', b') \<and>
    length p' = length p \<and> bp_socket b' = bp_socket b"
  using decode_total [OF assms(1) _ assms(3), of "Some (bw_frame w)" "nat (bw_received w)" b "bw_ip w" "bw_port w" a] assms(2)
  by (auto simp: bip_receive_def wait_ok_def)

lemma poll_loop_inv:
  assumes lib: "bvlc_ok (be_bvlc env)" and w: "\<forall>w \<in> set waits. wait_ok w" and s: "bacnet_inv s" and count: "count \<le> 16"
  shows "\<exists>k s'. poll_loop env waits count s = Some (k, s') \<and> bacnet_inv s' \<and> k \<le> 16"
  using w s count
proof (induction waits arbitrary: s count)
  case (Cons w ws)
  note buf = buffer_u16 [OF Cons.prems(2)]
  have wok: "wait_ok w" using Cons.prems(1) by simp
  obtain k a' p' b' where r: "bip_receive (be_bvlc env) w (gb_bip s) (Some nowhere) (Some (gb_receive_buffer s))
      (of_nat (length (gb_receive_buffer s))) = Some (k, Some a', Some p', b')" "length p' = length (gb_receive_buffer s)"
    using receive_total [OF lib wok, of "of_nat (length (gb_receive_buffer s))" "gb_receive_buffer s" "gb_bip s" nowhere] buf by auto
  obtain got s1 where g: "received env (k, Some a', Some p', b') s = Some (got, s1)" "bacnet_inv s1"
    using received_inv [OF Cons.prems(2) r(2)] by blast
  have rest: "\<exists>k s'. poll_loop env ws (count + 1) s1 = Some (k, s') \<and> bacnet_inv s' \<and> k \<le> 16" if "count < 16"
    using Cons.IH [of s1 "count + 1"] Cons.prems(1) g(2) that by simp
  show ?case
  proof (cases "count < 16")
    case True
    have "poll_loop env (w # ws) count s = (if got then poll_loop env ws (count + 1) s1 else Some (count, s1))"
      using True r(1) g(1) by (cases got) simp_all
    then show ?thesis using rest [OF True] g(2) True by (cases got) simp_all
  next
    case False
    then show ?thesis using Cons.prems(2,3) by simp
  qed
qed simp

lemma poll_inv:
  assumes "bvlc_ok (be_bvlc env)" "\<forall>w \<in> set waits. wait_ok w" "bacnet_inv s"
  shows "\<exists>k s'. gateway_bacnet_poll env waits s = Some (k, s') \<and> bacnet_inv s' \<and> k \<le> 16"
  using poll_loop_inv [OF assms, of 0] assms(3) by (simp add: gateway_bacnet_poll_def)

lemma datagram_inv:
  assumes "bvlc_ok (be_bvlc env)" "\<And>f. data = Some f \<Longrightarrow> n \<le> length f" "bacnet_inv s"
  shows "\<exists>r s'. gateway_bacnet_process_datagram env data n ip port s = Some (r, s') \<and> bacnet_inv s'"
proof -
  let ?m = "of_nat (length (gb_receive_buffer s)) :: u16"
  have m: "unat ?m \<le> length (gb_receive_buffer s)" using buffer_u16 [OF assms(3)] by simp
  obtain k a' p' b' where r: "bip_port_decode_datagram (be_bvlc env) (gb_bip s) data n ip port (Some nowhere) (Some (gb_receive_buffer s))
      ?m = Some (k, Some a', Some p', b')" "length p' = length (gb_receive_buffer s)"
    using decode_total [where lib = "be_bvlc env" and data = data and n = n and m = ?m and p = "gb_receive_buffer s"
        and b = "gb_bip s" and ip = ip and port = port and a = nowhere, OF assms(1,2) m] by blast
  then show ?thesis
    using received_inv [OF assms(3) r(2), of env k a' b'] assms(3)
    unfolding gateway_bacnet_process_datagram_def by (simp only: r(1) option.case split: if_split) blast
qed

lemma inv_bip [simp]: "bacnet_inv (s\<lparr>gb_bip := b\<rparr>) = bacnet_inv s"
  by (simp add: bacnet_inv_def sizes_ok_def times_ok_def catalog_of_config_def initialized_def)

lemma inv_config:
  assumes "bc_point_count c = bc_point_count (gb_config s)" "bc_device_name c = bc_device_name (gb_config s)"
  shows "bacnet_inv (s\<lparr>gb_config := c\<rparr>) = bacnet_inv s"
  using assms by (simp add: bacnet_inv_def sizes_ok_def times_ok_def catalog_of_config_def initialized_def)

lemma rebind_inv:
  assumes "bacnet_inv s"
  shows "bacnet_inv (rebind env ip netmask gateway relink s)"
proof -
  define s2 where "s2 = s\<lparr>gb_config := (gb_config s)\<lparr>bc_local_ip := ip, bc_netmask := netmask, bc_gateway := gateway\<rparr>,
      gb_bip := bip_port_configure ip netmask gateway (bc_udp_port (gb_config s)) (gb_bip s)\<rparr>"
  have 2: "bacnet_inv s2" unfolding s2_def inv_bip using assms by (subst inv_config) simp_all
  have "bacnet_inv (let (ok, r) = bip_restart env s2 in if \<not> ok then upd_stats (\<lambda>x. x\<lparr>bs_link_up := False\<rparr>) r else r)"
    using 2 inv_bip_restart [of env s2] by (cases "bip_restart env s2") (simp add: inv_stats)
  with 2 show ?thesis unfolding rebind_def s2_def [symmetric] by (simp only: Let_def split: if_split) simp
qed

lemma network_inv:
  assumes "bacnet_inv s"
  shows "bacnet_inv (snd (gateway_bacnet_network_update env ip netmask gateway up t s))"
proof (cases "initialized s")
  case True
  define s1 where "s1 = upd_stats (\<lambda>x. x\<lparr>bs_link_up := (up \<and> ip \<noteq> 0)\<rparr>) (s\<lparr>gb_now := (if t \<ge> gb_now s then t else gb_now s)\<rparr>)"
  define relink where "relink = (\<not> link_up s \<or> network_changed ip netmask gateway s)"
  have "bacnet_inv (s\<lparr>gb_now := (if t \<ge> gb_now s then t else gb_now s)\<rparr>)" by (rule now_inv [OF assms]) auto
  then have 1: "bacnet_inv s1" unfolding s1_def by (subst inv_stats) simp_all
  define s2 where "s2 = (if link_up s1 then rebind env ip netmask gateway relink s1 else s1\<lparr>gb_bip := fst (bip_cleanup (gb_bip s1))\<rparr>)"
  have 2: "bacnet_inv s2" unfolding s2_def using 1 rebind_inv by simp
  define s3 where "s3 = stack [Present_binary (DIAGNOSTIC_BASE + 1) (link_up (network_properties env s2))] (network_properties env s2)"
  have 3: "bacnet_inv s3" using 2 unfolding s3_def by simp
  have "snd (gateway_bacnet_network_update env ip netmask gateway up t s) = (if link_up s3 \<and> relink then announce env s3 else s3)"
    by (simp only: gateway_bacnet_network_update_def True not_True_eq_False if_False Let_def s3_def s2_def s1_def relink_def snd_conv)
  then show ?thesis using 3 by simp
next
  case False
  then show ?thesis using assms by (simp add: gateway_bacnet_network_update_def)
qed

subsection \<open>Runs\<close>

text \<open>The calls of the BACnet task, in any order, with any arguments and any answers of the stack.\<close>

inductive bacnet_step :: "bacnet_env \<Rightarrow> gw_bacnet \<Rightarrow> gw_bacnet \<Rightarrow> bool" for env where
  Init: "gateway_bacnet_init env input t s = Some (ok, s') \<Longrightarrow> bacnet_step env s s'"
| Update: "gateway_bacnet_update values s = Some s' \<Longrightarrow>
    (case values of None \<Rightarrow> True | Some vs \<Rightarrow> bc_point_count (gb_config s) \<le> length vs) \<Longrightarrow> bacnet_step env s s'"
| Tick: "gateway_bacnet_tick env t s = Some s' \<Longrightarrow> bacnet_step env s s'"
| Poll: "gateway_bacnet_poll env waits s = Some (k, s') \<Longrightarrow> \<forall>w \<in> set waits. wait_ok w \<Longrightarrow> bacnet_step env s s'"
| Datagram: "gateway_bacnet_process_datagram env data n ip port s = Some (r, s') \<Longrightarrow>
    (\<And>f. data = Some f \<Longrightarrow> n \<le> length f) \<Longrightarrow> bacnet_step env s s'"
| Network: "gateway_bacnet_network_update env ip netmask gateway up t s = (r, s') \<Longrightarrow> bacnet_step env s s'"
| Shutdown: "gateway_bacnet_shutdown env s = Some s' \<Longrightarrow> bacnet_step env s s'"

lemma step_inv:
  assumes "bvlc_ok (be_bvlc env)" "bacnet_step env s s'" "bacnet_inv s"
  shows "bacnet_inv s'"
  using assms(2)
proof cases
  case (Init input t ok)
  with init_inv [OF assms(3), of env input t] assms(3) show ?thesis by (auto simp: outcome_def)
next
  case (Update vs)
  then show ?thesis using update_inv [OF assms(3) Update(2)] by auto
next
  case (Tick t)
  then show ?thesis using tick_inv [OF assms(3), of env t] by auto
next
  case (Poll waits k)
  then show ?thesis using poll_inv [OF assms(1) Poll(2) assms(3)] by auto
next
  case (Datagram data n ip port r)
  obtain r1 s1 where "gateway_bacnet_process_datagram env data n ip port s = Some (r1, s1)" "bacnet_inv s1"
    using datagram_inv [OF assms(1) Datagram(2) assms(3), where ip = ip and port = port] by blast
  then show ?thesis using Datagram(1) by simp
next
  case (Network ip netmask gateway up t r)
  then show ?thesis using network_inv [OF assms(3), of env ip netmask gateway up t] by simp
next
  case Shutdown
  then show ?thesis using shutdown_inv [of s env] assms(3) by (auto simp: bacnet_inv_def sizes_ok_def)
qed

lemma reachable_inv:
  assumes "bvlc_ok (be_bvlc env)" "(bacnet_step env)\<^sup>*\<^sup>* (state_before (be_bvlc env)) s"
  shows "bacnet_inv s"
  using assms(2)
proof (induction rule: rtranclp_induct)
  case base
  have "bl_max_pdu (be_bvlc env) < 65536" using assms(1) by (auto simp: bvlc_ok_def)
  then show ?case by (rule inv_before)
next
  case (step s s')
  then show ?case using step_inv [OF assms(1)] by blast
qed

end
