(* ===== verification/Bacnet_Catalog.thy ===== *)
theory Bacnet_Catalog
  imports Bacnet_Invariant
begin

section \<open>What a catalog must be\<close>

text \<open>
  The declarative meaning of \<open>valid_catalog\<close>, and that the catalogs the program has (the built-in table and
  every accepted upload) pass it.
\<close>

subsection \<open>State names\<close>

definition label_text :: "string option \<Rightarrow> bool" where
  "label_text t \<longleftrightarrow> (\<exists>l. t = Some l \<and> l \<noteq> [] \<and> length l \<le> GATEWAY_BACNET_STATE_NAME_MAX)"

definition text_bytes :: "string option list \<Rightarrow> nat" where
  \<comment> \<open>the names with their terminators\<close>
  "text_bytes ts = sum_list (map (\<lambda>t. length (the t) + 1) ts)"

lemma valid_string_iff:
  "valid_string v n nonempty \<longleftrightarrow> (\<exists>s. v = Some s \<and> (nonempty \<longrightarrow> s \<noteq> []) \<and> length s \<le> n)"
  by (cases v) (auto simp: valid_string_def)

lemma valid_label: "valid_string t GATEWAY_BACNET_STATE_NAME_MAX True \<longleftrightarrow> label_text t"
  by (auto simp: valid_string_iff label_text_def)

lemma state_names_exact:
  assumes "n \<le> count" "count \<le> length texts" "bytes \<le> STATE_TEXT_BYTES"
  shows "state_names texts [n..<count] bytes =
    Some ((\<forall>k \<in> {n..<count}. label_text (texts ! k) \<and> (\<forall>j < k. texts ! j \<noteq> texts ! k)) \<and>
      bytes + text_bytes (map ((!) texts) [n..<count]) \<le> STATE_TEXT_BYTES)"
  using assms
proof (induction "count - n" arbitrary: n bytes)
  case 0
  then show ?case by (simp add: text_bytes_def)
next
  case (Suc d)
  then have n: "n < count" "[n..<count] = n # [Suc n..<count]" "{n..<count} = insert n {Suc n..<count}"
    by (auto simp: upt_conv_Cons)
  let ?b = "bytes + (length (the (texts ! n)) + 1)"
  have sum: "bytes + text_bytes (map ((!) texts) (n # [Suc n..<count])) = ?b + text_bytes (map ((!) texts) [Suc n..<count])"
    by (simp add: text_bytes_def)
  have dup: "list_ex (\<lambda>p. texts ! p = texts ! n) [0..<n] \<longleftrightarrow> \<not> (\<forall>j < n. texts ! j \<noteq> texts ! n)"
    by (auto simp: list_ex_iff)
  have rd: "rd texts n = Some (texts ! n)" using Suc.prems n(1) by simp
  show ?case
  proof (cases "label_text (texts ! n) \<and> ?b \<le> STATE_TEXT_BYTES \<and> (\<forall>j < n. texts ! j \<noteq> texts ! n)")
    case True
    then have "state_names texts [n..<count] bytes = state_names texts [Suc n..<count] ?b"
      unfolding n(2) state_names.simps rd by (simp add: valid_label dup Let_def del: One_nat_def)
    also have "\<dots> = Some ((\<forall>k \<in> {Suc n..<count}. label_text (texts ! k) \<and> (\<forall>j < k. texts ! j \<noteq> texts ! k)) \<and>
        ?b + text_bytes (map ((!) texts) [Suc n..<count]) \<le> STATE_TEXT_BYTES)"
      using Suc.hyps(1) [of "Suc n" ?b] Suc.hyps(2) Suc.prems n(1) True by linarith
    finally show ?thesis unfolding n(2,3) sum using True by simp
  next
    case False
    then have "state_names texts [n..<count] bytes = Some False"
      unfolding n(2) state_names.simps rd by (auto simp: valid_label dup Let_def)
    moreover have "bytes + text_bytes (map ((!) texts) (n # [Suc n..<count])) \<le> STATE_TEXT_BYTES \<Longrightarrow> ?b \<le> STATE_TEXT_BYTES"
      unfolding sum by linarith
    ultimately show ?thesis unfolding n(2,3) using False by auto
  qed
qed

subsection \<open>Points\<close>

definition point_object :: "u16 \<Rightarrow> bool" where
  "point_object t \<longleftrightarrow> t \<in> {OBJECT_ANALOG_INPUT, OBJECT_BINARY_INPUT, OBJECT_MULTI_STATE_INPUT, OBJECT_CHARACTERSTRING_VALUE}"

definition instance_free :: "u32 \<Rightarrow> bool" where
  \<comment> \<open>a proper instance that no diagnostic object has\<close>
  "instance_free i \<longleftrightarrow> unat i < 4194303 \<and> unat i \<notin> {9001..9004}"

definition states_valid :: "catalog_point \<Rightarrow> bool" where
  "states_valid p \<longleftrightarrow>
     (if ct_object_type p = OBJECT_MULTI_STATE_INPUT
      then (\<exists>texts. ct_state_text p = Some texts \<and> 0 < unat (ct_state_count p) \<and>
              unat (ct_state_count p) \<le> GATEWAY_BACNET_MAX_STATES \<and>
              (let ts = take (unat (ct_state_count p)) texts
               in list_all label_text ts \<and> distinct ts \<and> text_bytes ts + 1 \<le> STATE_TEXT_BYTES))
      else ct_state_count p = 0 \<and> ct_state_text p = None)"

definition point_valid :: "string \<Rightarrow> catalog_point \<Rightarrow> bool" where
  "point_valid device p \<longleftrightarrow> point_object (ct_object_type p) \<and> instance_free (ct_instance p) \<and>
     (\<exists>n. ct_name p = Some n \<and> n \<noteq> [] \<and> length n \<le> GATEWAY_BACNET_POINT_NAME_MAX \<and> take 8 n \<noteq> ''Gateway-'' \<and> n \<noteq> device) \<and>
     (case ct_description p of None \<Rightarrow> True | Some d \<Rightarrow> length d \<le> GATEWAY_BACNET_POINT_DESCRIPTION_MAX) \<and>
     states_valid p"

definition point_key :: "catalog_point \<Rightarrow> u16 \<times> u32" where
  "point_key p = (ct_object_type p, ct_instance p)"

definition catalog_valid :: "string \<Rightarrow> catalog_point list \<Rightarrow> bool" where
  "catalog_valid device ps \<longleftrightarrow> ps \<noteq> [] \<and> length ps \<le> GATEWAY_BACNET_MAX_POINTS \<and> list_all (point_valid device) ps \<and>
     distinct (map ct_name ps) \<and> distinct (map point_key ps)"

text \<open>The arrays the caller hands over are as long as their counts say.\<close>

definition texts_present :: "catalog_point \<Rightarrow> bool" where
  "texts_present p \<longleftrightarrow> (case ct_state_text p of None \<Rightarrow> True | Some texts \<Rightarrow> unat (ct_state_count p) \<le> length texts)"

lemma instance_free_iff:
  "instance_free i \<longleftrightarrow> \<not> (i \<ge> BACNET_MAX_INSTANCE \<or> (i \<ge> DIAGNOSTIC_BASE \<and> i < DIAGNOSTIC_BASE + 4))"
  by (auto simp: instance_free_def bacnet_limits word_le_nat_alt word_less_nat_alt)

lemma take_map_nth: "count \<le> length xs \<Longrightarrow> map ((!) xs) [0..<count] = take count xs"
  by (rule nth_equalityI) simp_all

lemma distinct_prefix: "(\<forall>k<count. \<forall>j<k. xs ! j \<noteq> xs ! k) \<longleftrightarrow> distinct (take count xs)" if "count \<le> length xs"
  using that by (auto simp: distinct_conv_nth) (metis linorder_neqE_nat less_trans)

lemma states_exact:
  assumes "texts_present p"
  shows "(if ct_object_type p = OBJECT_MULTI_STATE_INPUT then
        (case ct_state_text p of
           None \<Rightarrow> Some False
         | Some texts \<Rightarrow>
             if ct_state_count p = 0 \<or> unat (ct_state_count p) > GATEWAY_BACNET_MAX_STATES then Some False
             else state_names texts [0..<unat (ct_state_count p)] 1)
      else Some (\<not> (ct_state_count p \<noteq> 0 \<or> ct_state_text p \<noteq> None))) = Some (states_valid p)"
proof (cases "ct_object_type p = OBJECT_MULTI_STATE_INPUT \<and> ct_state_text p \<noteq> None \<and> ct_state_count p \<noteq> 0")
  case True
  then obtain texts where t: "ct_state_text p = Some texts" "unat (ct_state_count p) \<le> length texts"
    "0 < unat (ct_state_count p)" "ct_object_type p = OBJECT_MULTI_STATE_INPUT" "ct_state_count p \<noteq> 0"
    using assms by (auto simp: texts_present_def unat_gt_0)
  let ?c = "unat (ct_state_count p)"
  have "state_names texts [0..<?c] 1 = Some ((\<forall>k \<in> {0..<?c}. label_text (texts ! k) \<and> (\<forall>j < k. texts ! j \<noteq> texts ! k)) \<and>
      1 + text_bytes (map ((!) texts) [0..<?c]) \<le> STATE_TEXT_BYTES)"
    using t(2) by (intro state_names_exact) (simp_all add: STATE_TEXT_BYTES_def)
  also have "(\<forall>k \<in> {0..<?c}. label_text (texts ! k) \<and> (\<forall>j < k. texts ! j \<noteq> texts ! k)) \<longleftrightarrow>
      list_all label_text (take ?c texts) \<and> distinct (take ?c texts)"
    unfolding distinct_prefix [OF t(2), symmetric] using t(2) by (auto simp: list_all_length)
  finally show ?thesis using t by (simp add: states_valid_def take_map_nth Let_def)
next
  case False
  then show ?thesis by (auto simp: states_valid_def split: option.split)
qed

lemma valid_point_exact:
  assumes "texts_present p"
  shows "valid_point ps i p device =
    Some (point_valid device p \<and> (\<forall>n < i. ct_name p \<noteq> ct_name (ps ! n) \<and> point_key p \<noteq> point_key (ps ! n)))"
proof -
  define header where "header \<longleftrightarrow> point_object (ct_object_type p) \<and> instance_free (ct_instance p) \<and>
     (\<exists>n. ct_name p = Some n \<and> n \<noteq> [] \<and> length n \<le> GATEWAY_BACNET_POINT_NAME_MAX \<and> take 8 n \<noteq> ''Gateway-'' \<and> n \<noteq> device) \<and>
     (case ct_description p of None \<Rightarrow> True | Some d \<Rightarrow> length d \<le> GATEWAY_BACNET_POINT_DESCRIPTION_MAX)"
  have h: "((ct_object_type p \<noteq> OBJECT_ANALOG_INPUT \<and> ct_object_type p \<noteq> OBJECT_BINARY_INPUT \<and>
          ct_object_type p \<noteq> OBJECT_MULTI_STATE_INPUT \<and> ct_object_type p \<noteq> OBJECT_CHARACTERSTRING_VALUE) \<or>
         ct_instance p \<ge> BACNET_MAX_INSTANCE \<or>
         (ct_instance p \<ge> DIAGNOSTIC_BASE \<and> ct_instance p < DIAGNOSTIC_BASE + 4) \<or>
         \<not> valid_string (ct_name p) GATEWAY_BACNET_POINT_NAME_MAX True \<or>
         (ct_description p \<noteq> None \<and> \<not> valid_string (ct_description p) GATEWAY_BACNET_POINT_DESCRIPTION_MAX False) \<or>
         take 8 (the (ct_name p)) = ''Gateway-'' \<or> the (ct_name p) = device) \<longleftrightarrow> \<not> header"
    by (cases "ct_name p"; cases "ct_description p")
      (auto simp: header_def point_object_def instance_free_iff valid_string_iff)
  have d: "list_ex (\<lambda>n. ct_name p = ct_name (ps ! n) \<or>
      ct_object_type p = ct_object_type (ps ! n) \<and> ct_instance p = ct_instance (ps ! n)) [0..<i] \<longleftrightarrow>
    \<not> (\<forall>n < i. ct_name p \<noteq> ct_name (ps ! n) \<and> point_key p \<noteq> point_key (ps ! n))"
    by (auto simp: list_ex_iff point_key_def)
  show ?thesis
    unfolding valid_point_def h d states_exact [OF assms] by (auto simp: header_def point_valid_def)
qed

subsection \<open>Catalogs\<close>

lemma catalog_loop_exact:
  assumes "i \<le> count" "count \<le> length ps" "\<forall>p \<in> set (take count ps). texts_present p"
  shows "catalog_loop ps device [i..<count] = Some (\<forall>k \<in> {i..<count}. point_valid device (ps ! k) \<and>
      (\<forall>n < k. ct_name (ps ! k) \<noteq> ct_name (ps ! n) \<and> point_key (ps ! k) \<noteq> point_key (ps ! n)))"
  using assms
proof (induction "count - i" arbitrary: i)
  case 0
  then show ?case by simp
next
  case (Suc d)
  then have i: "i < count" "[i..<count] = i # [Suc i..<count]" "{i..<count} = insert i {Suc i..<count}"
    by (auto simp: upt_conv_Cons)
  have "ps ! i \<in> set (take count ps)" using nth_mem [of i "take count ps"] Suc.prems(2) i(1) by simp
  then have "texts_present (ps ! i)" using Suc.prems(3) by blast
  moreover have "rd ps i = Some (ps ! i)" using Suc.prems i(1) by simp
  moreover have "catalog_loop ps device [Suc i..<count] = Some (\<forall>k \<in> {Suc i..<count}. point_valid device (ps ! k) \<and>
      (\<forall>n < k. ct_name (ps ! k) \<noteq> ct_name (ps ! n) \<and> point_key (ps ! k) \<noteq> point_key (ps ! n)))"
    using Suc i(1) by simp
  ultimately show ?case unfolding i(2,3) by (auto simp: valid_point_exact split: bool.split)
qed

lemma valid_catalog_exact:
  assumes "count \<le> length ps" "\<forall>p \<in> set (take count ps). texts_present p"
  shows "valid_catalog (Some ps) count device = Some (catalog_valid device (take count ps))"
proof (cases "count = 0 \<or> count > GATEWAY_BACNET_MAX_POINTS")
  case True
  then show ?thesis using assms(1) by (auto simp: valid_catalog_def catalog_valid_def)
next
  case False
  have "valid_catalog (Some ps) count device = Some (\<forall>k \<in> {0..<count}. point_valid device (ps ! k) \<and>
      (\<forall>n < k. ct_name (ps ! k) \<noteq> ct_name (ps ! n) \<and> point_key (ps ! k) \<noteq> point_key (ps ! n)))"
    using False catalog_loop_exact [OF _ assms, of 0] by (simp add: valid_catalog_def)
  also have "(\<forall>k \<in> {0..<count}. point_valid device (ps ! k) \<and>
      (\<forall>n < k. ct_name (ps ! k) \<noteq> ct_name (ps ! n) \<and> point_key (ps ! k) \<noteq> point_key (ps ! n))) \<longleftrightarrow>
    (\<forall>k < count. point_valid device (ps ! k)) \<and> (\<forall>k < count. \<forall>n < k. map ct_name ps ! n \<noteq> map ct_name ps ! k) \<and>
    (\<forall>k < count. \<forall>n < k. map point_key ps ! n \<noteq> map point_key ps ! k)"
    using assms(1) by (auto simp: Ball_def) metis+
  also have "\<dots> \<longleftrightarrow> catalog_valid device (take count ps)"
    using assms(1) False distinct_prefix [of count "map ct_name ps"] distinct_prefix [of count "map point_key ps"]
    by (auto simp: catalog_valid_def list_all_length take_map)
  finally show ?thesis .
qed

text \<open>C12 (bacnet_catalog_exact): the check at the start of the BACnet server accepts a catalog exactly when it has
  1 to 256 points, each of a supported type with a proper instance, a name that is neither empty, too long, reserved
  nor the device's, a description that is not too long, and for a multi-state point 1 to 64 distinct state names that
  fit the stack's buffer, and no two points share a name or an object identifier; it never reads past the arrays it is
  given.\<close>

theorem bacnet_catalog_exact:
  assumes "count \<le> length ps" "\<forall>p \<in> set (take count ps). texts_present p"
  shows "valid_catalog (Some ps) count device = Some (catalog_valid device (take count ps))"
  by (rule valid_catalog_exact [OF assms])

definition demo_point :: catalog_point where
  "demo_point = \<lparr>ct_object_type = 13, ct_instance = 7, ct_name = Some ''Mode'', ct_description = None, ct_units = 95,
     ct_state_count = 2, ct_state_text = Some [Some ''Off'', Some ''On'']\<rparr>"

theorem bacnet_catalog_exact_witness:
  "valid_catalog (Some [demo_point]) 1 ''Gate'' = Some (catalog_valid ''Gate'' [demo_point])"
  using bacnet_catalog_exact [of 1 "[demo_point]" "''Gate''"] by (simp add: demo_point_def texts_present_def)

subsection \<open>The catalog of an accepted upload\<close>

definition custom_catalog_point :: "custom_map \<Rightarrow> custom_def \<Rightarrow> catalog_point" where
  \<comment> \<open>an entry of \<open>defs\<close> as the server sees it through its pointers\<close>
  "custom_catalog_point m d = \<lparr>ct_object_type = cd_object_type d, ct_instance = cd_instance d,
     ct_name = Some (str_at m (cd_name d)), ct_description = Some (str_at m (cd_description d)), ct_units = cd_units d,
     ct_state_count = of_nat (cd_state_count d),
     ct_state_text = map_option (\<lambda>p. map (\<lambda>q. Some (str_at m q)) (drop (snd p) (cm_states m))) (cd_state_text d)\<rparr>"

definition custom_catalog :: "custom_map \<Rightarrow> catalog_point list" where
  "custom_catalog m = map (custom_catalog_point m) (cm_defs m)"

lemma labels_take: "base + n \<le> length (cm_states m) \<Longrightarrow> take n (map (\<lambda>q. Some (str_at m q)) (drop base (cm_states m))) = map Some (labels m base n)"
proof -
  assume a: "base + n \<le> length (cm_states m)"
  then have "base \<le> length (cm_states m)" by simp
  with a show ?thesis by (intro nth_equalityI) (simp_all add: labels_def)
qed

lemma text_bytes_labels: "text_bytes (map Some ls) = label_bytes ls"
  by (simp add: text_bytes_def label_bytes_def comp_def)

lemma custom_point_valid:
  assumes d: "def_ok m d" and t: "cd_object_type d \<in> {0, 3, 13, 40}" and n: "str_at m (cd_name d) \<noteq> device"
  shows "point_valid device (custom_catalog_point m d)" "texts_present (custom_catalog_point m d)"
proof -
  have states: "states_valid (custom_catalog_point m d) \<and> texts_present (custom_catalog_point m d)"
  proof (cases "cd_state_text d")
    case None
    then show ?thesis using d by (simp add: states_valid_def texts_present_def custom_catalog_point_def def_ok_def bacnet_objects)
  next
    case (Some p)
    obtain self base where p: "p = (self, base)" by fastforce
    have s: "cd_object_type d = 13" "0 < cd_state_count d" "states_ok m base (cd_state_count d)"
      using d by (simp_all add: def_ok_def Some p)
    then have c: "cd_state_count d \<le> 16" "base + cd_state_count d \<le> length (cm_states m)"
      "distinct (labels m base (cd_state_count d))" "list_all label_ok (labels m base (cd_state_count d))"
      "label_bytes (labels m base (cd_state_count d)) \<le> 513"
      by (simp_all add: states_ok_def CUSTOM_MAX_STATES_def FIELD_BYTES_def)
    have u: "unat (of_nat (cd_state_count d) :: u16) = cd_state_count d" using c(1) by (intro unat_of_nat_small) simp
    let ?ts = "map (\<lambda>q. Some (str_at m q)) (drop base (cm_states m))"
    have "list_all label_text (map Some (labels m base (cd_state_count d)))"
      using c(4) by (auto simp: list_all_iff label_text_def label_ok_def bacnet_limits)
    then show ?thesis
      using s c u labels_take [OF c(2)]
      by (simp add: states_valid_def texts_present_def custom_catalog_point_def Some p bacnet_objects Let_def
          text_bytes_labels distinct_map bacnet_limits)
  qed
  then show "texts_present (custom_catalog_point m d)" by blast
  show "point_valid device (custom_catalog_point m d)"
    using states d t n
    by (auto simp: point_valid_def custom_catalog_point_def def_ok_def point_object_def bacnet_objects instance_free_def
        name_ok_def bacnet_limits)
qed

lemma custom_entry_valid:
  assumes "custom_map_ok m" "device \<notin> point_names m" "d \<in> set (cm_defs m)"
  shows "point_valid device (custom_catalog_point m d)" "texts_present (custom_catalog_point m d)"
proof -
  obtain i where i: "i < length (cm_defs m)" "d = cm_defs m ! i" using assms(3) by (auto simp: in_set_conv_nth)
  have "list_all2 point_ok (cm_defs m) (cm_points m)" using assms(1) unfolding custom_map_ok_def by blast
  from list_all2_nthD [OF this i(1)] have t: "cd_object_type d \<in> {0, 3, 13, 40}" unfolding point_ok_def i(2) by blast
  have n: "str_at m (cd_name d) \<noteq> device" using assms(2,3) by (auto simp: point_names_def)
  have d: "def_ok m d" using assms(1,3) by (simp add: custom_map_ok_def list_all_iff)
  show "point_valid device (custom_catalog_point m d)" "texts_present (custom_catalog_point m d)"
    using custom_point_valid [OF d t n] by blast+
qed

lemma custom_catalog_valid:
  assumes "custom_map_ok m" "cm_defs m \<noteq> []" "device \<notin> point_names m"
  shows "valid_catalog (Some (custom_catalog m)) (length (cm_defs m)) device = Some True"
    "catalog_valid device (custom_catalog m)" "\<forall>p \<in> set (custom_catalog m). texts_present p"
proof -
  note p = custom_entry_valid [OF assms(1,3)]
  have "length (cm_defs m) \<le> 256" using assms(1) by (simp add: custom_map_ok_def CUSTOM_MAX_POINTS_def)
  moreover have "distinct (map ct_name (custom_catalog m))"
    using assms(1) by (simp add: custom_map_ok_def custom_catalog_def custom_catalog_point_def comp_def distinct_map inj_on_def)
  moreover have "distinct (map point_key (custom_catalog m))"
    using assms(1) by (simp add: custom_map_ok_def custom_catalog_def custom_catalog_point_def comp_def point_key_def)
  ultimately show v: "catalog_valid device (custom_catalog m)"
    using assms(2) p(1) by (simp add: catalog_valid_def custom_catalog_def list_all_iff bacnet_limits)
  show t: "\<forall>p \<in> set (custom_catalog m). texts_present p" using p(2) by (auto simp: custom_catalog_def)
  have "valid_catalog (Some (custom_catalog m)) (length (cm_defs m)) device =
      Some (catalog_valid device (take (length (cm_defs m)) (custom_catalog m)))"
    by (rule valid_catalog_exact) (use t in \<open>auto simp: custom_catalog_def\<close>)
  then show "valid_catalog (Some (custom_catalog m)) (length (cm_defs m)) device = Some True"
    using v by (simp add: custom_catalog_def)
qed

end
