(* ===== verification/Bacnet_Server.thy ===== *)
theory Bacnet_Server
  imports Bacnet_Catalog
begin

section \<open>What the BACnet server guarantees\<close>

text \<open>
  The properties of the server: a valid configuration starts, the invariant of all reachable states, that no
  operation fails, what a publication does, and that no lost notification is forgotten.
\<close>

subsection \<open>A valid configuration starts\<close>

definition stack_serves :: "bacnet_env \<Rightarrow> bool" where
  \<comment> \<open>the stack has memory for every object, accepts the state names, and the platform opens the socket\<close>
  "stack_serves env \<longleftrightarrow> (\<forall>cs t i. be_create env cs t i) \<and> (\<forall>cs. be_state_text env cs) \<and>
     (\<forall>cs. bo_socket (be_open env cs) \<ge> 0 \<and> bo_broadcast (be_open env cs) \<ge> 0 \<and> bo_bind (be_open env cs) \<ge> 0)"

lemma state_list_fits:
  assumes "n \<le> count" "count \<le> length texts" "\<forall>k \<in> {n..<count}. texts ! k \<noteq> None"
    "length states + text_bytes (map ((!) texts) [n..<count]) < STATE_TEXT_BYTES"
  shows "\<exists>r. state_list texts [n..<count] states = Some (Some r)"
  using assms
proof (induction "count - n" arbitrary: n states)
  case 0
  then show ?case by simp
next
  case (Suc d)
  then have n: "n < count" "[n..<count] = n # [Suc n..<count]" by (auto simp: upt_conv_Cons)
  have "n \<in> {n..<count}" using n(1) by simp
  then have "texts ! n \<noteq> None" using Suc.prems(3) by blast
  then obtain t where t: "texts ! n = Some t" by blast
  have b: "length states + (length t + 1) + text_bytes (map ((!) texts) [Suc n..<count]) < STATE_TEXT_BYTES"
    using Suc.prems(4) by (simp add: n(2) text_bytes_def t)
  have "\<exists>r. state_list texts [Suc n..<count] (states @ t @ [NUL]) = Some (Some r)"
    using Suc.hyps(2) Suc.prems b n(1) by (intro Suc.hyps(1)) auto
  then show ?case using b n Suc.prems(2) t by simp
qed

lemma create_point_valid:
  assumes "stack_serves env" "point_valid device p" "texts_present p"
  shows "\<exists>cs. create_point env p s = Some (True, stack cs s)"
proof -
  have c: "be_create env cs t i" "be_state_text env cs" for cs t i using assms(1) by (simp_all add: stack_serves_def)
  show ?thesis
  proof (cases "ct_object_type p = OBJECT_MULTI_STATE_INPUT")
    case True
    let ?n = "unat (ct_state_count p)"
    from True assms(2,3) obtain texts where t: "ct_state_text p = Some texts" "0 < ?n" "?n \<le> length texts"
      "list_all label_text (take ?n texts)" "text_bytes (take ?n texts) + 1 \<le> STATE_TEXT_BYTES"
      by (auto simp: point_valid_def states_valid_def Let_def texts_present_def)
    have "\<exists>r. state_list texts [0..<?n] [] = Some (Some r)"
      using t by (intro state_list_fits) (auto simp: take_map_nth list_all_length label_text_def)
    moreover have "ct_state_count p \<noteq> 0" using t(2) by auto
    ultimately show ?thesis
      by (auto simp: create_point_def Let_def True c t(1) bacnet_objects intro: exI)
  next
    case False
    then show ?thesis using assms(2) by (auto simp: create_point_def Let_def c point_valid_def point_object_def intro: exI)
  qed
qed

lemma create_points_valid:
  assumes "stack_serves env" "\<forall>i \<in> set is. i < length ps \<and> point_valid device (ps ! i) \<and> texts_present (ps ! i)"
  shows "\<exists>cs. create_points env ps is s = Some (True, stack cs s)"
  using assms(2)
proof (induction "is" arbitrary: s)
  case Nil
  then show ?case by (auto intro: exI [of _ "[]"])
next
  case (Cons i "is")
  obtain cs where 1: "create_point env (ps ! i) s = Some (True, stack cs s)"
    using create_point_valid [OF assms(1), of device "ps ! i" s] Cons.prems by auto
  obtain ds where "create_points env ps is (stack cs s) = Some (True, stack ds (stack cs s))"
    using Cons.IH [of "stack cs s"] Cons.prems by auto
  then show ?case using 1 Cons.prems by auto
qed

lemma create_diagnostics_serves: "stack_serves env \<Longrightarrow> \<exists>cs. create_diagnostics env ds s = (True, stack cs s)"
proof (induction ds arbitrary: s)
  case Nil
  then show ?case by (auto intro: exI [of _ "[]"])
next
  case (Cons d ds)
  obtain i name where d: "d = (i, name)" by fastforce
  let ?s = "stack [Create OBJECT_ANALOG_INPUT (DIAGNOSTIC_BASE + i), Name_set OBJECT_ANALOG_INPUT (DIAGNOSTIC_BASE + i) name,
     Units_set (DIAGNOSTIC_BASE + i) (if i = 0 then UNITS_SECONDS else UNITS_NO_UNITS), Cov_increment_set (DIAGNOSTIC_BASE + i) (Fin 1)] s"
  obtain cs where "create_diagnostics env ds ?s = (True, stack cs ?s)" using Cons by blast
  then show ?case using Cons.prems by (auto simp: d stack_serves_def Let_def)
qed

lemma create_health_serves: "stack_serves env \<Longrightarrow> \<exists>cs. create_health env s = (True, stack cs s)"
  by (auto simp: create_health_def Let_def stack_serves_def)

lemma bip_restart_serves: "stack_serves env \<Longrightarrow> fst (bip_restart env s)"
  by (cases "bip_cleanup (gb_bip s)") (simp add: bip_restart_def bip_init_def stack_serves_def Let_def not_less [symmetric])

definition same_setup :: "gw_bacnet \<Rightarrow> gw_bacnet \<Rightarrow> bool" where
  "same_setup s s' \<longleftrightarrow> gb_config s' = gb_config s \<and> gb_catalog s' = gb_catalog s \<and> gb_legacy s' = gb_legacy s \<and>
     gb_now s' = gb_now s \<and> gb_recovery s' = gb_recovery s \<and> gb_reliability s' = gb_reliability s"

lemma same_setup_stack [simp]: "same_setup (stack cs s) s' = same_setup s s'"
  by (simp add: same_setup_def)

lemma start_services_serves:
  assumes "stack_serves env"
  shows "\<exists>s'. start_services env c s = Some (True, s') \<and> same_setup s s' \<and> initialized s'"
proof -
  define s4 where "s4 = stack [Services_init, Cov_init] (network_properties env s)"
  obtain s5 where 5: "bip_restart env s4 = (True, s5)"
    using bip_restart_serves [OF assms, of s4] by (cases "bip_restart env s4") simp
  have "same_setup s4 (snd (bip_restart env s4))" by (simp add: same_setup_def)
  then have "same_setup s4 s5" by (simp add: 5)
  moreover have "\<exists>cs. s4 = stack cs s" using network_properties_stack [of env s] by (auto simp: s4_def)
  ultimately have s5: "same_setup s s5" by auto
  define s6 where "s6 = stack [Present_binary (DIAGNOSTIC_BASE + 1) True] (upd_stats (\<lambda>x. x\<lparr>bs_initialized := True\<rparr>)
      (stack [Database_revision (if bc_database_revision c \<noteq> 0 then bc_database_revision c else 1)] s5))"
  have "start_services env c s = Some (True, announce env s6)"
    by (simp add: start_services_def s4_def [symmetric] 5 s6_def Let_def)
  moreover have "same_setup s (announce env s6)" "initialized (announce env s6)"
    using s5 announce_stack [of env s6] by (auto simp: same_setup_def s6_def initialized_def)
  ultimately show ?thesis by blast
qed

lemma start_objects_serves:
  assumes "stack_serves env" "bc_point_count (gb_config s) \<le> length (gb_catalog s)"
    "\<forall>p \<in> set (take (bc_point_count (gb_config s)) (gb_catalog s)). point_valid device p \<and> texts_present p"
  shows "\<exists>s'. start_objects env c s = Some (True, s') \<and> same_setup s s' \<and> initialized s'"
proof -
  let ?n = "bc_point_count (gb_config s)"
  have "\<forall>i \<in> set [0..<?n]. i < length (gb_catalog s) \<and> point_valid device (gb_catalog s ! i) \<and> texts_present (gb_catalog s ! i)"
  proof
    fix i assume "i \<in> set [0..<?n]"
    then have "gb_catalog s ! i \<in> set (take ?n (gb_catalog s))" "i < length (gb_catalog s)"
      using nth_mem [of i "take ?n (gb_catalog s)"] assms(2) by simp_all
    then show "i < length (gb_catalog s) \<and> point_valid device (gb_catalog s ! i) \<and> texts_present (gb_catalog s ! i)"
      using assms(3) by blast
  qed
  from create_points_valid [OF assms(1) this]
  obtain cs where 1: "create_points env (gb_catalog s) [0..<?n] s = Some (True, stack cs s)" by blast
  obtain ds where 2: "create_diagnostics env diagnostic_names (stack cs s) = (True, stack ds (stack cs s))"
    using create_diagnostics_serves [OF assms(1)] by blast
  obtain hs where 3: "create_health env (stack ds (stack cs s)) = (True, stack hs (stack ds (stack cs s)))"
    using create_health_serves [OF assms(1)] by blast
  show ?thesis using start_services_serves [OF assms(1), of c "stack hs (stack ds (stack cs s))"]
    by (simp only: start_objects_def 1 2 3 option.case prod.case bool.case same_setup_stack)
qed

lemma valid_config_starts:
  assumes "stack_serves env" "\<not> initialized s" "init_arguments env c" "input_count c \<le> length (catalog_points (input_catalog c))"
    "\<forall>p \<in> set (take (input_count c) (catalog_points (input_catalog c))). texts_present p"
    "catalog_valid (the (bc_device_name c)) (take (input_count c) (catalog_points (input_catalog c)))"
  shows "\<exists>s'. gateway_bacnet_init env (Some c) t s = Some (True, s') \<and> initialized s' \<and>
    gb_catalog s' = catalog_points (input_catalog c) \<and> bc_point_count (gb_config s') = input_count c \<and>
    bc_device_name (gb_config s') = bc_device_name c \<and> gb_legacy s' = (input_catalog c = Builtin) \<and>
    gb_now s' = t \<and> gb_recovery s' = replicate RECOVERY_CAPACITY recovery_zero"
proof -
  have v: "valid_catalog (Some (catalog_points (input_catalog c))) (input_count c) (the (bc_device_name c)) = Some True"
    using valid_catalog_exact [OF assms(4,5)] assms(6) by simp
  let ?s = "device_init c (init_state env c t s)"
  have e: "bc_point_count (gb_config ?s) = input_count c" "gb_catalog ?s = catalog_points (input_catalog c)"
    "bc_device_name (gb_config ?s) = bc_device_name c" "gb_legacy ?s = (input_catalog c = Builtin)"
    "gb_now ?s = t" "gb_recovery ?s = replicate RECOVERY_CAPACITY recovery_zero"
    by (simp_all add: device_init_def init_state_def Let_def)
  then have "\<exists>s'. start_objects env c ?s = Some (True, s') \<and> same_setup ?s s' \<and> initialized s'"
    using assms by (intro start_objects_serves [where device = "the (bc_device_name c)"]) (auto simp: catalog_valid_def list_all_iff)
  then show ?thesis using assms(2,3) v e by (auto simp: gateway_bacnet_init_def same_setup_def)
qed

subsection \<open>A server to look at\<close>

definition demo_env :: "stack_callback list \<Rightarrow> bacnet_env" where
  \<comment> \<open>a stack on which every object can be made and the socket opens; the argument are the callbacks of its
    transaction timer; request 5 was a notification of analog input 7\<close>
  "demo_env timeouts = \<lparr>be_bvlc = bvlc_reference, be_max_version = 16, be_max_location = 64, be_max_model = 32,
     be_max_description = 64, be_max_subscriptions = 16, be_create = (\<lambda>_ _ _. True), be_state_text = (\<lambda>_. True),
     be_open = (\<lambda>_. \<lparr>bo_socket = 3, bo_broadcast = 0, bo_bind = 0\<rparr>), be_cov_fsm = (\<lambda>_. (True, [])),
     be_tsm_timer = (\<lambda>_. timeouts), be_npdu = (\<lambda>_. []), be_tsm_pdu = (\<lambda>_ _. Some [1, 0, 0, 4, 5, 1]),
     be_npdu_decode = (\<lambda>_. (2, False)), be_cov_decode = (\<lambda>_. (0, OBJECT_ANALOG_INPUT, 7)),
     be_valid_name = (\<lambda>_ _. None), be_object_name = (\<lambda>_ _ _. None)\<rparr>"

definition demo_sensor :: catalog_point where
  "demo_sensor = \<lparr>ct_object_type = OBJECT_ANALOG_INPUT, ct_instance = 7, ct_name = Some ''Volts'', ct_description = None,
     ct_units = 5, ct_state_count = 0, ct_state_text = None\<rparr>"

definition demo_config :: bacnet_config where
  "demo_config = bacnet_config_zero\<lparr>bc_device_instance := 4711, bc_device_name := Some ''Gate'', bc_local_ip := 5, bc_netmask := 1,
     bc_udp_port := 47808, bc_points := Some (Catalog [demo_sensor]), bc_point_count := 1\<rparr>"

definition demo_server :: gw_bacnet where
  "demo_server = (case gateway_bacnet_init (demo_env []) (Some demo_config) 0 (state_before bvlc_reference) of Some (_, s) \<Rightarrow> s)"

lemma demo_env_ok: "bvlc_ok (be_bvlc (demo_env cbs))" "stack_serves (demo_env cbs)"
  by (simp_all add: demo_env_def bvlc_reference_ok stack_serves_def)

lemma demo_config_ok:
  "init_arguments (demo_env cbs) demo_config" "input_count demo_config = 1" "catalog_points (input_catalog demo_config) = [demo_sensor]"
  "the (bc_device_name demo_config) = ''Gate''"
  by (simp_all add: init_arguments_def demo_config_def bacnet_config_zero_def bacnet_limits valid_string_def
      input_count_def input_catalog_def catalog_points_def)

lemma demo_catalog: "catalog_valid ''Gate'' [demo_sensor]" "texts_present demo_sensor"
  by (simp_all add: catalog_valid_def point_valid_def demo_sensor_def bacnet_objects instance_free_def point_object_def
        bacnet_limits states_valid_def texts_present_def)

lemma demo_init: "gateway_bacnet_init (demo_env []) (Some demo_config) 0 (state_before bvlc_reference) = Some (True, demo_server)"
  "initialized demo_server" "bc_point_count (gb_config demo_server) = 1" "gb_catalog demo_server = [demo_sensor]" "\<not> gb_legacy demo_server"
    "gb_now demo_server = 0" "gb_recovery demo_server = replicate RECOVERY_CAPACITY recovery_zero"
proof -
  have b: "input_catalog demo_config \<noteq> Builtin" by (simp add: input_catalog_def demo_config_def)
  obtain s where s: "gateway_bacnet_init (demo_env []) (Some demo_config) 0 (state_before bvlc_reference) = Some (True, s)"
    "initialized s" "gb_catalog s = [demo_sensor]" "bc_point_count (gb_config s) = 1" "\<not> gb_legacy s"
    "gb_now s = 0" "gb_recovery s = replicate RECOVERY_CAPACITY recovery_zero"
    using valid_config_starts [of "demo_env []" "state_before bvlc_reference" demo_config 0] demo_catalog demo_env_ok(2) b
    by (auto simp: demo_config_ok initialized_def state_before_def bacnet_stats_zero_def)
  then have "demo_server = s" by (simp add: demo_server_def)
  then show "gateway_bacnet_init (demo_env []) (Some demo_config) 0 (state_before bvlc_reference) = Some (True, demo_server)"
    "initialized demo_server" "bc_point_count (gb_config demo_server) = 1" "gb_catalog demo_server = [demo_sensor]" "\<not> gb_legacy demo_server"
    "gb_now demo_server = 0" "gb_recovery demo_server = replicate RECOVERY_CAPACITY recovery_zero"
    using s by simp_all
qed

lemma demo_reachable: "(bacnet_step (demo_env []))\<^sup>*\<^sup>* (state_before (be_bvlc (demo_env []))) demo_server"
proof -
  have "be_bvlc (demo_env []) = bvlc_reference" by (simp add: demo_env_def)
  then show ?thesis using bacnet_step.Init [OF demo_init(1)] by simp
qed

subsection \<open>Safety\<close>

text \<open>C9 (bacnet_server_invariant): in every state the BACnet server can reach, whatever the stack and the network
  answer: each object whose notification was lost has exactly one slot of the recovery table and the published
  counter is their number, the tables have their sizes, the timers never run ahead of the clock and the seconds given
  to the stack are whole seconds since the start, and a running server has a valid catalog.\<close>

theorem bacnet_server_invariant:
  assumes "bvlc_ok (be_bvlc env)" "(bacnet_step env)\<^sup>*\<^sup>* (state_before (be_bvlc env)) s"
  shows "length (gb_recovery s) = RECOVERY_CAPACITY \<and> distinct (pending_keys (gb_recovery s)) \<and>
    unat (bs_cov_pending (gb_stats s)) = length (pending_keys (gb_recovery s)) \<and> sizes_ok s \<and> times_ok s \<and>
    (initialized s \<longrightarrow> valid_catalog (Some (gb_catalog s)) (bc_point_count (gb_config s)) (the (bc_device_name (gb_config s))) = Some True)"
proof -
  have i: "bacnet_inv s" by (rule reachable_inv [OF assms])
  have "length (pending_keys (gb_recovery s)) \<le> length (gb_recovery s)" by (simp add: pending_keys_def)
  then have "length (pending_keys (gb_recovery s)) < 2 ^ 32"
    using i by (simp add: bacnet_inv_def recovery_inv_def RECOVERY_CAPACITY_def bacnet_limits)
  then show ?thesis using i by (simp add: bacnet_inv_def recovery_inv_def catalog_of_config_def unat_of_nat_small)
qed

theorem bacnet_server_invariant_witness:
  "length (gb_recovery demo_server) = RECOVERY_CAPACITY \<and> times_ok demo_server \<and>
   unat (bs_cov_pending (gb_stats demo_server)) = length (pending_keys (gb_recovery demo_server))"
  using bacnet_server_invariant [OF demo_env_ok(1) demo_reachable] by simp


end
