(* ===== verification/Bacnet_Publish.thy ===== *)
theory Bacnet_Publish
  imports Bacnet_Server
begin

section \<open>What BACnet clients see of a publication\<close>

text \<open>
  Readers of the log that give the last reliability and the last present value of an object, the values a point can
  show, and the effect of \<open>gateway_bacnet_update\<close> on every point, on the counters and on the health object.
\<close>

subsection \<open>What a publication does\<close>

text \<open>What the stack holds of an object after the calls of a log (newest first): the last reliability and
  the last present value that were set.\<close>

datatype present = Analog dbl | Active bool | State u32 | Text string

fun reliability_call :: "u16 \<times> u32 \<Rightarrow> stack_call \<Rightarrow> reliability option" where
  "reliability_call k (Reliability_set t i r) = (if k = (t, i) then Some r else None)"
| "reliability_call k _ = None"

fun present_call :: "u16 \<times> u32 \<Rightarrow> stack_call \<Rightarrow> present option" where
  "present_call k (Present_analog i x) = (if k = (OBJECT_ANALOG_INPUT, i) then Some (Analog x) else None)"
| "present_call k (Present_binary i b) = (if k = (OBJECT_BINARY_INPUT, i) then Some (Active b) else None)"
| "present_call k (Present_multistate i n) = (if k = (OBJECT_MULTI_STATE_INPUT, i) then Some (State n) else None)"
| "present_call k (Present_string i x) = (if k = (OBJECT_CHARACTERSTRING_VALUE, i) then Some (Text x) else None)"
| "present_call k _ = None"

fun latest :: "(stack_call \<Rightarrow> 'a option) \<Rightarrow> stack_call list \<Rightarrow> 'a option" where
  "latest f [] = None"
| "latest f (c # cs) = (case f c of None \<Rightarrow> latest f cs | Some x \<Rightarrow> Some x)"

lemma latest_append: "latest f (xs @ ys) = (case latest f xs of None \<Rightarrow> latest f ys | Some x \<Rightarrow> Some x)"
  by (induction xs) (auto split: option.split)

lemma latest_none: "\<forall>c \<in> set cs. f c = None \<Longrightarrow> latest f cs = None"
  by (induction cs) auto

text \<open>The reliability and the value of point \<open>k\<close> as BACnet clients see them.\<close>

definition point_reliability :: "nat \<Rightarrow> gw_bacnet \<Rightarrow> reliability option" where
  "point_reliability k s =
     (let p = gb_catalog s ! k in
      if ct_object_type p = OBJECT_CHARACTERSTRING_VALUE then Some (gb_reliability s ! k)
      else latest (reliability_call (point_key p)) (gb_log s))"

definition point_present :: "nat \<Rightarrow> gw_bacnet \<Rightarrow> present option" where
  "point_present k s = latest (present_call (point_key (gb_catalog s ! k))) (gb_log s)"

text \<open>The values a point can show, in mathematical terms, and what it shows.\<close>

definition showable :: "catalog_point \<Rightarrow> ats_value \<Rightarrow> bool" where
  "showable p v \<longleftrightarrow>
     (if ct_object_type p = OBJECT_CHARACTERSTRING_VALUE then NUL \<in> set (v_text v)
      else case v_numeric v of
             Fin q \<Rightarrow> \<bar>q\<bar> \<le> 340282346638528859811704183484516925440 \<and>
               (ct_object_type p = OBJECT_BINARY_INPUT \<longrightarrow> q \<in> {0, 1}) \<and>
               (ct_object_type p = OBJECT_MULTI_STATE_INPUT \<longrightarrow> (\<exists>n. q = of_nat n \<and> 1 \<le> n \<and> n \<le> unat (ct_state_count p)))
           | _ \<Rightarrow> False)"

definition shown :: "catalog_point \<Rightarrow> ats_value \<Rightarrow> present" where
  "shown p v =
     (let q = (case v_numeric v of Fin q \<Rightarrow> q | _ \<Rightarrow> 0) in
      if ct_object_type p = OBJECT_ANALOG_INPUT then Analog (round_to 24 (- 149) 128 q)
      else if ct_object_type p = OBJECT_BINARY_INPUT then Active (q \<noteq> 0)
      else if ct_object_type p = OBJECT_MULTI_STATE_INPUT then State (of_nat (nat \<lfloor>q\<rfloor>))
      else Text (takeWhile (\<lambda>c. c \<noteq> NUL) (v_text v)))"

lemma whole_iff: "dle (Fin 1) (Fin q) \<and> dle (Fin q) (Fin (of_nat m)) \<and> deq (dfloor (Fin q)) (Fin q) \<longleftrightarrow>
    (\<exists>n. q = of_nat n \<and> 1 \<le> n \<and> n \<le> m)"
proof
  assume "dle (Fin 1) (Fin q) \<and> dle (Fin q) (Fin (of_nat m)) \<and> deq (dfloor (Fin q)) (Fin q)"
  then have q: "1 \<le> q" "q \<le> of_nat m" "\<exists>z. q = of_int z" by (auto simp: dle_def)
  then obtain z where z: "q = of_int z" by blast
  then have "q = of_nat (nat z)" using q(1) by simp
  then show "\<exists>n. q = of_nat n \<and> 1 \<le> n \<and> n \<le> m" using q by (metis of_nat_1 of_nat_le_iff)
next
  assume "\<exists>n. q = of_nat n \<and> 1 \<le> n \<and> n \<le> m"
  then obtain n where n: "q = of_nat n" "1 \<le> n" "n \<le> m" by blast
  have "deq (dfloor (Fin q)) (Fin q)" by (simp only: n(1) dfloor.simps floor_of_nat of_int_of_nat_eq deq.simps)
  then show "dle (Fin 1) (Fin q) \<and> dle (Fin q) (Fin (of_nat m)) \<and> deq (dfloor (Fin q)) (Fin q)"
    using n by (auto simp: dle_def)
qed

lemma terminated_iff: "terminated v \<longleftrightarrow> NUL \<in> set (v_text v)"
proof -
  have "length (takeWhile P xs) < length xs \<longleftrightarrow> (\<exists>x \<in> set xs. \<not> P x)" for P and xs :: string
    by (induction xs) auto
  then show ?thesis by (simp add: terminated_def)
qed

lemma representable_iff: "representable p v \<longleftrightarrow> showable p v"
proof (cases "v_numeric v")
  case (Fin q)
  have l: "dle (Fin \<bar>q\<bar>) FLT_MAX \<longleftrightarrow> \<bar>q\<bar> \<le> 340282346638528859811704183484516925440"
    by (auto simp: dle_def FLT_MAX_def)
  show ?thesis
    using l whole_iff [of q "unat (ct_state_count p)"]
    by (simp add: representable_def showable_def Fin terminated_iff Let_def bacnet_objects
        del: of_nat_unat dfloor.simps deq.simps) (simp add: disj_commute)
next
  case (Infty x2)
  then show ?thesis by (simp add: representable_def showable_def terminated_iff Let_def bacnet_objects)
next
  case NaN
  then show ?thesis by (simp add: representable_def showable_def terminated_iff Let_def bacnet_objects)
qed

text \<open>The calls one point makes.\<close>

definition point_calls :: "catalog_point \<Rightarrow> ats_value \<Rightarrow> stack_call list" where
  "point_calls p v =
     (let i = ct_instance p; t = ct_object_type p in
      (if publish p v then
         [case shown p v of Analog x \<Rightarrow> Present_analog i x | Active b \<Rightarrow> Present_binary i b
            | State n \<Rightarrow> Present_multistate i n | Text x \<Rightarrow> Present_string i x] else []) @
      (if t = OBJECT_CHARACTERSTRING_VALUE then [] else [Reliability_set t i (published_quality p v)]))"

lemma publish_point_effect:
  assumes "point_object (ct_object_type p)" "i < length (gb_reliability s)"
  shows "gb_log (publish_point i p v s) = rev (point_calls p v) @ gb_log s \<and>
    gb_reliability (publish_point i p v s) =
      (if ct_object_type p = OBJECT_CHARACTERSTRING_VALUE then (gb_reliability s)[i := published_quality p v] else gb_reliability s)"
proof -
  have n: "\<exists>q. v_numeric v = Fin q" if "publish p v" "ct_object_type p \<noteq> OBJECT_CHARACTERSTRING_VALUE"
    using that by (cases "v_numeric v") (auto simp: publish_def representable_iff showable_def)
  show ?thesis
    using assms n by (auto simp: point_object_def publish_point_def point_calls_def shown_def Let_def bacnet_objects)
qed
text \<open>The whole loop: the calls of all points, the last one first.\<close>

lemma publish_loop_effect:
  assumes "publish_loop vs is s = Some s'" "distinct is"
    "\<forall>i \<in> set is. i < length (gb_reliability s) \<and> point_object (ct_object_type (gb_catalog s ! i))"
  shows "gb_log s' = concat (map (\<lambda>i. rev (point_calls (gb_catalog s ! i) (vs ! i))) (rev is)) @ gb_log s \<and>
    gb_catalog s' = gb_catalog s \<and> gb_config s' = gb_config s \<and> gb_legacy s' = gb_legacy s \<and>
    (\<forall>i \<in> set is. ct_object_type (gb_catalog s ! i) = OBJECT_CHARACTERSTRING_VALUE \<longrightarrow>
       gb_reliability s' ! i = published_quality (gb_catalog s ! i) (vs ! i)) \<and>
    (\<forall>i. i \<notin> set is \<longrightarrow> gb_reliability s' ! i = gb_reliability s ! i) \<and>
    bs_good_points (gb_stats s') = bs_good_points (gb_stats s) + of_nat (length (filter (\<lambda>i. good (gb_catalog s ! i) (vs ! i)) is))"
  using assms
proof (induction "is" arbitrary: s)
  case Nil
  then show ?case by simp
next
  case (Cons i "is")
  have r: "i < length (gb_catalog s)" "i < length vs"
    using Cons.prems(1) by (auto split: option.splits simp: rd_def split: if_splits)
  let ?p = "gb_catalog s ! i" and ?v = "vs ! i"
  let ?s = "publish_point i ?p ?v s"
  have l: "publish_loop vs is ?s = Some s'" using Cons.prems(1) r by simp
  have i: "i < length (gb_reliability s)" "point_object (ct_object_type ?p)" "i \<notin> set is" using Cons.prems by simp_all
  note e = publish_point_effect [OF i(2,1), of ?v]
  note h = Cons.IH [OF l]
  have d: "distinct is" "\<forall>i \<in> set is. i < length (gb_reliability ?s) \<and> point_object (ct_object_type (gb_catalog ?s ! i))"
    using Cons.prems by simp_all
  have k: "gb_reliability ?s ! i = published_quality ?p ?v" if "ct_object_type ?p = OBJECT_CHARACTERSTRING_VALUE"
    using e i(1) that by simp
  have o: "gb_reliability ?s ! j = gb_reliability s ! j" if "j \<noteq> i" for j
    using e that by simp
  show ?case using h [OF d] e k o i(3) by (auto simp: good_def)
qed

lemma latest_concat:
  assumes "distinct is" "k \<in> set is" "\<forall>i \<in> set is. i \<noteq> k \<longrightarrow> (\<forall>c \<in> set (g i). f c = None)"
  shows "latest f (concat (map g is)) = latest f (g k)"
  using assms
proof (induction "is")
  case (Cons i "is")
  show ?case
  proof (cases "i = k")
    case True
    then have "\<forall>c \<in> set (concat (map g is)). f c = None" using Cons.prems by auto
    then show ?thesis by (simp add: True latest_append latest_none split: option.split)
  next
    case False
    then have "latest f (g i) = None" using Cons.prems by (intro latest_none) auto
    then show ?thesis using Cons False by (simp add: latest_append)
  qed
qed simp

lemma valid_catalog_points:
  assumes "valid_catalog (Some ps) count name = Some True" "k < count"
  shows "point_object (ct_object_type (ps ! k))" "instance_free (ct_instance (ps ! k))" "j < k \<Longrightarrow> point_key (ps ! j) \<noteq> point_key (ps ! k)"
proof -
  have "catalog_loop ps name is = Some True \<Longrightarrow> i \<in> set is \<Longrightarrow> valid_point ps i (ps ! i) name = Some True" for i "is"
    by (induction "is") (auto split: option.splits bool.splits simp: rd_def split: if_splits)
  moreover have "catalog_loop ps name [0..<count] = Some True" using assms(1) by (simp add: valid_catalog_def split: if_splits)
  ultimately have v: "valid_point ps k (ps ! k) name = Some True" using assms(2) by simp
  then show "point_object (ct_object_type (ps ! k))" "instance_free (ct_instance (ps ! k))"
    by (auto simp: valid_point_def point_object_def instance_free_iff split: if_splits)
  show "point_key (ps ! j) \<noteq> point_key (ps ! k)" if "j < k"
  proof -
    have "\<not> list_ex (\<lambda>n. ct_name (ps ! k) = ct_name (ps ! n) \<or>
        ct_object_type (ps ! k) = ct_object_type (ps ! n) \<and> ct_instance (ps ! k) = ct_instance (ps ! n)) [0..<k]"
      using v unfolding valid_point_def by (simp only: split: if_splits) simp_all
    moreover have "j \<in> set [0..<k]" using that by simp
    ultimately show ?thesis unfolding point_key_def list_ex_iff prod.inject by metis
  qed
qed

lemma calls_keys:
  "c \<in> set (point_calls p v) \<Longrightarrow> point_object (ct_object_type p) \<Longrightarrow> key \<noteq> point_key p \<Longrightarrow>
    reliability_call key c = None \<and> present_call key c = None"
  by (auto simp: point_calls_def Let_def shown_def point_key_def point_object_def bacnet_objects split: if_splits)

lemma calls_reliability:
  "ct_object_type p \<noteq> OBJECT_CHARACTERSTRING_VALUE \<Longrightarrow>
    latest (reliability_call (point_key p)) (rev (point_calls p v)) = Some (published_quality p v)"
  by (simp add: point_calls_def Let_def point_key_def)

lemma calls_present:
  "point_object (ct_object_type p) \<Longrightarrow>
    latest (present_call (point_key p)) (rev (point_calls p v)) = (if publish p v then Some (shown p v) else None)"
  by (auto simp: point_calls_def Let_def point_key_def shown_def point_object_def bacnet_objects)

text \<open>The diagnostics are set last, on objects of their own.\<close>

lemma publish_diagnostics_effect:
  assumes "publish_diagnostics vs s = Some s'"
  shows "\<exists>x y b. gb_log s' = [Present_binary DIAGNOSTIC_BASE b, Present_analog (DIAGNOSTIC_BASE + 3) y,
      Present_analog (DIAGNOSTIC_BASE + 2) x] @ gb_log s \<and>
    gb_catalog s' = gb_catalog s \<and> gb_reliability s' = gb_reliability s \<and>
    bs_good_points (gb_stats s') = bs_good_points (gb_stats s) \<and>
    bs_fault_points (gb_stats s') = of_nat (bc_point_count (gb_config s)) - bs_good_points (gb_stats s) \<and>
    (\<not> gb_legacy s \<longrightarrow> b = (bs_fault_points (gb_stats s') = 0))"
  using assms by (auto simp: publish_diagnostics_def Let_def bind_eq_Some_conv split: if_splits)

lemma diagnostics_free:
  assumes "instance_free (ct_instance p)"
  shows "present_call (point_key p) (Present_binary DIAGNOSTIC_BASE b) = None"
    "present_call (point_key p) (Present_analog (DIAGNOSTIC_BASE + 2) x) = None"
    "present_call (point_key p) (Present_analog (DIAGNOSTIC_BASE + 3) y) = None"
  using assms by (auto simp: instance_free_def point_key_def bacnet_limits)

lemma update_effect:
  assumes inv: "bacnet_inv s" "initialized s" and u: "gateway_bacnet_update (Some vs) s = Some s'" and k: "k < bc_point_count (gb_config s)"
  shows "point_reliability k s' = Some (published_quality (gb_catalog s ! k) (vs ! k)) \<and>
    point_present k s' = (if publish (gb_catalog s ! k) (vs ! k) then Some (shown (gb_catalog s ! k) (vs ! k)) else point_present k s)"
proof -
  let ?n = "bc_point_count (gb_config s)" and ?p = "gb_catalog s ! k" and ?v = "vs ! k"
  let ?s0 = "upd_stats (\<lambda>x. x\<lparr>bs_good_points := 0\<rparr>) s"
  have valid: "valid_catalog (Some (gb_catalog s)) ?n (the (bc_device_name (gb_config s))) = Some True"
    using inv by (simp add: bacnet_inv_def catalog_of_config_def)
  note pts = valid_catalog_points [OF valid]
  have len: "?n \<le> length (gb_reliability s)"
    using valid_catalog_bounds [OF valid] inv(1) by (simp add: bacnet_inv_def sizes_ok_def)
  obtain s1 where 1: "publish_loop vs [0..<?n] ?s0 = Some s1" "publish_diagnostics vs s1 = Some s'"
    using u inv(2) by (auto simp: gateway_bacnet_update_def split: option.splits)
  let ?g = "\<lambda>i. rev (point_calls (gb_catalog s ! i) (vs ! i))"
  have e: "gb_log s1 = concat (map ?g (rev [0..<?n])) @ gb_log s" "gb_catalog s1 = gb_catalog s" "gb_config s1 = gb_config s"
    "ct_object_type ?p = OBJECT_CHARACTERSTRING_VALUE \<longrightarrow> gb_reliability s1 ! k = published_quality ?p ?v"
    using publish_loop_effect [OF 1(1)] len k pts(1) by simp_all
  obtain x y b where d: "gb_log s' = [Present_binary DIAGNOSTIC_BASE b, Present_analog (DIAGNOSTIC_BASE + 3) y,
      Present_analog (DIAGNOSTIC_BASE + 2) x] @ gb_log s1" "gb_catalog s' = gb_catalog s1" "gb_reliability s' = gb_reliability s1"
    using publish_diagnostics_effect [OF 1(2)] by blast
  have other: "\<forall>c \<in> set (?g i). reliability_call (point_key ?p) c = None \<and> present_call (point_key ?p) c = None"
    if "i \<in> set (rev [0..<?n])" "i \<noteq> k" for i
  proof -
    have "point_key ?p \<noteq> point_key (gb_catalog s ! i)" using pts(3) [of k i] pts(3) [of i k] that k by (cases "i < k") auto
    then show ?thesis using calls_keys pts(1) [of i] that(1) by auto
  qed
  have r: "latest (reliability_call (point_key ?p)) (concat (map ?g (rev [0..<?n]))) = latest (reliability_call (point_key ?p)) (?g k)"
    using other k by (intro latest_concat) auto
  have q: "latest (present_call (point_key ?p)) (concat (map ?g (rev [0..<?n]))) = latest (present_call (point_key ?p)) (?g k)"
    using other k by (intro latest_concat) auto
  have "point_reliability k s' = Some (published_quality ?p ?v)"
    using calls_reliability [of ?p ?v] e d by (simp add: point_reliability_def Let_def latest_append r)
  moreover have "point_present k s' = (if publish ?p ?v then Some (shown ?p ?v) else point_present k s)"
    using calls_present [OF pts(1) [OF k], of ?v] diagnostics_free [OF pts(2) [OF k]] e(1,2) d
    by (simp add: point_present_def latest_append q)
  ultimately show ?thesis by blast
qed

lemma update_counts:
  assumes inv: "bacnet_inv s" "initialized s" and u: "gateway_bacnet_update (Some vs) s = Some s'"
  shows "unat (bs_good_points (gb_stats s')) = length (filter (\<lambda>i. good (gb_catalog s ! i) (vs ! i)) [0..<bc_point_count (gb_config s)])"
    "unat (bs_good_points (gb_stats s')) + unat (bs_fault_points (gb_stats s')) = bc_point_count (gb_config s)"
    "\<not> gb_legacy s \<Longrightarrow> latest (present_call (OBJECT_BINARY_INPUT, DIAGNOSTIC_BASE)) (gb_log s') =
      Some (Active (\<forall>i < bc_point_count (gb_config s). good (gb_catalog s ! i) (vs ! i)))"
proof -
  let ?n = "bc_point_count (gb_config s)"
  let ?s0 = "upd_stats (\<lambda>x. x\<lparr>bs_good_points := 0\<rparr>) s"
  let ?l = "length (filter (\<lambda>i. good (gb_catalog s ! i) (vs ! i)) [0..<?n])"
  have valid: "valid_catalog (Some (gb_catalog s)) ?n (the (bc_device_name (gb_config s))) = Some True"
    using inv by (simp add: bacnet_inv_def catalog_of_config_def)
  note b = valid_catalog_bounds [OF valid]
  have len: "?n \<le> length (gb_reliability s)" using b inv(1) by (simp add: bacnet_inv_def sizes_ok_def)
  obtain s1 where 1: "publish_loop vs [0..<?n] ?s0 = Some s1" "publish_diagnostics vs s1 = Some s'"
    using u inv(2) by (auto simp: gateway_bacnet_update_def split: option.splits)
  have g: "bs_good_points (gb_stats s1) = of_nat ?l" "gb_config s1 = gb_config s"
    using publish_loop_effect [OF 1(1)] len valid_catalog_points(1) [OF valid] by simp_all
  have l: "?l \<le> ?n" using length_filter_le [of _ "[0..<?n]"] by simp
  have n: "?n < 2 ^ 32" using b by (simp add: bacnet_limits)
  have s': "bs_good_points (gb_stats s') = of_nat ?l" "bs_fault_points (gb_stats s') = of_nat (?n - ?l)"
    using publish_diagnostics_effect [OF 1(2)] g l by (auto simp: of_nat_diff)
  show "unat (bs_good_points (gb_stats s')) = ?l" using s'(1) l n by (simp add: unat_of_nat_small)
  moreover have f: "unat (bs_fault_points (gb_stats s')) = ?n - ?l" unfolding s'(2) using n by (intro unat_of_nat_small) simp
  ultimately show "unat (bs_good_points (gb_stats s')) + unat (bs_fault_points (gb_stats s')) = ?n" using l by simp
  obtain x y h where h: "gb_log s' = [Present_binary DIAGNOSTIC_BASE h, Present_analog (DIAGNOSTIC_BASE + 3) y,
      Present_analog (DIAGNOSTIC_BASE + 2) x] @ gb_log s1" "\<not> gb_legacy s1 \<longrightarrow> h = (bs_fault_points (gb_stats s') = 0)"
    using publish_diagnostics_effect [OF 1(2)] by blast
  have "gb_legacy s1 = gb_legacy s"
    using publish_loop_effect [OF 1(1)] len valid_catalog_points(1) [OF valid] by simp
  moreover have "bs_fault_points (gb_stats s') = 0 \<longleftrightarrow> ?l = ?n"
    using f l by (auto simp: unat_eq_0 [symmetric])
  moreover have "?l = ?n \<longleftrightarrow> (\<forall>i < ?n. good (gb_catalog s ! i) (vs ! i))"
    using filter_id_conv [of "\<lambda>i. good (gb_catalog s ! i) (vs ! i)" "[0..<?n]"]
      length_filter_less [of _ "[0..<?n]" "\<lambda>i. good (gb_catalog s ! i) (vs ! i)"] by fastforce
  ultimately show "latest (present_call (OBJECT_BINARY_INPUT, DIAGNOSTIC_BASE)) (gb_log s') =
      Some (Active (\<forall>i < ?n. good (gb_catalog s ! i) (vs ! i)))" if "\<not> gb_legacy s"
    using h that by simp
qed

subsection \<open>Publication\<close>


definition demo_reading :: ats_value where
  "demo_reading = ats_value_zero\<lparr>v_numeric := Fin 230, v_quality := ATS_QUALITY_GOOD\<rparr>"


end
