(* ===== verification/Bacnet_Recovery.thy ===== *)
theory Bacnet_Recovery
  imports Bacnet_Server
begin

section \<open>No lost notification is forgotten\<close>

text \<open>
  A slot of the recovery table is kept by every callback and every operation of the running server, unless the stack
  clears the object's change flag.
\<close>

subsection \<open>Lost notifications are retried\<close>

definition lost :: "u16 \<Rightarrow> u32 \<Rightarrow> u64 \<Rightarrow> gw_bacnet \<Rightarrow> bool" where
  "lost t i due s \<longleftrightarrow> (\<exists>r \<in> set (gb_recovery s). recovery_of t i r \<and> rc_due r = due)"

text \<open>From \<open>s\<close> to \<open>s'\<close> the log only grows, and the slot stays unless the stack clears the object's flag.\<close>

definition keeps :: "u16 \<Rightarrow> u32 \<Rightarrow> u64 \<Rightarrow> gw_bacnet \<Rightarrow> gw_bacnet \<Rightarrow> bool" where
  "keeps t i due s s' \<longleftrightarrow> (\<exists>new. gb_log s' = new @ gb_log s \<and>
     (lost t i due s \<longrightarrow> Cov_clear t i \<notin> set new \<longrightarrow> lost t i due s'))"

lemma keeps_trans: "keeps t i due a b \<Longrightarrow> keeps t i due b c \<Longrightarrow> keeps t i due a c"
  by (fastforce simp: keeps_def)

lemma keeps_same: "gb_recovery s' = gb_recovery s \<Longrightarrow> gb_log s' = new @ gb_log s \<Longrightarrow> keeps t i due s s'"
  by (auto simp: keeps_def lost_def)

lemma keeps_refl: "keeps t i due s s"
  by (rule keeps_same [where new = "[]"]) simp_all

lemma keeps_stack: "keeps t i due s (stack cs s)"
  by (rule keeps_same) simp_all

lemma keeps_quiet: "gb_recovery s' = gb_recovery s \<Longrightarrow> gb_log s' = gb_log s \<Longrightarrow> keeps t i due s s'"
  by (rule keeps_same [where new = "[]"]) simp_all

lemma retry_clear_keeps:
  assumes "(t', i') \<noteq> (t, i)"
  shows "lost t i due s \<Longrightarrow> lost t i due (retry_clear t' i' s)"
proof -
  obtain rs refreshed where r: "retry_clear t' i' s = s\<lparr>gb_recovery := rs, gb_stats := (gb_stats s)
        \<lparr>bs_cov_refreshes := refreshed, bs_cov_pending := bs_cov_pending (gb_stats (retry_clear t' i' s))\<rparr>\<rparr>"
    "filter rc_used rs = filter (\<lambda>r. rc_used r \<and> recovery_key r \<noteq> (t', i')) (gb_recovery s)"
    using retry_clear_effect [of t' i' s] by blast
  have rec: "gb_recovery (retry_clear t' i' s) = rs" by (subst r(1)) simp
  assume "lost t i due s"
  then obtain x where x: "x \<in> set (gb_recovery s)" "recovery_of t i x" "rc_due x = due" by (auto simp: lost_def)
  then have "x \<in> set (filter (\<lambda>r. rc_used r \<and> recovery_key r \<noteq> (t', i')) (gb_recovery s))"
    using assms by (auto simp: recovery_of_key)
  then have "x \<in> set rs" unfolding r(2) [symmetric] by simp
  then show ?thesis using x rec by (auto simp: lost_def)
qed

lemma retry_clear_log: "gb_log (retry_clear t i s) = gb_log s"
  by (auto simp: retry_clear_def split: prod.split)

lemma cov_clear_keeps: "keeps t i due s (cov_clear t' i' s)"
  using retry_clear_keeps [of t' i' t i due "stack [Cov_clear t' i'] s"]
  by (cases "(t', i') = (t, i)") (auto simp: keeps_def cov_clear_def retry_clear_log lost_def)

lemma csv_clear_keeps: "keeps t i due s (csv_clear i' s)"
proof -
  let ?t = OBJECT_CHARACTERSTRING_VALUE
  define s1 where "s1 = (let s1 = stack [Cov_clear ?t i'] s in
    case catalog_index i' s of None \<Rightarrow> s1 | Some index \<Rightarrow> s1\<lparr>gb_quality_changed := (gb_quality_changed s1)[index := False]\<rparr>)"
  have "gb_log s1 = [Cov_clear ?t i'] @ gb_log s" "gb_recovery s1 = gb_recovery s"
    by (simp_all add: s1_def Let_def split: option.split)
  moreover have "csv_clear i' s = retry_clear ?t i' s1"
    by (simp add: csv_clear_def s1_def Let_def split: option.split)
  ultimately show ?thesis using retry_clear_keeps [of ?t i' t i due s1]
    by (cases "(?t, i') = (t, i)") (auto simp: keeps_def retry_clear_log lost_def)
qed

lemma record_loss_keeps: "keeps t i due s (record_loss t' i' s)"
proof (cases "list_ex (recovery_of t' i') (gb_recovery s) \<or> first_index (\<lambda>r. \<not> rc_used r) (gb_recovery s) = None")
  case True
  then show ?thesis by (intro keeps_quiet) (auto simp: record_loss_def Let_def)
next
  case False
  then obtain k where k: "first_index (\<lambda>r. \<not> rc_used r) (gb_recovery s) = Some k" "\<not> list_ex (recovery_of t' i') (gb_recovery s)" by blast
  have u: "\<not> rc_used (gb_recovery s ! k)" using k(1) by (simp add: first_index_Some)
  let ?r = "\<lparr>rc_used = True, rc_type = t', rc_instance = i', rc_due = gb_now s + 1000\<rparr>"
  have "gb_recovery (record_loss t' i' s) = (gb_recovery s)[k := ?r]" "gb_log (record_loss t' i' s) = [] @ gb_log s"
    using k by (simp_all add: record_loss_def Let_def)
  moreover have "x \<in> set ((gb_recovery s)[k := ?r])" if x: "x \<in> set (gb_recovery s)" "rc_used x" for x
  proof -
    obtain j where j: "j < length (gb_recovery s)" "gb_recovery s ! j = x" using x(1) by (auto simp: in_set_conv_nth)
    then have "(gb_recovery s)[k := ?r] ! j = x" using u x(2) by (cases "j = k") auto
    then show ?thesis using j(1) nth_mem [of j "(gb_recovery s)[k := ?r]"] by simp
  qed
  ultimately show ?thesis by (auto simp: keeps_def lost_def recovery_of_def)
qed

lemma run_callback_keeps:
  assumes "run_callback env cb s = Some s'"
  shows "keeps t i due s s'"
proof (cases cb)
  case (CB_clear t' i')
  have "keeps t i due s (clear i' s)" if "table_entry t' = Some f" "of_cov_clear f = Some clear" for f clear
    using table_clears [OF that] csv_clear_keeps cov_clear_keeps by auto
  then show ?thesis using assms keeps_refl [of t i due s] by (auto simp: CB_clear run_callback_def split: option.splits)
next
  case (CB_timeout invoke)
  then have "s' = s \<or> (\<exists>t i. s' = record_loss t i s)"
    using assms cov_timeout_effect [of env invoke s] by (auto simp: run_callback_def)
  then show ?thesis using keeps_refl record_loss_keeps by auto
next
  case CB_who_is
  then show ?thesis using assms keeps_refl [of t i due s] keeps_stack [of t i due s]
    by (auto simp: run_callback_def who_is_def split: if_splits)
next
  case (CB_who_has q src)
  then show ?thesis using assms keeps_refl [of t i due s] keeps_stack [of t i due s]
    by (auto simp: run_callback_def who_has_def Let_def split: if_splits option.splits sum.splits)
qed

lemma run_callbacks_keeps: "run_callbacks env cbs s = Some s' \<Longrightarrow> keeps t i due s s'"
proof (induction cbs arbitrary: s)
  case (Cons cb cbs)
  then show ?case using run_callback_keeps keeps_trans by (fastforce split: option.splits)
qed (simp add: keeps_refl)

lemma fsm_loop_keeps: "fsm_loop env n s = Some s' \<Longrightarrow> keeps t i due s s'"
proof (induction n arbitrary: s)
  case (Suc n)
  obtain idle cbs where f: "be_cov_fsm env (gb_log s) = (idle, cbs)" by fastforce
  obtain s1 where 1: "run_callbacks env cbs (stack [Cov_fsm] s) = Some s1" "s' = s1 \<or> fsm_loop env n s1 = Some s'"
    using Suc.prems by (auto simp: f split: option.splits if_splits)
  have "keeps t i due s s1" using keeps_trans [OF keeps_stack run_callbacks_keeps [OF 1(1)]] .
  then show ?case using 1(2) Suc.IH keeps_trans by blast
qed (simp add: keeps_refl)

lemma announce_keeps: "keeps t i due s (announce env s)"
proof -
  obtain cs x where "announce env s = (stack cs s)\<lparr>gb_next_announce := x\<rparr>" using announce_stack by blast
  then show ?thesis by (intro keeps_same [where new = "rev cs"]) simp_all
qed

lemma tick_keeps:
  assumes "gateway_bacnet_tick env now s = Some s'"
  shows "keeps t i due s s'"
proof (cases "initialized s \<and> \<not> now < gb_now s")
  case True
  obtain s1 where 1: "tick_timer env (s\<lparr>gb_now := now\<rparr>) = Some s1"
    using assms True by (auto simp: gateway_bacnet_tick_def split: option.splits)
  let ?d = "now - gb_last_timer s"
  have "keeps t i due s s1"
  proof (cases "?d = 0")
    case True
    then show ?thesis using 1 by (intro keeps_quiet) (auto simp: tick_timer_def)
  next
    case False
    let ?s = "stack [Tsm_timer (if ?d > 65535 then 65535 else ucast ?d)] (s\<lparr>gb_now := now\<rparr>)"
    obtain s0 where 0: "run_callbacks env (be_tsm_timer env (gb_log s)) ?s = Some s0" "s1 = s0\<lparr>gb_last_timer := gb_now s0\<rparr> \<or> s1 = s0\<lparr>gb_last_timer := now\<rparr>"
      using 1 False by (auto simp: tick_timer_def Let_def)
    have "keeps t i due s ?s" by (rule keeps_same) simp_all
    moreover have "keeps t i due s0 s1" using 0(2) by (intro keeps_quiet) auto
    ultimately show ?thesis using run_callbacks_keeps [OF 0(1)] keeps_trans by blast
  qed
  moreover have "keeps t i due s1 (tick_seconds s1)"
  proof (cases "(gb_now s1 - gb_last_second s1) div 1000 = 0")
    case False
    then show ?thesis by (intro keeps_same) (auto simp: tick_seconds_def Let_def)
  qed (simp add: tick_seconds_def Let_def keeps_refl)
  moreover define s2 where "s2 = stack [Present_analog DIAGNOSTIC_BASE
      (fdiv (float_of_nat (unat (gb_now (tick_seconds s1) - gb_started (tick_seconds s1)))) (Fin 1000)),
      Present_analog (DIAGNOSTIC_BASE + 1) (float_of_nat (unat (bs_received_packets (gb_stats (tick_seconds s1)))))] (tick_seconds s1)"
  moreover have "keeps t i due s2 s'"
  proof (cases "link_up s2")
    case True
    then obtain s3 where "fsm_loop env (4 * be_max_subscriptions env + 8) s2 = Some s3" "s' = s3 \<or> s' = announce env s3"
      using assms \<open>initialized s \<and> \<not> now < gb_now s\<close> 1
      by (auto simp: gateway_bacnet_tick_def Let_def s2_def [symmetric] split: option.splits if_splits)
    then show ?thesis using fsm_loop_keeps announce_keeps keeps_trans by blast
  next
    case False
    then show ?thesis using assms \<open>initialized s \<and> \<not> now < gb_now s\<close> 1 keeps_refl
      by (auto simp: gateway_bacnet_tick_def Let_def s2_def [symmetric])
  qed
  ultimately show ?thesis using keeps_stack keeps_trans by meson
next
  case False
  then have "s' = s" using assms by (cases "initialized s") (simp_all add: gateway_bacnet_tick_def)
  then show ?thesis by (simp add: keeps_refl)
qed
lemma publish_point_keeps: "keeps t i due s (publish_point k p v s)"
proof -
  have "\<exists>new. gb_log (publish_point k p v s) = new @ gb_log s" by (auto simp: publish_point_def Let_def)
  then show ?thesis by (auto intro: keeps_same)
qed

lemma publish_loop_keeps: "publish_loop vs is s = Some s' \<Longrightarrow> keeps t i due s s'"
proof (induction "is" arbitrary: s)
  case (Cons k "is")
  then obtain p v where "publish_loop vs is (publish_point k p v s) = Some s'" by (auto split: option.splits)
  then show ?case using Cons.IH publish_point_keeps keeps_trans by blast
qed (simp add: keeps_refl)

lemma update_keeps:
  assumes "gateway_bacnet_update values s = Some s'"
  shows "keeps t i due s s'"
proof (cases "\<exists>vs. values = Some vs \<and> initialized s")
  case True
  then obtain vs s1 where 1: "publish_loop vs [0..<bc_point_count (gb_config s)] (upd_stats (\<lambda>x. x\<lparr>bs_good_points := 0\<rparr>) s) = Some s1"
    "publish_diagnostics vs s1 = Some s'"
    using assms by (auto simp: gateway_bacnet_update_def split: option.splits)
  have "keeps t i due s (upd_stats (\<lambda>x. x\<lparr>bs_good_points := 0\<rparr>) s)" by (rule keeps_quiet) simp_all
  moreover have "keeps t i due s1 s'"
  proof -
    have "\<exists>new. gb_recovery s' = gb_recovery s1 \<and> gb_log s' = new @ gb_log s1"
      using 1(2) by (auto simp: publish_diagnostics_def Let_def bind_eq_Some_conv)
    then show ?thesis by (auto intro: keeps_same)
  qed
  ultimately show ?thesis using publish_loop_keeps [OF 1(1)] keeps_trans by blast
next
  case False
  then have "s' = s" using assms by (cases "values") (simp_all add: gateway_bacnet_update_def)
  then show ?thesis by (simp add: keeps_refl)
qed

lemma received_keeps:
  assumes "received env d s = Some (r, s')"
  shows "keeps t i due s s'"
proof -
  obtain n source buffer b where d: "d = (n, source, buffer, b)" using prod_cases4 by blast
  define s1 where "s1 = s\<lparr>gb_bip := b, gb_receive_buffer := (case buffer of Some x \<Rightarrow> x | None \<Rightarrow> gb_receive_buffer s)\<rparr>"
  define s2 where "s2 = stack [Npdu_handler (the source) (take (unat n) (gb_receive_buffer s1))]
    (upd_stats (\<lambda>x. x\<lparr>bs_received_packets := bs_received_packets x + 1\<rparr>) s1)"
  have 1: "keeps t i due s s1" by (rule keeps_quiet) (simp_all add: s1_def)
  have 2: "keeps t i due s1 s2" by (rule keeps_same) (simp_all add: s2_def)
  have "s' = s1 \<or> run_callbacks env (be_npdu env (gb_log s2)) s2 = Some s'"
    using assms by (auto simp: received_def d Let_def s1_def s2_def split: if_splits)
  then have "s' = s1 \<or> keeps t i due s2 s'" using run_callbacks_keeps by blast
  then show ?thesis using 1 keeps_trans [OF keeps_trans [OF 1 2]] by blast
qed

lemma poll_loop_keeps: "poll_loop env ws count s = Some (k, s') \<Longrightarrow> keeps t i due s s'"
proof (induction ws arbitrary: count s)
  case (Cons w ws)
  show ?case
  proof (cases "count < 16")
    case True
    then obtain d r s1 where "received env d s = Some (r, s1)" "s' = s1 \<or> poll_loop env ws (count + 1) s1 = Some (k, s')"
      using Cons.prems by (auto split: option.splits bool.splits)
    then show ?thesis using received_keeps Cons.IH keeps_trans by blast
  next
    case False
    then show ?thesis using Cons.prems by (simp add: keeps_refl)
  qed
qed (simp add: keeps_refl)

lemma network_keeps:
  assumes "gateway_bacnet_network_update env ip netmask gateway up now s = (r, s')"
  shows "keeps t i due s s'"
proof (cases "initialized s")
  case True
  define s1 where "s1 = upd_stats (\<lambda>x. x\<lparr>bs_link_up := (up \<and> ip \<noteq> 0)\<rparr>)
    (s\<lparr>gb_now := (if now \<ge> gb_now s then now else gb_now s)\<rparr>)"
  define relink where "relink \<longleftrightarrow> \<not> link_up s \<or> network_changed ip netmask gateway s"
  define s2 where "s2 = (if link_up s1 then rebind env ip netmask gateway relink s1 else s1\<lparr>gb_bip := fst (bip_cleanup (gb_bip s1))\<rparr>)"
  define s3 where "s3 = stack [Present_binary (DIAGNOSTIC_BASE + 1) (link_up (network_properties env s2))] (network_properties env s2)"
  have 1: "keeps t i due s s1" by (rule keeps_quiet) (simp_all add: s1_def)
  have restart: "keeps t i due x (snd (bip_restart env x))" for x
    by (rule keeps_same [where new = "[Open_socket]"]) (auto simp: bip_restart_def split: prod.split)
  have "keeps t i due s1 (rebind env ip netmask gateway relink s1)"
  proof -
    define x where "x = s1\<lparr>gb_config := (gb_config s1)\<lparr>bc_local_ip := ip, bc_netmask := netmask, bc_gateway := gateway\<rparr>,
      gb_bip := bip_port_configure ip netmask gateway (bc_udp_port (gb_config s1)) (gb_bip s1)\<rparr>"
    obtain ok y where y: "bip_restart env x = (ok, y)" by fastforce
    have "keeps t i due s1 x" by (rule keeps_quiet) (simp_all add: x_def)
    moreover have "keeps t i due x y" using restart [of x] by (simp add: y)
    moreover have "keeps t i due y (upd_stats (\<lambda>x. x\<lparr>bs_link_up := False\<rparr>) y)" by (rule keeps_quiet) simp_all
    ultimately have "keeps t i due s1 x" "keeps t i due s1 y" "keeps t i due s1 (upd_stats (\<lambda>x. x\<lparr>bs_link_up := False\<rparr>) y)"
      using keeps_trans by blast+
    then show ?thesis by (simp add: rebind_def x_def [symmetric] Let_def y)
  qed
  then have 2: "keeps t i due s1 s2"
    unfolding s2_def by (auto intro: keeps_quiet)
  have 3: "keeps t i due s2 s3"
    using network_properties_stack [of env s2] by (auto simp: s3_def intro: keeps_stack)
  have "s' = (if link_up s3 \<and> relink then announce env s3 else s3)"
    using assms True unfolding gateway_bacnet_network_update_def Let_def s1_def relink_def s2_def s3_def by simp
  then show ?thesis using 1 2 3 announce_keeps [of t i due s3 env] keeps_trans by (metis (no_types))
next
  case False
  then show ?thesis using assms by (simp add: gateway_bacnet_network_update_def keeps_refl)
qed

text \<open>What the gateway's task calls while the server runs.\<close>

inductive running_step :: "bacnet_env \<Rightarrow> gw_bacnet \<Rightarrow> gw_bacnet \<Rightarrow> bool" for env where
  Running_update: "gateway_bacnet_update values s = Some s' \<Longrightarrow> running_step env s s'"
| Running_tick: "gateway_bacnet_tick env t s = Some s' \<Longrightarrow> running_step env s s'"
| Running_poll: "gateway_bacnet_poll env waits s = Some (k, s') \<Longrightarrow> running_step env s s'"
| Running_datagram: "gateway_bacnet_process_datagram env data n ip port s = Some (r, s') \<Longrightarrow> running_step env s s'"
| Running_network: "gateway_bacnet_network_update env ip netmask gateway up t s = (r, s') \<Longrightarrow> running_step env s s'"

lemma running_step_keeps: "running_step env s s' \<Longrightarrow> keeps t i due s s'"
proof (induction rule: running_step.induct)
  case (Running_poll waits s k s')
  then show ?case using poll_loop_keeps keeps_refl by (fastforce simp: gateway_bacnet_poll_def split: if_splits)
next
  case (Running_datagram data n ip port s r s')
  then show ?case using received_keeps keeps_refl
    by (fastforce simp: gateway_bacnet_process_datagram_def split: if_splits option.splits)
qed (auto intro: update_keeps tick_keeps network_keeps)

lemma running_keeps: "(running_step env)\<^sup>*\<^sup>* s s' \<Longrightarrow> keeps t i due s s'"
  by (induction rule: rtranclp_induct) (auto intro: keeps_refl keeps_trans running_step_keeps)

lemma lost_pending: "lost t i due s \<Longrightarrow> due \<le> gb_now s \<Longrightarrow> retry_pending t i s"
  by (auto simp: lost_def retry_pending_def list_ex_iff)

lemma record_loss_lost:
  assumes "(t, i) \<notin> set (pending_keys (gb_recovery s))" "\<exists>r \<in> set (gb_recovery s). \<not> rc_used r"
  shows "lost t i (gb_now s + 1000) (record_loss t i s)"
proof -
  obtain k where k: "first_index (\<lambda>r. \<not> rc_used r) (gb_recovery s) = Some k"
    using assms(2) by (cases "first_index (\<lambda>r. \<not> rc_used r) (gb_recovery s)") (auto simp: first_index_None)
  then have len: "k < length (gb_recovery s)" by (simp add: first_index_Some)
  let ?r = "\<lparr>rc_used = True, rc_type = t, rc_instance = i, rc_due = gb_now s + 1000\<rparr>"
  have "gb_recovery (record_loss t i s) = (gb_recovery s)[k := ?r]"
    using k assms(1) by (simp add: record_loss_def Let_def pending_iff)
  then have "?r \<in> set (gb_recovery (record_loss t i s))" using len by (simp add: set_update_memI)
  then show ?thesis by (force simp: lost_def recovery_of_def)
qed

text \<open>C11 (bacnet_loss_retried): a confirmed change-of-value notification that timed out is not forgotten. If the
  recovery table has room for it, then from a second later on, however many publications, ticks, datagrams and
  network changes come between and whatever the stack answers, the object is reported as changed whenever the stack
  asks, until the stack clears the object's change flag because it has sent a notification about it.\<close>

theorem bacnet_loss_retried:
  assumes "(t, i) \<notin> set (pending_keys (gb_recovery s))" "\<exists>r \<in> set (gb_recovery s). \<not> rc_used r"
    and "(running_step env)\<^sup>*\<^sup>* (record_loss t i s) s'"
    and "gb_log s' = new @ gb_log s" "Cov_clear t i \<notin> set new" "gb_now s + 1000 \<le> gb_now s'"
  shows "cov_changed t False i s' \<and> (t \<noteq> OBJECT_CHARACTERSTRING_VALUE \<or> csv_changed False i s')"
proof -
  have l: "lost t i (gb_now s + 1000) (record_loss t i s)" by (rule record_loss_lost [OF assms(1,2)])
  have "gb_log (record_loss t i s) = gb_log s" by (simp add: record_loss_def Let_def split: option.split)
  then have "lost t i (gb_now s + 1000) s'"
    using running_keeps [OF assms(3), of t i "gb_now s + 1000"] l assms(4,5) by (auto simp: keeps_def)
  then have "retry_pending t i s'" using assms(6) by (rule lost_pending)
  then show ?thesis by (auto simp: cov_changed_def csv_changed_def)
qed

definition demo_later :: gw_bacnet where
  \<comment> \<open>the link goes down five seconds after the loss\<close>
  "demo_later = snd (gateway_bacnet_network_update (demo_env []) 0 0 0 False 5000 (record_loss OBJECT_ANALOG_INPUT 7 demo_server))"

lemma demo_later_facts:
  "gb_now demo_later = 5000" "\<exists>ip prefix gw mac r b. gb_log demo_later = [Present_binary (DIAGNOSTIC_BASE + 1) b, Network_port_set ip prefix gw mac r] @ gb_log demo_server"
  "running_step (demo_env []) (record_loss OBJECT_ANALOG_INPUT 7 demo_server) demo_later"
proof -
  have l: "initialized (record_loss OBJECT_ANALOG_INPUT 7 demo_server)" "gb_now (record_loss OBJECT_ANALOG_INPUT 7 demo_server) = 0"
    "gb_log (record_loss OBJECT_ANALOG_INPUT 7 demo_server) = gb_log demo_server"
    using demo_init(2,6) by (simp_all add: record_loss_def Let_def initialized_def split: option.split)
  show "gb_now demo_later = 5000" "\<exists>ip prefix gw mac r b. gb_log demo_later = [Present_binary (DIAGNOSTIC_BASE + 1) b, Network_port_set ip prefix gw mac r] @ gb_log demo_server"
    using l by (auto simp: demo_later_def gateway_bacnet_network_update_def Let_def link_up_def network_properties_def)
  show "running_step (demo_env []) (record_loss OBJECT_ANALOG_INPUT 7 demo_server) demo_later"
    unfolding demo_later_def by (rule Running_network [OF surjective_pairing])
qed

theorem bacnet_loss_retried_witness: "cov_changed OBJECT_ANALOG_INPUT False 7 demo_later"
proof -
  have "recovery_zero \<in> set (gb_recovery demo_server) \<and> \<not> rc_used recovery_zero"
    by (simp add: demo_init(7) RECOVERY_CAPACITY_def recovery_zero_def)
  moreover have "pending_keys (gb_recovery demo_server) = []" by (simp add: demo_init(7) pending_keys_def recovery_zero_def)
  moreover obtain new where "gb_log demo_later = new @ gb_log demo_server" "Cov_clear OBJECT_ANALOG_INPUT 7 \<notin> set new"
    using demo_later_facts(2) by fastforce
  ultimately show ?thesis
    using bacnet_loss_retried [of OBJECT_ANALOG_INPUT 7 demo_server "demo_env []" demo_later new] demo_later_facts(1,3) demo_init(6)
    by (auto simp: OBJECT_ANALOG_INPUT_def)
qed

end
