(* ===== verification/Http_Server.thy ===== *)
theory Http_Server
  imports Esp_Idf Gateway_Config
begin

section \<open>Requests and replies of the HTTP server\<close>

text \<open>
  What the handlers of \<open>gateway_ota.c\<close>, \<open>gateway_web.c\<close> and \<open>dashboard_redirect.c\<close> see of the platform's HTTP
  server: a request whose header lookups, body reads, clock readings and allocations are answered by functions of
  the request, and the replies they send. The JSON printer is part of the answers, as it may run out of memory.
\<close>

datatype http_method = HTTP_GET | HTTP_HEAD | HTTP_POST | HTTP_other nat

record http_request =
  rq_method :: http_method
  rq_uri :: string
  rq_content_len :: nat
  rq_header_len :: "string \<Rightarrow> nat"                    \<comment> \<open>\<open>httpd_req_get_hdr_value_len\<close>\<close>
  rq_header :: "string \<Rightarrow> nat \<Rightarrow> string option"       \<comment> \<open>\<open>httpd_req_get_hdr_value_str\<close> into a buffer of that size\<close>
  rq_recv :: "nat \<Rightarrow> nat \<Rightarrow> int \<times> string"            \<comment> \<open>the \<open>k\<close>-th \<open>httpd_req_recv\<close> with that room\<close>
  rq_clock :: "nat \<Rightarrow> int"                            \<comment> \<open>the \<open>k\<close>-th \<open>esp_timer_get_time\<close>\<close>
  rq_alloc :: "nat \<Rightarrow> bool"                           \<comment> \<open>the \<open>k\<close>-th allocation for the reply\<close>
  rq_print :: "cjson \<Rightarrow> string option"
  rq_send :: esp_err
  rq_send_error :: esp_err

record http_reply =
  rp_status :: string
  rp_type :: string
  rp_headers :: "(string \<times> string) list"
  rp_body :: string

text \<open>The members of an object whose addition found memory; \<open>k\<close> is the number of the first addition.\<close>

fun members :: "(nat \<Rightarrow> bool) \<Rightarrow> nat \<Rightarrow> (string \<times> cjson) list \<Rightarrow> (string \<times> cjson) list" where
  "members alloc k [] = []"
| "members alloc k (x # xs) = (if alloc k then x # members alloc (k + 1) xs else members alloc (k + 1) xs)"

text \<open>\<open>cJSON_CreateObject\<close> and the additions that follow.\<close>

definition json_object :: "(nat \<Rightarrow> bool) \<Rightarrow> (string \<times> cjson) list \<Rightarrow> cjson option" where
  "json_object alloc items = (if alloc 0 then Some (CJ_Object (members alloc 1 items)) else None)"

definition out_of_memory :: "(string \<times> string) list \<Rightarrow> http_reply" where
  \<comment> \<open>\<open>httpd_resp_send_err\<close> with the headers set so far\<close>
  "out_of_memory headers = \<lparr>rp_status = ''500 Internal Server Error'', rp_type = ''text/html'', rp_headers = headers,
     rp_body = ''Out of memory''\<rparr>"

definition json_headers :: "(string \<times> string) list" where
  "json_headers = [(''Cache-Control'', ''no-store''), (''X-Content-Type-Options'', ''nosniff'')]"

definition json_response :: "http_request \<Rightarrow> (string \<times> string) list \<Rightarrow> string \<Rightarrow> cjson option \<Rightarrow> esp_err \<times> http_reply" where
  "json_response rq headers status json =
     (case (case json of None \<Rightarrow> None | Some j \<Rightarrow> rq_print rq j) of
        None \<Rightarrow> (rq_send_error rq, out_of_memory headers)
      | Some body \<Rightarrow> (rq_send rq, \<lparr>rp_status = status, rp_type = ''application/json'', rp_headers = headers @ json_headers,
          rp_body = body\<rparr>))"

definition json_bool :: "bool \<Rightarrow> cjson" where
  "json_bool b = (if b then CJ_True else CJ_False)"

definition json_nat :: "nat \<Rightarrow> cjson" where
  "json_nat n = CJ_Number (dbl_of_int (int n))"

definition error_items :: "string \<Rightarrow> (string \<times> cjson) list" where
  "error_items message = [(''ok'', CJ_False), (''error'', CJ_String message)]"

end
