(* ===== verification/Gateway_Ota.thy ===== *)
theory Gateway_Ota
  imports Http_Server Ota_Auth C_Format
begin

section \<open>Signed updates over HTTPS (main/gateway_ota.c)\<close>

text \<open>
  The handlers of the update server, its start, and the validation of a freshly booted image, in the build with
  updates enabled. The platform's update, partition, key and storage functions are answered by a record; what the
  code does to the outside is returned as a list of effects in the order it happens. Partition pointers are
  the entries they point to.
\<close>

definition RECEIVE_BYTES :: nat where "RECEIVE_BYTES = 4096"
definition RECEIVE_DEADLINE_US :: int where "RECEIVE_DEADLINE_US = 5 * 60 * 1000000"
definition IMAGE_MIN_BYTES :: nat where "IMAGE_MIN_BYTES = 288"
definition IMAGE_MAX_BYTES :: nat where "IMAGE_MAX_BYTES = 0x400000"
definition HEALTH_DELAY_MS :: nat where "HEALTH_DELAY_MS = 10000"
definition HEALTH_DEADLINE_MS :: nat where "HEALTH_DEADLINE_MS = 60000"
definition HEALTH_SAMPLES :: u32 where "HEALTH_SAMPLES = 5"
definition SHA_BYTES :: nat where "SHA_BYTES = 32"
definition OTA_AUTHORIZATION_MAX_LENGTH :: nat where "OTA_AUTHORIZATION_MAX_LENGTH = length OTA_BEARER_PREFIX + OTA_TOKEN_MAX_LENGTH"
definition HTTPD_SOCK_ERR_TIMEOUT :: int where "HTTPD_SOCK_ERR_TIMEOUT = - 3"
definition ESP_ERR_OTA_VALIDATE_FAILED :: esp_err where "ESP_ERR_OTA_VALIDATE_FAILED = 0x1503"

subsection \<open>Data\<close>

datatype img_state = ESP_OTA_IMG_NEW | ESP_OTA_IMG_PENDING_VERIFY | ESP_OTA_IMG_VALID | ESP_OTA_IMG_INVALID
  | ESP_OTA_IMG_ABORTED | ESP_OTA_IMG_UNDEFINED

text \<open>The descriptor of an image; its names are character arrays that may lack a terminator.\<close>

record app_desc =
  ap_project_name :: string
  ap_version :: string
  ap_idf_ver :: string
  ap_secure_version :: u32

record ota_env =
  oe_app :: "app_desc option"
  oe_running :: "partition option"
  oe_boot :: "partition option"
  oe_next :: "partition option"
  oe_state :: "esp_err \<times> img_state"
  oe_malloc :: bool
  oe_begin :: esp_err
  oe_write :: "nat \<Rightarrow> esp_err"                \<comment> \<open>of the chunk of the \<open>k\<close>-th read\<close>
  oe_end :: esp_err
  oe_candidate :: "app_desc option"
  oe_sha :: "esp_err \<times> u8 list"
  oe_set_boot :: esp_err
  oe_port :: nat                             \<comment> \<open>\<open>CONFIG_GW_OTA_PORT\<close>\<close>
  oe_revision :: string                      \<comment> \<open>\<open>GATEWAY_SOURCE_REVISION\<close>\<close>

record ota_server =
  os_server :: bool
  os_ready :: bool
  os_upload_busy :: bool
  os_restart_pending :: bool
  os_validation_finished :: bool
  os_admin_token :: string                   \<comment> \<open>the arrays of \<open>OTA_TOKEN_MAX_LENGTH + 1\<close> characters\<close>
  os_viewer_token :: string
  os_image_hash :: string
  os_signing_hash :: string
  os_boot_count :: u32
  os_health_callback :: bool
  os_deadline :: bool
  os_validation_started :: bool

definition ota_server_init :: ota_server where
  "ota_server_init = \<lparr>os_server = False, os_ready = False, os_upload_busy = False, os_restart_pending = False,
     os_validation_finished = False, os_admin_token = replicate (OTA_TOKEN_MAX_LENGTH + 1) NUL,
     os_viewer_token = replicate (OTA_TOKEN_MAX_LENGTH + 1) NUL, os_image_hash = [], os_signing_hash = [], os_boot_count = 0,
     os_health_callback = False, os_deadline = False, os_validation_started = False\<rparr>"

datatype ota_effect =
    Replied http_reply
  | Ota_begin partition nat
  | Ota_write string
  | Ota_end
  | Ota_abort
  | Boot_set partition
  | Delayed nat
  | Restarted
  | Marked_valid
  | Deadline_started nat
  | Deadline_stopped
  | Deadline_deleted
  | Health_task
  | Server_stopped

subsection \<open>Helpers\<close>

definition hex_digits :: string where "hex_digits = ''0123456789abcdef''"

definition hex_digest :: "u8 list \<Rightarrow> string" where
  "hex_digest digest = concat (map (\<lambda>b. [hex_digits ! unat (drop_bit 4 b), hex_digits ! unat (b AND 15)]) (take SHA_BYTES digest))"

fun state_name :: "img_state \<Rightarrow> string" where
  "state_name ESP_OTA_IMG_NEW = ''new''"
| "state_name ESP_OTA_IMG_PENDING_VERIFY = ''pending_verify''"
| "state_name ESP_OTA_IMG_VALID = ''valid''"
| "state_name ESP_OTA_IMG_INVALID = ''invalid''"
| "state_name ESP_OTA_IMG_ABORTED = ''aborted''"
| "state_name ESP_OTA_IMG_UNDEFINED = ''undefined''"

definition deny_with :: "http_request \<Rightarrow> (string \<times> string) list \<Rightarrow> string \<Rightarrow> string \<Rightarrow> ota_effect" where
  "deny_with rq headers status message =
     Replied (snd (json_response rq (headers @ [(''Cache-Control'', ''no-store'')]) status (json_object (rq_alloc rq) (error_items message))))"

definition deny :: "http_request \<Rightarrow> string \<Rightarrow> string \<Rightarrow> ota_effect" where
  "deny rq status message = deny_with rq [] status message"

text \<open>\<open>None\<close> is a read outside the header's buffer.\<close>

definition request_role :: "http_request \<Rightarrow> ota_server \<Rightarrow> ota_role option" where
  "request_role rq s =
     (let n = rq_header_len rq ''Authorization''; admin = Some (cstr (os_admin_token s)); viewer = Some (cstr (os_viewer_token s)) in
      if n = 0 then ota_authorization_role None 0 admin viewer
      else if n > OTA_AUTHORIZATION_MAX_LENGTH then Some OTA_ROLE_NONE
      else case rq_header rq ''Authorization'' (OTA_AUTHORIZATION_MAX_LENGTH + 1) of
             None \<Rightarrow> Some OTA_ROLE_NONE
           | Some header \<Rightarrow> ota_authorization_role (Some header) n admin viewer)"

subsection \<open>Permission to change something\<close>

definition gateway_ota_authorize_mutation :: "ota_env \<Rightarrow> http_request \<Rightarrow> ota_server \<Rightarrow> (bool \<times> ota_effect list) option" where
  "gateway_ota_authorize_mutation env rq s =
     (case request_role rq s of
        None \<Rightarrow> None
      | Some role \<Rightarrow> Some (
          if role \<noteq> OTA_ROLE_ADMIN then
            (False, [if role = OTA_ROLE_VIEWER then deny rq ''403 Forbidden'' ''Admin token required; viewer is read-only''
                     else deny_with rq [(''WWW-Authenticate'', ''Bearer realm='' @ [QUOTE] @ ''ESP32 Management'' @ [QUOTE])]
                            ''401 Unauthorized'' ''Valid admin bearer token required''])
          else if os_upload_busy s \<or> os_restart_pending s then
            (False, [deny rq ''409 Conflict'' ''Firmware upload or restart already in progress''])
          else if oe_running env = None \<or> fst (oe_state env) \<noteq> ESP_OK then
            (False, [deny rq ''500 Internal Server Error'' ''Running OTA state unavailable''])
          else if snd (oe_state env) \<noteq> ESP_OTA_IMG_VALID then
            (False, [deny rq ''409 Conflict'' ''Running firmware must finish health validation first''])
          else (True, [])))"

definition gateway_ota_note_restart_pending :: "ota_server \<Rightarrow> ota_server" where
  "gateway_ota_note_restart_pending s = s\<lparr>os_restart_pending := True\<rparr>"

definition gateway_ota_ready :: "ota_server \<Rightarrow> bool" where
  "gateway_ota_ready s = os_ready s"

subsection \<open>Status\<close>

text \<open>Allocations 0 to 4 are the objects, 5 to 8 link them, the members follow.\<close>

definition status_members :: "ota_env \<Rightarrow> http_request \<Rightarrow> ota_server \<Rightarrow> app_desc \<Rightarrow> partition \<Rightarrow> cjson" where
  "status_members env rq s app running =
     (let m = members (rq_alloc rq);
          security = CJ_Object (m 18 [(''software_signature_verification'', CJ_True), (''https_management'', CJ_True),
            (''mutations_require_admin'', CJ_True), (''anonymous_read_only'', CJ_True), (''viewer_admin_separation'', CJ_True),
            (''secure_boot_enabled'', CJ_False), (''flash_encryption_enabled'', CJ_False),
            (''application_anti_rollback_enabled'', CJ_False)]);
          policy = CJ_Object (m 26 [(''signature_required'', CJ_True), (''signature_scheme'', CJ_String ''rsa-pss-3072-sha256''),
            (''signing_key_sha256'', CJ_String (os_signing_hash s)),
            (''minimum_secure_version'', json_nat (unat (ap_secure_version app))),
            (''minimum_image_bytes'', json_nat IMAGE_MIN_BYTES),
            (''maximum_image_bytes'', json_nat (case oe_next env of None \<Rightarrow> 0 | Some p \<Rightarrow> unat (pt_size p)))]);
          system = CJ_Object (m 32 [(''boot_count'', json_nat (unat (os_boot_count s))),
            (''uptime_ms'', CJ_Number (dbl_of_int (rq_clock rq 0 div 1000)))]);
          firmware = CJ_Object (m 34 [(''rollback_enabled'', CJ_True), (''running_partition'', CJ_String (pt_label running)),
            (''running_address'', json_nat (unat (pt_address running))),
            (''boot_partition'', CJ_String (case oe_boot env of None \<Rightarrow> ''unavailable'' | Some p \<Rightarrow> pt_label p)),
            (''next_update_partition'', CJ_String (case oe_next env of None \<Rightarrow> ''unavailable'' | Some p \<Rightarrow> pt_label p))])
      in CJ_Object (
        m 5 [(''security'', security), (''ota_policy'', policy), (''system'', system), (''firmware'', firmware)] @
        m 9 [(''ota'', CJ_True), (''project'', CJ_String (cstr (ap_project_name app))), (''version'', CJ_String (cstr (ap_version app))),
          (''idf_version'', CJ_String (cstr (ap_idf_ver app))), (''git_revision'', CJ_String (oe_revision env)),
          (''partition'', CJ_String (pt_label running)), (''state'', CJ_String (state_name (snd (oe_state env)))),
          (''port'', json_nat (oe_port env)), (''image_sha256'', CJ_String (os_image_hash s))]))"

definition status_get :: "ota_env \<Rightarrow> http_request \<Rightarrow> ota_server \<Rightarrow> (esp_err \<times> ota_effect list) option" where
  "status_get env rq s =
     (case request_role rq s of
        None \<Rightarrow> None
      | Some role \<Rightarrow> Some (
          if \<not> ota_role_allows role True then (ESP_FAIL, [deny rq ''401 Unauthorized'' ''Invalid bearer token''])
          else case (oe_app env, oe_running env) of
            (Some app, Some running) \<Rightarrow>
              if fst (oe_state env) \<noteq> ESP_OK
              then (ESP_FAIL, [deny rq ''500 Internal Server Error'' ''Running firmware state unavailable''])
              else if \<not> list_all (rq_alloc rq) [0..<5] then (rq_send_error rq, [Replied (out_of_memory [])])
              else let (e, reply) = json_response rq [] ''200 OK'' (Some (status_members env rq s app running))
                   in (e, [Replied reply])
          | _ \<Rightarrow> (ESP_FAIL, [deny rq ''500 Internal Server Error'' ''Running firmware state unavailable''])))"

subsection \<open>Upload\<close>

definition ascii_lower :: "char \<Rightarrow> char" where
  "ascii_lower c = (if 65 \<le> (of_char c :: nat) \<and> (of_char c :: nat) \<le> 90 then char_of ((of_char c :: nat) + 32) else c)"

definition matches_header :: "http_request \<Rightarrow> string \<Rightarrow> string \<Rightarrow> bool \<Rightarrow> bool" where
  "matches_header rq key expected case_sensitive =
     (let n = rq_header_len rq key in
      if n = 0 \<or> n \<ge> 64 \<or> length expected \<noteq> n then False
      else case rq_header rq key 64 of
             None \<Rightarrow> False
           | Some v \<Rightarrow> if case_sensitive then v = expected else map ascii_lower v = map ascii_lower expected)"

definition ota_slot :: "partition \<Rightarrow> bool" where
  "ota_slot p \<longleftrightarrow> pt_type p = PARTITION_APP \<and> (pt_subtype p = SUBTYPE_APP_OTA_0 \<or> pt_subtype p = SUBTYPE_APP_OTA_1)"

text \<open>What is checked before the upload is accepted: the answer to a refusal, or the slot.\<close>

definition upload_checks :: "ota_env \<Rightarrow> http_request \<Rightarrow> (string \<times> string) + app_desc \<times> partition" where
  "upload_checks env rq =
     (case oe_app env of
        None \<Rightarrow> Inl (''400 Bad Request'', ''Missing or incorrect X-Firmware-Project header'')
      | Some app \<Rightarrow>
          if \<not> matches_header rq ''X-Firmware-Project'' (cstr (ap_project_name app)) True
          then Inl (''400 Bad Request'', ''Missing or incorrect X-Firmware-Project header'')
          else if \<not> matches_header rq ''Content-Type'' ''application/octet-stream'' False
          then Inl (''415 Unsupported Media Type'', ''Content-Type must be application/octet-stream'')
          else case oe_next env of
            None \<Rightarrow> Inl (''500 Internal Server Error'', ''No inactive OTA slot'')
          | Some target \<Rightarrow>
              if oe_running env = Some target \<or> \<not> ota_slot target
              then Inl (''500 Internal Server Error'', ''No inactive OTA slot'')
              else let n = rq_content_len rq; large = (n > unat (pt_size target) \<or> n > IMAGE_MAX_BYTES) in
                if n < IMAGE_MIN_BYTES \<or> large
                then Inl (if large then ''413 Content Too Large'' else ''400 Bad Request'', ''Invalid firmware image size'')
                else Inr (app, target))"

text \<open>The receive loop: the failure it ends with, if any, and the chunks written. Reading \<open>k + 1\<close> of the
  clock belongs to iteration \<open>k\<close>.\<close>

function upload_loop :: "ota_env \<Rightarrow> http_request \<Rightarrow> int \<Rightarrow> nat \<Rightarrow> nat \<Rightarrow> nat \<Rightarrow> (string \<times> string) option \<times> string list" where
  "upload_loop env rq deadline k remaining timeouts =
     (if remaining = 0 then (None, [])
      else if rq_clock rq (Suc k) \<ge> deadline then (Some (''408 Request Timeout'', ''Upload deadline exceeded''), [])
      else let wanted = (if remaining < RECEIVE_BYTES then remaining else RECEIVE_BYTES);
               (got, chunk) = rq_recv rq k wanted
        in if got = HTTPD_SOCK_ERR_TIMEOUT \<and> timeouts + 1 \<le> 5
           then upload_loop env rq deadline (Suc k) remaining (timeouts + 1)
           else if got \<le> 0 \<or> nat got > wanted then (Some (''400 Bad Request'', ''Upload ended early''), [])
           else let bytes = take (nat got) chunk; e = oe_write env k in
             if e \<noteq> ESP_OK
             then (Some (if e = ESP_ERR_OTA_VALIDATE_FAILED then ''400 Bad Request'' else ''500 Internal Server Error'',
                         ''Firmware write or image validation failed''), [bytes])
             else let (f, chunks) = upload_loop env rq deadline (Suc k) (remaining - nat got) 0 in (f, bytes # chunks))"
  by pat_completeness auto
termination
  by (relation "measures [\<lambda>(env, rq, deadline, k, remaining, timeouts). remaining, \<lambda>(env, rq, deadline, k, remaining, timeouts). 6 - timeouts]") auto

declare upload_loop.simps [simp del]

text \<open>What is checked of the image in the slot.\<close>

definition candidate_checks :: "ota_env \<Rightarrow> app_desc \<Rightarrow> (string \<times> string) + app_desc" where
  "candidate_checks env app =
     (case oe_candidate env of
        None \<Rightarrow> Inl (''400 Bad Request'', ''Invalid firmware descriptor'')
      | Some c \<Rightarrow>
          if NUL \<notin> set (ap_project_name c) \<or> NUL \<notin> set (ap_version c) \<or> cstr (ap_version c) = []
          then Inl (''400 Bad Request'', ''Invalid firmware descriptor'')
          else if cstr (ap_project_name c) \<noteq> cstr (ap_project_name app)
          then Inl (''400 Bad Request'', ''Firmware belongs to a different project'')
          else if ap_secure_version c < ap_secure_version app
          then Inl (''400 Bad Request'', ''Firmware secure version is older'')
          else if fst (oe_sha env) \<noteq> ESP_OK then Inl (''500 Internal Server Error'', ''Firmware image hash failed'')
          else Inr c)"

text \<open>From the allocation of the buffer to the choice of the boot slot: the failure or the new image, what was
  done, and whether the write is still open.\<close>

definition upload_image :: "ota_env \<Rightarrow> http_request \<Rightarrow> app_desc \<Rightarrow> partition \<Rightarrow> ((string \<times> string) + app_desc) \<times> ota_effect list \<times> bool" where
  "upload_image env rq app target =
     (if \<not> oe_malloc env then (Inl (''500 Internal Server Error'', ''Out of memory''), [], False)
      else if oe_begin env \<noteq> ESP_OK
      then (Inl (''500 Internal Server Error'', ''Could not begin OTA write''), [Ota_begin target (rq_content_len rq)], False)
      else let (failure, chunks) = upload_loop env rq (rq_clock rq 0 + RECEIVE_DEADLINE_US) 0 (rq_content_len rq) 0;
               fx = Ota_begin target (rq_content_len rq) # map Ota_write chunks
        in case failure of
             Some f \<Rightarrow> (Inl f, fx, True)
           | None \<Rightarrow>
               if oe_end env \<noteq> ESP_OK
               then (Inl (''400 Bad Request'', ''Firmware hash, signature or compatibility validation failed''), fx @ [Ota_end], False)
               else (case candidate_checks env app of
                 Inl f \<Rightarrow> (Inl f, fx @ [Ota_end], False)
               | Inr c \<Rightarrow>
                   if oe_set_boot env \<noteq> ESP_OK
                   then (Inl (''500 Internal Server Error'', ''Could not select candidate boot slot''), fx @ [Ota_end, Boot_set target], False)
                   else (Inr c, fx @ [Ota_end, Boot_set target], False)))"

definition upload_reply :: "ota_env \<Rightarrow> http_request \<Rightarrow> partition \<Rightarrow> app_desc \<Rightarrow> ota_effect" where
  "upload_reply env rq target candidate =
     Replied (snd (json_response rq [] ''202 Accepted'' (json_object (rq_alloc rq)
       [(''accepted'', CJ_True), (''rebooting'', CJ_True), (''version'', CJ_String (cstr (ap_version candidate))),
        (''partition'', CJ_String (pt_label target)), (''image_sha256'', CJ_String (hex_digest (snd (oe_sha env))))])))"

definition upload_post :: "ota_env \<Rightarrow> http_request \<Rightarrow> ota_server \<Rightarrow> (esp_err \<times> ota_effect list \<times> ota_server) option" where
  "upload_post env rq s =
     (case gateway_ota_authorize_mutation env rq s of
        None \<Rightarrow> None
      | Some (False, fx) \<Rightarrow> Some (ESP_FAIL, fx, s)
      | Some (True, _) \<Rightarrow> Some (
          case upload_checks env rq of
            Inl (status, why) \<Rightarrow> (ESP_FAIL, [deny rq status why], s)
          | Inr (app, target) \<Rightarrow>
              if os_upload_busy s then (ESP_FAIL, [deny rq ''409 Conflict'' ''Upload already in progress''], s)
              else let s = s\<lparr>os_upload_busy := True\<rparr>; (outcome, fx, begun) = upload_image env rq app target in
                case outcome of
                  Inl (status, why) \<Rightarrow>
                    (ESP_FAIL, fx @ (if begun then [Ota_abort] else []) @ [deny rq status why], s\<lparr>os_upload_busy := False\<rparr>)
                | Inr candidate \<Rightarrow>
                    (ESP_OK, fx @ [upload_reply env rq target candidate, Delayed 1500, Restarted], s\<lparr>os_restart_pending := True\<rparr>)))"

definition reboot_post :: "ota_env \<Rightarrow> http_request \<Rightarrow> ota_server \<Rightarrow> (esp_err \<times> ota_effect list \<times> ota_server) option" where
  "reboot_post env rq s =
     (case gateway_ota_authorize_mutation env rq s of
        None \<Rightarrow> None
      | Some (False, fx) \<Rightarrow> Some (ESP_FAIL, fx, s)
      | Some (True, _) \<Rightarrow> Some (
          if rq_content_len rq \<noteq> 0
          then (ESP_FAIL, [deny rq ''400 Bad Request'' ''Reboot request body must be empty''], s)
          else (ESP_OK, [Replied (snd (json_response rq [] ''202 Accepted'' (json_object (rq_alloc rq)
                  [(''accepted'', CJ_True), (''rebooting'', CJ_True), (''boot_count'', json_nat (unat (os_boot_count s))),
                   (''image_sha256'', CJ_String (os_image_hash s))]))), Delayed 1000, Restarted],
                s\<lparr>os_restart_pending := True\<rparr>)))"

subsection \<open>Start\<close>

record ota_start_env =
  ot_admin :: "u8 list"                      \<comment> \<open>the embedded tokens\<close>
  ot_viewer :: "u8 list"
  ot_parse_certificate :: int                \<comment> \<open>answers of the TLS library\<close>
  ot_parse_key :: int
  ot_check_pair :: int
  ot_running :: "partition option"
  ot_sha :: "esp_err \<times> u8 list"
  ot_signatures :: "esp_err \<times> u8 list list"  \<comment> \<open>digests of the keys that signed the running image\<close>
  ot_open :: esp_err
  ot_get :: "esp_err \<times> u32"
  ot_set :: esp_err
  ot_commit :: esp_err
  ot_listen :: esp_err
  ot_register :: "nat \<Rightarrow> esp_err"

definition validate_tls :: "ota_start_env \<Rightarrow> esp_err" where
  "validate_tls env =
     (let r = ot_parse_certificate env;
          r = (if r = 0 then ot_parse_key env else r);
          r = (if r = 0 then ot_check_pair env else r)
      in if r \<noteq> 0 then ESP_ERR_INVALID_ARG else ESP_OK)"

definition count_boot :: "ota_start_env \<Rightarrow> ota_server \<Rightarrow> esp_err \<times> ota_server" where
  \<comment> \<open>the end of \<open>cache_identity\<close>, with the storage open\<close>
  "count_boot env s =
     (let (r, previous) = (if fst (ot_get env) = ESP_OK then ot_get env else (fst (ot_get env), 0));
          r = (if r = ESP_ERR_NVS_NOT_FOUND then ESP_OK else r);
          r = (if r = ESP_OK then ot_set env else r);
          r = (if r = ESP_OK then ot_commit env else r)
      in (r, if r = ESP_OK then s\<lparr>os_boot_count := previous + 1\<rparr> else s))"

definition cache_identity :: "ota_start_env \<Rightarrow> ota_server \<Rightarrow> esp_err \<times> ota_server" where
  "cache_identity env s =
     (if ot_running env = None then (ESP_ERR_NOT_FOUND, s)
      else if fst (ot_sha env) \<noteq> ESP_OK then (fst (ot_sha env), s)
      else let s = s\<lparr>os_image_hash := hex_digest (snd (ot_sha env))\<rparr> in
        if fst (ot_signatures env) \<noteq> ESP_OK then (fst (ot_signatures env), s)
        else case snd (ot_signatures env) of
          [key] \<Rightarrow>
            let s = s\<lparr>os_signing_hash := hex_digest key\<rparr> in
            if ot_open env \<noteq> ESP_OK then (ot_open env, s) else count_boot env s
        | _ \<Rightarrow> (ESP_ERR_INVALID_STATE, s))"

text \<open>Both tokens are copied before they are judged; \<open>None\<close> is a read past an embedded token.\<close>

definition load_tokens :: "ota_start_env \<Rightarrow> ota_server \<Rightarrow> (bool \<times> ota_server) option" where
  "load_tokens env s =
     (case ota_copy_embedded_token (Some (ot_admin env)) (length (ot_admin env)) (Some (os_admin_token s)) (OTA_TOKEN_MAX_LENGTH + 1) of
        Some (ok, Some admin) \<Rightarrow>
          let s = s\<lparr>os_admin_token := admin\<rparr> in
          if \<not> ok then Some (False, s)
          else (case ota_copy_embedded_token (Some (ot_viewer env)) (length (ot_viewer env)) (Some (os_viewer_token s)) (OTA_TOKEN_MAX_LENGTH + 1) of
                  Some (ok, Some viewer) \<Rightarrow>
                    let s = s\<lparr>os_viewer_token := viewer\<rparr> in
                    Some (ok \<and> ota_role_tokens_valid (Some (cstr (os_admin_token s))) (Some (cstr viewer)), s)
                | _ \<Rightarrow> None)
      | _ \<Rightarrow> None)"

text \<open>Registering the three routes and then those of the application.\<close>

fun register_handlers :: "(nat \<Rightarrow> esp_err) \<Rightarrow> nat list \<Rightarrow> esp_err" where
  "register_handlers register [] = ESP_OK"
| "register_handlers register (i # is) = (if register i \<noteq> ESP_OK then register i else register_handlers register is)"

definition gateway_ota_start :: "ota_start_env \<Rightarrow> esp_err option \<Rightarrow> ota_server \<Rightarrow> (esp_err \<times> ota_effect list \<times> ota_server) option" where
  \<comment> \<open>the second argument is what \<open>register_web\<close> answers, \<open>None\<close> when there is no such function\<close>
  "gateway_ota_start env register_web s =
     (if os_server s then Some (ESP_OK, [], s)
      else case register_web of None \<Rightarrow> Some (ESP_ERR_INVALID_ARG, [], s) | Some web \<Rightarrow>
        (case load_tokens env s of
           None \<Rightarrow> None
         | Some (False, s) \<Rightarrow> Some (ESP_ERR_INVALID_ARG, [], s)
         | Some (True, s) \<Rightarrow> Some (
             let e = validate_tls env in
             if e \<noteq> ESP_OK then (e, [], s)
             else let (e, s) = cache_identity env s in
               if e \<noteq> ESP_OK then (e, [], s)
               else if ot_listen env \<noteq> ESP_OK then (ot_listen env, [], s)
               else let e = register_handlers (ot_register env) [0..<3]; e = (if e = ESP_OK then web else e) in
                 if e \<noteq> ESP_OK then (e, [Server_stopped], s)
                 else (ESP_OK, [], s\<lparr>os_server := True, os_ready := True\<rparr>))))"

subsection \<open>Validation of a new image\<close>

definition hard_validation_deadline :: "ota_server \<Rightarrow> ota_effect list" where
  "hard_validation_deadline s = (if \<not> os_validation_finished s then [Restarted] else [])"

text \<open>One entry per round of the loop: whether the server is ready then, and the answer of the health callback.\<close>

fun validate_loop :: "esp_err \<Rightarrow> (bool \<times> bool) list \<Rightarrow> ota_health_gate option \<Rightarrow> ota_server \<Rightarrow> ota_effect list \<times> ota_server" where
  "validate_loop mark [] gate s = ([], s)"
| "validate_loop mark ((ready, healthy) # samples) gate s =
     (if os_validation_finished s then ([], s)
      else let (passed, gate) = ota_health_gate_sample gate (ready \<and> os_health_callback s \<and> healthy) HEALTH_SAMPLES in
        if passed
        then (if mark = ESP_OK then ([Marked_valid, Deadline_stopped], s\<lparr>os_validation_finished := True\<rparr>)
              else ([Marked_valid, Restarted], s))
        else let (fx, s) = validate_loop mark samples gate s in (Delayed 1000 # fx, s))"

definition validate_task :: "esp_err \<Rightarrow> (bool \<times> bool) list \<Rightarrow> ota_server \<Rightarrow> ota_effect list \<times> ota_server" where
  "validate_task mark samples s =
     (let (fx, s) = validate_loop mark samples (Some \<lparr>consecutive_healthy_samples = 0\<rparr>) s in (Delayed HEALTH_DELAY_MS # fx, s))"

record ota_boot_env =
  ob_running :: "partition option"
  ob_state :: "esp_err \<times> img_state"
  ob_next :: "partition option"
  ob_set_boot :: esp_err
  ob_timer_create :: esp_err
  ob_timer_start :: esp_err
  ob_task :: bool

text \<open>A first installation over USB: the two slots must be the two halves of the update scheme.\<close>

definition first_install :: "ota_boot_env \<Rightarrow> partition \<Rightarrow> esp_err \<times> ota_effect list" where
  "first_install env running =
     (case ob_next env of
        None \<Rightarrow> (ESP_ERR_INVALID_STATE, [])
      | Some next \<Rightarrow>
          if \<not> ota_slot running \<or> next = running \<or> \<not> ota_slot next \<or> pt_size next \<noteq> pt_size running \<or>
             unat (pt_size running) \<noteq> IMAGE_MAX_BYTES \<or> pt_subtype next = pt_subtype running
          then (ESP_ERR_INVALID_STATE, [])
          else if ob_set_boot env \<noteq> ESP_OK then (ob_set_boot env, [Boot_set running])
          else (ESP_OK, [Boot_set running, Restarted]))"

definition gateway_ota_begin_validation :: "ota_boot_env \<Rightarrow> bool \<Rightarrow> ota_server \<Rightarrow> esp_err \<times> ota_effect list \<times> ota_server" where
  \<comment> \<open>the flag is whether there is a health callback\<close>
  "gateway_ota_begin_validation env healthy s =
     (if os_validation_started s then (ESP_OK, [], s)
      else if \<not> healthy then (ESP_ERR_INVALID_ARG, [], s)
      else case ob_running env of None \<Rightarrow> (ESP_ERR_NOT_FOUND, [], s) | Some running \<Rightarrow>
        if fst (ob_state env) = ESP_ERR_NOT_FOUND then (let (e, fx) = first_install env running in (e, fx, s))
        else if fst (ob_state env) \<noteq> ESP_OK then (fst (ob_state env), [], s)
        else if snd (ob_state env) \<noteq> ESP_OTA_IMG_PENDING_VERIFY then (ESP_OK, [], s)
        else let s = s\<lparr>os_health_callback := True\<rparr> in
          if ob_timer_create env \<noteq> ESP_OK then (ob_timer_create env, [], s)
          else let s = s\<lparr>os_deadline := True\<rparr> in
            if ob_timer_start env \<noteq> ESP_OK then (ob_timer_start env, [Deadline_deleted], s\<lparr>os_deadline := False\<rparr>)
            else let s = s\<lparr>os_validation_started := True\<rparr> in
              if \<not> ob_task env then (ESP_ERR_NO_MEM, [Deadline_started HEALTH_DEADLINE_MS], s)
              else (ESP_OK, [Deadline_started HEALTH_DEADLINE_MS, Health_task], s))"

end
