(* ===== verification/Ota_Safety.thy ===== *)
theory Ota_Safety
  imports Gateway_Ota
begin

text \<open>
  What an upload must pass before the boot slot changes, what a refused upload leaves behind, and when the
  validation of a new image ends with keeping it.
\<close>

section \<open>What an update must pass\<close>

definition recv_ok :: "http_request \<Rightarrow> bool" where
  \<comment> \<open>a positive answer of \<open>httpd_req_recv\<close> is the number of bytes it stored\<close>
  "recv_ok rq \<longleftrightarrow> (\<forall>k room. 0 < fst (rq_recv rq k room) \<longrightarrow> length (snd (rq_recv rq k room)) = nat (fst (rq_recv rq k room)))"

lemma upload_loop_whole:
  "upload_loop env rq deadline k remaining timeouts = (None, chunks) \<Longrightarrow> recv_ok rq \<Longrightarrow>
    length (concat chunks) = remaining \<and> (\<forall>c \<in> set chunks. c \<noteq> [] \<and> length c \<le> RECEIVE_BYTES)"
proof (induction env rq deadline k remaining timeouts arbitrary: chunks rule: upload_loop.induct)
  case (1 env rq deadline k remaining timeouts)
  define wanted where "wanted = (if remaining < RECEIVE_BYTES then remaining else RECEIVE_BYTES)"
  obtain got chunk where r: "rq_recv rq k wanted = (got, chunk)" by fastforce
  show ?case
  proof (cases "remaining = 0")
    case True
    then show ?thesis using 1(3) by (simp add: upload_loop.simps)
  next
    case False
    then have d: "\<not> rq_clock rq (Suc k) \<ge> deadline" using 1(3) by (auto simp: upload_loop.simps [of env rq deadline k])
    show ?thesis
    proof (cases "got = HTTPD_SOCK_ERR_TIMEOUT \<and> timeouts + 1 \<le> 5")
      case True
      then have "upload_loop env rq deadline (Suc k) remaining (timeouts + 1) = (None, chunks)"
        using 1(3) False d r by (simp add: upload_loop.simps [of env rq deadline k] Let_def wanted_def [symmetric])
      then show ?thesis using 1(1) [OF False d wanted_def, of "(got, chunk)" got chunk] r True 1(4) by simp
    next
      case More: False
      have g: "\<not> (got \<le> 0 \<or> nat got > wanted)" "oe_write env k = ESP_OK"
        using 1(3) False d r More
        by (auto simp: upload_loop.simps [of env rq deadline k] Let_def wanted_def [symmetric] split: if_splits prod.splits)
      obtain f rest where u: "upload_loop env rq deadline (Suc k) (remaining - nat got) 0 = (f, rest)" by fastforce
      have t: "(got = HTTPD_SOCK_ERR_TIMEOUT \<and> timeouts \<le> 4) = False" using More by auto
      have c: "f = None" "chunks = take (nat got) chunk # rest"
        using 1(3) False d r g u
        by (simp_all add: upload_loop.simps [of env rq deadline k] Let_def wanted_def [symmetric] t)
      have ih: "length (concat rest) = remaining - nat got \<and> (\<forall>c \<in> set rest. c \<noteq> [] \<and> length c \<le> RECEIVE_BYTES)"
        using 1(2) [OF False d wanted_def, of "(got, chunk)" got chunk, OF r [symmetric] refl More g(1) refl refl _ _ 1(4)] g(2) u c(1)
        by simp
      have l: "length chunk = nat got" using 1(4) r g(1) unfolding recv_ok_def by (metis fst_conv snd_conv not_le)
      have w: "nat got \<le> remaining" "nat got \<le> RECEIVE_BYTES" "0 < nat got" using g(1) by (auto simp: wanted_def split: if_splits)
      show ?thesis using ih l w by (auto simp: c(2))
    qed
  qed
qed

lemma authorized_iff:
  "gateway_ota_authorize_mutation env rq s = Some (True, fx) \<longleftrightarrow>
     request_role rq s = Some OTA_ROLE_ADMIN \<and> \<not> os_upload_busy s \<and> \<not> os_restart_pending s \<and>
     oe_running env \<noteq> None \<and> oe_state env = (ESP_OK, ESP_OTA_IMG_VALID) \<and> fx = []"
  by (cases "oe_state env") (auto simp: gateway_ota_authorize_mutation_def split: option.split)

lemma unauthorized:
  "gateway_ota_authorize_mutation env rq s = Some (False, fx) \<Longrightarrow> \<exists>reply. fx = [Replied reply]"
  by (auto simp: gateway_ota_authorize_mutation_def deny_def deny_with_def split: option.splits if_splits)

lemma upload_checks_Inr:
  assumes "upload_checks env rq = Inr (app, target)"
  shows "oe_app env = Some app \<and> oe_next env = Some target \<and> oe_running env \<noteq> Some target \<and> ota_slot target \<and>
    IMAGE_MIN_BYTES \<le> rq_content_len rq \<and> rq_content_len rq \<le> unat (pt_size target) \<and> rq_content_len rq \<le> IMAGE_MAX_BYTES \<and>
    matches_header rq ''X-Firmware-Project'' (cstr (ap_project_name app)) True"
  using assms by (auto simp: upload_checks_def Let_def split: option.splits if_splits)

lemma candidate_checks_Inr:
  assumes "candidate_checks env app = Inr c"
  shows "oe_candidate env = Some c \<and> cstr (ap_project_name c) = cstr (ap_project_name app) \<and> cstr (ap_version c) \<noteq> [] \<and>
    ap_secure_version app \<le> ap_secure_version c"
  using assms by (auto simp: candidate_checks_def split: option.splits if_splits)

lemma upload_image_Inr:
  assumes "upload_image env rq app target = (Inr c, fx, begun)"
  shows "\<exists>chunks. fx = Ota_begin target (rq_content_len rq) # map Ota_write chunks @ [Ota_end, Boot_set target] \<and>
    upload_loop env rq (rq_clock rq 0 + RECEIVE_DEADLINE_US) 0 (rq_content_len rq) 0 = (None, chunks) \<and>
    oe_begin env = ESP_OK \<and> oe_end env = ESP_OK \<and> candidate_checks env app = Inr c \<and> oe_set_boot env = ESP_OK \<and> \<not> begun"
proof -
  obtain f chunks where u: "upload_loop env rq (rq_clock rq 0 + RECEIVE_DEADLINE_US) 0 (rq_content_len rq) 0 = (f, chunks)" by fastforce
  show ?thesis
    using assms by (cases f; cases "candidate_checks env app") (auto simp: upload_image_def u Let_def split: if_splits)
qed

text \<open>The effects of a failed upload: the write is closed or never opened, and nothing is answered yet.\<close>

definition closing :: "ota_effect \<Rightarrow> bool" where
  "closing e \<longleftrightarrow> e = Ota_end \<or> e = Ota_abort"

lemma filter_writes: "filter closing (map Ota_write cs) = []"
  by (induction cs) (auto simp: closing_def)

lemma upload_image_Inl:
  assumes "upload_image env rq app target = (Inl f, fx, begun)"
  shows "(\<forall>e \<in> set fx. e \<noteq> Restarted \<and> (\<forall>r. e \<noteq> Replied r) \<and> (\<forall>p. e = Boot_set p \<longrightarrow> oe_set_boot env \<noteq> ESP_OK)) \<and>
    length (filter closing (fx @ (if begun then [Ota_abort] else []))) = (if fx \<noteq> [] \<and> oe_begin env = ESP_OK then 1 else 0) \<and>
    (fx \<noteq> [] \<longleftrightarrow> (\<exists>p n. Ota_begin p n \<in> set fx))"
proof -
  obtain g chunks where u: "upload_loop env rq (rq_clock rq 0 + RECEIVE_DEADLINE_US) 0 (rq_content_len rq) 0 = (g, chunks)" by fastforce
  have c: "closing Ota_end" "closing Ota_abort" "\<not> closing (Ota_begin p n)" "\<not> closing (Boot_set p)" for p n
    by (simp_all add: closing_def)
  have e: "\<exists>p n. p = target \<and> n = rq_content_len rq \<or> Ota_begin p n \<in> A" for A by blast
  show ?thesis
    using assms by (cases g; cases "candidate_checks env app")
      (auto simp: upload_image_def u Let_def filter_writes c e split: if_splits)
qed


text \<open>C16 (ota_upload_refused): an upload that does not end in a restart answers with one reply and an error, leaves the
  server's state as it was, so that the next upload is possible, does not change the boot slot, and closes every write it has
  opened, exactly once.\<close>

theorem ota_upload_refused:
  assumes "upload_post env rq s = Some (r, fx, s')" "Restarted \<notin> set fx"
  shows "r = ESP_FAIL \<and> s' = s \<and> (\<exists>pre reply. fx = pre @ [Replied reply] \<and> (\<forall>e \<in> set pre. \<forall>x. e \<noteq> Replied x)) \<and>
    (\<forall>p. Boot_set p \<in> set fx \<longrightarrow> oe_set_boot env \<noteq> ESP_OK) \<and>
    length (filter closing fx) = (if (\<exists>p n. Ota_begin p n \<in> set fx) \<and> oe_begin env = ESP_OK then 1 else 0)"
proof (cases "gateway_ota_authorize_mutation env rq s")
  case None
  then show ?thesis using assms(1) by (simp add: upload_post_def)
next
  case (Some x)
  show ?thesis
  proof (cases "fst x")
    case False
    then obtain reply where "x = (False, [Replied reply])" using Some unauthorized [of env rq s "snd x"] by (cases x) auto
    then show ?thesis using assms(1) Some by (auto simp: upload_post_def closing_def)
  next
    case True
    then have a: "gateway_ota_authorize_mutation env rq s = Some (True, snd x)" using Some by (cases x) simp
    have d: "\<exists>reply. deny rq status why = Replied reply" for status why by (simp add: deny_def deny_with_def)
    show ?thesis
    proof (cases "upload_checks env rq")
      case (Inl f)
      obtain reply where "deny rq (fst f) (snd f) = Replied reply" using d by blast
      then have "r = ESP_FAIL" "s' = s" "fx = [Replied reply]"
        using assms(1) a Inl by (auto simp: upload_post_def split: prod.splits)
      then show ?thesis by (auto simp: closing_def)
    next
      case (Inr y)
      obtain app target where y: "y = (app, target)" by fastforce
      obtain outcome fx1 begun where u: "upload_image env rq app target = (outcome, fx1, begun)" by (metis prod.exhaust)
      have b: "\<not> os_upload_busy s" using a [unfolded authorized_iff] by simp
      have "\<nexists>c. outcome = Inr c"
        using assms a Inr b u by (auto simp: upload_post_def y Let_def)
      then obtain f where f: "outcome = Inl f" by (cases outcome) auto
      obtain reply where e: "deny rq (fst f) (snd f) = Replied reply" using d by blast
      have o: "r = ESP_FAIL" "s' = s\<lparr>os_upload_busy := False\<rparr>" "fx = (fx1 @ (if begun then [Ota_abort] else [])) @ [Replied reply]"
        using assms(1) a Inr b u e by (auto simp: upload_post_def y Let_def f split: prod.splits)
      have "s' = s" using o(2) b by (cases s) simp
      moreover note i = upload_image_Inl [OF u [unfolded f]]
      ultimately show ?thesis using o by (auto simp: closing_def)
    qed
  qed
qed

section \<open>When a new image is kept\<close>

definition five_in_a_row :: "bool list \<Rightarrow> bool" where
  "five_in_a_row hs \<longleftrightarrow> (\<exists>n. n + 5 \<le> length hs \<and> list_all (\<lambda>h. h) (take 5 (drop n hs)))"

lemma five_Nil: "\<not> five_in_a_row []"
  by (simp add: five_in_a_row_def)

lemma five_Cons: "five_in_a_row (h # hs) \<longleftrightarrow> (4 \<le> length hs \<and> list_all (\<lambda>h. h) (take 5 (h # hs))) \<or> five_in_a_row hs"
proof
  assume "five_in_a_row (h # hs)"
  then obtain n where "n + 5 \<le> length (h # hs)" "list_all (\<lambda>h. h) (take 5 (drop n (h # hs)))"
    unfolding five_in_a_row_def by blast
  then show "(4 \<le> length hs \<and> list_all (\<lambda>h. h) (take 5 (h # hs))) \<or> five_in_a_row hs"
    by (cases n) (auto simp: five_in_a_row_def)
next
  assume "(4 \<le> length hs \<and> list_all (\<lambda>h. h) (take 5 (h # hs))) \<or> five_in_a_row hs"
  then show "five_in_a_row (h # hs)"
  proof
    assume "4 \<le> length hs \<and> list_all (\<lambda>h. h) (take 5 (h # hs))"
    then show ?thesis unfolding five_in_a_row_def by (intro exI [of _ 0]) simp
  next
    assume "five_in_a_row hs"
    then obtain n where "n + 5 \<le> length hs" "list_all (\<lambda>h. h) (take 5 (drop n hs))" unfolding five_in_a_row_def by blast
    then show ?thesis unfolding five_in_a_row_def by (intro exI [of _ "Suc n"]) simp
  qed
qed

text \<open>The loop with \<open>c\<close> healthy samples already counted.\<close>

definition round_ok :: "bool \<times> bool \<Rightarrow> bool" where
  "round_ok x \<longleftrightarrow> fst x \<and> snd x"

lemma validate_loop_marks:
  assumes "\<not> os_validation_finished s" "os_health_callback s" "c < 5"
  shows "Marked_valid \<in> set (fst (validate_loop ESP_OK xs (Some \<lparr>consecutive_healthy_samples = of_nat c\<rparr>) s)) \<longleftrightarrow>
    (5 - c \<le> length xs \<and> list_all (\<lambda>h. h) (take (5 - c) (map round_ok xs))) \<or> five_in_a_row (map round_ok xs)"
  using assms(3)
proof (induction xs arbitrary: c)
  case Nil
  then show ?case by (simp add: five_Nil)
next
  case (Cons x xs)
  note cs = assms(1-2)
  obtain r h where x: "x = (r, h)" by fastforce
  have c: "c = 0 \<or> c = 1 \<or> c = 2 \<or> c = 3 \<or> c = 4" using Cons.prems by linarith
  have w: "\<not> (5::u32) \<le> 1" "\<not> (5::u32) \<le> 2" "\<not> (5::u32) \<le> 3" "\<not> (5::u32) \<le> 4" by (simp_all add: word_le_nat_alt)
  show ?case
  proof (cases "r \<and> h")
    case False
    then have "validate_loop ESP_OK (x # xs) (Some \<lparr>consecutive_healthy_samples = of_nat c\<rparr>) s =
      (Delayed 1000 # fst (validate_loop ESP_OK xs (Some \<lparr>consecutive_healthy_samples = of_nat 0\<rparr>) s),
       snd (validate_loop ESP_OK xs (Some \<lparr>consecutive_healthy_samples = of_nat 0\<rparr>) s))"
      using cs by (auto simp: x ota_health_gate_sample_def HEALTH_SAMPLES_def split: prod.split)
    moreover have "(5 \<le> length xs \<and> list_all (\<lambda>h. h) (take 5 (map round_ok xs))) \<or> five_in_a_row (map round_ok xs) \<longleftrightarrow>
        five_in_a_row (map round_ok xs)"
      unfolding five_in_a_row_def by (metis add_0 drop0 length_map)
    moreover have "\<not> round_ok x" using False by (simp add: x round_ok_def)
    ultimately show ?thesis using Cons.IH [of 0] Cons.prems c by (auto simp: five_Cons)
  next
    case True
    then have ok: "round_ok x" by (simp add: x round_ok_def)
    show ?thesis
    proof (cases "c = 4")
      case True
      then show ?thesis using cs \<open>r \<and> h\<close> ok
        by (simp add: x ota_health_gate_sample_def HEALTH_SAMPLES_def)
    next
      case False
      then have s: "validate_loop ESP_OK (x # xs) (Some \<lparr>consecutive_healthy_samples = of_nat c\<rparr>) s =
        (Delayed 1000 # fst (validate_loop ESP_OK xs (Some \<lparr>consecutive_healthy_samples = of_nat (Suc c)\<rparr>) s),
         snd (validate_loop ESP_OK xs (Some \<lparr>consecutive_healthy_samples = of_nat (Suc c)\<rparr>) s))"
        using cs \<open>r \<and> h\<close> c w by (auto simp: x ota_health_gate_sample_def HEALTH_SAMPLES_def split: prod.split)
      have "Suc c < 5" using False Cons.prems by simp
      moreover have "list_all (\<lambda>h. h) (take 4 hs) \<Longrightarrow> list_all (\<lambda>h. h) (take (4 - c) hs)" for hs
        using set_take_subset_set_take [of "4 - c" 4 hs] by (auto simp: list_all_iff)
      from this [of "map round_ok xs"] calculation show ?thesis using Cons.IH [of "Suc c"] s c ok
        by (auto simp: five_Cons simp del: validate_loop.simps)
    qed
  qed
qed

text \<open>C8 (ota_validation_exact): a new image is marked valid exactly when five consecutive samples, taken a second apart from
  ten seconds after the start, found the server ready and the gateway healthy.
  Otherwise the deadline, a minute after the start and independent of the task, restarts the device, so that the
  bootloader goes back to the previous image.\<close>

theorem ota_validation_exact:
  assumes "\<not> os_validation_finished s" "os_health_callback s" "validate_task ESP_OK samples s = (fx, s')"
  shows "(Marked_valid \<in> set fx \<longleftrightarrow>
      (\<exists>n. n + 5 \<le> length samples \<and> list_all (\<lambda>(ready, healthy). ready \<and> healthy) (take 5 (drop n samples)))) \<and>
    hard_validation_deadline s' = (if Marked_valid \<in> set fx then [] else [Restarted])"
proof -
  let ?l = "validate_loop ESP_OK samples (Some \<lparr>consecutive_healthy_samples = 0\<rparr>) s" and ?hs = "map round_ok samples"
  have l: "fx = Delayed HEALTH_DELAY_MS # fst ?l" "s' = snd ?l"
    using assms(3) by (auto simp: validate_task_def split: prod.splits)
  have "(5 \<le> length samples \<and> list_all (\<lambda>h. h) (take 5 ?hs)) \<or> five_in_a_row ?hs \<longleftrightarrow> five_in_a_row ?hs"
    unfolding five_in_a_row_def by (metis add_0 drop0 length_map)
  then have "Marked_valid \<in> set fx \<longleftrightarrow> five_in_a_row ?hs"
    using validate_loop_marks [OF assms(1,2), of 0 samples] by (simp add: l(1))
  moreover have "five_in_a_row ?hs \<longleftrightarrow>
      (\<exists>n. n + 5 \<le> length samples \<and> list_all (\<lambda>(ready, healthy). ready \<and> healthy) (take 5 (drop n samples)))"
    by (simp add: five_in_a_row_def drop_map take_map list_all_iff round_ok_def case_prod_beta)
  moreover have "os_validation_finished (snd (validate_loop ESP_OK hs g s)) \<longleftrightarrow> Marked_valid \<in> set (fst (validate_loop ESP_OK hs g s))" for hs g
    using assms(1) by (induction hs arbitrary: g) (auto simp: case_prod_beta)
  then have "os_validation_finished s' \<longleftrightarrow> Marked_valid \<in> set fx" by (simp add: l)
  ultimately show ?thesis by (simp add: hard_validation_deadline_def)
qed

section \<open>Concrete updates\<close>

definition demo_slot :: "int \<Rightarrow> u32 \<Rightarrow> partition" where
  "demo_slot sub address = \<lparr>pt_type = PARTITION_APP, pt_subtype = sub, pt_address = address, pt_size = 0x400000,
     pt_label = ''ota'', pt_readonly = False, pt_encrypted = False, pt_chip = 0\<rparr>"

definition demo_app :: app_desc where
  "demo_app = \<lparr>ap_project_name = ''gateway'' @ [NUL], ap_version = ''2'' @ [NUL], ap_idf_ver = ''5'' @ [NUL], ap_secure_version = 0\<rparr>"

definition demo_ota_env :: "esp_err \<Rightarrow> ota_env" where
  \<comment> \<open>the argument is the verdict on the signature\<close>
  "demo_ota_env verdict = \<lparr>oe_app = Some demo_app, oe_running = Some (demo_slot SUBTYPE_APP_OTA_0 0x20000), oe_boot = None,
     oe_next = Some (demo_slot SUBTYPE_APP_OTA_1 0x420000), oe_state = (ESP_OK, ESP_OTA_IMG_VALID), oe_malloc = True, oe_begin = ESP_OK,
     oe_write = (\<lambda>_. ESP_OK), oe_end = verdict, oe_candidate = Some demo_app, oe_sha = (ESP_OK, replicate 32 0), oe_set_boot = ESP_OK,
     oe_port = 443, oe_revision = ''r''\<rparr>"

definition demo_token :: string where "demo_token = replicate 40 CHR ''a''"

definition demo_viewer :: string where "demo_viewer = replicate 40 CHR ''b''"

definition demo_header :: "string \<Rightarrow> string" where
  "demo_header key = (if key = ''Authorization'' then ''Bearer '' @ demo_token else if key = ''X-Firmware-Project'' then ''gateway''
     else if key = ''Content-Type'' then ''application/octet-stream'' else [])"

definition demo_upload :: http_request where
  "demo_upload = \<lparr>rq_method = HTTP_POST, rq_uri = ''/ota'', rq_content_len = 288, rq_header_len = (\<lambda>k. length (demo_header k)),
     rq_header = (\<lambda>k n. Some (demo_header k)), rq_recv = (\<lambda>k room. (int room, replicate room CHR ''x'')), rq_clock = (\<lambda>_. 0),
     rq_alloc = (\<lambda>_. True), rq_print = (\<lambda>_. Some ''{}''), rq_send = ESP_OK, rq_send_error = ESP_OK\<rparr>"

definition demo_ota :: ota_server where
  "demo_ota = ota_server_init\<lparr>os_ready := True, os_health_callback := True, os_admin_token := demo_token @ replicate 89 NUL,
     os_viewer_token := demo_viewer @ replicate 89 NUL\<rparr>"

lemma demo_role: "request_role demo_upload demo_ota = Some OTA_ROLE_ADMIN"
proof -
  have c: "cstr (demo_token @ replicate 89 NUL) = demo_token" "cstr (demo_viewer @ replicate 89 NUL) = demo_viewer"
    by (simp_all add: demo_token_def demo_viewer_def NUL_def cstr_def takeWhile_append)
  have v: "ota_token_configuration_valid (Some demo_token)" "ota_token_configuration_valid (Some demo_viewer)" "demo_token \<noteq> demo_viewer"
    by (simp_all add: ota_token_valid_eq token_char_def list_all_iff demo_token_def demo_viewer_def)
  have h: "rq_header_len demo_upload ''Authorization'' = 47" "rq_header demo_upload ''Authorization'' n = Some (''Bearer '' @ demo_token)" for n
    by (simp_all add: demo_upload_def demo_header_def demo_token_def)
  have l: "length demo_token = 40" "length demo_viewer = 40" by (simp_all add: demo_token_def demo_viewer_def)
  have a: "ota_authorization_valid (Some (''Bearer '' @ demo_token)) 47 (Some demo_token) =
      Some (take 47 (''Bearer '' @ demo_token) = OTA_BEARER_PREFIX @ demo_token)"
    by (rule ota_authorization_valid_eq [OF v(1)]) (simp add: l)
  have b: "ota_authorization_valid (Some (''Bearer '' @ demo_token)) 47 (Some demo_viewer) =
      Some (take 47 (''Bearer '' @ demo_token) = OTA_BEARER_PREFIX @ demo_viewer)"
    by (rule ota_authorization_valid_eq [OF v(2)]) (simp add: l)
  have t: "take 47 (''Bearer '' @ demo_token) = OTA_BEARER_PREFIX @ demo_token" by (simp add: l OTA_BEARER_PREFIX_def)
  have "ota_authorization_role (Some (''Bearer '' @ demo_token)) 47 (Some demo_token) (Some demo_viewer) = Some OTA_ROLE_ADMIN"
    using v by (simp only: ota_authorization_role_def ota_role_tokens_valid_def option.sel option.distinct simp_thms if_True if_False
        a b t bind.bind_lunit)
  then show ?thesis
    by (simp add: request_role_def Let_def h c demo_ota_def OTA_AUTHORIZATION_MAX_LENGTH_def OTA_BEARER_PREFIX_def OTA_TOKEN_MAX_LENGTH_def)
qed

lemma demo_authorized: "gateway_ota_authorize_mutation (demo_ota_env verdict) demo_upload demo_ota = Some (True, [])"
  by (simp add: authorized_iff demo_role) (simp add: demo_ota_def ota_server_init_def demo_ota_env_def)

lemma demo_checks: "upload_checks (demo_ota_env verdict) demo_upload = Inr (demo_app, demo_slot SUBTYPE_APP_OTA_1 0x420000)"
  by (simp add: upload_checks_def demo_ota_env_def demo_upload_def demo_header_def demo_app_def matches_header_def cstr_def NUL_def
      demo_slot_def ota_slot_def partition_codes IMAGE_MIN_BYTES_def IMAGE_MAX_BYTES_def)

lemma demo_loop: "upload_loop (demo_ota_env verdict) demo_upload RECEIVE_DEADLINE_US 0 288 0 = (None, [replicate 288 CHR ''x''])"
  by (simp add: upload_loop.simps demo_ota_env_def demo_upload_def RECEIVE_DEADLINE_US_def RECEIVE_BYTES_def HTTPD_SOCK_ERR_TIMEOUT_def)

lemma demo_image:
  "upload_image (demo_ota_env ESP_OK) demo_upload demo_app target = (Inr demo_app,
     [Ota_begin target 288, Ota_write (replicate 288 CHR ''x''), Ota_end, Boot_set target], False)"
  "verdict \<noteq> ESP_OK \<Longrightarrow> upload_image (demo_ota_env verdict) demo_upload demo_app target =
     (Inl (''400 Bad Request'', ''Firmware hash, signature or compatibility validation failed''),
      [Ota_begin target 288, Ota_write (replicate 288 CHR ''x''), Ota_end], False)"
proof -
  have e: "rq_content_len demo_upload = 288" "rq_clock demo_upload 0 = 0" "oe_malloc (demo_ota_env v)" "oe_begin (demo_ota_env v) = ESP_OK"
    "oe_end (demo_ota_env v) = v" "oe_set_boot (demo_ota_env v) = ESP_OK" for v
    by (simp_all add: demo_upload_def demo_ota_env_def)
  have c: "candidate_checks (demo_ota_env v) demo_app = Inr demo_app" for v
    by (simp add: candidate_checks_def demo_ota_env_def demo_app_def cstr_def NUL_def)
  show "upload_image (demo_ota_env ESP_OK) demo_upload demo_app target = (Inr demo_app,
     [Ota_begin target 288, Ota_write (replicate 288 CHR ''x''), Ota_end, Boot_set target], False)"
    by (simp add: upload_image_def e c demo_loop)
  show "verdict \<noteq> ESP_OK \<Longrightarrow> upload_image (demo_ota_env verdict) demo_upload demo_app target =
     (Inl (''400 Bad Request'', ''Firmware hash, signature or compatibility validation failed''),
      [Ota_begin target 288, Ota_write (replicate 288 CHR ''x''), Ota_end], False)"
    by (simp add: upload_image_def e c demo_loop)
qed

lemma demo_not_busy: "\<not> os_upload_busy demo_ota"
  by (simp add: demo_ota_def ota_server_init_def)


theorem ota_upload_refused_witness:
  "\<exists>fx. upload_post (demo_ota_env ESP_FAIL) demo_upload demo_ota = Some (ESP_FAIL, fx, demo_ota) \<and> length (filter closing fx) = 1"
proof -
  obtain r fx s' where u: "upload_post (demo_ota_env ESP_FAIL) demo_upload demo_ota = Some (r, fx, s')" "Restarted \<notin> set fx"
    "Ota_begin (demo_slot SUBTYPE_APP_OTA_1 0x420000) 288 \<in> set fx"
    by (simp add: upload_post_def demo_authorized demo_checks demo_image demo_not_busy Let_def deny_def deny_with_def)
  have "oe_begin (demo_ota_env ESP_FAIL) = ESP_OK" by (simp add: demo_ota_env_def)
  then show ?thesis using ota_upload_refused [OF u(1,2)] u(1,3) by auto
qed

definition demo_samples :: "(bool \<times> bool) list" where
  "demo_samples = (True, False) # replicate 5 (True, True)"

theorem ota_validation_exact_witness:
  "Marked_valid \<in> set (fst (validate_task ESP_OK demo_samples demo_ota))"
proof -
  have "\<exists>n. n + 5 \<le> length demo_samples \<and> list_all (\<lambda>(ready, healthy). ready \<and> healthy) (take 5 (drop n demo_samples))"
    by (intro exI [of _ 1]) (simp add: list_all_iff demo_samples_def)
  moreover have "\<not> os_validation_finished demo_ota" "os_health_callback demo_ota"
    by (simp_all add: demo_ota_def ota_server_init_def)
  ultimately show ?thesis
    using ota_validation_exact [of demo_ota demo_samples "fst (validate_task ESP_OK demo_samples demo_ota)"
        "snd (validate_task ESP_OK demo_samples demo_ota)"] by simp
qed

end
