(* ===== verification/Gateway_Web.thy ===== *)
theory Gateway_Web
  imports Gateway_Ota Gateway_Storage Custom_Map
begin

section \<open>The web interface (main/gateway_web.c)\<close>

text \<open>
  Loading the settings at the start, the request handlers, and the transaction that saves new settings. The storage
  calls, the allocations and the embedded files are answered by records. \<open>ota\<close> tells whether the build has
  updates over HTTPS, which put their authorization in front of every change.
\<close>

subsection \<open>Loading the settings\<close>

record web_boot =
  wb_storage :: storage_device
  wb_init :: esp_err                         \<comment> \<open>\<open>nvs_flash_init_partition\<close>\<close>
  wb_open :: esp_err
  wb_size :: "esp_err \<times> nat"                \<comment> \<open>\<open>nvs_get_blob\<close> without a buffer\<close>
  wb_malloc :: bool
  wb_read :: "esp_err \<times> string"             \<comment> \<open>\<open>nvs_get_blob\<close> into the buffer\<close>
  wb_names :: "esp_err \<Rightarrow> string"           \<comment> \<open>\<open>esp_err_to_name\<close>\<close>

definition unreadable :: string where
  "unreadable = ''Stored configuration unreadable; save a valid configuration to repair''"

text \<open>The settings, the map and the error buffer afterwards.\<close>

definition load_blob :: "cjson_lib \<Rightarrow> (string \<Rightarrow> u32 option) \<Rightarrow> config_memory \<Rightarrow> web_boot \<Rightarrow> nat \<Rightarrow>
    gateway_config \<Rightarrow> custom_map \<Rightarrow> string \<Rightarrow> (gateway_config \<times> custom_map \<times> string) option" where
  "load_blob lib inet_pton mem boot capacity c m error =
     (if \<not> wb_malloc boot then Some (c, m, put_cstr error ''Out of memory loading configuration'')
      else let (e, content) = wb_read boot in
        if e \<noteq> ESP_OK \<or> length content > capacity
        then Some (c, m, put_cstr error (''Configuration read: '' @ wb_names boot e))
        else (case gateway_config_parse lib inet_pton mem (Some content) (Some c) (Some c) (Some m) error of
                Some (_, Some c', Some m', error') \<Rightarrow> Some (c', m', error')
              | _ \<Rightarrow> None))"

definition gateway_web_load :: "cjson_lib \<Rightarrow> (string \<Rightarrow> u32 option) \<Rightarrow> config_memory \<Rightarrow> web_boot \<Rightarrow>
    gateway_config \<Rightarrow> custom_map \<Rightarrow> string \<Rightarrow> (gateway_config \<times> custom_map \<times> string) option" where
  "gateway_web_load lib inet_pton mem boot c m error =
     (let error = error[0 := NUL];
          e = fst (gateway_storage_prepare (wb_storage boot));
          e = (if e = ESP_OK then wb_init boot else e)
      in if e \<noteq> ESP_OK then Some (c, m, put_cstr error (''Configuration storage: '' @ wb_names boot e))
         else if wb_open boot \<noteq> ESP_OK then Some (c, m, put_cstr error (''Configuration open: '' @ wb_names boot (wb_open boot)))
         else let (e, n) = wb_size boot in
           if e = ESP_ERR_NVS_NOT_FOUND then Some (c, m, error)
           else if e \<noteq> ESP_OK \<or> n = 0 \<or> n > GW_CONFIG_MAX_JSON then Some (c, m, put_cstr error unreadable)
           else load_blob lib inet_pton mem boot n c m error)"

subsection \<open>The server\<close>

record web_state =
  ws_active :: gateway_config
  ws_saved_map :: custom_map
  ws_boot_error :: string
  ws_restart_pending :: bool
  ws_ota :: ota_server

record web_env =
  we_ota :: bool                             \<comment> \<open>\<open>CONFIG_GW_OTA_ENABLED\<close>\<close>
  we_update :: ota_env
  we_index :: string                         \<comment> \<open>the embedded files with their terminators\<close>
  we_template :: string
  we_status :: "cjson option"                \<comment> \<open>what the callbacks build\<close>
  we_points :: "cjson option"
  we_errors :: "cjson option"
  we_json :: cjson_lib
  we_inet_pton :: "string \<Rightarrow> u32 option"
  we_memory :: config_memory
  we_body :: bool                            \<comment> \<open>allocations\<close>
  we_candidate :: "gateway_config option"    \<comment> \<open>an uninitialized object\<close>
  we_map :: "nat option"                     \<comment> \<open>a zeroed object\<close>
  we_rows :: "nat option"
  we_error :: string                         \<comment> \<open>the uninitialized error buffer\<close>
  we_json_alloc :: "nat \<Rightarrow> bool"            \<comment> \<open>allocations of the settings to store\<close>
  we_open :: esp_err
  we_set_blob :: esp_err
  we_commit :: esp_err
  we_timer :: esp_err

datatype web_effect =
    Ota ota_effect
  | Web_replied http_reply
  | Blob_set string
  | Blob_committed
  | Restart_timer nat
  | Aborted

definition json_reply :: "http_request \<Rightarrow> string \<Rightarrow> cjson option \<Rightarrow> esp_err \<times> web_effect list" where
  "json_reply rq status json = (let (e, reply) = json_response rq [] status json in (e, [Web_replied reply]))"

definition json_error :: "http_request \<Rightarrow> string \<Rightarrow> string \<Rightarrow> esp_err \<times> web_effect list" where
  "json_error rq status message = json_reply rq status (json_object (rq_alloc rq) (error_items message))"

subsection \<open>Reading\<close>

definition page_policy :: string where
  "page_policy = ''default-src 'self'; script-src 'self' 'unsafe-inline'; style-src 'self' 'unsafe-inline'; object-src 'none'; base-uri 'none'; frame-ancestors 'none'; form-action 'self'' @ [CHR 0x27]"

definition page_handler :: "web_env \<Rightarrow> http_request \<Rightarrow> esp_err \<times> web_effect list" where
  "page_handler env rq = (rq_send rq, [Web_replied \<lparr>rp_status = ''200 OK'', rp_type = ''text/html; charset=utf-8'',
     rp_headers = json_headers @ [(''Content-Security-Policy'', page_policy)], rp_body = butlast (we_index env)\<rparr>])"

definition config_handler :: "web_env \<Rightarrow> http_request \<Rightarrow> web_state \<Rightarrow> esp_err \<times> web_effect list" where
  "config_handler env rq s =
     json_reply rq ''200 OK''
       (case gateway_config_json (rq_alloc rq) (ws_active s) False of
          Some (CJ_Object items) \<Rightarrow> Some (CJ_Object (items @ members (rq_alloc rq) 11
            [(''custom_point_count'', json_nat (length (cm_defs (ws_saved_map s)))),
             (''config_error'', CJ_String (ws_boot_error s)),
             (''authentication_required'', json_bool (we_ota env))]))
        | _ \<Rightarrow> None)"

definition DASH :: string where "DASH = [CHR 0xE2, CHR 0x80, CHR 0x94]"

text \<open>Allocation 0 is the array; each profile takes five more, the first for its object.\<close>

definition profile_entry :: "(nat \<Rightarrow> bool) \<Rightarrow> nat \<Rightarrow> string \<times> string \<times> string \<times> nat \<Rightarrow> cjson list" where
  "profile_entry alloc i p =
     (let (ident, name, description, count) = p in
      if alloc (1 + 5 * i)
      then [CJ_Object (members alloc (2 + 5 * i) [(''id'', CJ_String ident), (''name'', CJ_String name),
              (''description'', CJ_String description), (''point_count'', json_nat count)])]
      else [])"

definition profile_list :: "web_state \<Rightarrow> (string \<times> string \<times> string \<times> nat) list" where
  "profile_list s =
     [(gateway_profile_id GW_PROFILE_FULL, ''Kohler MPAC 1500 ATS '' @ DASH @ '' full'',
       ''Older Section 13 map: electrical values, status, timers, settings and history. Controller identity checked before reading.'',
       ATS_POINT_COUNT),
      (gateway_profile_id GW_PROFILE_ELECTRICAL, ''Kohler MPAC 1500 ATS '' @ DASH @ '' electrical'',
       ''First 24 status/electrical points from the same verified ATS map, with sensing quality checks retained.'',
       GW_ELECTRICAL_POINT_COUNT),
      (gateway_profile_id GW_PROFILE_CUSTOM, ''Custom CSV point map'',
       ''Read-only FC01/02/03/04 points defined by your device's documented register map. No automatic model detection.'',
       length (cm_defs (ws_saved_map s)))]"

definition profiles_handler :: "http_request \<Rightarrow> web_state \<Rightarrow> esp_err \<times> web_effect list" where
  "profiles_handler rq s =
     json_reply rq ''200 OK''
       (if rq_alloc rq 0
        then Some (CJ_Array (concat (map (\<lambda>i. profile_entry (rq_alloc rq) i (profile_list s ! i)) [0..<3])))
        else None)"

definition status_handler :: "web_env \<Rightarrow> http_request \<Rightarrow> esp_err \<times> web_effect list" where
  "status_handler env rq = json_reply rq ''200 OK'' (we_status env)"

definition points_handler :: "web_env \<Rightarrow> http_request \<Rightarrow> esp_err \<times> web_effect list" where
  "points_handler env rq = json_reply rq ''200 OK'' (we_points env)"

definition errors_handler :: "web_env \<Rightarrow> http_request \<Rightarrow> esp_err \<times> web_effect list" where
  "errors_handler env rq = json_reply rq ''200 OK'' (we_errors env)"

definition csv_handler :: "web_env \<Rightarrow> http_request \<Rightarrow> web_state \<Rightarrow> esp_err \<times> web_effect list" where
  "csv_handler env rq s =
     (let example = (rq_uri rq = ''/api/template.csv'') in
      (rq_send rq, [Web_replied \<lparr>rp_status = ''200 OK'', rp_type = ''text/csv; charset=utf-8'',
         rp_headers = [(''Cache-Control'', ''no-store''),
           (''Content-Disposition'', if example then ''attachment; filename=example-points.csv'' else ''attachment; filename=points.csv'')],
         rp_body = (if example then butlast (we_template env) else gc_csv (ws_active s))\<rparr>]))"

subsection \<open>The body of a change\<close>

text \<open>The loop that receives the body: \<open>None\<close> when the connection ends early, else how much was received and
  the bytes stored.\<close>

function body_loop :: "http_request \<Rightarrow> int \<Rightarrow> nat \<Rightarrow> nat \<Rightarrow> string \<Rightarrow> (nat \<times> string) option" where
  "body_loop rq deadline k used body =
     (if used < rq_content_len rq \<and> rq_clock rq (Suc k) < deadline
      then let (got, bytes) = rq_recv rq k (rq_content_len rq - used) in
        if got \<le> 0 then None
        else body_loop rq deadline (Suc k) (used + nat got) (body @ take (nat got) bytes)
      else Some (used, body))"
  by pat_completeness auto
termination
  by (relation "measure (\<lambda>(rq, deadline, k, used, body). rq_content_len rq - used)") auto

declare body_loop.simps [simp del]

text \<open>The body, or the refusal that was sent.\<close>

datatype body = Refusal "web_effect list" | Body string

definition refuse :: "http_request \<Rightarrow> string \<Rightarrow> string \<Rightarrow> body" where
  "refuse rq status message = Refusal (snd (json_error rq status message))"

definition receive_body :: "web_env \<Rightarrow> http_request \<Rightarrow> body" where
  \<comment> \<open>after the authorization\<close>
  "receive_body env rq =
     (if rq_header rq ''X-Gateway-Request'' 64 \<noteq> Some ''1''
      then refuse rq ''403 Forbidden'' ''Use the gateway configuration page''
      else if rq_header rq ''Content-Type'' 64 \<noteq> Some ''application/json'' \<and>
              rq_header rq ''Content-Type'' 64 \<noteq> Some ''application/json; charset=utf-8''
      then refuse rq ''415 Unsupported Media Type'' ''Expected application/json''
      else if rq_content_len rq = 0 \<or> rq_content_len rq > GW_CONFIG_MAX_JSON
      then refuse rq ''413 Content Too Large'' ''Configuration body must be 1-98304 bytes''
      else if \<not> we_body env then refuse rq ''500 Internal Server Error'' ''Out of memory''
      else case body_loop rq (rq_clock rq 0 + 10000000) 0 0 [] of
             None \<Rightarrow> refuse rq ''408 Request Timeout'' ''Upload incomplete; saved configuration unchanged''
           | Some (used, body) \<Rightarrow>
               if used \<noteq> rq_content_len rq then refuse rq ''408 Request Timeout'' ''Upload timed out''
               else Body body)"

definition request_body :: "web_env \<Rightarrow> http_request \<Rightarrow> web_state \<Rightarrow> body option" where
  "request_body env rq s =
     (if we_ota env
      then (case gateway_ota_authorize_mutation (we_update env) rq (ws_ota s) of
              None \<Rightarrow> None
            | Some (False, fx) \<Rightarrow> Some (Refusal (map Ota fx))
            | Some (True, _) \<Rightarrow> Some (receive_body env rq))
      else Some (receive_body env rq))"

subsection \<open>Validating a map\<close>

text \<open>The one member of the request, if it is as it must be.\<close>

definition csv_request :: "web_env \<Rightarrow> string \<Rightarrow> string option" where
  "csv_request env body =
     (let (tree, end) = cj_parse (we_json env) body;
          at_end = (case end of None \<Rightarrow> False | Some e \<Rightarrow> dropWhile json_blank (drop e body) = [] \<and> e \<le> length body)
      in case tree of
           Some (CJ_Object items) \<Rightarrow>
             (case cj_get (we_json env) (CJ_Object items) ''csv'' of
                Some (CJ_String csv) \<Rightarrow>
                  if length items \<noteq> 1 \<or> \<not> at_end \<or> gateway_json_has_nul body then None else Some csv
              | _ \<Rightarrow> None)
         | _ \<Rightarrow> None)"

text \<open>Allocation 0 is the object, 1 the array, then two members, then four for each point.\<close>

definition point_entry :: "(nat \<Rightarrow> bool) \<Rightarrow> custom_map \<Rightarrow> nat \<Rightarrow> cjson list" where
  "point_entry alloc m i =
     (let d = cm_defs m ! i; k = 4 + 4 * i in
      if alloc k
      then [CJ_Object (members alloc (k + 1) [(''name'', CJ_String (str_at m (cd_name d))),
              (''object_type'', json_nat (unat (cd_object_type d))), (''instance'', json_nat (unat (cd_instance d)))])]
      else [])"

definition validate_reply :: "(nat \<Rightarrow> bool) \<Rightarrow> custom_map \<Rightarrow> cjson option" where
  "validate_reply alloc m =
     (if alloc 0
      then Some (CJ_Object ((if alloc 1 then [(''points'', CJ_Array (concat (map (point_entry alloc m) [0..<length (cm_defs m)])))] else []) @
             members alloc 2 [(''ok'', CJ_True), (''point_count'', json_nat (length (cm_defs m)))]))
      else None)"

definition validate_handler :: "web_env \<Rightarrow> http_request \<Rightarrow> web_state \<Rightarrow> (esp_err \<times> web_effect list) option" where
  "validate_handler env rq s =
     (case request_body env rq s of
        None \<Rightarrow> None
      | Some (Refusal fx) \<Rightarrow> Some (ESP_FAIL, fx)
      | Some (Body body) \<Rightarrow>
          if \<not> gateway_json_is_flat body then Some (json_error rq ''400 Bad Request'' ''Expected a flat JSON object'')
          else (case csv_request env body of
             None \<Rightarrow> Some (json_error rq ''400 Bad Request'' ''Expected one JSON csv string without NUL'')
           | Some csv \<Rightarrow>
               (case we_map env of
                  None \<Rightarrow> Some (json_error rq ''500 Internal Server Error'' ''Out of memory'')
                | Some self \<Rightarrow>
                    (case custom_map_parse (Some (custom_map_zero self)) (we_rows env) (Some csv) (we_error env) of
                       Some (True, Some m, _) \<Rightarrow> Some (json_reply rq ''200 OK'' (validate_reply (rq_alloc rq) m))
                     | Some (False, _, error) \<Rightarrow> Some (json_error rq ''400 Bad Request'' (cstr error))
                     | _ \<Rightarrow> None))))"

subsection \<open>Saving the settings\<close>

text \<open>The settings to store, or the refusal.\<close>

definition new_settings :: "web_env \<Rightarrow> web_state \<Rightarrow> string \<Rightarrow> ((string \<times> string) + gateway_config) option" where
  "new_settings env s body =
     (case (we_candidate env, we_map env) of
        (Some candidate, Some self) \<Rightarrow>
          (case gateway_config_parse (we_json env) (we_inet_pton env) (we_memory env) (Some body) (Some (ws_active s))
                  (Some candidate) (Some (custom_map_zero self)) (we_error env) of
             Some (False, _, _, error) \<Rightarrow> Some (Inl (''400 Bad Request'', cstr error))
           | Some (True, Some c, _, _) \<Rightarrow>
               Some (if gc_revision c \<noteq> gc_revision (ws_active s)
                     then Inl (''409 Conflict'', ''Configuration changed; reload before saving'')
                     else if gc_revision (ws_active s) = 0xFFFFFFFF
                     then Inl (''409 Conflict'', ''Configuration revision exhausted'')
                     else Inr (c\<lparr>gc_revision := gc_revision c + 1\<rparr>))
           | _ \<Rightarrow> None)
      | _ \<Rightarrow> Some (Inl (''500 Internal Server Error'', ''Out of memory'')))"

text \<open>Writing the text to the storage.\<close>

definition store_blob :: "web_env \<Rightarrow> string \<Rightarrow> esp_err \<times> web_effect list" where
  "store_blob env stored =
     (if we_open env \<noteq> ESP_OK then (we_open env, [])
      else if we_set_blob env \<noteq> ESP_OK then (we_set_blob env, [Blob_set stored])
      else (we_commit env, [Blob_set stored, Blob_committed]))"

definition storage_failed :: string where
  "storage_failed = ''Configuration storage failed; restart to verify saved state before retrying''"

definition save_settings :: "web_env \<Rightarrow> http_request \<Rightarrow> web_state \<Rightarrow> gateway_config \<Rightarrow> esp_err \<times> web_effect list \<times> web_state" where
  "save_settings env rq s c =
     (case (case gateway_config_json (we_json_alloc env) c True of None \<Rightarrow> None | Some j \<Rightarrow> rq_print rq j) of
        None \<Rightarrow> (let (e, fx) = json_error rq ''500 Internal Server Error'' ''Out of memory'' in (e, fx, s))
      | Some stored \<Rightarrow>
          let (e, writes) = store_blob env stored in
          if e \<noteq> ESP_OK then (let (e, fx) = json_error rq ''500 Internal Server Error'' storage_failed in (e, writes @ fx, s))
          else let s = s\<lparr>ws_restart_pending := True,
                         ws_ota := (if we_ota env then gateway_ota_note_restart_pending (ws_ota s) else ws_ota s)\<rparr>;
                   (e, fx) = json_reply rq ''200 OK'' (json_object (rq_alloc rq)
                     [(''ok'', CJ_True), (''restart'', CJ_True), (''revision'', json_nat (unat (gc_revision (ws_active s) + 1)))])
            in (e, writes @ fx @ [if we_timer env = ESP_OK then Restart_timer 1500000 else Aborted], s))"

definition save_handler :: "web_env \<Rightarrow> http_request \<Rightarrow> web_state \<Rightarrow> (esp_err \<times> web_effect list \<times> web_state) option" where
  "save_handler env rq s =
     (case request_body env rq s of
        None \<Rightarrow> None
      | Some (Refusal fx) \<Rightarrow> Some (ESP_FAIL, fx, s)
      | Some (Body body) \<Rightarrow>
          if ws_restart_pending s then (let (e, fx) = json_error rq ''409 Conflict'' ''Restart already scheduled'' in Some (e, fx, s))
          else (case new_settings env s body of
             None \<Rightarrow> None
           | Some (Inl (status, why)) \<Rightarrow> (let (e, fx) = json_error rq status why in Some (e, fx, s))
           | Some (Inr c) \<Rightarrow> Some (save_settings env rq s c)))"

subsection \<open>Routes\<close>

definition web_routes :: "(string \<times> http_method) list" where
  "web_routes = [(''/'', HTTP_GET), (''/api/config'', HTTP_GET), (''/api/profiles'', HTTP_GET), (''/api/status'', HTTP_GET),
     (''/api/points'', HTTP_GET), (''/api/errors'', HTTP_GET), (''/api/map.csv'', HTTP_GET), (''/api/template.csv'', HTTP_GET),
     (''/api/validate'', HTTP_POST), (''/api/config'', HTTP_POST)]"

definition register_web :: "(string \<times> http_method \<Rightarrow> esp_err) \<Rightarrow> esp_err" where
  "register_web register = register_handlers (\<lambda>i. register (web_routes ! i)) [0..<length web_routes]"

text \<open>What a route does; a request for no route is the server's business.\<close>

definition web_request :: "web_env \<Rightarrow> http_request \<Rightarrow> web_state \<Rightarrow> (esp_err \<times> web_effect list \<times> web_state) option" where
  "web_request env rq s =
     (let read = (\<lambda>(e, fx). Some (e, fx, s)) in
      if rq_method rq = HTTP_GET then
        (if rq_uri rq = ''/'' then read (page_handler env rq)
         else if rq_uri rq = ''/api/config'' then read (config_handler env rq s)
         else if rq_uri rq = ''/api/profiles'' then read (profiles_handler rq s)
         else if rq_uri rq = ''/api/status'' then read (status_handler env rq)
         else if rq_uri rq = ''/api/points'' then read (points_handler env rq)
         else if rq_uri rq = ''/api/errors'' then read (errors_handler env rq)
         else if rq_uri rq = ''/api/map.csv'' \<or> rq_uri rq = ''/api/template.csv'' then read (csv_handler env rq s)
         else None)
      else if rq_method rq = HTTP_POST then
        (if rq_uri rq = ''/api/validate'' then (case validate_handler env rq s of None \<Rightarrow> None | Some x \<Rightarrow> read x)
         else if rq_uri rq = ''/api/config'' then save_handler env rq s
         else None)
      else None)"

end
