(* ===== verification/Web_Safety.thy ===== *)
theory Web_Safety
  imports Gateway_Web Ota_Safety
begin

section \<open>What the web interface guarantees\<close>

text \<open>
  Stored settings load again at any later start, given a printer that does what is asked of it (\<open>print_ok\<close>); and
  what a request must be to change anything. The last section is a concrete save of the settings by an administrator.
\<close>

subsection \<open>The characters of an accepted map\<close>

definition csv_char :: "char \<Rightarrow> bool" where
  "csv_char c \<longleftrightarrow> printable c \<or> c = CR \<or> c = LF"

lemma row_text_chars: "row_text fs t \<Longrightarrow> list_all csv_char t"
proof (induction fs t rule: row_text.induct)
  case (2 f t)
  have "list_all printable f \<Longrightarrow> list_all printable (escape f)" by (induction f) simp_all
  then have "list_all printable t" using 2 by (auto simp: field_text_def field_ok_def)
  then show ?case by (auto simp: list_all_iff csv_char_def)
next
  case (3 f g fs t)
  then obtain t1 t2 where t: "t = t1 @ CHR '','' # t2" "field_text f t1" "row_text (g # fs) t2" by auto
  have "list_all printable f \<Longrightarrow> list_all printable (escape f)" by (induction f) simp_all
  then have "list_all printable t1" using t(2) by (auto simp: field_text_def field_ok_def)
  then show ?case using 3 t by (auto simp: list_all_iff csv_char_def)
qed simp

lemma read_row_chars:
  assumes "read_row csv pos = Some (Some (row, p))" "pos \<le> length csv"
  shows "\<exists>t. drop pos csv = t @ drop p csv \<and> list_all csv_char t"
proof -
  obtain t e where t: "row_text row t" "row_end e (drop p csv)" "drop pos csv = t @ e @ drop p csv"
    using read_fields_sound [of "FIELD_COUNT - 1" csv pos row p] assms by (auto simp: read_row_def FIELD_COUNT_def)
  have "list_all csv_char e" using t(2) by (auto simp: row_end_def csv_char_def)
  then show ?thesis using t row_text_chars [OF t(1)] by (intro exI [of _ "t @ e"]) simp
qed

lemma parse_rows_chars:
  "parse_rows m csv pos line = Some (Inr (n, m')) \<Longrightarrow> pos \<le> length csv \<Longrightarrow> list_all csv_char (drop pos csv)"
proof (induction m csv pos line rule: parse_rows.induct)
  case (1 m csv pos line)
  show ?case
  proof (cases "pos < length csv")
    case True
    obtain row p m1 where r: "read_row csv pos = Some (Some (row, p))" "add_row m row = Inr m1"
      "parse_rows m1 csv p (line + 1) = Some (Inr (n, m'))"
      using 1(2) True by (subst (asm) parse_rows.simps) (auto split: option.splits sum.splits)
    have "p \<le> length csv" using read_row_progress [OF r(1)] 1(3) by simp
    then have "list_all csv_char (drop p csv)" using 1(1) [OF True r(1) refl refl r(2)] r(3) by simp
    then show ?thesis using read_row_chars [OF r(1) 1(3)] by auto
  qed simp
qed

lemma parse_scratch_chars:
  assumes "parse_scratch self scratch csv = Some (Inr m)"
  shows "list_all csv_char csv"
proof -
  obtain object row p line m1 where p: "read_row csv 0 = Some (Some (row, p))"
    "parse_rows (custom_map_zero object) csv p 1 = Some (Inr (line, m1))"
    using assms by (auto simp: parse_scratch_def split: option.splits if_splits sum.splits)
  have d: "list_all csv_char (drop p csv)" using parse_rows_chars [OF p(2)] read_row_progress [OF p(1)] by simp
  obtain t where "drop 0 csv = t @ drop p csv" "list_all csv_char t" using read_row_chars [OF p(1)] by blast
  then show ?thesis using d by (metis drop0 list_all_append)
qed

subsection \<open>The printer\<close>

text \<open>What is asked of \<open>cJSON_PrintUnformatted\<close> and the parser for the values that are stored: integers that a double
  holds, and strings of printable characters and line ends. The text parses back to the same object, has no
  nested brackets and no NUL, and no character of a string takes more than two.\<close>

definition plain_value :: "cjson \<Rightarrow> bool" where
  "plain_value v \<longleftrightarrow> (\<exists>x. v = CJ_String x \<and> list_all csv_char x) \<or> (\<exists>k. v = CJ_Number (Fin (of_int k)) \<and> \<bar>k\<bar> < 2 ^ 53)"

fun value_size :: "cjson \<Rightarrow> nat" where
  "value_size (CJ_String x) = 2 * length x + 2"
| "value_size _ = 26"

definition print_ok :: "cjson_lib \<Rightarrow> (cjson \<Rightarrow> string option) \<Rightarrow> bool" where
  "print_ok lib print \<longleftrightarrow> (\<forall>items s. print (CJ_Object items) = Some s \<and> list_all (\<lambda>(k, v). plain_value v) items \<longrightarrow>
     s \<noteq> [] \<and> cj_parse lib s = (Some (CJ_Object items), Some (length s)) \<and>
     \<not> gateway_json_has_nul s \<and> gateway_json_is_flat s \<and>
     length s \<le> 2 + sum_list (map (\<lambda>(k, v). length k + 4 + value_size v) items))"

lemma printable_chars: "printable_text s \<Longrightarrow> list_all csv_char s"
  by (auto simp: printable_text_def list_all_iff csv_char_def printable_def)

lemma config_items_plain:
  assumes "config_ok inet_pton c" "list_all csv_char (gc_csv c)"
  shows "list_all (\<lambda>(k, v). plain_value v) (config_items c True)"
    "2 + sum_list (map (\<lambda>(k, v). length k + 4 + value_size v) (config_items c True)) \<le> GW_CONFIG_MAX_JSON"
proof -
  have num: "plain_value (CJ_Number (Fin (of_int (uint w))))" if "uint w < 2 ^ 53" for w :: "'a::len word"
    using that by (auto simp: plain_value_def intro!: exI [of _ "uint w"])
  have u: "uint (w8 :: u8) < 2 ^ 53" "uint (w16 :: u16) < 2 ^ 53" "uint (w32 :: u32) < 2 ^ 53" for w8 w16 w32
    using uint_lt2p [of w8] uint_lt2p [of w16] uint_lt2p [of w32] by simp_all
  have p: "plain_value (CJ_String (gateway_profile_id (gc_profile c)))"
    by (cases "gc_profile c") (simp_all add: plain_value_def csv_char_def printable_def)
  have s: "plain_value (CJ_String (gc_modbus_host c))" "plain_value (CJ_String (gc_device_name c))" "plain_value (CJ_String (gc_csv c))"
    using assms printable_chars by (auto simp: plain_value_def config_ok_def)
  show "list_all (\<lambda>(k, v). plain_value v) (config_items c True)"
    using p s num [OF u(1)] num [OF u(2)] num [OF u(3)] by (simp add: config_items_def small_int)
  have "length (gateway_profile_id (gc_profile c)) \<le> 19" by (cases "gc_profile c") simp_all
  moreover have "length (gc_modbus_host c) < 16" "length (gc_device_name c) < 96" "length (gc_csv c) \<le> 32768"
    using assms(1) by (simp_all add: config_ok_def CUSTOM_MAX_CSV_BYTES_def)
  ultimately show "2 + sum_list (map (\<lambda>(k, v). length k + 4 + value_size v) (config_items c True)) \<le> GW_CONFIG_MAX_JSON"
    by (simp add: config_items_def GW_CONFIG_MAX_JSON_def small_int)
qed

subsection \<open>Parsing stored settings\<close>

definition memory_ok :: "config_memory \<Rightarrow> bool" where
  "memory_ok mem \<longleftrightarrow> mem_candidate mem \<and> mem_scratch mem \<noteq> None \<and> mem_scratch_rows mem \<noteq> None \<and> mem_final_rows mem \<noteq> None"

definition loadable :: "(string \<Rightarrow> u32 option) \<Rightarrow> gateway_config \<Rightarrow> bool" where
  \<comment> \<open>settings that the parser has accepted\<close>
  "loadable inet_pton c \<longleftrightarrow> config_ok inet_pton c \<and> check_presets c \<and>
     (gc_csv c \<noteq> [] \<longrightarrow> (\<exists>s a m. parse_scratch s (Some a) (gc_csv c) = Some (Inr m) \<and> gc_device_name c \<notin> point_names m))"

lemma accepted_loadable:
  assumes "gateway_config_parse lib inet_pton mem json (Some b) out target buf = Some (True, Some c, target', buf')"
    "length (gc_csv b) \<le> CUSTOM_MAX_CSV_BYTES"
  shows "loadable inet_pton c"
proof -
  obtain items m where p: "read_fields_of lib inet_pton (CJ_Object items) b = Inr c" "finish_parse mem c out m buf = Some (True, Some c, target', buf')"
    using parse_accepts [OF assms(1)] finish_parse_True by (metis option.inject)
  have f: "check_presets c" "\<exists>b. check_csv mem c buf = Some (Checked b)"
    using finish_parse_True [OF p(2)] p(2) by (auto simp: finish_parse_def split: option.splits map_check.splits if_splits)
  show ?thesis using read_fields_ok [OF p(1) assms(2)] f check_csv_Checked by (fastforce simp: loadable_def)
qed

lemma loadable_revision: "loadable inet_pton c \<Longrightarrow> r \<noteq> 0 \<Longrightarrow> loadable inet_pton (c\<lparr>gc_revision := r\<rparr>)"
  by (simp add: loadable_def config_ok_def check_presets_def)

lemma finish_parse_loads:
  assumes "loadable inet_pton c" "memory_ok mem"
  shows "\<exists>m' buf'. finish_parse mem c out m buf = Some (True, Some c, Some m', buf') \<and> map_from c m m' \<and>
    length buf' = length buf \<and> (buf \<noteq> [] \<longrightarrow> hd buf' = NUL)"
proof (cases "gc_csv c = []")
  case True
  then show ?thesis using assms(1)
    by (cases buf) (auto simp: finish_parse_def check_csv_def loadable_def map_from_def custom_map_zero_def point_names_def)
next
  case False
  obtain object rows final where mem: "mem_scratch mem = Some object" "mem_scratch_rows mem = Some rows" "mem_final_rows mem = Some final"
    using assms(2) by (auto simp: memory_ok_def)
  obtain s a m0 where m0: "parse_scratch s (Some a) (gc_csv c) = Some (Inr m0)" "gc_device_name c \<notin> point_names m0"
    using assms(1) False by (auto simp: loadable_def)
  have len: "length (gc_csv c) \<le> CUSTOM_MAX_CSV_BYTES" using assms(1) by (simp add: loadable_def config_ok_def)
  let ?b = "if buf = [] then [] else buf[0 := NUL]"
  have parse: "custom_map_parse (Some x) (Some r) (Some (gc_csv c)) b = Some (True, Some (rebase (cm_self x) m0), if b = [] then [] else b[0 := NUL])"
    for x r b
    using parse_scratch_identity [OF m0(1), of "cm_self x" r] False len by (simp add: custom_map_parse_def Let_def)
  have "\<not> list_ex (\<lambda>d. str_at (rebase v m0) (cd_name d) = gc_device_name c) (cm_defs (rebase v m0))" for v
  proof
    assume "list_ex (\<lambda>d. str_at (rebase v m0) (cd_name d) = gc_device_name c) (cm_defs (rebase v m0))"
    then have "gc_device_name c \<in> point_names (rebase v m0)" by (force simp: point_names_def list_ex_iff)
    then show False using m0(2) point_names_rebase [of v m0] by simp
  qed
  then have "check_csv mem c buf = Some (Checked ?b)"
    using False by (simp add: check_csv_def mem parse)
  then have "finish_parse mem c out m buf = Some (True, Some c, Some (rebase (cm_self m) m0),
      if ?b = [] then [] else (if ?b = [] then [] else ?b[0 := NUL])[0 := NUL])"
    using assms(1) False by (simp add: finish_parse_def loadable_def mem parse)
  moreover have s: "parse_scratch (cm_self m) (Some final) (gc_csv c) = Some (Inr (rebase (cm_self m) m0))"
    by (rule parse_scratch_identity [OF m0(1)])
  have "map_from c m (rebase (cm_self m) m0)"
    unfolding map_from_def point_names_rebase using parse_scratch_ok [OF s] s m0(2) False by auto
  ultimately show ?thesis by (cases buf) simp_all
qed

text \<open>What is printed of accepted settings is accepted again, by any later start.\<close>

lemma stored_loads:
  assumes "lib_ok lib" "print_ok lib print" "loadable inet_pton c" "memory_ok mem"
    "gateway_config_json alloc c True = Some j" "print j = Some stored"
  shows "\<exists>m' buf'. gateway_config_parse lib inet_pton mem (Some stored) (Some b) (Some old) (Some m) buf =
      Some (True, Some c, Some m', buf') \<and> map_from c m m' \<and> length buf' = length buf \<and> (buf \<noteq> [] \<longrightarrow> hd buf' = NUL)"
    "stored \<noteq> [] \<and> length stored \<le> GW_CONFIG_MAX_JSON"
proof -
  have j: "j = CJ_Object (config_items c True)"
    using assms(5) by (auto simp: gateway_config_json_def Let_def split: if_splits)
  have c: "config_ok inet_pton c" using assms(3) by (simp add: loadable_def)
  have "list_all csv_char (gc_csv c)"
    using assms(3) parse_scratch_chars by (cases "gc_csv c = []") (auto simp: loadable_def)
  note plain = config_items_plain [OF c this]
  have s: "stored \<noteq> []" "cj_parse lib stored = (Some j, Some (length stored))" "\<not> gateway_json_has_nul stored" "gateway_json_is_flat stored"
    "length stored \<le> GW_CONFIG_MAX_JSON"
    using assms(2,6) plain unfolding print_ok_def j by (auto intro: le_trans)
  show "stored \<noteq> [] \<and> length stored \<le> GW_CONFIG_MAX_JSON" using s by blast
  have "NUL \<notin> set stored" using s(3) by (simp add: gateway_json_has_nul_def)
  then show "\<exists>m' buf'. gateway_config_parse lib inet_pton mem (Some stored) (Some b) (Some old) (Some m) buf =
      Some (True, Some c, Some m', buf') \<and> map_from c m m' \<and> length buf' = length buf \<and> (buf \<noteq> [] \<longrightarrow> hd buf' = NUL)"
    using finish_parse_loads [OF assms(3,4), of "Some old" m buf] s read_written [OF assms(1) c, of b] assms(4)
    by (simp add: gateway_config_parse_def Let_def j written_keys memory_ok_def)
qed

subsection \<open>Saving\<close>

lemma new_settings_Inr:
  assumes "new_settings env s body = Some (Inr c)"
  shows "\<exists>candidate self c0 target buf. we_map env = Some self \<and>
    gateway_config_parse (we_json env) (we_inet_pton env) (we_memory env) (Some body) (Some (ws_active s))
      (Some candidate) (Some (custom_map_zero self)) (we_error env) = Some (True, Some c0, target, buf) \<and>
    gc_revision c0 = gc_revision (ws_active s) \<and> gc_revision (ws_active s) \<noteq> 0xFFFFFFFF \<and>
    c = c0\<lparr>gc_revision := gc_revision (ws_active s) + 1\<rparr>"
  using assms by (fastforce simp: new_settings_def split: option.splits bool.splits if_splits)

lemma store_blob_writes: "store_blob env stored = (e, fx) \<Longrightarrow> Blob_set x \<in> set fx \<Longrightarrow> x = stored"
  by (auto simp: store_blob_def split: if_splits)

lemma save_settings_writes:
  assumes "save_settings env rq s c = (e, fx, s')" "Blob_set x \<in> set fx"
  shows "\<exists>j. gateway_config_json (we_json_alloc env) c True = Some j \<and> rq_print rq j = Some x"
  using assms store_blob_writes
  by (fastforce simp: save_settings_def json_error_def json_reply_def Let_def split: option.splits if_splits prod.splits)

lemma save_handler_writes:
  assumes "save_handler env rq s = Some (e, fx, s')" "Blob_set x \<in> set fx"
  shows "\<exists>body c. request_body env rq s = Some (Body body) \<and> \<not> ws_restart_pending s \<and>
    new_settings env s body = Some (Inr c) \<and> save_settings env rq s c = (e, fx, s')"
proof -
  have refusal: "Blob_set x \<notin> set fx'" if "request_body env rq s = Some (Refusal fx')" for fx'
    using that by (auto simp: request_body_def receive_body_def refuse_def json_error_def json_reply_def split: if_splits option.splits bool.splits prod.splits)
  show ?thesis using assms refusal
    by (auto simp: save_handler_def json_error_def json_reply_def split: option.splits body.splits if_splits sum.splits prod.splits)
qed


subsection \<open>What a change takes\<close>

definition changing :: "web_effect \<Rightarrow> bool" where
  "changing fx \<longleftrightarrow> (\<exists>x. fx = Blob_set x) \<or> fx = Blob_committed \<or> (\<exists>n. fx = Restart_timer n) \<or> fx = Aborted"

definition json_type :: "string option \<Rightarrow> bool" where
  "json_type h \<longleftrightarrow> h = Some ''application/json'' \<or> h = Some ''application/json; charset=utf-8''"

lemma only_replies:
  "json_reply rq status j = (e, fx) \<Longrightarrow> x \<in> set fx \<Longrightarrow> \<not> changing x"
  "json_error rq status message = (e, fx) \<Longrightarrow> x \<in> set fx \<Longrightarrow> \<not> changing x"
  by (auto simp: json_reply_def json_error_def changing_def split: prod.splits)

lemma request_body_Body:
  assumes "request_body env rq s = Some (Body body)"
  shows "rq_header rq ''X-Gateway-Request'' 64 = Some ''1'' \<and> json_type (rq_header rq ''Content-Type'' 64) \<and>
    0 < rq_content_len rq \<and> rq_content_len rq \<le> GW_CONFIG_MAX_JSON \<and>
    (we_ota env \<longrightarrow> gateway_ota_authorize_mutation (we_update env) rq (ws_ota s) = Some (True, []))"
proof -
  have r: "receive_body env rq = Body body"
    using assms by (auto simp: request_body_def split: if_splits option.splits bool.splits prod.splits)
  have "we_ota env \<longrightarrow> gateway_ota_authorize_mutation (we_update env) rq (ws_ota s) = Some (True, [])"
  proof
    assume "we_ota env"
    then obtain fx where "gateway_ota_authorize_mutation (we_update env) rq (ws_ota s) = Some (True, fx)"
      using assms by (auto simp: request_body_def split: option.splits bool.splits)
    then show "gateway_ota_authorize_mutation (we_update env) rq (ws_ota s) = Some (True, [])" by (simp add: authorized_iff)
  qed
  then show ?thesis using r
    by (auto simp: receive_body_def refuse_def json_type_def split: if_splits option.splits prod.splits)
qed

lemma request_body_Refusal:
  "request_body env rq s = Some (Refusal fx) \<Longrightarrow> x \<in> set fx \<Longrightarrow> \<not> changing x"
  by (auto simp: request_body_def receive_body_def refuse_def json_error_def json_reply_def changing_def
      split: if_splits option.splits bool.splits prod.splits)

lemma save_handler_changes:
  assumes "save_handler env rq s = Some (e, fx, s')" "s' \<noteq> s \<or> list_ex changing fx"
  shows "\<exists>body c. request_body env rq s = Some (Body body) \<and> \<not> ws_restart_pending s \<and>
    new_settings env s body = Some (Inr c) \<and> save_settings env rq s c = (e, fx, s')"
  using assms request_body_Refusal only_replies
  by (fastforce simp: save_handler_def list_ex_iff split: option.splits body.splits if_splits sum.splits prod.splits)

lemma validate_handler_reads: "validate_handler env rq s = Some (e, fx) \<Longrightarrow> \<not> list_ex changing fx"
  using request_body_Refusal only_replies
  by (fastforce simp: validate_handler_def list_ex_iff split: option.splits body.splits if_splits prod.splits bool.splits)

lemma read_handlers:
  "page_handler env rq = (e, fx) \<Longrightarrow> \<not> list_ex changing fx" "config_handler env rq s = (e, fx) \<Longrightarrow> \<not> list_ex changing fx"
  "profiles_handler rq s = (e, fx) \<Longrightarrow> \<not> list_ex changing fx" "status_handler env rq = (e, fx) \<Longrightarrow> \<not> list_ex changing fx"
  "points_handler env rq = (e, fx) \<Longrightarrow> \<not> list_ex changing fx" "errors_handler env rq = (e, fx) \<Longrightarrow> \<not> list_ex changing fx"
  "csv_handler env rq s = (e, fx) \<Longrightarrow> \<not> list_ex changing fx"
  by (auto simp: page_handler_def config_handler_def profiles_handler_def status_handler_def points_handler_def
      errors_handler_def csv_handler_def json_reply_def changing_def Let_def split: prod.splits)

lemma web_request_changes:
  assumes "web_request env rq s = Some (e, fx, s')" "s' \<noteq> s \<or> list_ex changing fx"
  shows "rq_method rq = HTTP_POST \<and> rq_uri rq = ''/api/config'' \<and> save_handler env rq s = Some (e, fx, s')"
proof (cases "rq_method rq")
  case HTTP_GET
  then show ?thesis using assms
    by (auto simp: web_request_def Let_def case_prod_beta read_handlers [OF prod.collapse [symmetric]] split: if_splits)
next
  case HTTP_POST
  then show ?thesis using assms validate_handler_reads [of env rq s]
    by (auto simp: web_request_def Let_def split: if_splits option.splits prod.splits)
qed (use assms in \<open>simp_all add: web_request_def\<close>)

lemma save_settings_state:
  assumes "save_settings env rq s c = (e, fx, s')"
  shows "ws_active s' = ws_active s" "ws_saved_map s' = ws_saved_map s"
    "s' \<noteq> s \<Longrightarrow> \<exists>x. Blob_set x \<in> set fx \<and> Blob_committed \<in> set fx"
  using assms by (auto simp: save_settings_def store_blob_def Let_def split: option.splits if_splits prod.splits)

text \<open>
  C6 (web_change_guarded): a request changes something (the state of the server, the stored settings, a restart)
  only if it is a POST of the settings with the custom header that a foreign page cannot send and with JSON content,
  sent by an administrator to validated firmware where the build has updates, while no restart is pending; and only if its body was accepted
  as settings that carry the current revision. What it stores is the text of these settings with the next revision,
  and the settings in use stay as they are until the restart.
\<close>

theorem web_change_guarded:
  assumes "web_request env rq s = Some (e, fx, s')" "s' \<noteq> s \<or> list_ex changing fx"
  shows "rq_method rq = HTTP_POST \<and> rq_uri rq = ''/api/config'' \<and> rq_header rq ''X-Gateway-Request'' 64 = Some ''1'' \<and>
    json_type (rq_header rq ''Content-Type'' 64) \<and> \<not> ws_restart_pending s \<and>
    (we_ota env \<longrightarrow> request_role rq (ws_ota s) = Some OTA_ROLE_ADMIN \<and> oe_state (we_update env) = (ESP_OK, ESP_OTA_IMG_VALID) \<and>
       \<not> os_upload_busy (ws_ota s) \<and> \<not> os_restart_pending (ws_ota s)) \<and>
    (\<exists>body c. request_body env rq s = Some (Body body) \<and> new_settings env s body = Some (Inr c) \<and>
       gc_revision c = gc_revision (ws_active s) + 1 \<and>
       (\<forall>x. Blob_set x \<in> set fx \<longrightarrow> rq_print rq (CJ_Object (config_items c True)) = Some x)) \<and>
    ws_active s' = ws_active s \<and> ws_saved_map s' = ws_saved_map s \<and> (s' \<noteq> s \<longrightarrow> Blob_committed \<in> set fx)"
proof -
  have w: "rq_method rq = HTTP_POST" "rq_uri rq = ''/api/config''" "save_handler env rq s = Some (e, fx, s')"
    using web_request_changes [OF assms] by blast+
  obtain body c where c: "request_body env rq s = Some (Body body)" "\<not> ws_restart_pending s"
    "new_settings env s body = Some (Inr c)" "save_settings env rq s c = (e, fx, s')"
    using save_handler_changes [OF w(3) assms(2)] by blast
  have "rq_print rq (CJ_Object (config_items c True)) = Some x" if "Blob_set x \<in> set fx" for x
    using save_settings_writes [OF c(4) that] by (auto simp: gateway_config_json_def Let_def split: if_splits)
  then show ?thesis
    using w c request_body_Body [OF c(1)] save_settings_state [OF c(4)] new_settings_Inr [OF c(3)] by (auto simp: authorized_iff)
qed

section \<open>A concrete change\<close>

text \<open>The default settings are active; the text ''{}'' stands for them and the text ''{ }'' for them with revision 2.\<close>

definition demo_next :: gateway_config where "demo_next = gateway_config_defaults\<lparr>gc_revision := 2\<rparr>"

definition web_tree :: "gateway_config \<Rightarrow> cjson" where "web_tree c = CJ_Object (config_items c True)"

definition web_lib :: cjson_lib where
  "web_lib = \<lparr>cj_parse = \<lambda>s. (Some (web_tree (if s = ''{ }'' then demo_next else gateway_config_defaults)), Some (length s)),
     cj_get = cj_get demo_lib\<rparr>"

definition web_print :: "cjson \<Rightarrow> string option" where
  "web_print j = (if j = web_tree demo_next then Some ''{ }'' else if j = web_tree gateway_config_defaults then Some ''{}'' else None)"

definition full_memory :: config_memory where
  "full_memory = \<lparr>mem_candidate = True, mem_scratch = Some 1, mem_scratch_rows = Some 2, mem_final_rows = Some 3\<rparr>"

definition web_header :: "string \<Rightarrow> string" where
  "web_header key = (if key = ''X-Gateway-Request'' then ''1'' else if key = ''Content-Type'' then ''application/json'' else demo_header key)"

definition demo_save :: http_request where
  "demo_save = \<lparr>rq_method = HTTP_POST, rq_uri = ''/api/config'', rq_content_len = 2, rq_header_len = (\<lambda>k. length (web_header k)),
     rq_header = (\<lambda>k n. Some (web_header k)), rq_recv = (\<lambda>k room. (int room, ''{}'')), rq_clock = (\<lambda>_. 0),
     rq_alloc = (\<lambda>_. True), rq_print = web_print, rq_send = ESP_OK, rq_send_error = ESP_OK\<rparr>"

definition demo_web_env :: web_env where
  "demo_web_env = \<lparr>we_ota = True, we_update = demo_ota_env ESP_OK, we_index = [], we_template = [], we_status = None, we_points = None,
     we_errors = None, we_json = web_lib, we_inet_pton = (\<lambda>_. Some 0xC0000251), we_memory = full_memory, we_body = True,
     we_candidate = Some gateway_config_defaults, we_map = Some 7, we_rows = Some 8, we_error = replicate 160 NUL,
     we_json_alloc = (\<lambda>_. True), we_open = ESP_OK, we_set_blob = ESP_OK, we_commit = ESP_OK, we_timer = ESP_OK\<rparr>"

definition demo_web :: web_state where
  "demo_web = \<lparr>ws_active = gateway_config_defaults, ws_saved_map = custom_map_zero 5, ws_boot_error = [], ws_restart_pending = False,
     ws_ota = demo_ota\<rparr>"

definition demo_boot :: web_boot where
  "demo_boot = \<lparr>wb_storage = demo_device, wb_init = ESP_OK, wb_open = ESP_OK, wb_size = (ESP_OK, 3), wb_malloc = True,
     wb_read = (ESP_OK, ''{ }''), wb_names = (\<lambda>_. [])\<rparr>"

lemma web_lib_ok: "lib_ok web_lib"
  using demo_lib_ok by (simp add: lib_ok_def web_lib_def)

lemma web_trees: "web_tree demo_next \<noteq> web_tree gateway_config_defaults"
proof -
  have "dbl_of_int 2 = Fin 2" "dbl_of_int 1 = Fin 1" by (simp_all add: dbl_of_int_exact [of 2] dbl_of_int_exact [of 1])
  then show ?thesis by (simp add: web_tree_def config_items_def demo_next_def gateway_config_defaults_def)
qed

lemma web_print_ok: "print_ok web_lib web_print"
  unfolding print_ok_def
proof (intro allI impI, elim conjE)
  fix items s
  assume "web_print (CJ_Object items) = Some s"
  then have s: "s = ''{ }'' \<and> CJ_Object items = web_tree demo_next \<or> s = ''{}'' \<and> CJ_Object items = web_tree gateway_config_defaults"
    by (auto simp: web_print_def split: if_splits)
  then have p: "cj_parse web_lib s = (Some (CJ_Object items), Some (length s))" by (auto simp: web_lib_def)
  have "items \<noteq> []" using s by (auto simp: web_tree_def config_items_def)
  then have "4 \<le> sum_list (map (\<lambda>(k, v). length k + 4 + value_size v) items)" by (cases items) auto
  then show "s \<noteq> [] \<and> cj_parse web_lib s = (Some (CJ_Object items), Some (length s)) \<and> \<not> gateway_json_has_nul s \<and>
      gateway_json_is_flat s \<and> length s \<le> 2 + sum_list (map (\<lambda>(k, v). length k + 4 + value_size v) items)"
    using s p by (auto simp: gateway_json_has_nul_def gateway_json_is_flat_def opens_def closes_def BACKSLASH_def QUOTE_def NUL_def)
qed

lemma full_memory_ok: "memory_ok full_memory"
  by (simp add: memory_ok_def full_memory_def)

lemma demo_web_authorized: "gateway_ota_authorize_mutation (demo_ota_env ESP_OK) demo_save demo_ota = Some (True, [])"
proof -
  have "rq_header_len demo_save ''Authorization'' = rq_header_len demo_upload ''Authorization''"
    "rq_header demo_save ''Authorization'' = rq_header demo_upload ''Authorization''"
    by (simp_all add: demo_save_def demo_upload_def web_header_def fun_eq_iff)
  then have "request_role demo_save demo_ota = request_role demo_upload demo_ota" unfolding request_role_def by (simp only:)
  then show ?thesis using demo_authorized by (simp add: authorized_iff)
qed

lemma demo_body: "request_body demo_web_env demo_save demo_web = Some (Body ''{}'')"
proof -
  have l: "body_loop demo_save 10000000 0 0 [] = Some (2, ''{}'')" by (simp add: body_loop.simps demo_save_def)
  have r: "receive_body demo_web_env demo_save = Body ''{}''"
    by (simp add: receive_body_def l [simplified] demo_save_def [THEN arg_cong [of _ _ rq_header]]
        demo_save_def [THEN arg_cong [of _ _ rq_content_len]] demo_save_def [THEN arg_cong [of _ _ rq_clock]] web_header_def
        demo_web_env_def GW_CONFIG_MAX_JSON_def)
  show ?thesis using demo_web_authorized r by (simp add: request_body_def demo_web_env_def demo_web_def)
qed

lemma demo_settings: "new_settings demo_web_env demo_web ''{}'' = Some (Inr demo_next)"
proof -
  have ld: "loadable (\<lambda>_. Some 0xC0000251) gateway_config_defaults"
    using defaults_ok defaults_preset by (simp add: loadable_def) (simp add: gateway_config_defaults_def)
  have j: "gateway_config_json (\<lambda>_. True) gateway_config_defaults True = Some (web_tree gateway_config_defaults)"
    by (simp add: gateway_config_json_def web_tree_def Let_def list_all_iff)
  have "web_print (web_tree gateway_config_defaults) = Some ''{}''" using web_trees by (simp add: web_print_def)
  from stored_loads(1) [OF web_lib_ok web_print_ok ld full_memory_ok j this, where b = gateway_config_defaults and
      old = gateway_config_defaults and m = "custom_map_zero 7" and buf = "replicate 160 NUL"]
  show ?thesis by (auto simp: new_settings_def demo_web_env_def demo_web_def demo_next_def gateway_config_defaults_def)
qed

lemma demo_saved:
  "\<exists>e fx s'. web_request demo_web_env demo_save demo_web = Some (e, fx, s') \<and> save_handler demo_web_env demo_save demo_web = Some (e, fx, s') \<and>
     Blob_set ''{ }'' \<in> set fx"
proof -
  have j: "gateway_config_json (\<lambda>_. True) demo_next True = Some (web_tree demo_next)"
    by (simp add: gateway_config_json_def web_tree_def Let_def list_all_iff)
  have p: "rq_print demo_save (web_tree demo_next) = Some ''{ }''" by (simp add: demo_save_def web_print_def)
  obtain e fx s' where s: "save_settings demo_web_env demo_save demo_web demo_next = (e, fx, s')" by (rule prod_cases3)
  then have b: "Blob_set ''{ }'' \<in> set fx"
    by (auto simp: save_settings_def demo_web_env_def j p store_blob_def Let_def split: prod.splits)
  have h: "save_handler demo_web_env demo_save demo_web = Some (e, fx, s')"
    using s by (simp add: save_handler_def demo_body demo_settings) (simp add: demo_web_def)
  have "rq_method demo_save = HTTP_POST" "rq_uri demo_save = ''/api/config''" by (simp_all add: demo_save_def)
  then show ?thesis using h b by (simp add: web_request_def Let_def)
qed


theorem web_change_guarded_witness:
  "\<exists>e fx s'. web_request demo_web_env demo_save demo_web = Some (e, fx, s') \<and> Blob_set ''{ }'' \<in> set fx \<and>
     request_role demo_save demo_ota = Some OTA_ROLE_ADMIN \<and> ws_active s' = gateway_config_defaults"
proof -
  obtain e fx s' where h: "web_request demo_web_env demo_save demo_web = Some (e, fx, s')" "Blob_set ''{ }'' \<in> set fx"
    using demo_saved by blast
  have "s' \<noteq> demo_web \<or> list_ex changing fx" using h(2) by (force simp: list_ex_iff changing_def)
  from web_change_guarded [OF h(1) this] h show ?thesis by (auto simp: demo_web_def demo_web_env_def)
qed

end
