(* ===== verification/Dashboard_Redirect.thy ===== *)
theory Dashboard_Redirect
  imports Http_Server C_Format
begin

section \<open>The plain HTTP port (main/dashboard_redirect.c)\<close>

text \<open>
  Port 80 answers with a redirect to the HTTPS console. The answers of the HTTP server, of \<open>getsockname\<close> and of
  \<open>inet_ntop\<close> are parameters, and the calls that build the reply are a list of effects. The last part shows what
  a redirect can say.
\<close>

subsection \<open>Data\<close>

datatype address_family = AF_INET | AF_INET6 | AF_other nat

text \<open>What \<open>getsockname\<close> writes: the family, the length, and the address octets of either kind of name.\<close>

record local_name =
  ln_family :: address_family
  ln_length :: nat
  ln_ipv4 :: "u8 list"
  ln_ipv6 :: "u8 list"

definition SOCKADDR_IN_BYTES :: nat where "SOCKADDR_IN_BYTES = 16"
definition SOCKADDR_IN6_BYTES :: nat where "SOCKADDR_IN6_BYTES = 28"
definition LOCATION_BYTES :: nat where "LOCATION_BYTES = 96"

text \<open>A request: \<open>dr_host\<close> is the header of that name, which the code must not use.\<close>

record redirect_request =
  dr_method :: http_method
  dr_uri :: string
  dr_host :: "string option"
  dr_content_len :: nat
  dr_local :: "local_name option"              \<comment> \<open>\<open>getsockname\<close> of the request's socket\<close>
  dr_status :: esp_err                         \<comment> \<open>\<open>httpd_resp_set_status\<close>\<close>
  dr_type :: esp_err
  dr_header :: "string \<Rightarrow> esp_err"             \<comment> \<open>\<open>httpd_resp_set_hdr\<close> of the header of that name\<close>
  dr_send :: esp_err
  dr_close :: esp_err                          \<comment> \<open>\<open>httpd_sess_trigger_close\<close>\<close>

datatype redirect_effect = Status string | Media_type string | Header string string | Empty_body | Close

record redirect_state =
  rd_server :: bool                            \<comment> \<open>\<open>redirect_server != NULL\<close>\<close>
  rd_https_port :: u16

definition redirect_init :: redirect_state where
  "redirect_init = \<lparr>rd_server = False, rd_https_port = 0\<rparr>"

subsection \<open>Replies\<close>

definition reject_and_close :: "redirect_request \<Rightarrow> string \<Rightarrow> esp_err \<times> redirect_effect list" where
  "reject_and_close rq status =
     (let result = dr_status rq; fx = [Status status];
          (result, fx) = (if result = ESP_OK then (dr_header rq ''Connection'', fx @ [Header ''Connection'' ''close'']) else (result, fx))
      in (ESP_FAIL, if result = ESP_OK then fx @ [Empty_body] else fx))"

fun set_headers :: "redirect_request \<Rightarrow> (string \<times> string) list \<Rightarrow> esp_err \<times> redirect_effect list" where
  "set_headers rq [] = (ESP_OK, [])"
| "set_headers rq ((name, content) # headers) =
     (if dr_header rq name \<noteq> ESP_OK then (dr_header rq name, [Header name content])
      else let (result, fx) = set_headers rq headers in (result, Header name content # fx))"

definition redirect_headers :: "string \<Rightarrow> (string \<times> string) list" where
  "redirect_headers location = [(''Location'', location), (''Cache-Control'', ''no-store''), (''Referrer-Policy'', ''no-referrer''),
     (''X-Content-Type-Options'', ''nosniff'')]"

definition send_redirect :: "redirect_request \<Rightarrow> string \<Rightarrow> esp_err \<times> redirect_effect list" where
  "send_redirect rq location =
     (if dr_status rq \<noteq> ESP_OK then (dr_status rq, [Status ''302 Found''])
      else if dr_type rq \<noteq> ESP_OK then (dr_type rq, [Status ''302 Found'', Media_type ''text/plain; charset=utf-8''])
      else let (result, fx) = set_headers rq (redirect_headers location);
               fx = [Status ''302 Found'', Media_type ''text/plain; charset=utf-8''] @ fx
        in if result = ESP_OK then (dr_send rq, fx @ [Empty_body]) else (result, fx))"

text \<open>A request that may be redirected; otherwise the status of the refusal.\<close>

definition redirect_refusal :: "redirect_request \<Rightarrow> string option" where
  "redirect_refusal rq =
     (if dr_method rq \<noteq> HTTP_GET \<and> dr_method rq \<noteq> HTTP_HEAD then Some ''405 Method Not Allowed''
      else if dr_content_len rq \<noteq> 0 then Some ''400 Bad Request'' else None)"

definition dashboard_root_redirect_handler :: "redirect_request \<Rightarrow> esp_err \<times> redirect_effect list" where
  "dashboard_root_redirect_handler rq =
     (case redirect_refusal rq of Some status \<Rightarrow> reject_and_close rq status | None \<Rightarrow> send_redirect rq ''/'')"

subsection \<open>The address of the console\<close>

text \<open>The tests of the platform's IPv6 macros on the sixteen octets.\<close>

definition v4_mapped :: "u8 list \<Rightarrow> bool" where
  "v4_mapped a \<longleftrightarrow> take 12 a = replicate 10 0 @ [0xFF, 0xFF]"

definition unspecified :: "u8 list \<Rightarrow> bool" where
  "unspecified a \<longleftrightarrow> list_all (\<lambda>b. b = 0) a"

definition link_local :: "u8 list \<Rightarrow> bool" where
  "link_local a \<longleftrightarrow> a ! 0 = 0xFE \<and> a ! 1 AND 0xC0 = 0x80"

text \<open>The family, the octets and whether brackets are needed; \<open>ipv6\<close> is \<open>LWIP_IPV6\<close>.\<close>

definition console_address :: "bool \<Rightarrow> local_name \<Rightarrow> (address_family \<times> u8 list \<times> bool) option" where
  "console_address ipv6 n =
     (if ln_family n = AF_INET \<and> ln_length n \<ge> SOCKADDR_IN_BYTES then
        (if unspecified (ln_ipv4 n) then None else Some (AF_INET, ln_ipv4 n, False))
      else if ipv6 \<and> ln_family n = AF_INET6 \<and> ln_length n \<ge> SOCKADDR_IN6_BYTES then
        (if v4_mapped (ln_ipv6 n) then
           (let mapped = drop 12 (ln_ipv6 n) in
            if mapped ! 0 OR mapped ! 1 OR mapped ! 2 OR mapped ! 3 = 0 then None else Some (AF_INET, mapped, False))
         else if unspecified (ln_ipv6 n) \<or> link_local (ln_ipv6 n) then None
         else Some (AF_INET6, ln_ipv6 n, True))
      else None)"

definition port_suffix :: "u16 \<Rightarrow> string" where
  "port_suffix port = (if port \<noteq> 443 then CHR '':'' # fmt_u (unat port) else [])"

text \<open>\<open>ntop\<close> is \<open>inet_ntop\<close> into the array of 46 characters.\<close>

definition local_https_location ::
    "bool \<Rightarrow> (address_family \<Rightarrow> u8 list \<Rightarrow> string option) \<Rightarrow> u16 \<Rightarrow> local_name option \<Rightarrow> nat \<Rightarrow> string option" where
  "local_https_location ipv6 ntop port socket_name capacity =
     (case socket_name of None \<Rightarrow> None
      | Some n \<Rightarrow> (case console_address ipv6 n of None \<Rightarrow> None
        | Some (family, octets, brackets) \<Rightarrow> (case ntop family octets of None \<Rightarrow> None
          | Some address \<Rightarrow>
              let location = ''https://'' @ (if brackets then ''['' else []) @ address @ (if brackets then '']'' else []) @
                    port_suffix port @ ''/''
              in if length location < capacity then Some location else None)))"

definition plaintext_redirect_handler ::
    "bool \<Rightarrow> (address_family \<Rightarrow> u8 list \<Rightarrow> string option) \<Rightarrow> redirect_state \<Rightarrow> redirect_request \<Rightarrow> esp_err \<times> redirect_effect list" where
  "plaintext_redirect_handler ipv6 ntop s rq =
     (case redirect_refusal rq of
        Some status \<Rightarrow> reject_and_close rq status
      | None \<Rightarrow>
          let result = dr_header rq ''Connection''; fx = [Header ''Connection'' ''close''];
              (result, fx) =
                (if result \<noteq> ESP_OK then (result, fx)
                 else case local_https_location ipv6 ntop (rd_https_port s) (dr_local rq) LOCATION_BYTES of
                   None \<Rightarrow> if dr_status rq = ESP_OK then (dr_send rq, fx @ [Status ''503 Service Unavailable'', Empty_body])
                           else (dr_status rq, fx @ [Status ''503 Service Unavailable''])
                 | Some location \<Rightarrow> (let (r, fx2) = send_redirect rq location in (r, fx @ fx2)))
          in (if result = ESP_OK then dr_close rq else result, fx @ [Close]))"

subsection \<open>Start and stop\<close>

record redirect_env =
  re_start :: esp_err                          \<comment> \<open>\<open>httpd_start\<close>\<close>
  re_get :: esp_err                            \<comment> \<open>\<open>httpd_register_uri_handler\<close>\<close>
  re_head :: esp_err

text \<open>The flag is whether a server that had been started was stopped again.\<close>

definition dashboard_redirect_start :: "redirect_env \<Rightarrow> u16 \<Rightarrow> redirect_state \<Rightarrow> esp_err \<times> bool \<times> redirect_state" where
  "dashboard_redirect_start env https_port s =
     (if https_port = 0 \<or> https_port = 80 then (ESP_ERR_INVALID_ARG, False, s)
      else if rd_server s then (if rd_https_port s = https_port then ESP_OK else ESP_ERR_INVALID_STATE, False, s)
      else if re_start env \<noteq> ESP_OK then (re_start env, False, s)
      else let s = s\<lparr>rd_https_port := https_port\<rparr>;
               result = re_get env;
               result = (if result = ESP_OK then re_head env else result)
        in if result \<noteq> ESP_OK then (result, True, s\<lparr>rd_https_port := 0\<rparr>)
           else (ESP_OK, False, s\<lparr>rd_server := True\<rparr>))"

definition dashboard_redirect_stop :: "redirect_state \<Rightarrow> bool \<times> redirect_state" where
  "dashboard_redirect_stop s = (if rd_server s then (True, s\<lparr>rd_server := False, rd_https_port := 0\<rparr>) else (False, s))"

subsection \<open>What a redirect says\<close>

text \<open>The documented behaviour of \<open>inet_ntop\<close>: at most 45 characters, hexadecimal digits, dots and colons.\<close>

definition address_char :: "char \<Rightarrow> bool" where
  "address_char c \<longleftrightarrow> c \<in> set ''0123456789abcdefABCDEF.:''"

definition ntop_ok :: "(address_family \<Rightarrow> u8 list \<Rightarrow> string option) \<Rightarrow> bool" where
  "ntop_ok ntop \<longleftrightarrow> (\<forall>family octets s. ntop family octets = Some s \<longrightarrow> length s \<le> 45 \<and> list_all address_char s)"

definition url_char :: "char \<Rightarrow> bool" where
  "url_char c \<longleftrightarrow> address_char c \<or> c \<in> set ''https://[]''"

lemma digit_codes: "48 \<le> n \<and> n \<le> 57 \<longleftrightarrow> n \<in> {48 :: nat, 49, 50, 51, 52, 53, 54, 55, 56, 57}"
  unfolding insert_iff empty_iff by presburger

lemma port_suffix_ok: "length (port_suffix port) \<le> 6" "list_all url_char (port_suffix port)"
proof -
  have "unat port < 10 ^ Suc 4" using unat_lt_u16 [of port] by simp
  then have "length (fmt_u (unat port)) \<le> 5" using length_fmt_u_le [of "unat port" 4] by simp
  then show "length (port_suffix port) \<le> 6" by (simp add: port_suffix_def)
  have "url_char c" if digit: "is_digit c" for c
  proof -
    have "(of_char c :: nat) \<in> {48, 49, 50, 51, 52, 53, 54, 55, 56, 57}" using digit by (simp only: is_digit_def digit_codes)
    then have "c \<in> char_of ` {48 :: nat, 49, 50, 51, 52, 53, 54, 55, 56, 57}" by (metis char_of_char imageI)
    also have "char_of ` {48 :: nat, 49, 50, 51, 52, 53, 54, 55, 56, 57} = set ''0123456789''" by (simp add: char_of_def bit_0)
    also have "\<dots> \<subseteq> Collect url_char" by (simp add: url_char_def address_char_def)
    finally show ?thesis by simp
  qed
  then have "list_all url_char (fmt_u (unat port))" using digits_fmt_u [of "unat port"] by (auto elim: list.pred_mono_strong)
  moreover have "url_char CHR '':''" by (simp add: url_char_def address_char_def)
  ultimately show "list_all url_char (port_suffix port)" by (simp add: port_suffix_def)
qed

text \<open>Whatever fits the array for the address fits the array for the location.\<close>

lemma location_fits:
  assumes "ntop_ok ntop" "local_https_location ipv6 ntop port socket_name capacity = Some location"
  shows "length location \<le> 62" "list_all url_char location"
proof -
  obtain n family octets b address where l: "ntop family octets = Some address"
    "location = ''https://'' @ (if b then ''['' else []) @ address @ (if b then '']'' else []) @ port_suffix port @ ''/''"
    using assms(2) by (auto simp: local_https_location_def Let_def split: option.splits prod.splits if_splits)
  have a: "length address \<le> 45" "list_all address_char address" using assms(1) l(1) by (auto simp: ntop_ok_def)
  show "length location \<le> 62" using a(1) port_suffix_ok(1) [of port] by (simp add: l(2))
  have "list_all url_char address" using a(2) by (rule list.pred_mono_strong) (simp add: url_char_def)
  moreover have "list_all url_char ''https://''" "url_char CHR ''[''" "url_char CHR '']''" "url_char CHR ''/''"
    by (simp_all add: url_char_def)
  ultimately show "list_all url_char location" using port_suffix_ok(2) [of port] by (simp add: l(2))
qed

text \<open>The address of the console in full, with no bound on its length.\<close>

definition console_url :: "bool \<Rightarrow> (address_family \<Rightarrow> u8 list \<Rightarrow> string option) \<Rightarrow> u16 \<Rightarrow> local_name \<Rightarrow> string \<Rightarrow> bool" where
  "console_url ipv6 ntop port n url \<longleftrightarrow>
     (\<exists>family octets address. ntop family octets = Some address \<and>
        (console_address ipv6 n = Some (family, octets, False) \<and> url = ''https://'' @ address @ port_suffix port @ ''/'' \<or>
         console_address ipv6 n = Some (family, octets, True) \<and> url = ''https://['' @ address @ '']'' @ port_suffix port @ ''/''))"

lemma location_iff:
  assumes "ntop_ok ntop"
  shows "local_https_location ipv6 ntop port socket_name LOCATION_BYTES = Some url \<longleftrightarrow>
    (\<exists>n. socket_name = Some n \<and> console_url ipv6 ntop port n url)"
proof -
  have fits: "length (''https://'' @ (if b then ''['' else []) @ address @ (if b then '']'' else []) @ port_suffix port @ ''/'') < LOCATION_BYTES"
    if "ntop family octets = Some address" for family octets address b
  proof -
    have "length address \<le> 45" using assms that by (auto simp: ntop_ok_def)
    then show ?thesis using port_suffix_ok(1) [of port] by (simp add: LOCATION_BYTES_def)
  qed
  show ?thesis
  proof (cases socket_name)
    case (Some n)
    show ?thesis
    proof (cases "console_address ipv6 n")
      case a: (Some x)
      obtain family octets b where x: "x = (family, octets, b)" by (rule prod_cases3)
      show ?thesis
        using fits [of family octets _ b] by (cases "ntop family octets"; cases b)
          (auto simp: local_https_location_def console_url_def Some a x Let_def)
    qed (simp add: local_https_location_def console_url_def Some)
  qed (simp add: local_https_location_def)
qed

lemma set_headers_Location:
  "Header ''Location'' l \<in> set (snd (set_headers rq (redirect_headers url))) \<longleftrightarrow> l = url"
  by (auto simp: redirect_headers_def split: prod.split)

lemma send_redirect_Location:
  "Header ''Location'' l \<in> set (snd (send_redirect rq url)) \<longleftrightarrow> dr_status rq = ESP_OK \<and> dr_type rq = ESP_OK \<and> l = url"
  using set_headers_Location [of l rq url]
  by (cases "set_headers rq (redirect_headers url)") (auto simp: send_redirect_def Let_def)

lemma reject_no_Location: "Header ''Location'' l \<notin> set (snd (reject_and_close rq status))" "fst (reject_and_close rq status) = ESP_FAIL"
  by (auto simp: reject_and_close_def Let_def split: prod.splits if_splits)

lemma handler_Location:
  assumes "ntop_ok ntop"
  shows "Header ''Location'' url \<in> set (snd (plaintext_redirect_handler ipv6 ntop s rq)) \<longleftrightarrow>
    redirect_refusal rq = None \<and> dr_header rq ''Connection'' = ESP_OK \<and> dr_status rq = ESP_OK \<and> dr_type rq = ESP_OK \<and>
    (\<exists>n. dr_local rq = Some n \<and> console_url ipv6 ntop (rd_https_port s) n url)"
proof (cases "redirect_refusal rq")
  case (Some status)
  then show ?thesis by (simp add: plaintext_redirect_handler_def reject_no_Location)
next
  case None
  note loc = location_iff [OF assms, of ipv6 "rd_https_port s" "dr_local rq"]
  show ?thesis
  proof (cases "local_https_location ipv6 ntop (rd_https_port s) (dr_local rq) LOCATION_BYTES")
    case none: None
    then show ?thesis using loc None by (auto simp: plaintext_redirect_handler_def Let_def)
  next
    case (Some location)
    have "Header ''Location'' url \<in> set (snd (send_redirect rq location)) \<longleftrightarrow> dr_status rq = ESP_OK \<and> dr_type rq = ESP_OK \<and> url = location"
      by (rule send_redirect_Location)
    then show ?thesis using loc [of url] None Some
      by (cases "send_redirect rq location") (auto simp: plaintext_redirect_handler_def Let_def)
  qed
qed

text \<open>
  C15 (redirect_location_exact): a request on port 80 is redirected exactly when it is a GET or HEAD without a body that
  arrived at an address a client can use, and then to that very address and the port of the console, in brackets for
  IPv6. The location always fits its array, consists of the characters of an address and cannot carry a line break or anything of the request:
  neither the URI nor the Host header has any influence. A refused request is not drained.
\<close>

theorem redirect_location_exact:
  assumes "ntop_ok ntop" "plaintext_redirect_handler ipv6 ntop s rq = (r, fx)"
  shows "(Header ''Location'' url \<in> set fx \<longleftrightarrow>
      redirect_refusal rq = None \<and> dr_header rq ''Connection'' = ESP_OK \<and> dr_status rq = ESP_OK \<and> dr_type rq = ESP_OK \<and>
      (\<exists>n. dr_local rq = Some n \<and> console_url ipv6 ntop (rd_https_port s) n url)) \<and>
    (Header ''Location'' url \<notin> set fx \<or> length url < LOCATION_BYTES \<and> list_all url_char url) \<and>
    (redirect_refusal rq = None \<or> r = ESP_FAIL) \<and>
    plaintext_redirect_handler ipv6 ntop s (rq\<lparr>dr_uri := u, dr_host := h\<rparr>) = (r, fx)"
proof -
  note fx = handler_Location [OF assms(1), of url ipv6 s rq, unfolded assms(2) snd_conv]
  have a: "Header ''Location'' url \<in> set fx \<longleftrightarrow>
      redirect_refusal rq = None \<and> dr_header rq ''Connection'' = ESP_OK \<and> dr_status rq = ESP_OK \<and> dr_type rq = ESP_OK \<and>
      (\<exists>n. dr_local rq = Some n \<and> console_url ipv6 ntop (rd_https_port s) n url)" by (rule fx)
  have b: "Header ''Location'' url \<notin> set fx \<or> length url < LOCATION_BYTES \<and> list_all url_char url"
    using fx location_iff [OF assms(1), of ipv6 "rd_https_port s" "dr_local rq" url] location_fits [OF assms(1), of ipv6 _ _ _ url]
    by (force simp: LOCATION_BYTES_def)
  have c: "redirect_refusal rq = None \<or> r = ESP_FAIL"
  proof (cases "redirect_refusal rq")
    case (Some status)
    then have "fst (plaintext_redirect_handler ipv6 ntop s rq) = ESP_FAIL"
      by (simp add: plaintext_redirect_handler_def reject_no_Location)
    then show ?thesis using assms(2) by simp
  qed simp
  have h: "set_headers (rq\<lparr>dr_uri := u, dr_host := h\<rparr>) hs = set_headers rq hs" for hs
    by (induction hs) auto
  have "reject_and_close (rq\<lparr>dr_uri := u, dr_host := h\<rparr>) st = reject_and_close rq st"
    "send_redirect (rq\<lparr>dr_uri := u, dr_host := h\<rparr>) l = send_redirect rq l"
    "redirect_refusal (rq\<lparr>dr_uri := u, dr_host := h\<rparr>) = redirect_refusal rq" for st l
    by (simp_all add: reject_and_close_def send_redirect_def redirect_refusal_def h Let_def split: prod.split)
  note same = this
  have fields: "dr_header (rq\<lparr>dr_uri := u, dr_host := h\<rparr>) = dr_header rq" "dr_local (rq\<lparr>dr_uri := u, dr_host := h\<rparr>) = dr_local rq"
    "dr_status (rq\<lparr>dr_uri := u, dr_host := h\<rparr>) = dr_status rq" "dr_send (rq\<lparr>dr_uri := u, dr_host := h\<rparr>) = dr_send rq"
    "dr_close (rq\<lparr>dr_uri := u, dr_host := h\<rparr>) = dr_close rq" by simp_all
  have "plaintext_redirect_handler ipv6 ntop s (rq\<lparr>dr_uri := u, dr_host := h\<rparr>) = plaintext_redirect_handler ipv6 ntop s rq"
    unfolding plaintext_redirect_handler_def same fields by (rule refl)
  then have "plaintext_redirect_handler ipv6 ntop s (rq\<lparr>dr_uri := u, dr_host := h\<rparr>) = (r, fx)" using assms(2) by simp
  then show ?thesis using a b c by blast
qed

text \<open>The port is remembered exactly while the server runs.\<close>

definition redirect_consistent :: "redirect_state \<Rightarrow> bool" where
  "redirect_consistent s \<longleftrightarrow> (rd_server s \<longleftrightarrow> rd_https_port s \<noteq> 0) \<and> rd_https_port s \<noteq> 80"

lemma redirect_start_stop:
  "redirect_consistent redirect_init"
  "redirect_consistent s \<Longrightarrow> redirect_consistent (snd (snd (dashboard_redirect_start env port s)))"
  "redirect_consistent s \<Longrightarrow> redirect_consistent (snd (dashboard_redirect_stop s))"
  "redirect_consistent s \<Longrightarrow> fst (dashboard_redirect_start env port s) = ESP_OK \<Longrightarrow>
     rd_server (snd (snd (dashboard_redirect_start env port s))) \<and> rd_https_port (snd (snd (dashboard_redirect_start env port s))) = port"
  by (auto simp: redirect_consistent_def redirect_init_def dashboard_redirect_start_def dashboard_redirect_stop_def Let_def split: if_splits)

subsection \<open>A concrete redirect\<close>

definition demo_ntop :: "address_family \<Rightarrow> u8 list \<Rightarrow> string option" where
  "demo_ntop family octets = (if family = AF_INET \<and> octets = [192, 0, 2, 80] then Some ''192.0.2.80'' else None)"

definition demo_redirect :: redirect_request where
  "demo_redirect = \<lparr>dr_method = HTTP_GET, dr_uri = ''/x'', dr_host = Some ''evil'', dr_content_len = 0,
     dr_local = Some \<lparr>ln_family = AF_INET6, ln_length = 28, ln_ipv4 = [], ln_ipv6 = [0, 0, 0, 0, 0, 0, 0, 0, 0, 0, 0xFF, 0xFF, 192, 0, 2, 80]\<rparr>,
     dr_status = ESP_OK, dr_type = ESP_OK, dr_header = (\<lambda>_. ESP_OK), dr_send = ESP_OK, dr_close = ESP_OK\<rparr>"

theorem redirect_location_exact_witness:
  "Header ''Location'' ''https://192.0.2.80:8443/'' \<in>
     set (snd (plaintext_redirect_handler True demo_ntop \<lparr>rd_server = True, rd_https_port = 8443\<rparr> demo_redirect))"
proof -
  have n: "ntop_ok demo_ntop" by (simp add: ntop_ok_def demo_ntop_def address_char_def)
  have "replicate 10 (0 :: u8) = [0, 0, 0, 0, 0, 0, 0, 0, 0, 0]" by (simp add: numeral_eq_Suc)
  then have a: "console_address True (the (dr_local demo_redirect)) = Some (AF_INET, [192, 0, 2, 80], False)"
    by (simp add: demo_redirect_def console_address_def v4_mapped_def SOCKADDR_IN6_BYTES_def)
  have "fmt_u 8443 = ''8443''" by (simp add: fmt_u_def print_base.simps digit_char_def)
  then have "port_suffix 8443 = '':8443''" by (simp add: port_suffix_def)
  then have "console_url True demo_ntop 8443 (the (dr_local demo_redirect)) ''https://192.0.2.80:8443/''"
    using a by (force simp: console_url_def demo_ntop_def)
  then show ?thesis
    using redirect_location_exact [OF n prod.collapse [symmetric], of "''https://192.0.2.80:8443/''" True
        "\<lparr>rd_server = True, rd_https_port = 8443\<rparr>" demo_redirect]
    by (simp add: redirect_refusal_def) (simp add: demo_redirect_def)
qed

end
