(* ===== verification/Spec2Isabelle.thy ===== *)
theory Spec2Isabelle
  imports Modbus_Transport Gateway_Storage Gateway_Config Gateway_Poll Ota_Auth Error_History Custom_Poll Bip_Port Bacnet_Publish Bacnet_Recovery Ota_Safety Web_Safety Dashboard_Redirect
begin

text \<open>Skeleton.\<close>

end
